(* ===== verification/Prelude.thy ===== *)
theory Prelude
  imports Main "HOL-Library.Word" "HOL-Library.Multiset"
begin

text \<open>
  The vocabulary every component shares: the result codes of
  \<^verbatim>\<open>src/observer/rc.h\<close>, the shape of a fallible operation on a state, reads of
  a byte buffer, and the generic facts about lists that the component proofs use.

  A C++ member function that returns an \<^verbatim>\<open>RC\<close> and writes its result through an out
  parameter becomes a value of type \<^verbatim>\<open>('s, 'a) M\<close>: applied to the object state it
  gives \<^verbatim>\<open>Some (Inr a, s')\<close> when the function returns \<^verbatim>\<open>RC::SUCCESS\<close> with
  result \<^verbatim>\<open>a\<close>, \<^verbatim>\<open>Some (Inl rc, s')\<close> when it returns the error \<^verbatim>\<open>rc\<close>
  (with whatever it has changed so far kept in \<^verbatim>\<open>s'\<close>), and \<^verbatim>\<open>None\<close> when it does
  not return a defined value at all: the bound on a loop is exhausted, or the execution
  reads memory it does not own.
\<close>

section \<open>Result codes\<close>

text \<open>The enumerators of \<^verbatim>\<open>RC\<close> that the modelled code returns.\<close>

datatype RC =
    SUCCESS | GENERIC_ERROR | INVALID_ARGUMENT | SQL_SYNTAX | NOMEM | NOTFOUND
  | BUFFERPOOL_CLOSED | BUFFERPOOL_NOBUF | BUFFERPOOL_EXIST | BUFFERPOOL_OPEN
  | BUFFERPOOL_INVALID_PAGE_NUM | BUFFERPOOL_PAGE_PINNED
  | BUFFERPOOL_OPEN_TOO_MANY_FILES | BUFFERPOOL_ILLEGAL_FILE_ID
  | RECORD_CLOSED | RECORD_OPENNED | RECORD_INVALIDRID | RECORD_INVALIDRECSIZE | RECORD_NO_MORE_IDX_IN_MEM
  | RECORD_INVALID_KEY | RECORD_DUPLICATE_KEY | RECORD_NOMEM | RECORD_SCANCLOSED
  | RECORD_EOF | RECORD_RECORD_NOT_EXIST
  | SCHEMA_DB_EXIST | SCHEMA_TABLE_NOT_EXIST | SCHEMA_TABLE_EXIST | SCHEMA_TABLE_NAME_ILLEGAL
  | SCHEMA_FIELD_NOT_EXIST | SCHEMA_FIELD_MISSING | SCHEMA_FIELD_TYPE_MISMATCH
  | SCHEMA_FIELD_NAME_ILLEGAL | SCHEMA_INDEX_EXIST
  | IOERR | IOERR_READ | IOERR_WRITE | IOERR_ACCESS | IOERR_CLOSE | IOERR_SEEK | LOCKED_UNLOCK

section \<open>Fallible operations on a state\<close>

type_synonym ('s, 'a) M = "'s \<Rightarrow> ((RC + 'a) \<times> 's) option"

definition ret :: "'a \<Rightarrow> ('s, 'a) M" where
  "ret a = (\<lambda>s. Some (Inr a, s))"

definition fail :: "RC \<Rightarrow> ('s, 'a) M" where
  "fail rc = (\<lambda>s. Some (Inl rc, s))"

definition undef :: "('s, 'a) M" where
  "undef = (\<lambda>s. None)"

text \<open>Sequencing with the early return \<^verbatim>\<open>if (rc != SUCCESS) return rc;\<close>.\<close>

definition bindE :: "('s, 'a) M \<Rightarrow> ('a \<Rightarrow> ('s, 'b) M) \<Rightarrow> ('s, 'b) M" where
  "bindE m f = (\<lambda>s. case m s of
      None \<Rightarrow> None
    | Some (Inl rc, s') \<Rightarrow> Some (Inl rc, s')
    | Some (Inr a, s') \<Rightarrow> f a s')"

text \<open>Running an operation and inspecting its result code instead of returning it.\<close>

definition attempt :: "('s, 'a) M \<Rightarrow> (RC + 'a \<Rightarrow> ('s, 'b) M) \<Rightarrow> ('s, 'b) M" where
  "attempt m f = (\<lambda>s. case m s of None \<Rightarrow> None | Some (r, s') \<Rightarrow> f r s')"

definition gets :: "('s \<Rightarrow> 'a) \<Rightarrow> ('s, 'a) M" where
  "gets f = (\<lambda>s. Some (Inr (f s), s))"

definition modify :: "('s \<Rightarrow> 's) \<Rightarrow> ('s, unit) M" where
  "modify f = (\<lambda>s. Some (Inr (), f s))"

definition lift_opt :: "'a option \<Rightarrow> ('s, 'a) M" where
  "lift_opt x = (case x of None \<Rightarrow> undef | Some a \<Rightarrow> ret a)"

named_theorems run "symbolic execution of fallible operations"

lemma ret_run [run]: "ret a s = Some (Inr a, s)"
  by (simp add: ret_def)

lemma fail_run [run]: "fail rc s = Some (Inl rc, s)"
  by (simp add: fail_def)

lemma undef_run [run]: "undef s = None"
  by (simp add: undef_def)

lemma gets_run [run]: "gets f s = Some (Inr (f s), s)"
  by (simp add: gets_def)

lemma modify_run [run]: "modify f s = Some (Inr (), f s)"
  by (simp add: modify_def)

lemma lift_opt_run [run]: "lift_opt (Some a) = ret a" "lift_opt None = undef"
  by (simp_all add: lift_opt_def)

lemma bindE_ok [run]: "m s = Some (Inr a, s') \<Longrightarrow> bindE m f s = f a s'"
  by (simp add: bindE_def)

lemma bindE_err [run]: "m s = Some (Inl rc, s') \<Longrightarrow> bindE m f s = Some (Inl rc, s')"
  by (simp add: bindE_def)

lemma bindE_None [run]: "m s = None \<Longrightarrow> bindE m f s = None"
  by (simp add: bindE_def)

lemma attempt_run [run]: "m s = Some (r, s') \<Longrightarrow> attempt m f s = f r s'"
  by (simp add: attempt_def)

lemma bindE_SomeE:
  assumes "bindE m f s = Some (r, s')"
  obtains (err) rc where "m s = Some (Inl rc, s')" "r = Inl rc"
    | (ok) a t where "m s = Some (Inr a, t)" "f a t = Some (r, s')"
  using assms by (auto simp: bindE_def split: option.splits prod.splits sum.splits)

text \<open>The result code a caller sees.\<close>

fun rc_of :: "RC + 'a \<Rightarrow> RC" where
  "rc_of (Inl rc) = rc"
| "rc_of (Inr a) = SUCCESS"

text \<open>An invariant of the state that an operation keeps, whatever its result.\<close>

definition preserves :: "('s \<Rightarrow> bool) \<Rightarrow> ('s, 'a) M \<Rightarrow> bool" where
  "preserves I m \<longleftrightarrow> (\<forall>s r s'. I s \<longrightarrow> m s = Some (r, s') \<longrightarrow> I s')"

named_theorems preserves_intros "operations that keep an invariant"

lemma preservesI: "(\<And>s r s'. I s \<Longrightarrow> m s = Some (r, s') \<Longrightarrow> I s') \<Longrightarrow> preserves I m"
  by (simp add: preserves_def)

lemma preservesD: "preserves I m \<Longrightarrow> I s \<Longrightarrow> m s = Some (r, s') \<Longrightarrow> I s'"
  by (simp add: preserves_def)

lemma preserves_ret [preserves_intros]: "preserves I (ret a)"
  by (rule preservesI) (simp add: ret_def)

lemma preserves_fail [preserves_intros]: "preserves I (fail rc)"
  by (rule preservesI) (simp add: fail_def)

lemma preserves_undef [preserves_intros]: "preserves I undef"
  by (rule preservesI) (simp add: undef_def)

lemma preserves_gets [preserves_intros]: "preserves I (gets f)"
  by (rule preservesI) (simp add: gets_def)

lemma preserves_lift_opt [preserves_intros]: "preserves I (lift_opt x)"
  by (cases x) (simp_all add: lift_opt_def preserves_ret preserves_undef)

lemma preserves_bindE [preserves_intros]:
  assumes "preserves I m" "\<And>a. preserves I (f a)"
  shows "preserves I (bindE m f)"
proof (rule preservesI)
  fix s r s' assume I: "I s" and "bindE m f s = Some (r, s')"
  from this(2) show "I s'"
  proof (cases rule: bindE_SomeE)
    case (err rc)
    then show ?thesis using preservesD [OF assms(1) I] by blast
  next
    case (ok a t)
    then show ?thesis using preservesD [OF assms(1) I] preservesD [OF assms(2)] by blast
  qed
qed

lemma preserves_attempt [preserves_intros]:
  assumes "preserves I m" "\<And>r. preserves I (f r)"
  shows "preserves I (attempt m f)"
proof (rule preservesI)
  fix s r s' assume I: "I s" and "attempt m f s = Some (r, s')"
  then obtain r0 t where "m s = Some (r0, t)" "f r0 t = Some (r, s')"
    by (auto simp: attempt_def split: option.splits)
  then show "I s'" using preservesD [OF assms(1) I] preservesD [OF assms(2)] by blast
qed

lemma preserves_if [preserves_intros]:
  "preserves I a \<Longrightarrow> preserves I b \<Longrightarrow> preserves I (if c then a else b)"
  by simp

section \<open>Bytes and machine integers\<close>

type_synonym byte = "8 word"

text \<open>A read of a buffer; outside the buffer there is no defined value.\<close>

definition byte_at :: "'a list \<Rightarrow> nat \<Rightarrow> 'a option" where
  "byte_at mem i = (if i < length mem then Some (mem ! i) else None)"

lemma byte_at_Some [simp]: "i < length mem \<Longrightarrow> byte_at mem i = Some (mem ! i)"
  by (simp add: byte_at_def)

lemma byte_at_None [simp]: "length mem \<le> i \<Longrightarrow> byte_at mem i = None"
  by (simp add: byte_at_def)

text \<open>\<^verbatim>\<open>int\<close> arithmetic of the C++ code: two's complement, 32 bits.\<close>

definition wrap32 :: "int \<Rightarrow> int" where
  "wrap32 x = sint (word_of_int x :: 32 word)"

definition in_int :: "int \<Rightarrow> bool" where
  "in_int x \<longleftrightarrow> - (2 ^ 31) \<le> x \<and> x < 2 ^ 31"

lemma wrap32_id [simp]: "in_int x \<Longrightarrow> wrap32 x = x"
  by (simp add: wrap32_def in_int_def signed_of_int signed_take_bit_int_eq_self)

section \<open>Searching a list\<close>

lemma find_append: "find P (xs @ ys) = (case find P xs of None \<Rightarrow> find P ys | Some x \<Rightarrow> Some x)"
  by (induction xs) auto

lemma find_SomeD: "find P xs = Some x \<Longrightarrow> x \<in> set xs \<and> P x"
  by (induction xs) (auto split: if_splits)

lemma find_split:
  "find P xs = Some x \<Longrightarrow> \<exists>us vs. xs = us @ x # vs \<and> (\<forall>u \<in> set us. \<not> P u)"
proof (induction xs)
  case (Cons y ys)
  show ?case
  proof (cases "P y")
    case True
    then show ?thesis using Cons.prems by (intro exI [of _ "[]"] exI [of _ ys]) auto
  next
    case False
    then obtain us vs where "ys = us @ x # vs" "\<forall>u \<in> set us. \<not> P u" using Cons by auto
    then show ?thesis using False by (intro exI [of _ "y # us"] exI [of _ vs]) auto
  qed
qed simp

section \<open>Overwriting a segment of a list\<close>

text \<open>\<^verbatim>\<open>memcpy(dst + off, src, n)\<close> on a buffer modelled as a list.\<close>

definition overwrite :: "'a list \<Rightarrow> nat \<Rightarrow> 'a list \<Rightarrow> 'a list" where
  "overwrite xs off ys = take off xs @ ys @ drop (off + length ys) xs"

definition segment :: "'a list \<Rightarrow> nat \<Rightarrow> nat \<Rightarrow> 'a list" where
  "segment xs off n = take n (drop off xs)"

lemma length_overwrite [simp]:
  "off + length ys \<le> length xs \<Longrightarrow> length (overwrite xs off ys) = length xs"
  by (simp add: overwrite_def)

lemma length_segment [simp]: "off + n \<le> length xs \<Longrightarrow> length (segment xs off n) = n"
  by (simp add: segment_def)

lemma segment_overwrite_same [simp]:
  "off + length ys \<le> length xs \<Longrightarrow> segment (overwrite xs off ys) off (length ys) = ys"
  by (simp add: segment_def overwrite_def)

lemma nth_overwrite:
  assumes "off + length ys \<le> length xs" "i < length xs"
  shows "overwrite xs off ys ! i =
    (if off \<le> i \<and> i < off + length ys then ys ! (i - off) else xs ! i)"
  using assms by (auto simp: overwrite_def nth_append min_def)

lemma segment_overwrite_disjoint:
  assumes "off + length ys \<le> length xs" "p + n \<le> length xs"
    and "p + n \<le> off \<or> off + length ys \<le> p"
  shows "segment (overwrite xs off ys) p n = segment xs p n"
proof (rule nth_equalityI)
  show "length (segment (overwrite xs off ys) p n) = length (segment xs p n)"
    using assms by simp
next
  fix i assume "i < length (segment (overwrite xs off ys) p n)"
  then have "i < n" using assms by simp
  then show "segment (overwrite xs off ys) p n ! i = segment xs p n ! i"
    using assms by (auto simp: segment_def nth_overwrite)
qed

end
