(* ===== verification/Bitmap.thy ===== *)
theory Bitmap
  imports Prelude
begin

text \<open>
  The bitmap of \<^verbatim>\<open>deps/common/lang/bitmap.cpp\<close>: a view of a byte buffer in which bit
  \<^verbatim>\<open>i\<close> is bit \<^verbatim>\<open>i % 8\<close> of byte \<^verbatim>\<open>i / 8\<close>. The buffer pool keeps the
  allocated pages of a file in one, the record manager the used slots of a page. The operations
  work on the bytes from \<^verbatim>\<open>bitmap_\<close> to the end of the page that holds them, because
  the two search loops also look at the byte behind the bitmap. A negative index has no defined
  result (it shifts by a negative count).
\<close>

unbundle bit_operations_syntax

section \<open>Bits within a byte\<close>

function find_first_zero :: "byte \<Rightarrow> nat \<Rightarrow> int" where
  "find_first_zero byte i =
    (if i < 8 then if byte AND push_bit i 1 = 0 then int i else find_first_zero byte (Suc i)
     else - 1)"
  by pat_completeness auto
termination by (relation "measure (\<lambda>(byte, i). 8 - i)") auto

function find_first_setted :: "byte \<Rightarrow> nat \<Rightarrow> int" where
  "find_first_setted byte i =
    (if i < 8 then if byte AND push_bit i 1 \<noteq> 0 then int i else find_first_setted byte (Suc i)
     else - 1)"
  by pat_completeness auto
termination by (relation "measure (\<lambda>(byte, i). 8 - i)") auto

declare find_first_zero.simps [simp del] find_first_setted.simps [simp del]

section \<open>Operations on the bitmap\<close>

definition bitmap_get_bit :: "byte list \<Rightarrow> int \<Rightarrow> bool option" where
  "bitmap_get_bit mem index = (if index < 0 then None else
     map_option (\<lambda>bits. bits AND push_bit (nat index mod 8) 1 \<noteq> 0) (byte_at mem (nat index div 8)))"

definition bitmap_set_bit :: "byte list \<Rightarrow> int \<Rightarrow> byte list option" where
  "bitmap_set_bit mem index = (if index < 0 then None else
     map_option (\<lambda>bits. mem[nat index div 8 := bits OR push_bit (nat index mod 8) 1])
       (byte_at mem (nat index div 8)))"

definition bitmap_clear_bit :: "byte list \<Rightarrow> int \<Rightarrow> byte list option" where
  "bitmap_clear_bit mem index = (if index < 0 then None else
     map_option (\<lambda>bits. mem[nat index div 8 := bits AND NOT (push_bit (nat index mod 8) 1)])
       (byte_at mem (nat index div 8)))"

text \<open>
  The two search loops. \<^verbatim>\<open>start_in_byte\<close> is reset only after a byte that was looked
  into, not after one that was skipped as a whole, and the last byte visited is byte
  \<^verbatim>\<open>end\<close>, one behind the bitmap.
\<close>

function unsetted_loop :: "byte list \<Rightarrow> nat \<Rightarrow> nat \<Rightarrow> nat \<Rightarrow> int option" where
  "unsetted_loop mem e iter start_in_byte =
    (if e < iter then Some (- 1)
     else case byte_at mem iter of
       None \<Rightarrow> None
     | Some byte \<Rightarrow>
         if byte \<noteq> - 1 then
           (let index_in_byte = find_first_zero byte start_in_byte in
            if index_in_byte \<ge> 0 then Some (int iter * 8 + index_in_byte)
            else unsetted_loop mem e (Suc iter) 0)
         else unsetted_loop mem e (Suc iter) start_in_byte)"
  by pat_completeness auto
termination by (relation "measure (\<lambda>(mem, e, iter, sib). Suc e - iter)") auto

function setted_loop :: "byte list \<Rightarrow> nat \<Rightarrow> nat \<Rightarrow> nat \<Rightarrow> int option" where
  "setted_loop mem e iter start_in_byte =
    (if e < iter then Some (- 1)
     else case byte_at mem iter of
       None \<Rightarrow> None
     | Some byte \<Rightarrow>
         if byte \<noteq> 0 then
           (let index_in_byte = find_first_setted byte start_in_byte in
            if index_in_byte \<ge> 0 then Some (int iter * 8 + index_in_byte)
            else setted_loop mem e (Suc iter) 0)
         else setted_loop mem e (Suc iter) start_in_byte)"
  by pat_completeness auto
termination by (relation "measure (\<lambda>(mem, e, iter, sib). Suc e - iter)") auto

declare unsetted_loop.simps [simp del] setted_loop.simps [simp del]

definition bitmap_end :: "int \<Rightarrow> nat" where
  "bitmap_end sz = nat (if sz mod 8 = 0 then sz div 8 else sz div 8 + 1)"

definition clamp_index :: "int \<Rightarrow> int \<Rightarrow> int" where
  "clamp_index sz r = (if r \<ge> sz then - 1 else r)"

definition next_unsetted_bit :: "byte list \<Rightarrow> int \<Rightarrow> int \<Rightarrow> int option" where
  "next_unsetted_bit mem sz start = (if start < 0 then None else
     map_option (clamp_index sz)
       (unsetted_loop mem (bitmap_end sz) (nat start div 8) (nat start mod 8)))"

definition next_setted_bit :: "byte list \<Rightarrow> int \<Rightarrow> int \<Rightarrow> int option" where
  "next_setted_bit mem sz start = (if start < 0 then None else
     map_option (clamp_index sz)
       (setted_loop mem (bitmap_end sz) (nat start div 8) (nat start mod 8)))"

section \<open>Reference definitions\<close>

text \<open>Bit \<^verbatim>\<open>i\<close> of the buffer, and the first index of a range with a property.\<close>

definition bit_at :: "byte list \<Rightarrow> nat \<Rightarrow> bool" where
  "bit_at mem i = bit (mem ! (i div 8)) (i mod 8)"

definition first_such :: "(nat \<Rightarrow> bool) \<Rightarrow> nat \<Rightarrow> nat \<Rightarrow> int" where
  "first_such P a b = (case find P [a..<b] of None \<Rightarrow> - 1 | Some i \<Rightarrow> int i)"

text \<open>What an array of bits promises its clients.\<close>

locale bit_array =
  fixes get :: "'b \<Rightarrow> nat \<Rightarrow> bool"
    and put :: "'b \<Rightarrow> nat \<Rightarrow> bool \<Rightarrow> 'b"
    and size_of :: "'b \<Rightarrow> nat"
  assumes get_put_same: "i < size_of b \<Longrightarrow> get (put b i v) i = v"
    and get_put_other: "i < size_of b \<Longrightarrow> j \<noteq> i \<Longrightarrow> get (put b i v) j = get b j"
    and size_put: "size_of (put b i v) = size_of b"
begin

definition used :: "'b \<Rightarrow> nat \<Rightarrow> nat" where
  "used b n = card {i. i < n \<and> get b i}"

lemma used_put_set:
  assumes "i < size_of b" "i < n" "\<not> get b i"
  shows "used (put b i True) n = Suc (used b n)"
proof -
  have "{j. j < n \<and> get (put b i True) j} = insert i {j. j < n \<and> get b j}"
    using assms get_put_same get_put_other by (auto simp: set_eq_iff) metis+
  then show ?thesis using assms by (simp add: used_def)
qed

lemma used_put_clear:
  assumes "i < size_of b" "i < n" "get b i"
  shows "Suc (used (put b i False) n) = used b n"
proof -
  have "{j. j < n \<and> get b j} = insert i {j. j < n \<and> get (put b i False) j}"
    using assms get_put_same get_put_other by (auto simp: set_eq_iff) metis+
  moreover have "i \<notin> {j. j < n \<and> get (put b i False) j}"
    using assms get_put_same by simp
  ultimately show ?thesis by (simp add: used_def)
qed

lemma used_le: "used b n \<le> n"
proof -
  have "used b n \<le> card {i. i < n}" unfolding used_def by (rule card_mono) auto
  then show ?thesis by simp
qed

lemma used_full_iff: "used b n = n \<longleftrightarrow> (\<forall>i<n. get b i)"
proof
  assume "used b n = n"
  then have "{i. i < n \<and> get b i} = {i. i < n}"
    unfolding used_def by (intro card_subset_eq) auto
  then show "\<forall>i<n. get b i" by blast
next
  assume "\<forall>i<n. get b i"
  then have "{i. i < n \<and> get b i} = {i. i < n}" by blast
  then show "used b n = n" by (simp add: used_def)
qed

lemma used_zero_iff: "used b n = 0 \<longleftrightarrow> (\<forall>i<n. \<not> get b i)"
  by (auto simp: used_def)

end

definition bit_put :: "byte list \<Rightarrow> nat \<Rightarrow> bool \<Rightarrow> byte list" where
  "bit_put mem i v = the ((if v then bitmap_set_bit else bitmap_clear_bit) mem (int i))"

section \<open>Bits and bytes\<close>

lemma find_first_zero_NOT: "find_first_zero b i = find_first_setted (NOT b) i"
  by (induction b i rule: find_first_zero.induct)
    (subst find_first_zero.simps, subst find_first_setted.simps,
      simp add: and_exp_eq_0_iff_not_bit bit_simps)

lemma first_such_empty [simp]: "b \<le> a \<Longrightarrow> first_such P a b = - 1"
  by (simp add: first_such_def)

lemma first_such_step:
  "a < b \<Longrightarrow> first_such P a b = (if P a then int a else first_such P (Suc a) b)"
  by (simp add: first_such_def upt_conv_Cons)

lemma find_None_upt: "find P [a..<b] = None \<longleftrightarrow> (\<forall>i. a \<le> i \<and> i < b \<longrightarrow> \<not> P i)"
  by (auto simp: find_None_iff)

lemma find_Some_upt:
  assumes "find P [a..<b] = Some i"
  shows "a \<le> i \<and> i < b \<and> P i"
  using assms by (auto simp: find_Some_iff)

lemma first_such_cases:
  obtains (none) "first_such P a b = - 1" "\<forall>i. a \<le> i \<and> i < b \<longrightarrow> \<not> P i"
  | (some) k where "first_such P a b = int k" "a \<le> k" "k < b" "P k"
      "\<forall>i. a \<le> i \<and> i < k \<longrightarrow> \<not> P i"
proof (cases "find P [a..<b]")
  case None
  then show ?thesis using none by (simp add: first_such_def find_None_upt [THEN iffD1])
next
  case (Some k)
  then obtain j where j: "j < length [a..<b]" "P ([a..<b] ! j)" "k = [a..<b] ! j"
      "\<forall>l<j. \<not> P ([a..<b] ! l)" by (auto simp: find_Some_iff)
  have "\<not> P i" if "a \<le> i" "i < k" for i
    using j that spec [OF j(4), of "i - a"] by simp
  then show ?thesis using some Some find_Some_upt [OF Some] by (simp add: first_such_def)
qed

lemma first_such_split:
  "a \<le> b \<Longrightarrow> b \<le> c \<Longrightarrow>
   first_such P a c = (if first_such P a b \<ge> 0 then first_such P a b else first_such P b c)"
  using upt_add_eq_append [of a b "c - b"]
  by (simp add: first_such_def find_append split: option.splits)

lemma first_such_cong:
  "(\<And>i. a \<le> i \<Longrightarrow> i < b \<Longrightarrow> P i = Q i) \<Longrightarrow> first_such P a b = first_such Q a b"
  unfolding first_such_def by (rule arg_cong [where f = "case_option _ _"]) (rule find_cong, auto)

lemma first_such_clamp:
  assumes "n \<le> m"
  shows "clamp_index (int n) (first_such P a m) = first_such P a n"
proof (cases "a \<le> n")
  case True
  then show ?thesis
    using assms first_such_split [of a n m P]
    by (cases rule: first_such_cases [of P a n]; cases rule: first_such_cases [of P n m])
      (auto simp: clamp_index_def)
next
  case False
  then show ?thesis by (cases rule: first_such_cases [of P a m]) (auto simp: clamp_index_def)
qed

lemma find_first_setted_spec:
  "start \<le> 8 \<Longrightarrow> find_first_setted b start = first_such (bit b) start 8"
  by (induction b start rule: find_first_setted.induct)
    (subst find_first_setted.simps, auto simp: and_exp_eq_0_iff_not_bit first_such_step)

section \<open>The search loops meet the reference definition\<close>

lemma NOT_eq_0_iff: "NOT b = 0 \<longleftrightarrow> b = - 1" for b :: byte
  by (metis bit.double_compl bit.compl_zero)

lemma unsetted_loop_NOT:
  "unsetted_loop mem e iter sib = setted_loop (map (\<lambda>b. NOT b) mem) e iter sib"
proof (induction "Suc e - iter" arbitrary: iter sib)
  case 0
  then show ?case by (subst unsetted_loop.simps, subst setted_loop.simps) simp
next
  case (Suc n)
  have "unsetted_loop mem e (Suc iter) k = setted_loop (map (\<lambda>b. NOT b) mem) e (Suc iter) k" for k
    by (rule Suc.hyps(1)) (use Suc.hyps(2) in simp)
  then show ?case
    by (subst unsetted_loop.simps, subst setted_loop.simps)
      (simp add: find_first_zero_NOT NOT_eq_0_iff Let_def byte_at_def)
qed

lemma first_such_byte:
  assumes "sib \<le> 8"
  shows "first_such (bit_at mem) (iter * 8 + sib) (iter * 8 + 8) =
    (let k = first_such (bit (mem ! iter)) sib 8 in if k \<ge> 0 then int iter * 8 + k else - 1)"
  using assms
proof (induction "8 - sib" arbitrary: sib)
  case (Suc n)
  have lt: "sib < 8" using Suc.hyps(2) by simp
  have "first_such (bit_at mem) (iter * 8 + Suc sib) (iter * 8 + 8) =
    (let k = first_such (bit (mem ! iter)) (Suc sib) 8 in if k \<ge> 0 then int iter * 8 + k else - 1)"
    by (rule Suc.hyps(1)) (use Suc.hyps(2) in auto)
  with lt show ?case by (simp add: first_such_step bit_at_def)
qed simp

lemma setted_loop_spec:
  assumes "e < length mem" "iter \<le> Suc e" "sib < 8" "sib = 0 \<or> iter \<le> e \<and> mem ! iter \<noteq> 0"
  shows "setted_loop mem e iter sib = Some (first_such (bit_at mem) (iter * 8 + sib) (Suc e * 8))"
  using assms(2-)
proof (induction "Suc e - iter" arbitrary: iter sib)
  case 0
  then have "sib = 0" "iter = Suc e" by auto
  then show ?case by (subst setted_loop.simps) simp
next
  case (Suc n)
  let ?k = "first_such (bit (mem ! iter)) sib 8"
  have le: "iter \<le> e" using Suc.hyps(2) by simp
  have ih: "setted_loop mem e (Suc iter) 0 =
      Some (first_such (bit_at mem) (Suc iter * 8) (Suc e * 8))"
    using Suc.hyps(1) [of "Suc iter" 0] Suc.hyps(2) le by simp
  have split: "first_such (bit_at mem) (iter * 8 + sib) (Suc e * 8) =
      (if ?k \<ge> 0 then int iter * 8 + ?k else first_such (bit_at mem) (Suc iter * 8) (Suc e * 8))"
    using first_such_split [of "iter * 8 + sib" "iter * 8 + 8" "Suc e * 8" "bit_at mem"]
      first_such_byte [of sib mem iter] le Suc.prems(2) by (simp add: Let_def add.commute)
  show ?case
  proof (cases "mem ! iter = 0")
    case True
    then have "sib = 0" "?k = - 1"
      using Suc.prems(3) by (auto intro: first_such_cases [of "bit (mem ! iter)" sib 8])
    then show ?thesis
      using True le split ih assms(1) by (subst setted_loop.simps) simp
  next
    case False
    then show ?thesis
      using le split ih assms(1) Suc.prems(2)
      by (subst setted_loop.simps) (simp add: find_first_setted_spec Let_def)
  qed
qed

text \<open>The bitmap lies within the page and the page goes on behind it.\<close>

definition in_page :: "byte list \<Rightarrow> int \<Rightarrow> bool" where
  "in_page mem sz \<longleftrightarrow> 0 \<le> sz \<and> bitmap_end sz < length mem"

lemma bitmap_end_ge: "0 \<le> sz \<Longrightarrow> sz \<le> int (bitmap_end sz) * 8"
  by (auto simp: bitmap_end_def)

lemma next_setted_bit_eq:
  assumes "in_page mem sz" "0 \<le> start" "start \<le> sz"
    and "start mod 8 = 0 \<or> mem ! (nat start div 8) \<noteq> 0"
  shows "next_setted_bit mem sz start = Some (first_such (bit_at mem) (nat start) (nat sz))"
proof -
  have le: "start \<le> int (bitmap_end sz) * 8" using assms bitmap_end_ge [of sz] by (simp add: in_page_def)
  have "nat start div 8 \<le> bitmap_end sz" using le by simp
  moreover have "nat start mod 8 = nat (start mod 8)" using assms by (simp add: nat_mod_distrib)
  then have "nat start mod 8 = 0 \<or> mem ! (nat start div 8) \<noteq> 0"
    using assms(4) by (metis nat_0)
  ultimately have "setted_loop mem (bitmap_end sz) (nat start div 8) (nat start mod 8) =
      Some (first_such (bit_at mem) (nat start) (Suc (bitmap_end sz) * 8))"
    using assms setted_loop_spec [of "bitmap_end sz" mem "nat start div 8" "nat start mod 8"]
    by (simp add: in_page_def)
  moreover have "nat sz \<le> Suc (bitmap_end sz) * 8"
    using bitmap_end_ge [of sz] assms by (simp add: in_page_def)
  ultimately show ?thesis
    using assms first_such_clamp [of "nat sz" "Suc (bitmap_end sz) * 8" "bit_at mem" "nat start"]
    by (simp add: next_setted_bit_def in_page_def)
qed

lemma next_unsetted_bit_NOT:
  "next_unsetted_bit mem sz start = next_setted_bit (map (\<lambda>b. NOT b) mem) sz start"
  by (simp add: next_unsetted_bit_def next_setted_bit_def unsetted_loop_NOT)

lemma bit_at_NOT: "i div 8 < length mem \<Longrightarrow> bit_at (map (\<lambda>b. NOT b) mem) i = (\<not> bit_at mem i)"
  by (simp add: bit_at_def bit_simps)

lemma in_page_index: "in_page mem sz \<Longrightarrow> i \<le> nat sz \<Longrightarrow> i div 8 < length mem"
  using bitmap_end_ge [of sz] by (simp add: in_page_def) linarith

lemma next_unsetted_bit_eq:
  assumes "in_page mem sz" "0 \<le> start" "start \<le> sz"
    and "start mod 8 = 0 \<or> mem ! (nat start div 8) \<noteq> - 1"
  shows "next_unsetted_bit mem sz start = Some (first_such (\<lambda>i. \<not> bit_at mem i) (nat start) (nat sz))"
proof -
  have "first_such (bit_at (map (\<lambda>b. NOT b) mem)) (nat start) (nat sz) =
      first_such (\<lambda>i. \<not> bit_at mem i) (nat start) (nat sz)"
    by (rule first_such_cong) (use assms in \<open>simp add: bit_at_NOT in_page_index\<close>)
  then show ?thesis
    using assms in_page_index [OF assms(1), of "nat start"] next_setted_bit_eq [of "map (\<lambda>b. NOT b) mem" sz start]
    by (simp add: next_unsetted_bit_NOT in_page_def NOT_eq_0_iff)
qed

section \<open>The bitmap is an array of bits\<close>

lemma bitmap_get_bit_run:
  "0 \<le> i \<Longrightarrow> i < 8 * int (length mem) \<Longrightarrow> bitmap_get_bit mem i = Some (bit_at mem (nat i))"
  by (simp add: bitmap_get_bit_def bit_at_def and_exp_eq_0_iff_not_bit nat_less_iff)

lemma bitmap_set_bit_run:
  "0 \<le> i \<Longrightarrow> i < 8 * int (length mem) \<Longrightarrow> bitmap_set_bit mem i = Some (bit_put mem (nat i) True)"
  by (simp add: bitmap_set_bit_def bit_put_def nat_less_iff)

lemma bitmap_clear_bit_run:
  "0 \<le> i \<Longrightarrow> i < 8 * int (length mem) \<Longrightarrow> bitmap_clear_bit mem i = Some (bit_put mem (nat i) False)"
  by (simp add: bitmap_clear_bit_def bit_put_def nat_less_iff)

lemma bit_put_eq:
  "i < 8 * length mem \<Longrightarrow> bit_put mem i v =
    mem[i div 8 := if v then mem ! (i div 8) OR push_bit (i mod 8) 1
                   else mem ! (i div 8) AND NOT (push_bit (i mod 8) 1)]"
  by (simp add: bit_put_def bitmap_set_bit_def bitmap_clear_bit_def)

lemma length_bit_put [simp]: "i < 8 * length mem \<Longrightarrow> length (bit_put mem i v) = length mem"
  by (simp add: bit_put_eq)

lemma bit_at_bit_put:
  assumes "i < 8 * length mem"
  shows "bit_at (bit_put mem i v) j = (if j = i then v else bit_at mem j)"
proof -
  have "j = i \<longleftrightarrow> j div 8 = i div 8 \<and> j mod 8 = i mod 8" by (metis div_mult_mod_eq)
  then show ?thesis
    using assms by (auto simp: bit_at_def bit_put_eq nth_list_update bit_simps)
qed

lemma nth_bit_put_other: "i < 8 * length mem \<Longrightarrow> j \<noteq> i div 8 \<Longrightarrow> bit_put mem i v ! j = mem ! j"
  by (simp add: bit_put_eq)

lemma bit_put_same: "i < 8 * length mem \<Longrightarrow> bit_at mem i \<Longrightarrow> bit_put mem i True = mem"
proof -
  assume i: "i < 8 * length mem" "bit_at mem i"
  then have "mem ! (i div 8) OR push_bit (i mod 8) 1 = mem ! (i div 8)"
    by (intro bit_eqI) (auto simp: bit_simps bit_at_def)
  then show ?thesis using i by (simp add: bit_put_eq)
qed

interpretation bm: bit_array bit_at "\<lambda>mem i v. if i < 8 * length mem then bit_put mem i v else mem"
  "\<lambda>mem. 8 * length mem"
  by unfold_locales (auto simp: bit_at_bit_put)

section \<open>Properties\<close>

text \<open>C23. \<^verbatim>\<open>next_unsetted_bit(0)\<close>, the call that looks for a free slot, returns the
  least index below the size whose bit is clear, and -1 exactly when every bit is set; the byte it
  reads behind the bitmap has no influence on the result.\<close>

theorem next_unsetted_bit_least:
  assumes "in_page mem sz"
  shows "\<exists>r. next_unsetted_bit mem sz 0 = Some r \<and>
    (r = - 1 \<and> (\<forall>i < nat sz. bit_at mem i) \<or>
     0 \<le> r \<and> r < sz \<and> \<not> bit_at mem (nat r) \<and> (\<forall>i < nat r. bit_at mem i))"
proof -
  have "next_unsetted_bit mem sz 0 = Some (first_such (\<lambda>i. \<not> bit_at mem i) 0 (nat sz))"
    using next_unsetted_bit_eq [of mem sz 0] assms by (simp add: in_page_def)
  then show ?thesis
    by (cases rule: first_such_cases [of "\<lambda>i. \<not> bit_at mem i" 0 "nat sz"]) auto
qed

theorem next_unsetted_bit_least_witness:
  "in_page [255, 1, 0] 16 \<and> next_unsetted_bit [255, 1, 0] 16 0 = Some 9"
proof -
  have p: "in_page [255, 1, 0] 16" by (simp add: in_page_def bitmap_end_def)
  obtain r where "next_unsetted_bit [255, 1, 0] 16 0 = Some r" using next_unsetted_bit_least [OF p] by blast
  moreover have "next_unsetted_bit [255, 1, 0] 16 0 = Some 9" by code_simp
  ultimately show ?thesis using p by simp
qed

text \<open>C24. \<^verbatim>\<open>next_setted_bit\<close> returns the first set bit at or after \<^verbatim>\<open>start\<close>,
  provided the search starts on a byte boundary or in a byte that is not zero. This is how a page
  is scanned: the search continues behind a slot that is in use.\<close>

theorem next_setted_bit_first:
  assumes "in_page mem sz" "0 \<le> start" "start \<le> sz"
    and "start mod 8 = 0 \<or> mem ! (nat start div 8) \<noteq> 0"
  shows "\<exists>r. next_setted_bit mem sz start = Some r \<and>
    (r = - 1 \<and> (\<forall>i. nat start \<le> i \<and> i < nat sz \<longrightarrow> \<not> bit_at mem i) \<or>
     start \<le> r \<and> r < sz \<and> bit_at mem (nat r) \<and> (\<forall>i. nat start \<le> i \<and> i < nat r \<longrightarrow> \<not> bit_at mem i))"
  using next_setted_bit_eq [OF assms] assms(2,3)
  by (cases rule: first_such_cases [of "bit_at mem" "nat start" "nat sz"]) auto

theorem next_setted_bit_first_witness:
  "\<exists>r. next_setted_bit [2, 0, 4, 0] 24 2 = Some r \<and> (r = 18 \<or> r = - 1)"
proof -
  have "\<exists>r. next_setted_bit [2, 0, 4, 0] 24 2 = Some r \<and>
    (r = - 1 \<and> (\<forall>i. nat 2 \<le> i \<and> i < nat 24 \<longrightarrow> \<not> bit_at [2, 0, 4, 0] i) \<or>
     2 \<le> r \<and> r < 24 \<and> bit_at [2, 0, 4, 0] (nat r) \<and> (\<forall>i. nat 2 \<le> i \<and> i < nat r \<longrightarrow> \<not> bit_at [2, 0, 4, 0] i))"
    by (rule next_setted_bit_first) (simp_all add: in_page_def bitmap_end_def)
  moreover have "next_setted_bit [2, 0, 4, 0] 24 2 = Some 18" by code_simp
  ultimately show ?thesis by simp
qed

text \<open>Without that proviso a set bit is missed: after a zero byte the search goes on in the
  next byte at the bit position it started with. In the bytes 0, 1 only bit 8 is set, and the search
  from 1 does not find it.\<close>

theorem next_setted_bit_skips:
  "next_setted_bit [0, 1, 0] 16 1 = Some (- 1) \<and> bit_at [0, 1, 0] 8"
proof
  show "next_setted_bit [0, 1, 0] 16 1 = Some (- 1)" by code_simp
  show "bit_at [0, 1, 0] 8" by (simp add: bit_at_def)
qed

end
