(* ===== verification/Page_Pool.thy ===== *)
theory Page_Pool
  imports Prelude
begin

text \<open>
  The interface between the buffer pool and its clients, the record manager and the B+ tree.
  The clients reach the pool through the methods of \<^verbatim>\<open>DiskBufferPool\<close>, here a record
  of operations on a pool state \<^verbatim>\<open>'s\<close>; the locale \<^verbatim>\<open>page_pool\<close> states what
  they may rely on for one open file. \<^verbatim>\<open>Disk_Buffer_Pool\<close> interprets it on the pool's own
  definitions.
\<close>

record BPPageHandle =
  is_open :: bool
  frame :: nat

record ('s, 'd) pool_ops =
  op_get_this_page :: "int \<Rightarrow> int \<Rightarrow> ('s, BPPageHandle) M"
  op_allocate_page :: "int \<Rightarrow> ('s, BPPageHandle) M"
  op_get_page_num :: "BPPageHandle \<Rightarrow> ('s, int) M"
  op_get_data :: "BPPageHandle \<Rightarrow> ('s, 'd) M"
  op_peek_num :: "BPPageHandle \<Rightarrow> ('s, int) M"
  op_peek_data :: "BPPageHandle \<Rightarrow> ('s, 'd) M"
  op_put_data :: "BPPageHandle \<Rightarrow> 'd \<Rightarrow> ('s, unit) M"
  op_mark_dirty :: "BPPageHandle \<Rightarrow> ('s, unit) M"
  op_unpin_page :: "BPPageHandle \<Rightarrow> ('s, BPPageHandle) M"
  op_dispose_page :: "int \<Rightarrow> int \<Rightarrow> ('s, unit) M"
  op_get_page_count :: "int \<Rightarrow> ('s, int) M"
  op_flush_all_pages :: "int \<Rightarrow> ('s, unit) M"
  op_create_file :: "string \<Rightarrow> ('s, unit) M"
  op_open_file :: "string \<Rightarrow> ('s, int) M"
  op_close_file :: "int \<Rightarrow> ('s, unit) M"

text \<open>
  For the file \<^verbatim>\<open>fid\<close>: \<^verbatim>\<open>view\<close> is the content of its allocated pages,
  \<^verbatim>\<open>pins\<close> how often each is pinned, \<^verbatim>\<open>held\<close> says that a handle is open on
  a page, \<^verbatim>\<open>stable\<close> that a page may be dropped from memory without losing a change
  (it is marked dirty or equal to the disk), \<^verbatim>\<open>cap\<close> is the number of pages of the
  file that can be pinned at the same time, and \<^verbatim>\<open>count\<close> is the page count in the header of the
  file, which can grow to \<^verbatim>\<open>limit\<close>. What the pages hold satisfies
  \<^verbatim>\<open>good\<close>, which the client chooses.
\<close>

locale page_pool =
  fixes ops :: "('s, 'd) pool_ops"
    and fid :: int
    and ok :: "'s \<Rightarrow> bool"
    and view :: "'s \<Rightarrow> int \<Rightarrow> 'd option"
    and pins :: "'s \<Rightarrow> int \<Rightarrow> nat"
    and held :: "'s \<Rightarrow> BPPageHandle \<Rightarrow> int \<Rightarrow> bool"
    and stable :: "'s \<Rightarrow> int \<Rightarrow> bool"
    and cap :: "'s \<Rightarrow> nat"
    and count :: "'s \<Rightarrow> int"
    and limit :: int
    and good :: "'d \<Rightarrow> bool"
  assumes get_ok: "ok s \<Longrightarrow> view s p = Some d \<Longrightarrow> 0 < pins s p \<or> card {q. 0 < pins s q} < cap s \<Longrightarrow>
      pins s p < 2 ^ 32 - 1 \<Longrightarrow>
      \<exists>h s'. op_get_this_page ops fid p s = Some (Inr h, s') \<and> ok s' \<and> view s' = view s \<and>
        pins s' = (pins s)(p := Suc (pins s p)) \<and> held s' h p \<and> cap s' = cap s \<and> count s' = count s \<and>
        (\<forall>h' q. held s h' q \<longrightarrow> held s' h' q) \<and> (\<forall>q. stable s q \<longrightarrow> stable s' q)"
    and get_invalid: "ok s \<Longrightarrow> 0 < p \<Longrightarrow> view s p = None \<Longrightarrow>
      op_get_this_page ops fid p s = Some (Inl BUFFERPOOL_INVALID_PAGE_NUM, s)"
    and num_ok: "ok s \<Longrightarrow> held s h p \<Longrightarrow> op_get_page_num ops h s = Some (Inr p, s)"
    and data_ok: "ok s \<Longrightarrow> held s h p \<Longrightarrow> view s p = Some d \<Longrightarrow> op_get_data ops h s = Some (Inr d, s)"
    and peek_ok: "ok s \<Longrightarrow> held s h p \<Longrightarrow>
      op_peek_num ops h s = op_get_page_num ops h s \<and> op_peek_data ops h s = op_get_data ops h s"
    and put_ok: "ok s \<Longrightarrow> held s h p \<Longrightarrow> view s p \<noteq> None \<Longrightarrow> good d \<Longrightarrow>
      \<exists>s'. op_put_data ops h d s = Some (Inr (), s') \<and> ok s' \<and> view s' = (view s)(p \<mapsto> d) \<and>
        pins s' = pins s \<and> cap s' = cap s \<and> count s' = count s \<and> held s' = held s \<and>
        (\<forall>q. q \<noteq> p \<longrightarrow> stable s q \<longrightarrow> stable s' q)"
    and dirty_ok: "ok s \<Longrightarrow> held s h p \<Longrightarrow>
      \<exists>s'. op_mark_dirty ops h s = Some (Inr (), s') \<and> ok s' \<and> view s' = view s \<and>
        pins s' = pins s \<and> cap s' = cap s \<and> count s' = count s \<and> held s' = held s \<and>
        stable s' p \<and> (\<forall>q. stable s q \<longrightarrow> stable s' q)"
    and unpin_ok: "ok s \<Longrightarrow> held s h p \<Longrightarrow> stable s p \<Longrightarrow>
      \<exists>s'. op_unpin_page ops h s = Some (Inr (h\<lparr>is_open := False\<rparr>), s') \<and> ok s' \<and> view s' = view s \<and>
        pins s' = (pins s)(p := pins s p - 1) \<and> cap s' = cap s \<and> count s' = count s \<and>
        (\<forall>h' q. held s h' q \<longrightarrow> q \<noteq> p \<or> 1 < pins s p \<longrightarrow> held s' h' q) \<and>
        (\<forall>q. stable s q \<longrightarrow> stable s' q) \<and> op_peek_num ops (h\<lparr>is_open := False\<rparr>) s' = Some (Inr p, s')"
    and alloc_ok: "ok s \<Longrightarrow> count s < limit \<Longrightarrow> card {q. 0 < pins s q} < cap s \<Longrightarrow>
      \<exists>h p d s'. op_allocate_page ops fid s = Some (Inr h, s') \<and> ok s' \<and> 0 < p \<and> view s p = None \<and>
        pins s p = 0 \<and> view s' = (view s)(p \<mapsto> d) \<and> pins s' = (pins s)(p := 1) \<and> held s' h p \<and>
        cap s' = cap s \<and>
        p \<le> count s \<and> count s' = max (count s) (p + 1) \<and>
        (\<forall>h' q. held s h' q \<longrightarrow> held s' h' q) \<and> (\<forall>q. stable s q \<longrightarrow> stable s' q)"
    and count_ok: "ok s \<Longrightarrow> op_get_page_count ops fid s = Some (Inr (count s), s)"
    and view_range: "ok s \<Longrightarrow> view s p \<noteq> None \<Longrightarrow> 0 < p \<and> p < count s"
    and view_good: "ok s \<Longrightarrow> view s p = Some d \<Longrightarrow> good d"
    and stable_unpinned: "ok s \<Longrightarrow> pins s q = 0 \<Longrightarrow> stable s q"
    and held_pins: "ok s \<Longrightarrow> held s h p \<Longrightarrow> 0 < pins s p \<and> is_open h \<and> view s p \<noteq> None"
    and finite_pins: "ok s \<Longrightarrow> finite {q. 0 < pins s q}"
begin

end

end
