(* ===== verification/Disk_Buffer_Pool.thy ===== *)
theory Disk_Buffer_Pool
  imports Bitmap Page_Pool
begin

text \<open>
  The buffer pool of \<^verbatim>\<open>storage/default/bp_manager.cpp\<close> and
  \<^verbatim>\<open>storage/default/disk_buffer_pool.cpp\<close>. One record holds the fields of the two
  classes: \<^verbatim>\<open>frames\<close>, \<^verbatim>\<open>frame_list\<close> (the LRU list from
  \<^verbatim>\<open>frame_list.next\<close> to \<^verbatim>\<open>frame_list.prev\<close>, as frame indices) and
  \<^verbatim>\<open>list_map\<close> of \<^verbatim>\<open>BPManager\<close>, \<^verbatim>\<open>open_list\<close> of
  \<^verbatim>\<open>DiskBufferPool\<close>, and the operating system the pool talks to. A
  \<^verbatim>\<open>Frame *\<close> is an index into \<^verbatim>\<open>frames\<close>.

  The data area of a page is typed by what its owner casts it to: the header page of a file is a
  \<^verbatim>\<open>BPFileSubHeader\<close> and a bitmap, every other page a value of the type parameter
  \<^verbatim>\<open>'d\<close>. Reading a page at the wrong type has no defined result.
  \<^verbatim>\<open>acc_time\<close> is written once and never read, so it is left out, as is logging.
\<close>

section \<open>Pages, frames and files\<close>

definition MAX_OPEN_FILE :: int where "MAX_OPEN_FILE = 1024"

definition BP_PAGE_SIZE :: nat where "BP_PAGE_SIZE = 4096"

definition BP_PAGE_DATA_SIZE :: nat where "BP_PAGE_DATA_SIZE = BP_PAGE_SIZE - 4"

definition BP_FILE_SUB_HDR_SIZE :: nat where "BP_FILE_SUB_HDR_SIZE = 8"

record BPFileSubHeader =
  page_count :: int
  allocated_pages :: int

datatype 'd page_data = HdrData BPFileSubHeader "byte list" | Payload 'd

record 'd Page =
  page_num :: int
  data :: "'d page_data"

text \<open>A \<^verbatim>\<open>Frame\<close> together with the \<^verbatim>\<open>allocated\<close> flag of the
  \<^verbatim>\<open>LRUFrame\<close> around it.\<close>

record 'd Frame =
  dirty :: bool
  pin_count :: "32 word"
  file_desc :: int
  page :: "'d Page"
  allocated :: bool

record BPFileHandle =
  bopen :: bool
  file_name :: string
  fh_file_desc :: int
  hdr_frame :: nat

text \<open>
  The operating system: the files as sequences of pages, the open descriptors with their
  position (in pages), the descriptor \<^verbatim>\<open>open\<close> would return given those in use
  (negative when it fails), and which calls fail. It is the environment of the pool, so
  \<^verbatim>\<open>pick_fd\<close> and \<^verbatim>\<open>sys_fail\<close> are parameters of the state.
\<close>

datatype syscall = SysOpen string | SysLseek int int | SysRead int | SysWrite int | SysClose int

record 'd os_state =
  files :: "string \<Rightarrow> 'd Page list option"
  fds :: "int \<Rightarrow> (string \<times> int) option"
  pick_fd :: "(int \<Rightarrow> bool) \<Rightarrow> int"
  sys_fail :: "syscall \<Rightarrow> bool"

record 'd pool =
  frames :: "'d Frame list"
  frame_list :: "nat list"
  list_map :: "64 word \<Rightarrow> nat option"
  open_list :: "int \<Rightarrow> BPFileHandle option"
  os :: "'d os_state"
  zero_data :: 'd

abbreviation frame_of :: "'d pool \<Rightarrow> nat \<Rightarrow> 'd Frame" where
  "frame_of s i \<equiv> frames s ! i"

definition zero_page :: "'d pool \<Rightarrow> 'd Page" where
  "zero_page s = \<lparr>page_num = 0, data = Payload (zero_data s)\<rparr>"

section \<open>The operating system calls the pool makes\<close>

definition os_open :: "string \<Rightarrow> 'd os_state \<Rightarrow> int \<times> 'd os_state" where
  "os_open name w =
    (let fd = pick_fd w (\<lambda>d. fds w d \<noteq> None) in
     if files w name = None \<or> sys_fail w (SysOpen name) \<or> fd < 0 then (- 1, w)
     else (fd, w\<lparr>fds := (fds w)(fd \<mapsto> (name, 0))\<rparr>))"

definition os_create :: "string \<Rightarrow> 'd os_state \<Rightarrow> int \<times> 'd os_state" where
  "os_create name w =
    (if files w name \<noteq> None then (- 1, w)
     else let (fd, w') = os_open name (w\<lparr>files := (files w)(name \<mapsto> [])\<rparr>)
          in if fd < 0 then (- 1, w) else (fd, w'))"

definition os_close :: "int \<Rightarrow> 'd os_state \<Rightarrow> int \<times> 'd os_state" where
  "os_close fd w = (if fds w fd = None \<or> sys_fail w (SysClose fd) then (- 1, w)
     else (0, w\<lparr>fds := (fds w)(fd := None)\<rparr>))"

definition os_lseek :: "int \<Rightarrow> int \<Rightarrow> 'd os_state \<Rightarrow> int \<times> 'd os_state" where
  "os_lseek fd pg w = (case fds w fd of
      None \<Rightarrow> (- 1, w)
    | Some (name, pos) \<Rightarrow>
        if pg < 0 \<or> sys_fail w (SysLseek fd pg) then (- 1, w)
        else (pg * int BP_PAGE_SIZE, w\<lparr>fds := (fds w)(fd \<mapsto> (name, pg))\<rparr>))"

definition file_put :: "'p \<Rightarrow> 'p list \<Rightarrow> nat \<Rightarrow> 'p \<Rightarrow> 'p list" where
  "file_put hole xs pos pg = (if pos < length xs then xs[pos := pg]
     else xs @ replicate (pos - length xs) hole @ [pg])"

definition os_write :: "'d Page \<Rightarrow> int \<Rightarrow> 'd Page \<Rightarrow> 'd os_state \<Rightarrow> bool \<times> 'd os_state" where
  "os_write hole fd pg w = (case fds w fd of
      None \<Rightarrow> (False, w)
    | Some (name, pos) \<Rightarrow>
        (case files w name of
           None \<Rightarrow> (False, w)
         | Some xs \<Rightarrow>
             if sys_fail w (SysWrite fd) then (False, w)
             else (True, w\<lparr>files := (files w)(name \<mapsto> file_put hole xs (nat pos) pg),
                          fds := (fds w)(fd \<mapsto> (name, pos + 1))\<rparr>)))"

definition os_read :: "int \<Rightarrow> 'd os_state \<Rightarrow> 'd Page option \<times> 'd os_state" where
  "os_read fd w = (case fds w fd of
      None \<Rightarrow> (None, w)
    | Some (name, pos) \<Rightarrow>
        (case files w name of
           None \<Rightarrow> (None, w)
         | Some xs \<Rightarrow>
             if sys_fail w (SysRead fd) \<or> int (length xs) \<le> pos then (None, w)
             else (Some (xs ! nat pos), w\<lparr>fds := (fds w)(fd \<mapsto> (name, pos + 1))\<rparr>)))"

section \<open>Frames\<close>

definition upd_frame :: "nat \<Rightarrow> ('d Frame \<Rightarrow> 'd Frame) \<Rightarrow> 'd pool \<Rightarrow> 'd pool" where
  "upd_frame i f s = s\<lparr>frames := (frames s)[i := f (frames s ! i)]\<rparr>"

text \<open>Following a \<^verbatim>\<open>Frame *\<close>.\<close>

definition deref :: "nat \<Rightarrow> ('d pool, 'd Frame) M" where
  "deref i = (\<lambda>s. if i < length (frames s) then Some (Inr (frames s ! i), s) else None)"

definition modify_frame :: "nat \<Rightarrow> ('d Frame \<Rightarrow> 'd Frame) \<Rightarrow> ('d pool, unit) M" where
  "modify_frame i f = (\<lambda>s. if i < length (frames s) then Some (Inr (), upd_frame i f s) else None)"

definition flush_block :: "nat \<Rightarrow> ('d pool, unit) M" where
  "flush_block i = bindE (deref i) (\<lambda>f s.
     let (off, w) = os_lseek (file_desc f) (page_num (page f)) (os s) in
     if off = page_num (page f) * int BP_PAGE_SIZE - 1 then Some (Inl IOERR_SEEK, s\<lparr>os := w\<rparr>)
     else let (ok, w') = os_write (zero_page s) (file_desc f) (page f) w in
       if \<not> ok then Some (Inl IOERR_WRITE, s\<lparr>os := w'\<rparr>)
       else Some (Inr (), upd_frame i (dirty_update (\<lambda>_. False)) (s\<lparr>os := w'\<rparr>)))"

section \<open>BPManager\<close>

definition bp_key :: "int \<Rightarrow> int \<Rightarrow> 64 word" where
  "bp_key fd pn = push_bit 32 (word_of_int fd) + word_of_int pn"

text \<open>The constructor. The memory of the frames is not initialised: \<^verbatim>\<open>junk\<close> is what
  \<^verbatim>\<open>new LRUFrame[size]\<close> finds there.\<close>

definition BPManager_new :: "'d Frame list \<Rightarrow> 'd os_state \<Rightarrow> 'd \<Rightarrow> 'd pool" where
  "BPManager_new junk w z =
    \<lparr>frames = map (allocated_update (\<lambda>_. False)) junk, frame_list = [0..<length junk],
     list_map = (\<lambda>_. None), open_list = (\<lambda>_. None), os = w, zero_data = z\<rparr>"

definition lru_update :: "nat \<Rightarrow> 'd pool \<Rightarrow> 'd pool" where
  "lru_update i s = s\<lparr>frame_list := i # remove1 i (frame_list s)\<rparr>"

definition find_unallocated :: "'d pool \<Rightarrow> nat option" where
  "find_unallocated s = find (\<lambda>i. \<not> allocated (frames s ! i)) [0..<length (frames s)]"

definition bpm_find :: "int \<Rightarrow> int \<Rightarrow> 'd pool \<Rightarrow> nat option" where
  "bpm_find fd pn s = list_map s (bp_key fd pn)"

definition bpm_get :: "int \<Rightarrow> int \<Rightarrow> 'd pool \<Rightarrow> nat option \<times> 'd pool" where
  "bpm_get fd pn s = (case bpm_find fd pn s of
      Some i \<Rightarrow> (Some i, lru_update i s)
    | None \<Rightarrow> (None, s))"

text \<open>\<^verbatim>\<open>nullptr\<close> becomes \<^verbatim>\<open>None\<close> in the result of \<^verbatim>\<open>evict\<close>
  and \<^verbatim>\<open>alloc\<close>.\<close>

definition evict :: "('d pool, nat option) M" where
  "evict s = (case find (\<lambda>i. pin_count (frames s ! i) = 0) (rev (frame_list s)) of
      None \<Rightarrow> Some (Inr None, s)
    | Some i \<Rightarrow>
        let f = frames s ! i;
            s1 = s\<lparr>list_map := (list_map s)(bp_key (file_desc f) (page_num (page f)) := None)\<rparr>
        in if dirty f
           then attempt (flush_block i) (\<lambda>r. ret (case r of Inl _ \<Rightarrow> None | Inr _ \<Rightarrow> Some i)) s1
           else Some (Inr (Some i), s1))"

definition alloc_finish :: "int \<Rightarrow> int \<Rightarrow> nat \<Rightarrow> 'd pool \<Rightarrow> 'd pool" where
  "alloc_finish fd pn i s =
    (let s1 = upd_frame i (\<lambda>f. f\<lparr>dirty := False, file_desc := fd\<rparr>) s;
         s2 = s1\<lparr>list_map := (list_map s1)(bp_key fd pn \<mapsto> i)\<rparr>
     in lru_update i s2)"

definition alloc :: "int \<Rightarrow> int \<Rightarrow> ('d pool, nat option) M" where
  "alloc fd pn s = (case find_unallocated s of
      Some i \<Rightarrow> Some (Inr (Some i), alloc_finish fd pn i (upd_frame i (allocated_update (\<lambda>_. True)) s))
    | None \<Rightarrow> bindE evict (\<lambda>r. case r of
          None \<Rightarrow> ret None
        | Some i \<Rightarrow> bindE (modify (alloc_finish fd pn i)) (\<lambda>_. ret (Some i))) s)"

definition dispose_block :: "nat \<Rightarrow> ('d pool, unit) M" where
  "dispose_block i = bindE (deref i) (\<lambda>f.
     if pin_count f \<noteq> 0 then fail LOCKED_UNLOCK
     else bindE (if dirty f then flush_block i else ret ())
       (\<lambda>_. modify_frame i (\<lambda>f. f\<lparr>dirty := False, allocated := False\<rparr>)))"

definition bpm_dispose_page :: "int \<Rightarrow> int \<Rightarrow> ('d pool, unit) M" where
  "bpm_dispose_page fd pn s = (case bpm_find fd pn s of
      None \<Rightarrow> Some (Inr (), s)
    | Some i \<Rightarrow> bindE (deref i) (\<lambda>f.
        if pin_count f \<noteq> 0 then fail BUFFERPOOL_PAGE_PINNED
        else modify_frame i (allocated_update (\<lambda>_. False))) s)"

fun force_loop :: "int \<Rightarrow> nat list \<Rightarrow> ('d pool, unit) M" where
  "force_loop fd [] = ret ()"
| "force_loop fd (i # is) = bindE (deref i) (\<lambda>f.
     if \<not> allocated f \<or> file_desc f \<noteq> fd then force_loop fd is
     else bindE (if dirty f then flush_block i else ret ())
       (\<lambda>_. bindE (modify_frame i (allocated_update (\<lambda>_. False))) (\<lambda>_. force_loop fd is)))"

definition force_all_pages :: "int \<Rightarrow> ('d pool, unit) M" where
  "force_all_pages fd = (\<lambda>s. force_loop fd [0..<length (frames s)] s)"

section \<open>DiskBufferPool\<close>

text \<open>The header page of an open file, reached through \<^verbatim>\<open>file_sub_header\<close> and
  \<^verbatim>\<open>bitmap\<close>, which point into the header frame.\<close>

definition hdr_get :: "BPFileHandle \<Rightarrow> ('d pool, BPFileSubHeader \<times> byte list) M" where
  "hdr_get fh = bindE (deref (hdr_frame fh)) (\<lambda>f. case data (page f) of
      HdrData h bm \<Rightarrow> ret (h, bm)
    | Payload d \<Rightarrow> undef)"

definition hdr_set :: "BPFileHandle \<Rightarrow> BPFileSubHeader \<Rightarrow> byte list \<Rightarrow> ('d pool, unit) M" where
  "hdr_set fh h bm = modify_frame (hdr_frame fh) (page_update (data_update (\<lambda>_. HdrData h bm)))"

definition check_file_id :: "int \<Rightarrow> ('d pool, BPFileHandle) M" where
  "check_file_id file_id = (\<lambda>s.
     if file_id < 0 \<or> file_id \<ge> MAX_OPEN_FILE then Some (Inl BUFFERPOOL_ILLEGAL_FILE_ID, s)
     else case open_list s file_id of
       None \<Rightarrow> Some (Inl BUFFERPOOL_ILLEGAL_FILE_ID, s)
     | Some fh \<Rightarrow> Some (Inr fh, s))"

definition check_page_num :: "int \<Rightarrow> BPFileHandle \<Rightarrow> ('d pool, unit) M" where
  "check_page_num pn fh = bindE (hdr_get fh) (\<lambda>(h, bm).
     if pn \<ge> page_count h then fail BUFFERPOOL_INVALID_PAGE_NUM
     else bindE (lift_opt (bitmap_get_bit bm pn)) (\<lambda>b.
       if \<not> b then fail BUFFERPOOL_INVALID_PAGE_NUM else ret ()))"

definition load_page :: "int \<Rightarrow> BPFileHandle \<Rightarrow> nat \<Rightarrow> ('d pool, unit) M" where
  "load_page pn fh i = (\<lambda>s.
     let (off, w) = os_lseek (fh_file_desc fh) pn (os s) in
     if off = - 1 then Some (Inl IOERR_SEEK, s\<lparr>os := w\<rparr>)
     else case os_read (fh_file_desc fh) w of
       (None, w') \<Rightarrow> Some (Inl IOERR_READ, s\<lparr>os := w'\<rparr>)
     | (Some pg, w') \<Rightarrow> modify_frame i (page_update (\<lambda>_. pg)) (s\<lparr>os := w'\<rparr>))"

definition allocate_block :: "int \<Rightarrow> int \<Rightarrow> ('d pool, nat) M" where
  "allocate_block fd pn = bindE (alloc fd pn) (\<lambda>r. case r of
      Some i \<Rightarrow> ret i
    | None \<Rightarrow> fail GENERIC_ERROR)"

definition init_header_page :: "'d Page" where
  "init_header_page = \<lparr>page_num = 0,
     data = HdrData \<lparr>page_count = 1, allocated_pages = 1\<rparr>
       (1 # replicate (BP_PAGE_DATA_SIZE - BP_FILE_SUB_HDR_SIZE - 1) 0)\<rparr>"

definition create_file :: "string \<Rightarrow> ('d pool, unit) M" where
  "create_file name = (\<lambda>s.
     let (fd0, w0) = os_create name (os s) in
     if fd0 < 0 then Some (Inl SCHEMA_DB_EXIST, s\<lparr>os := w0\<rparr>)
     else let w1 = snd (os_close fd0 w0); (fd, w2) = os_open name w1 in
     if fd < 0 then Some (Inl IOERR_ACCESS, s\<lparr>os := w2\<rparr>)
     else let (off, w3) = os_lseek fd 0 w2 in
     if off = - 1 then Some (Inl IOERR_SEEK, s\<lparr>os := snd (os_close fd w3)\<rparr>)
     else let (ok, w4) = os_write (zero_page s) fd init_header_page w3 in
     if \<not> ok then Some (Inl IOERR_WRITE, s\<lparr>os := snd (os_close fd w4)\<rparr>)
     else Some (Inr (), s\<lparr>os := snd (os_close fd w4)\<rparr>))"

text \<open>The second half of \<^verbatim>\<open>open_file\<close>, once a free slot and a descriptor are found.\<close>

definition open_header :: "int \<Rightarrow> string \<Rightarrow> int \<Rightarrow> ('d pool, int) M" where
  "open_header slot name fd = attempt (allocate_block fd 0) (\<lambda>r. case r of
      Inl rc \<Rightarrow> bindE (modify (os_update (\<lambda>w. snd (os_close fd w)))) (\<lambda>_. fail rc)
    | Inr i \<Rightarrow>
        let fh = \<lparr>bopen = True, file_name = name, fh_file_desc = fd, hdr_frame = i\<rparr> in
        bindE (modify_frame i (\<lambda>f. f\<lparr>dirty := False, file_desc := fd, pin_count := 1\<rparr>)) (\<lambda>_.
        attempt (load_page 0 fh i) (\<lambda>r. case r of
            Inl rc \<Rightarrow>
              bindE (modify_frame i (pin_count_update (\<lambda>_. 0))) (\<lambda>_.
              attempt (dispose_block i) (\<lambda>_.
              bindE (modify (os_update (\<lambda>w. snd (os_close fd w)))) (\<lambda>_. fail rc)))
          | Inr _ \<Rightarrow>
              bindE (modify (open_list_update (\<lambda>l. l(slot \<mapsto> fh)))) (\<lambda>_. ret slot))))"

definition open_file :: "string \<Rightarrow> ('d pool, int) M" where
  "open_file name = (\<lambda>s.
     case find (\<lambda>i. case open_list s i of None \<Rightarrow> False | Some fh \<Rightarrow> file_name fh = name)
            [0..MAX_OPEN_FILE - 1] of
       Some i \<Rightarrow> Some (Inr i, s)
     | None \<Rightarrow>
         (case find (\<lambda>i. open_list s i = None) [0..MAX_OPEN_FILE - 1] of
            None \<Rightarrow> Some (Inl BUFFERPOOL_OPEN_TOO_MANY_FILES, s)
          | Some slot \<Rightarrow>
              let (fd, w) = os_open name (os s) in
              if fd < 0 then Some (Inl IOERR_ACCESS, s\<lparr>os := w\<rparr>)
              else open_header slot name fd (s\<lparr>os := w\<rparr>)))"

definition close_file :: "int \<Rightarrow> ('d pool, unit) M" where
  "close_file file_id = bindE (check_file_id file_id) (\<lambda>fh.
     bindE (modify_frame (hdr_frame fh) (pin_count_update (\<lambda>p. p - 1))) (\<lambda>_.
     attempt (force_all_pages (fh_file_desc fh)) (\<lambda>r. case r of
        Inl rc \<Rightarrow> bindE (modify_frame (hdr_frame fh) (pin_count_update (\<lambda>p. p + 1))) (\<lambda>_. fail rc)
      | Inr _ \<Rightarrow> (\<lambda>s.
          let (res, w) = os_close (fh_file_desc fh) (os s) in
          if res < 0 then Some (Inl IOERR_CLOSE, s\<lparr>os := w\<rparr>)
          else Some (Inr (), s\<lparr>os := w, open_list := (open_list s)(file_id := None)\<rparr>)))))"

definition load_into :: "int \<Rightarrow> BPFileHandle \<Rightarrow> nat \<Rightarrow> ('d pool, BPPageHandle) M" where
  "load_into pn fh i =
     bindE (modify_frame i (pin_count_update (\<lambda>_. 1))) (\<lambda>_.
     attempt (load_page pn fh i) (\<lambda>r. case r of
        Inl rc \<Rightarrow>
          bindE (modify_frame i (pin_count_update (\<lambda>_. 0))) (\<lambda>_.
          attempt (dispose_block i) (\<lambda>_. fail rc))
      | Inr _ \<Rightarrow> ret \<lparr>is_open = True, frame = i\<rparr>))"

definition get_this_page :: "int \<Rightarrow> int \<Rightarrow> ('d pool, BPPageHandle) M" where
  "get_this_page file_id pn = bindE (check_file_id file_id) (\<lambda>fh.
     bindE (check_page_num pn fh) (\<lambda>_ s.
       case bpm_get (fh_file_desc fh) pn s of
         (Some i, s1) \<Rightarrow>
           bindE (modify_frame i (pin_count_update (\<lambda>p. p + 1)))
             (\<lambda>_. ret \<lparr>is_open = True, frame = i\<rparr>) s1
       | (None, s1) \<Rightarrow>
           bindE (allocate_block (fh_file_desc fh) pn) (load_into pn fh) s1))"

function free_loop :: "byte list \<Rightarrow> int \<Rightarrow> int \<Rightarrow> int option option" where
  "free_loop bm n i = (if i < n then
     (case bitmap_get_bit bm i of
        None \<Rightarrow> None
      | Some b \<Rightarrow> if \<not> b then Some (Some i) else free_loop bm n (i + 1))
     else Some None)"
  by pat_completeness auto
termination by (relation "measure (\<lambda>(bm, n, i). nat (n - i))") auto

declare free_loop.simps [simp del]

definition extend_file :: "int \<Rightarrow> BPFileHandle \<Rightarrow> ('d pool, BPPageHandle) M" where
  "extend_file pn fh = bindE (allocate_block (fh_file_desc fh) pn) (\<lambda>i.
     bindE (hdr_get fh) (\<lambda>(h, bm).
     bindE (lift_opt (bitmap_set_bit bm pn)) (\<lambda>bm'.
     bindE (hdr_set fh (h\<lparr>allocated_pages := allocated_pages h + 1, page_count := page_count h + 1\<rparr>) bm') (\<lambda>_.
     bindE (modify_frame (hdr_frame fh) (dirty_update (\<lambda>_. True))) (\<lambda>_.
     bindE (gets zero_page) (\<lambda>z.
     bindE (modify_frame i (\<lambda>f. f\<lparr>pin_count := 1, page := z\<rparr>)) (\<lambda>_.
     bindE (hdr_get fh) (\<lambda>(h', _).
     bindE (modify_frame i (page_update (page_num_update (\<lambda>_. page_count h' - 1)))) (\<lambda>_.
     bindE (flush_block i) (\<lambda>_. ret \<lparr>is_open = True, frame = i\<rparr>))))))))))"

definition allocate_page :: "int \<Rightarrow> ('d pool, BPPageHandle) M" where
  "allocate_page file_id = bindE (check_file_id file_id) (\<lambda>fh.
     bindE (hdr_get fh) (\<lambda>(h, bm).
       if allocated_pages h < page_count h
       then bindE (lift_opt (free_loop bm (page_count h) 0)) (\<lambda>free. case free of
            Some pn \<Rightarrow>
              bindE (lift_opt (bitmap_set_bit bm pn)) (\<lambda>bm'.
              bindE (hdr_set fh (h\<lparr>allocated_pages := allocated_pages h + 1\<rparr>) bm') (\<lambda>_.
              get_this_page file_id pn))
          | None \<Rightarrow> extend_file (page_count h) fh)
       else extend_file (page_count h) fh))"

text \<open>Following \<^verbatim>\<open>page_handle->frame\<close> without asking whether the handle is open.\<close>

definition peek_num :: "BPPageHandle \<Rightarrow> ('d pool, int) M" where
  "peek_num h = bindE (deref (frame h)) (\<lambda>f. ret (page_num (page f)))"

definition peek_data :: "BPPageHandle \<Rightarrow> ('d pool, 'd) M" where
  "peek_data h = bindE (deref (frame h)) (\<lambda>f. case data (page f) of
      Payload d \<Rightarrow> ret d
    | HdrData _ _ \<Rightarrow> undef)"

definition get_page_num :: "BPPageHandle \<Rightarrow> ('d pool, int) M" where
  "get_page_num h = (if \<not> is_open h then fail BUFFERPOOL_CLOSED else peek_num h)"

definition get_data :: "BPPageHandle \<Rightarrow> ('d pool, 'd) M" where
  "get_data h = (if \<not> is_open h then fail BUFFERPOOL_CLOSED else peek_data h)"

text \<open>A store through the pointer that \<^verbatim>\<open>get_data\<close> returned.\<close>

definition put_data :: "BPPageHandle \<Rightarrow> 'd \<Rightarrow> ('d pool, unit) M" where
  "put_data h d = modify_frame (frame h) (page_update (data_update (\<lambda>_. Payload d)))"

definition mark_dirty :: "BPPageHandle \<Rightarrow> ('d pool, unit) M" where
  "mark_dirty h = modify_frame (frame h) (dirty_update (\<lambda>_. True))"

definition unpin_page :: "BPPageHandle \<Rightarrow> ('d pool, BPPageHandle) M" where
  "unpin_page h = bindE (modify_frame (frame h) (pin_count_update (\<lambda>p. p - 1)))
     (\<lambda>_. ret (h\<lparr>is_open := False\<rparr>))"

definition dispose_page :: "int \<Rightarrow> int \<Rightarrow> ('d pool, unit) M" where
  "dispose_page file_id pn = bindE (check_file_id file_id) (\<lambda>fh.
     bindE (check_page_num pn fh) (\<lambda>_.
     bindE (bpm_dispose_page (fh_file_desc fh) pn) (\<lambda>_.
     bindE (modify_frame (hdr_frame fh) (dirty_update (\<lambda>_. True))) (\<lambda>_.
     bindE (hdr_get fh) (\<lambda>(h, bm).
     bindE (lift_opt (bitmap_clear_bit bm pn)) (\<lambda>bm'.
     hdr_set fh (h\<lparr>allocated_pages := allocated_pages h - 1\<rparr>) bm'))))))"

definition flush_all_pages :: "int \<Rightarrow> ('d pool, unit) M" where
  "flush_all_pages file_id = bindE (check_file_id file_id) (\<lambda>fh. force_all_pages (fh_file_desc fh))"

definition get_page_count :: "int \<Rightarrow> ('d pool, int) M" where
  "get_page_count file_id = bindE (check_file_id file_id) (\<lambda>fh.
     bindE (hdr_get fh) (\<lambda>(h, bm). ret (page_count h)))"

end
