(* ===== verification/Pool_Contract.thy ===== *)
theory Pool_Contract
  imports Disk_Buffer_Pool
begin

text \<open>
  The buffer pool keeps the contract of \<^verbatim>\<open>page_pool\<close>: what a client reads through a
  handle is what was last written to that page, however the frames are recycled in between. The
  invariant \<^verbatim>\<open>pool_ok\<close> says that the LRU list is a permutation of the frames, that
  \<^verbatim>\<open>list_map\<close> describes exactly the allocated frames, that an unpinned clean frame equals
  the disk, and that the header page of every open file is resident. It holds for every
  operation but \<^verbatim>\<open>dispose_page\<close>, \<^verbatim>\<open>flush_all_pages\<close> and
  \<^verbatim>\<open>close_file\<close>, which leave entries behind in \<^verbatim>\<open>list_map\<close>.
\<close>

section \<open>The disk\<close>

definition os_page :: "'d os_state \<Rightarrow> int \<Rightarrow> int \<Rightarrow> 'd Page option" where
  "os_page w fd p = (case fds w fd of
      None \<Rightarrow> None
    | Some (name, _) \<Rightarrow> (case files w name of
        None \<Rightarrow> None
      | Some xs \<Rightarrow> if 0 \<le> p \<and> p < int (length xs) then Some (xs ! nat p) else None))"

definition os_length :: "'d os_state \<Rightarrow> int \<Rightarrow> nat" where
  "os_length w fd = (case fds w fd of
      None \<Rightarrow> 0
    | Some (name, _) \<Rightarrow> (case files w name of None \<Rightarrow> 0 | Some xs \<Rightarrow> length xs))"

abbreviation disk_page :: "'d pool \<Rightarrow> int \<Rightarrow> int \<Rightarrow> 'd Page option" where
  "disk_page s \<equiv> os_page (os s)"

abbreviation file_length :: "'d pool \<Rightarrow> int \<Rightarrow> nat" where
  "file_length s \<equiv> os_length (os s)"

definition os_ok :: "'d os_state \<Rightarrow> bool" where
  "os_ok w \<longleftrightarrow> (\<forall>c. \<not> sys_fail w c) \<and>
     (\<forall>d n pos. fds w d = Some (n, pos) \<longrightarrow> 0 \<le> d \<and> d < 2 ^ 31 \<and> files w n \<noteq> None) \<and>
     (\<forall>d d' n pos pos'. fds w d = Some (n, pos) \<longrightarrow> fds w d' = Some (n, pos') \<longrightarrow> d = d')"

definition key_range :: "int \<Rightarrow> bool" where
  "key_range x \<longleftrightarrow> 0 \<le> x \<and> x < 2 ^ 31"

lemma bp_key_inj:
  assumes "key_range fd" "key_range pn" "key_range fd'" "key_range pn'"
  shows "bp_key fd pn = bp_key fd' pn' \<longleftrightarrow> fd = fd' \<and> pn = pn'"
proof
  have u: "uint (bp_key a b) = a * 2 ^ 32 + b" if "key_range a" "key_range b" for a b
  proof -
    have "bp_key a b = word_of_int (a * 2 ^ 32 + b)"
      by (simp add: bp_key_def push_bit_eq_mult word_of_int_eq_iff of_int_add of_int_mult mult.commute)
    moreover have "a * 2 ^ 32 + b < 2 ^ 64" "0 \<le> a * 2 ^ 32 + b"
      using that by (auto simp: key_range_def)
    ultimately show ?thesis by (intro word_of_int_inverse) simp_all
  qed
  assume "bp_key fd pn = bp_key fd' pn'"
  then have eq: "fd * 2 ^ 32 + pn = fd' * 2 ^ 32 + pn'" using u assms by metis
  have "(a * 2 ^ 32 + b) div 2 ^ 32 = a \<and> (a * 2 ^ 32 + b) mod 2 ^ 32 = b" if "key_range b" for a b :: int
    using that by (simp add: key_range_def)
  then show "fd = fd' \<and> pn = pn'" using assms eq by metis
qed simp

text \<open>Seeking to a page of the file (or to its end) and writing it.\<close>

lemma os_page_length: "os_page w fd p \<noteq> None \<longleftrightarrow> 0 \<le> p \<and> p < int (os_length w fd)"
  by (auto simp: os_page_def os_length_def split: option.splits)

lemma seek_write:
  assumes ok: "os_ok w" and fd: "fds w fd \<noteq> None" and p: "0 \<le> p" "p \<le> int (os_length w fd)"
  obtains w1 w2 where "os_lseek fd p w = (p * int BP_PAGE_SIZE, w1)" "os_write z fd pg w1 = (True, w2)"
    "os_ok w2" "\<And>d q. os_page w2 d q = (if d = fd \<and> q = p then Some pg else os_page w d q)"
    "\<And>d. os_length w2 d = (if d = fd \<and> p = int (os_length w fd) then Suc (os_length w d) else os_length w d)"
    "\<And>d. (fds w2 d = None) = (fds w d = None)"
proof -
  obtain n pos where n: "fds w fd = Some (n, pos)" using fd by auto
  then obtain xs where xs: "files w n = Some xs" using ok unfolding os_ok_def by blast
  have len: "os_length w fd = length xs" by (simp add: os_length_def n xs)
  let ?w1 = "w\<lparr>fds := (fds w)(fd \<mapsto> (n, p))\<rparr>"
  let ?xs = "file_put z xs (nat p) pg"
  let ?w2 = "?w1\<lparr>files := (files w)(n \<mapsto> ?xs), fds := (fds ?w1)(fd \<mapsto> (n, p + 1))\<rparr>"
  have inj: "d = fd" if "fds w d = Some (n, q)" for d q
    using ok n that by (simp add: os_ok_def)
  show ?thesis
  proof (rule that [of ?w1 ?w2])
    show "os_lseek fd p w = (p * int BP_PAGE_SIZE, ?w1)"
      using n p ok by (simp add: os_lseek_def os_ok_def)
    show "os_write z fd pg ?w1 = (True, ?w2)"
      using xs ok by (simp add: os_write_def os_ok_def)
    show "os_ok ?w2"
      using ok n unfolding os_ok_def by (auto split: if_splits)
    show "os_page ?w2 d q = (if d = fd \<and> q = p then Some pg else os_page w d q)" for d q
      using n xs p len inj [of d]
      by (cases "fds w d") (auto simp: os_page_def file_put_def nth_append nth_list_update split: option.splits)
    show "os_length ?w2 d = (if d = fd \<and> p = int (os_length w fd) then Suc (os_length w d) else os_length w d)" for d
      using n xs p len inj [of d]
      by (cases "fds w d") (auto simp: os_length_def file_put_def split: option.splits)
    show "(fds ?w2 d = None) = (fds w d = None)" for d using n by simp
  qed
qed

lemma seek_read:
  assumes ok: "os_ok w" and p: "os_page w fd p = Some pg"
  obtains w1 w2 where "os_lseek fd p w = (p * int BP_PAGE_SIZE, w1)" "os_read fd w1 = (Some pg, w2)"
    "os_ok w2" "os_page w2 = os_page w" "os_length w2 = os_length w"
    "\<And>d. (fds w2 d = None) = (fds w d = None)"
proof -
  obtain n pos xs where n: "fds w fd = Some (n, pos)" "files w n = Some xs"
    "0 \<le> p" "p < int (length xs)" "pg = xs ! nat p"
    using p by (auto simp: os_page_def split: option.splits if_splits)
  let ?w1 = "w\<lparr>fds := (fds w)(fd \<mapsto> (n, p))\<rparr>"
  let ?w2 = "?w1\<lparr>fds := (fds ?w1)(fd \<mapsto> (n, p + 1))\<rparr>"
  show ?thesis
  proof (rule that [of ?w1 ?w2])
    show "os_lseek fd p w = (p * int BP_PAGE_SIZE, ?w1)"
      using n ok by (simp add: os_lseek_def os_ok_def)
    show "os_read fd ?w1 = (Some pg, ?w2)"
      using n ok by (simp add: os_read_def os_ok_def)
    show "os_ok ?w2"
      using ok n unfolding os_ok_def by (auto split: if_splits)
    show "os_page ?w2 = os_page w" "os_length ?w2 = os_length w"
      using n by (auto simp: os_page_def os_length_def fun_eq_iff split: option.splits)
    show "(fds ?w2 d = None) = (fds w d = None)" for d using n by simp
  qed
qed

section \<open>The invariant\<close>

definition lru_ok :: "'d pool \<Rightarrow> bool" where
  "lru_ok s \<longleftrightarrow> distinct (frame_list s) \<and> set (frame_list s) = {..<length (frames s)}"

abbreviation frame_key :: "'d Frame \<Rightarrow> 64 word" where
  "frame_key f \<equiv> bp_key (file_desc f) (page_num (page f))"

definition map_ok :: "'d pool \<Rightarrow> bool" where
  "map_ok s \<longleftrightarrow> (\<forall>k i. list_map s k = Some i \<longleftrightarrow>
     i < length (frames s) \<and> allocated (frame_of s i) \<and> k = frame_key (frame_of s i))"

definition frame_ok :: "'d pool \<Rightarrow> 'd Frame \<Rightarrow> bool" where
  "frame_ok s f \<longleftrightarrow> (allocated f \<longrightarrow>
     disk_page s (file_desc f) (page_num (page f)) \<noteq> None \<and>
     (page_num (page f) = 0 \<longleftrightarrow> (\<exists>h bm. data (page f) = HdrData h bm)) \<and>
     (dirty f \<or> pin_count f \<noteq> 0 \<or>
        disk_page s (file_desc f) (page_num (page f)) = Some (page f)))"

definition disk_ok :: "'d pool \<Rightarrow> bool" where
  "disk_ok s \<longleftrightarrow> (\<forall>fd p pg. disk_page s fd p = Some pg \<longrightarrow> key_range p \<and> page_num pg = p \<and>
     (p = 0 \<longleftrightarrow> (\<exists>h bm. data pg = HdrData h bm)))"

text \<open>The header page of an open file: its counters, its bitmap and the length of the file.\<close>

definition max_pages :: nat where "max_pages = 8 * (BP_PAGE_DATA_SIZE - BP_FILE_SUB_HDR_SIZE)"

definition hdr_wf :: "BPFileSubHeader \<Rightarrow> byte list \<Rightarrow> nat \<Rightarrow> bool" where
  "hdr_wf h bm n \<longleftrightarrow> length bm = BP_PAGE_DATA_SIZE - BP_FILE_SUB_HDR_SIZE \<and>
     page_count h = int n \<and> 0 < n \<and> n \<le> max_pages \<and>
     allocated_pages h = int (bm.used bm n) \<and> bit_at bm 0"

definition file_ok :: "'d pool \<Rightarrow> BPFileHandle \<Rightarrow> bool" where
  "file_ok s fh \<longleftrightarrow> hdr_frame fh < length (frames s) \<and>
     (let f = frame_of s (hdr_frame fh) in
        allocated f \<and> pin_count f \<noteq> 0 \<and> file_desc f = fh_file_desc fh \<and> page_num (page f) = 0 \<and>
        (case data (page f) of
           HdrData h bm \<Rightarrow> hdr_wf h bm (file_length s (fh_file_desc fh))
         | Payload _ \<Rightarrow> False))"

definition pool_ok :: "'d pool \<Rightarrow> bool" where
  "pool_ok s \<longleftrightarrow> os_ok (os s) \<and> lru_ok s \<and> map_ok s \<and> disk_ok s \<and>
     (\<forall>f \<in> set (frames s). frame_ok s f) \<and>
     (\<forall>fid fh. open_list s fid = Some fh \<longrightarrow> file_ok s fh)"

text \<open>A page as a client sees it: the resident copy if there is one, else the disk.\<close>

definition pview :: "'d pool \<Rightarrow> int \<Rightarrow> int \<Rightarrow> 'd Page option" where
  "pview s fd p = (case list_map s (bp_key fd p) of
      Some i \<Rightarrow> Some (page (frame_of s i))
    | None \<Rightarrow> disk_page s fd p)"

section \<open>Frames\<close>

lemma upd_frame_sel [simp]:
  "frame_list (upd_frame i g s) = frame_list s" "list_map (upd_frame i g s) = list_map s"
  "open_list (upd_frame i g s) = open_list s" "os (upd_frame i g s) = os s"
  "zero_data (upd_frame i g s) = zero_data s" "length (frames (upd_frame i g s)) = length (frames s)"
  by (simp_all add: upd_frame_def)

lemma frames_upd_frame: "frames (upd_frame i g s) = (frames s)[i := g (frame_of s i)]"
  by (simp add: upd_frame_def)

lemma frame_of_upd_frame:
  "i < length (frames s) \<Longrightarrow>
   frame_of (upd_frame i g s) j = (if j = i then g (frame_of s i) else frame_of s j)"
  by (simp add: upd_frame_def)

lemma deref_run [run]: "i < length (frames s) \<Longrightarrow> deref i s = Some (Inr (frame_of s i), s)"
  by (simp add: deref_def)

lemma modify_frame_run [run]:
  "i < length (frames s) \<Longrightarrow> modify_frame i g s = Some (Inr (), upd_frame i g s)"
  by (simp add: modify_frame_def)

lemma lru_update_sel [simp]:
  "frames (lru_update i s) = frames s" "list_map (lru_update i s) = list_map s"
  "open_list (lru_update i s) = open_list s" "os (lru_update i s) = os s"
  "zero_data (lru_update i s) = zero_data s"
  by (simp_all add: lru_update_def)

lemma lru_ok_update: "lru_ok s \<Longrightarrow> i < length (frames s) \<Longrightarrow> lru_ok (lru_update i s)"
  by (auto simp: lru_ok_def lru_update_def)

lemma pool_okD:
  assumes "pool_ok s"
  shows "os_ok (os s)" "lru_ok s" "map_ok s" "disk_ok s"
    and "\<And>i. i < length (frames s) \<Longrightarrow> frame_ok s (frame_of s i)"
    and "\<And>fid fh. open_list s fid = Some fh \<Longrightarrow> file_ok s fh"
  using assms by (auto simp: pool_ok_def)

lemma pool_okI:
  assumes "os_ok (os s)" "lru_ok s" "map_ok s" "disk_ok s"
    and "\<And>i. i < length (frames s) \<Longrightarrow> frame_ok s (frame_of s i)"
    and "\<And>fid fh. open_list s fid = Some fh \<Longrightarrow> file_ok s fh"
  shows "pool_ok s"
  using assms by (auto simp: pool_ok_def in_set_conv_nth)

lemma map_okD:
  "map_ok s \<Longrightarrow> list_map s k = Some i \<longleftrightarrow>
     i < length (frames s) \<and> allocated (frame_of s i) \<and> k = frame_key (frame_of s i)"
  by (simp add: map_ok_def)

lemma disk_page_range:
  assumes "os_ok (os s)" "disk_ok s" "disk_page s fd p \<noteq> None"
  shows "key_range fd" "key_range p"
proof -
  show "key_range p" using assms by (auto simp: disk_ok_def)
  obtain n pos where "fds (os s) fd = Some (n, pos)"
    using assms(3) by (auto simp: os_page_def split: option.splits)
  then show "key_range fd" using assms(1) unfolding os_ok_def key_range_def by blast
qed

lemma frame_range:
  assumes "pool_ok s" "i < length (frames s)" "allocated (frame_of s i)"
  shows "key_range (file_desc (frame_of s i))" "key_range (page_num (page (frame_of s i)))"
    "disk_page s (file_desc (frame_of s i)) (page_num (page (frame_of s i))) \<noteq> None"
proof -
  show d: "disk_page s (file_desc (frame_of s i)) (page_num (page (frame_of s i))) \<noteq> None"
    using pool_okD(5) [OF assms(1,2)] assms(3) by (simp add: frame_ok_def)
  show "key_range (file_desc (frame_of s i))" "key_range (page_num (page (frame_of s i)))"
    using disk_page_range [OF pool_okD(1,4) [OF assms(1)] d] by blast+
qed

lemma flush_block_run:
  assumes "os_ok (os s)" "i < length (frames s)"
    and d: "disk_page s (file_desc (frame_of s i)) (page_num (page (frame_of s i))) \<noteq> None"
  obtains w where "flush_block i s = Some (Inr (), upd_frame i (dirty_update (\<lambda>_. False)) (s\<lparr>os := w\<rparr>))"
    "os_ok w" "os_length w = file_length s"
    "\<And>d q. os_page w d q = (if d = file_desc (frame_of s i) \<and> q = page_num (page (frame_of s i))
       then Some (page (frame_of s i)) else disk_page s d q)"
proof -
  let ?f = "frame_of s i"
  have p: "0 \<le> page_num (page ?f)" "page_num (page ?f) < int (file_length s (file_desc ?f))"
    using d os_page_length by blast+
  have fd: "fds (os s) (file_desc ?f) \<noteq> None" using d by (auto simp: os_page_def split: option.splits)
  show ?thesis
  proof (rule seek_write [OF assms(1) fd p(1) order_less_imp_le [OF p(2)],
        of "zero_page s" "page ?f"])
    fix w1 w2
    assume w: "os_lseek (file_desc ?f) (page_num (page ?f)) (os s) =
        (page_num (page ?f) * int BP_PAGE_SIZE, w1)"
      "os_write (zero_page s) (file_desc ?f) (page ?f) w1 = (True, w2)" "os_ok w2"
      "\<And>d q. os_page w2 d q = (if d = file_desc ?f \<and> q = page_num (page ?f) then Some (page ?f) else disk_page s d q)"
      "\<And>d. os_length w2 d = (if d = file_desc ?f \<and> page_num (page ?f) = int (file_length s (file_desc ?f))
          then Suc (file_length s d) else file_length s d)"
    show ?thesis
    proof (rule that [of w2])
      show "flush_block i s = Some (Inr (), upd_frame i (dirty_update (\<lambda>_. False)) (s\<lparr>os := w2\<rparr>))"
        using w(1,2) assms(2) by (simp add: flush_block_def run)
      show "os_length w2 = file_length s" using w(5) p(2) by auto
    qed (use w in auto)
  qed
qed

section \<open>Claiming a frame\<close>

text \<open>
  Between \<^verbatim>\<open>alloc\<close> and the load that follows it, frame \<^verbatim>\<open>i\<close> is entered in
  \<^verbatim>\<open>list_map\<close> for a page it does not hold yet; everything else is in order.
\<close>

definition claimed :: "nat \<Rightarrow> int \<Rightarrow> int \<Rightarrow> 'd pool \<Rightarrow> bool" where
  "claimed i fd pn s \<longleftrightarrow> os_ok (os s) \<and> lru_ok s \<and> disk_ok s \<and> i < length (frames s) \<and>
     allocated (frame_of s i) \<and> file_desc (frame_of s i) = fd \<and> \<not> dirty (frame_of s i) \<and>
     (\<forall>k j. list_map s k = Some j \<longleftrightarrow> (if j = i then k = bp_key fd pn
        else j < length (frames s) \<and> allocated (frame_of s j) \<and> k = frame_key (frame_of s j))) \<and>
     (\<forall>j < length (frames s). j \<noteq> i \<longrightarrow> frame_ok s (frame_of s j)) \<and>
     (\<forall>fid fh. open_list s fid = Some fh \<longrightarrow> hdr_frame fh \<noteq> i \<and> file_ok s fh)"

definition takable :: "'d pool \<Rightarrow> nat \<Rightarrow> bool" where
  "takable s i \<longleftrightarrow> i < length (frames s) \<and> (\<not> allocated (frame_of s i) \<or> pin_count (frame_of s i) = 0)"

lemma file_ok_cong:
  assumes "file_ok s fh" "length (frames s') = length (frames s)"
    and "frame_of s' (hdr_frame fh) = frame_of s (hdr_frame fh)"
    and "file_length s' (fh_file_desc fh) = file_length s (fh_file_desc fh)"
  shows "file_ok s' fh"
  using assms by (auto simp: file_ok_def Let_def split: page_data.splits)

lemma file_ok_upd_other:
  "file_ok s fh \<Longrightarrow> hdr_frame fh \<noteq> i \<Longrightarrow> i < length (frames s) \<Longrightarrow> file_ok (upd_frame i g s) fh"
  by (erule file_ok_cong) (simp_all add: frame_of_upd_frame)

text \<open>The state in which \<^verbatim>\<open>alloc_finish\<close> is entered, and what it makes of it.\<close>

definition released :: "nat \<Rightarrow> 'd pool \<Rightarrow> bool" where
  "released i s \<longleftrightarrow> os_ok (os s) \<and> lru_ok s \<and> disk_ok s \<and> i < length (frames s) \<and> allocated (frame_of s i) \<and>
     (\<forall>k j. list_map s k = Some j \<longleftrightarrow>
        j \<noteq> i \<and> j < length (frames s) \<and> allocated (frame_of s j) \<and> k = frame_key (frame_of s j)) \<and>
     (\<forall>j < length (frames s). j \<noteq> i \<longrightarrow> frame_ok s (frame_of s j)) \<and>
     (\<forall>fid fh. open_list s fid = Some fh \<longrightarrow> hdr_frame fh \<noteq> i \<and> file_ok s fh)"

lemma alloc_finish_sel:
  assumes "i < length (frames s)"
  shows "os (alloc_finish fd pn i s) = os s" "open_list (alloc_finish fd pn i s) = open_list s"
    "zero_data (alloc_finish fd pn i s) = zero_data s"
    "list_map (alloc_finish fd pn i s) = (list_map s)(bp_key fd pn \<mapsto> i)"
    "frames (alloc_finish fd pn i s) = (frames s)[i := (frame_of s i)\<lparr>dirty := False, file_desc := fd\<rparr>]"
    "lru_ok s \<Longrightarrow> lru_ok (alloc_finish fd pn i s)"
  using assms
  by (simp_all add: alloc_finish_def Let_def frames_upd_frame)
    (intro lru_ok_update, simp_all add: lru_ok_def)

lemma alloc_finish_claims:
  assumes "released i s" "list_map s (bp_key fd pn) = None"
  shows "claimed i fd pn (alloc_finish fd pn i s)"
proof -
  have i: "i < length (frames s)" using assms by (simp add: released_def)
  have m: "list_map s k = Some j \<longleftrightarrow>
      j \<noteq> i \<and> j < length (frames s) \<and> allocated (frame_of s j) \<and> k = frame_key (frame_of s j)" for k j
    using assms(1) by (simp add: released_def)
  note sel = alloc_finish_sel [OF i, of fd pn]
  show ?thesis
    unfolding claimed_def sel
  proof (intro conjI allI impI)
    show "lru_ok (alloc_finish fd pn i s)" using assms sel(6) by (simp add: released_def)
    show "disk_ok (alloc_finish fd pn i s)" using assms by (simp add: released_def disk_ok_def sel)
  next
    fix k j
    show "(((list_map s)(bp_key fd pn \<mapsto> i)) k = Some j) \<longleftrightarrow> (if j = i then k = bp_key fd pn else
        j < length ((frames s)[i := (frame_of s i)\<lparr>dirty := False, file_desc := fd\<rparr>]) \<and>
        allocated ((frames s)[i := (frame_of s i)\<lparr>dirty := False, file_desc := fd\<rparr>] ! j) \<and>
        k = frame_key ((frames s)[i := (frame_of s i)\<lparr>dirty := False, file_desc := fd\<rparr>] ! j))"
      using m [of k j] m [of "bp_key fd pn" j] assms(2) by (auto simp: nth_list_update)
  next
    fix j assume "j < length ((frames s)[i := (frame_of s i)\<lparr>dirty := False, file_desc := fd\<rparr>])" "j \<noteq> i"
    then show "frame_ok (alloc_finish fd pn i s) ((frames s)[i := (frame_of s i)\<lparr>dirty := False, file_desc := fd\<rparr>] ! j)"
      using assms by (simp add: released_def frame_ok_def sel)
  next
    fix fid fh assume "open_list s fid = Some fh"
    then have h: "hdr_frame fh \<noteq> i" "file_ok s fh" using assms by (auto simp: released_def)
    then show "hdr_frame fh \<noteq> i" by simp
    show "file_ok (alloc_finish fd pn i s) fh"
      by (rule file_ok_cong [OF h(2)]) (use h(1) in \<open>simp_all add: sel\<close>)
  qed (use assms in \<open>auto simp: released_def\<close>)
qed

lemma released_unallocated:
  assumes "pool_ok s" "i < length (frames s)" "\<not> allocated (frame_of s i)"
  shows "released i (upd_frame i (allocated_update (\<lambda>_. True)) s)" (is "released i ?t")
proof -
  note ok = pool_okD [OF assms(1)]
  have lm: "list_map s k = Some j \<longleftrightarrow>
      j \<noteq> i \<and> j < length (frames s) \<and> allocated (frame_of s j) \<and> k = frame_key (frame_of s j)" for k j
    using map_okD [OF ok(3)] assms(3) by auto
  have h: "hdr_frame fh \<noteq> i \<and> file_ok ?t fh" if "open_list s fid = Some fh" for fid fh
  proof -
    have "file_ok s fh" by (rule ok(6) [OF that])
    moreover from this have "hdr_frame fh \<noteq> i" using assms(3) by (auto simp: file_ok_def Let_def)
    ultimately show ?thesis
      using assms(2) by (auto intro: file_ok_cong simp: frame_of_upd_frame)
  qed
  show ?thesis
    using ok assms(2) lm h
    by (auto simp: released_def frame_of_upd_frame lru_ok_def disk_ok_def frame_ok_def)
qed

lemma released_evicted:
  assumes "pool_ok s" "i < length (frames s)" "allocated (frame_of s i)" "pin_count (frame_of s i) = 0"
    and w: "os_ok w" "os_length w = file_length s"
      "\<And>d q. os_page w d q = (if d = file_desc (frame_of s i) \<and> q = page_num (page (frame_of s i))
         then Some (page (frame_of s i)) else disk_page s d q)"
    and t: "os t = w" "list_map t = (list_map s)(frame_key (frame_of s i) := None)"
      "frame_list t = frame_list s" "open_list t = open_list s" "length (frames t) = length (frames s)"
      "\<And>j. j \<noteq> i \<Longrightarrow> frame_of t j = frame_of s j" "allocated (frame_of t i)"
  shows "released i t"
proof -
  note ok = pool_okD [OF assms(1)]
  have lm: "list_map t k = Some j \<longleftrightarrow>
      j \<noteq> i \<and> j < length (frames s) \<and> allocated (frame_of s j) \<and> k = frame_key (frame_of s j)" for k j
    using map_okD [OF ok(3)] assms(2,3) t(2) by (auto simp: fun_upd_def) (metis option.inject)+
  have uniq: "j = i" if "j < length (frames s)" "allocated (frame_of s j)"
      "file_desc (frame_of s j) = file_desc (frame_of s i)"
      "page_num (page (frame_of s j)) = page_num (page (frame_of s i))" for j
    using map_okD [OF ok(3)] that assms(2,3) by (metis option.inject)
  have d: "disk_ok t"
    using ok(4) ok(5) [OF assms(2)] assms(3) frame_range [OF assms(1-3)]
    unfolding disk_ok_def t(1) w(3) frame_ok_def by (auto split: if_splits)
  have f: "frame_ok t (frame_of t j)" if "j < length (frames s)" "j \<noteq> i" for j
  proof -
    have "frame_ok s (frame_of s j)" by (rule ok(5) [OF that(1)])
    then show ?thesis
      using uniq [OF that(1)] that(2) by (auto simp: frame_ok_def t w(3))
  qed
  have h: "hdr_frame fh \<noteq> i \<and> file_ok t fh" if "open_list s fid = Some fh" for fid fh
  proof -
    have "file_ok s fh" by (rule ok(6) [OF that])
    moreover from this have "hdr_frame fh \<noteq> i" using assms(4) by (auto simp: file_ok_def Let_def)
    ultimately show ?thesis
      using t(5,6) by (auto intro!: file_ok_cong [of s fh t] simp: t(1) w(2))
  qed
  have lm': "list_map t k = Some j \<longleftrightarrow>
      j \<noteq> i \<and> j < length (frames t) \<and> allocated (frame_of t j) \<and> k = frame_key (frame_of t j)" for k j
    using lm [of k j] t(5) t(6) [of j] by (cases "j = i") simp_all
  have "lru_ok t" using ok(2) t(3,5) by (simp add: lru_ok_def)
  then show ?thesis
    unfolding released_def using assms(2) lm' h d f t(1,4,5,7) w(1) by simp
qed

lemma pview_after_evict:
  assumes "pool_ok s" "i < length (frames s)" "allocated (frame_of s i)"
    and w: "\<And>d q. os_page w d q = (if d = file_desc (frame_of s i) \<and> q = page_num (page (frame_of s i))
         then Some (page (frame_of s i)) else disk_page s d q)"
    and t: "os t = w" "list_map t = (list_map s)(frame_key (frame_of s i) := None)"
      "\<And>j. j \<noteq> i \<Longrightarrow> frame_of t j = frame_of s j"
    and r: "key_range d" "key_range q"
  shows "pview t d q = pview s d q"
proof (cases "d = file_desc (frame_of s i) \<and> q = page_num (page (frame_of s i))")
  case True
  then have "list_map s (bp_key d q) = Some i"
    using map_okD [OF pool_okD(3) [OF assms(1)]] assms(2,3) by simp
  then show ?thesis using True t(1,2) w by (simp add: pview_def)
next
  case False
  then have k: "bp_key d q \<noteq> frame_key (frame_of s i)"
    using bp_key_inj [OF r frame_range(1,2) [OF assms(1-3)]] by simp
  have "j \<noteq> i" if "list_map s (bp_key d q) = Some j" for j
    using map_okD [OF pool_okD(3) [OF assms(1)]] that k by auto
  then show ?thesis using False k t w by (auto simp: pview_def split: option.splits)
qed

lemma evict_run:
  assumes "pool_ok s" "\<And>i. i < length (frames s) \<Longrightarrow> allocated (frame_of s i)" "\<exists>i. takable s i"
  obtains i s' where "evict s = Some (Inr (Some i), s')" "takable s i" "released i s'"
    "frames s' = frames s \<or> frames s' = (frames s)[i := (frame_of s i)\<lparr>dirty := False\<rparr>]"
    "open_list s' = open_list s" "zero_data s' = zero_data s" "file_length s' = file_length s"
    "\<And>d q. (d, q) \<noteq> (file_desc (frame_of s i), page_num (page (frame_of s i))) \<Longrightarrow>
       disk_page s' d q = disk_page s d q"
    "\<And>d q. key_range d \<Longrightarrow> key_range q \<Longrightarrow> pview s' d q = pview s d q"
    "\<And>k. list_map s k = None \<Longrightarrow> list_map s' k = None"
proof -
  have set: "set (frame_list s) = {..<length (frames s)}"
    using pool_okD(2) [OF assms(1)] by (simp add: lru_ok_def)
  have "\<not> (\<forall>i \<in> set (frame_list s). pin_count (frame_of s i) \<noteq> 0)"
    using assms(2,3) set by (auto simp: takable_def)
  then obtain i where f: "find (\<lambda>i. pin_count (frame_of s i) = 0) (rev (frame_list s)) = Some i"
    by (cases "find (\<lambda>i. pin_count (frame_of s i) = 0) (rev (frame_list s))")
      (auto simp: find_None_iff)
  then have "i \<in> set (rev (frame_list s))" "pin_count (frame_of s i) = 0"
    using find_SomeD [OF f] by auto
  then have i: "i < length (frames s)" "allocated (frame_of s i)" "pin_count (frame_of s i) = 0"
    using set assms(2) by auto
  let ?f = "frame_of s i"
  let ?s1 = "s\<lparr>list_map := (list_map s)(frame_key ?f := None)\<rparr>"
  show ?thesis
  proof (cases "dirty ?f")
    case False
    then have disk: "disk_page s d q = (if d = file_desc ?f \<and> q = page_num (page ?f) then Some (page ?f)
        else disk_page s d q)" for d q
      using pool_okD(5) [OF assms(1) i(1)] i(2,3) by (auto simp: frame_ok_def)
    show ?thesis
    proof (rule that [of i ?s1])
      show "evict s = Some (Inr (Some i), ?s1)" using f False by (simp add: evict_def Let_def)
      show "released i ?s1"
        by (rule released_evicted [OF assms(1) i pool_okD(1) [OF assms(1)] _ disk]) (use i in simp_all)
      show "pview ?s1 d q = pview s d q" if "key_range d" "key_range q" for d q
        by (rule pview_after_evict [OF assms(1) i(1,2) disk _ _ _ that]) simp_all
    qed (use i in \<open>auto simp: takable_def\<close>)
  next
    case True
    have "os_ok (os ?s1)" "i < length (frames ?s1)"
      "disk_page ?s1 (file_desc (frame_of ?s1 i)) (page_num (page (frame_of ?s1 i))) \<noteq> None"
      using pool_okD(1) [OF assms(1)] i frame_range(3) [OF assms(1) i(1,2)] by simp_all
    then obtain w where w: "flush_block i ?s1 = Some (Inr (), upd_frame i (dirty_update (\<lambda>_. False)) (?s1\<lparr>os := w\<rparr>))"
      "os_ok w" "os_length w = file_length ?s1"
      "\<And>d q. os_page w d q = (if d = file_desc (frame_of ?s1 i) \<and> q = page_num (page (frame_of ?s1 i))
        then Some (page (frame_of ?s1 i)) else disk_page ?s1 d q)"
      by (rule flush_block_run) blast
    let ?s2 = "upd_frame i (dirty_update (\<lambda>_. False)) (?s1\<lparr>os := w\<rparr>)"
    have len: "os_length w = file_length s" using w(3) by simp
    have disk: "os_page w d q = (if d = file_desc ?f \<and> q = page_num (page ?f) then Some (page ?f)
        else disk_page s d q)" for d q
      using w(4) [of d q] by simp
    show ?thesis
    proof (rule that [of i ?s2])
      show "evict s = Some (Inr (Some i), ?s2)" using f True w(1) by (simp add: evict_def Let_def run)
      show "released i ?s2"
        by (rule released_evicted [OF assms(1) i w(2) len disk]) (use i in \<open>simp_all add: frame_of_upd_frame\<close>)
      show "pview ?s2 d q = pview s d q" if "key_range d" "key_range q" for d q
        by (rule pview_after_evict [OF assms(1) i(1,2) disk _ _ _ that]) (use i in \<open>simp_all add: frame_of_upd_frame\<close>)
    qed (use i len disk in \<open>auto simp: takable_def frames_upd_frame\<close>)
  qed
qed

text \<open>What \<^verbatim>\<open>alloc\<close> does: one frame that was free or unpinned is claimed, every page but
  the new one keeps its content.\<close>

definition alloc_post :: "int \<Rightarrow> int \<Rightarrow> 'd pool \<Rightarrow> nat \<Rightarrow> 'd pool \<Rightarrow> bool" where
  "alloc_post fd pn s i s' \<longleftrightarrow> takable s i \<and> claimed i fd pn s' \<and>
     open_list s' = open_list s \<and> zero_data s' = zero_data s \<and> file_length s' = file_length s \<and>
     length (frames s') = length (frames s) \<and> (\<forall>j. j \<noteq> i \<longrightarrow> frame_of s' j = frame_of s j) \<and>
     disk_page s' fd pn = disk_page s fd pn \<and>
     (\<forall>j < length (frames s). j \<noteq> i \<and> allocated (frame_of s j) \<longrightarrow>
        disk_page s' (file_desc (frame_of s j)) (page_num (page (frame_of s j))) =
        disk_page s (file_desc (frame_of s j)) (page_num (page (frame_of s j)))) \<and>
     (\<forall>d q. key_range d \<and> key_range q \<and> (d, q) \<noteq> (fd, pn) \<longrightarrow> pview s' d q = pview s d q)"

lemma pview_alloc_finish:
  assumes "released i s" "list_map s (bp_key fd pn) = None" "key_range fd" "key_range pn"
    and "key_range d" "key_range q" "(d, q) \<noteq> (fd, pn)"
  shows "pview (alloc_finish fd pn i s) d q = pview s d q"
proof -
  have i: "i < length (frames s)" using assms(1) by (simp add: released_def)
  have "bp_key d q \<noteq> bp_key fd pn" using bp_key_inj [of d q fd pn] assms by auto
  moreover have "j \<noteq> i" if "list_map s (bp_key d q) = Some j" for j
    using assms(1) that by (simp add: released_def)
  ultimately show ?thesis
    by (auto simp: pview_def alloc_finish_sel [OF i] split: option.splits)
qed

lemma alloc_run:
  assumes ok: "pool_ok s" and t: "\<exists>i. takable s i" and n: "list_map s (bp_key fd pn) = None"
    and r: "key_range fd" "key_range pn"
  obtains i s' where "alloc fd pn s = Some (Inr (Some i), s')" "alloc_post fd pn s i s'"
proof (cases "find_unallocated s")
  case (Some i)
  then have i: "i < length (frames s)" "\<not> allocated (frame_of s i)"
    using find_SomeD [OF Some [unfolded find_unallocated_def]] by auto
  let ?t = "upd_frame i (allocated_update (\<lambda>_. True)) s"
  have rel: "released i ?t" by (rule released_unallocated [OF ok i])
  have "j \<noteq> i" if "list_map s k = Some j" for j k
    using map_okD [OF pool_okD(3) [OF ok]] i that by auto
  then have "pview ?t d q = pview s d q" for d q
    using i by (auto simp: pview_def frame_of_upd_frame split: option.splits)
  then have "alloc_post fd pn s i (alloc_finish fd pn i ?t)"
    using i n r rel alloc_finish_claims [OF rel] pview_alloc_finish [OF rel _ r]
    by (auto simp: alloc_post_def takable_def alloc_finish_sel frame_of_upd_frame)
  then show ?thesis using that Some by (simp add: alloc_def)
next
  case None
  then have all: "allocated (frame_of s i)" if "i < length (frames s)" for i
    using that by (auto simp: find_unallocated_def find_None_iff)
  obtain i t where e: "evict s = Some (Inr (Some i), t)" "takable s i" "released i t"
    "frames t = frames s \<or> frames t = (frames s)[i := (frame_of s i)\<lparr>dirty := False\<rparr>]"
    "open_list t = open_list s" "zero_data t = zero_data s" "file_length t = file_length s"
    "\<And>d q. (d, q) \<noteq> (file_desc (frame_of s i), page_num (page (frame_of s i))) \<Longrightarrow>
       disk_page t d q = disk_page s d q"
    "\<And>d q. key_range d \<Longrightarrow> key_range q \<Longrightarrow> pview t d q = pview s d q"
    "\<And>k. list_map s k = None \<Longrightarrow> list_map t k = None"
    using evict_run [OF ok all t] by blast
  have i: "i < length (frames s)" "i < length (frames t)" using e by (auto simp: takable_def released_def)
  have ne: "(fd, pn) \<noteq> (file_desc (frame_of s i), page_num (page (frame_of s i)))"
    using map_okD [OF pool_okD(3) [OF ok], of "bp_key fd pn" i] n i(1) all by auto
  have "disk_page t (file_desc (frame_of s j)) (page_num (page (frame_of s j))) =
      disk_page s (file_desc (frame_of s j)) (page_num (page (frame_of s j)))"
    if "j < length (frames s)" "j \<noteq> i" for j
  proof (rule e(8), rule notI)
    assume "(file_desc (frame_of s j), page_num (page (frame_of s j))) =
      (file_desc (frame_of s i), page_num (page (frame_of s i)))"
    then have "list_map s (frame_key (frame_of s i)) = Some j" "list_map s (frame_key (frame_of s i)) = Some i"
      using map_okD [OF pool_okD(3) [OF ok]] all that i(1) by auto
    then show False using that(2) by simp
  qed
  then have post: "alloc_post fd pn s i (alloc_finish fd pn i t)"
    using e(2,4-10) i n r ne alloc_finish_claims [OF e(3)] pview_alloc_finish [OF e(3) _ r]
    by (auto simp: alloc_post_def alloc_finish_sel)
  show ?thesis by (rule that [OF _ post]) (use None e(1) in \<open>simp add: alloc_def run\<close>)
qed

text \<open>Putting the right page into a claimed frame restores the invariant.\<close>

lemma claimed_fill:
  assumes c: "claimed i fd pn s" and g: "allocated (g (frame_of s i))" "file_desc (g (frame_of s i)) = fd"
      "page_num (page (g (frame_of s i))) = pn"
    and f: "frame_ok s (g (frame_of s i))"
  shows "pool_ok (upd_frame i g s)" (is "pool_ok ?t")
proof -
  have i: "i < length (frames s)" using c by (simp add: claimed_def)
  show ?thesis
  proof (rule pool_okI)
    show "map_ok ?t"
      using c g i by (auto simp: claimed_def map_ok_def frame_of_upd_frame)
    show "frame_ok ?t (frame_of ?t j)" if "j < length (frames ?t)" for j
      using c f i that by (cases "j = i") (auto simp: claimed_def frame_ok_def frame_of_upd_frame)
    show "file_ok ?t fh" if "open_list ?t fid = Some fh" for fid fh
    proof -
      have "open_list s fid = Some fh" using that by simp
      then have "hdr_frame fh \<noteq> i" "file_ok s fh" using c unfolding claimed_def by blast+
      then show ?thesis using i by (intro file_ok_upd_other)
    qed
  qed (use c in \<open>auto simp: claimed_def lru_ok_def disk_ok_def\<close>)
qed

section \<open>Operations on a resident page\<close>

text \<open>Changing a pinned frame without moving it: its pin count, its dirty mark or its payload.\<close>

lemma pool_ok_upd_frame:
  assumes ok: "pool_ok s" and i: "i < length (frames s)"
    and g: "allocated (g (frame_of s i)) = allocated (frame_of s i)"
      "file_desc (g (frame_of s i)) = file_desc (frame_of s i)"
      "page_num (page (g (frame_of s i))) = page_num (page (frame_of s i))"
    and f: "frame_ok s (g (frame_of s i))"
    and h: "\<And>fid fh. open_list s fid = Some fh \<Longrightarrow> hdr_frame fh = i \<Longrightarrow> file_ok (upd_frame i g s) fh"
  shows "pool_ok (upd_frame i g s)" (is "pool_ok ?t")
proof (rule pool_okI)
  note ok' = pool_okD [OF ok]
  show "map_ok ?t"
    using ok'(3) g i unfolding map_ok_def by (simp add: frame_of_upd_frame)
  show "frame_ok ?t (frame_of ?t j)" if "j < length (frames ?t)" for j
    using ok'(5) [of j] f i that by (cases "j = i") (auto simp: frame_ok_def frame_of_upd_frame)
  show "file_ok ?t fh" if "open_list ?t fid = Some fh" for fid fh
    using ok'(6) [of fid fh] h [of fid fh] i that by (cases "hdr_frame fh = i") (auto intro: file_ok_upd_other)
qed (use pool_okD [OF ok] in \<open>auto simp: lru_ok_def disk_ok_def\<close>)

lemma pool_ok_lru_update:
  assumes "pool_ok s" "i < length (frames s)"
  shows "pool_ok (lru_update i s)"
proof (rule pool_okI)
  note ok = pool_okD [OF assms(1)]
  show "lru_ok (lru_update i s)" by (rule lru_ok_update [OF ok(2) assms(2)])
  show "disk_ok (lru_update i s)" using ok(4) by (simp add: disk_ok_def)
  show "map_ok (lru_update i s)" using ok(3) by (simp add: map_ok_def)
  show "frame_ok (lru_update i s) (frame_of (lru_update i s) j)" if "j < length (frames (lru_update i s))" for j
    using ok(5) that by (simp add: frame_ok_def)
  show "file_ok (lru_update i s) fh" if "open_list (lru_update i s) fid = Some fh" for fid fh
    by (rule file_ok_cong [OF ok(6)]) (use that in simp_all)
qed (use pool_okD [OF assms(1)] in simp)

section \<open>One file, as its client sees it\<close>

definition file_fd :: "'d pool \<Rightarrow> int \<Rightarrow> int" where
  "file_fd s fid = (case open_list s fid of None \<Rightarrow> - 1 | Some fh \<Rightarrow> fh_file_desc fh)"

definition file_hdr :: "'d pool \<Rightarrow> int \<Rightarrow> (BPFileSubHeader \<times> byte list) option" where
  "file_hdr s fid = (case open_list s fid of
      None \<Rightarrow> None
    | Some fh \<Rightarrow> (case data (page (frame_of s (hdr_frame fh))) of
        HdrData h bm \<Rightarrow> Some (h, bm)
      | Payload _ \<Rightarrow> None))"

definition file_valid :: "'d pool \<Rightarrow> int \<Rightarrow> int \<Rightarrow> bool" where
  "file_valid s fid p \<longleftrightarrow> (case file_hdr s fid of
      None \<Rightarrow> False
    | Some (h, bm) \<Rightarrow> 0 < p \<and> p < page_count h \<and> bit_at bm (nat p))"

definition file_view :: "'d pool \<Rightarrow> int \<Rightarrow> int \<Rightarrow> 'd option" where
  "file_view s fid p = (if file_valid s fid p
     then (case pview s (file_fd s fid) p of
         None \<Rightarrow> None
       | Some pg \<Rightarrow> (case data pg of Payload d \<Rightarrow> Some d | HdrData _ _ \<Rightarrow> None))
     else None)"

definition file_pins :: "'d pool \<Rightarrow> int \<Rightarrow> int \<Rightarrow> nat" where
  "file_pins s fid p = (if file_valid s fid p
     then (case list_map s (bp_key (file_fd s fid) p) of
         Some i \<Rightarrow> unat (pin_count (frame_of s i))
       | None \<Rightarrow> 0)
     else 0)"

definition file_held :: "'d pool \<Rightarrow> int \<Rightarrow> BPPageHandle \<Rightarrow> int \<Rightarrow> bool" where
  "file_held s fid h p \<longleftrightarrow> is_open h \<and> file_valid s fid p \<and>
     list_map s (bp_key (file_fd s fid) p) = Some (frame h) \<and> pin_count (frame_of s (frame h)) \<noteq> 0"

definition file_stable :: "'d pool \<Rightarrow> int \<Rightarrow> int \<Rightarrow> bool" where
  "file_stable s fid p \<longleftrightarrow> \<not> file_valid s fid p \<or> (case list_map s (bp_key (file_fd s fid) p) of
      None \<Rightarrow> True
    | Some i \<Rightarrow> dirty (frame_of s i) \<or> disk_page s (file_fd s fid) p = Some (page (frame_of s i)))"

text \<open>The frames that other files and the header page do not occupy.\<close>

definition file_frames :: "'d pool \<Rightarrow> int \<Rightarrow> nat set" where
  "file_frames s fid = {i. i < length (frames s) \<and>
     \<not> (allocated (frame_of s i) \<and> pin_count (frame_of s i) \<noteq> 0 \<and>
        (file_desc (frame_of s i) \<noteq> file_fd s fid \<or> page_num (page (frame_of s i)) = 0))}"

definition file_cap :: "'d pool \<Rightarrow> int \<Rightarrow> nat" where
  "file_cap s fid = card (file_frames s fid)"

definition file_count :: "'d pool \<Rightarrow> int \<Rightarrow> int" where
  "file_count s fid = (case file_hdr s fid of None \<Rightarrow> 0 | Some (h, bm) \<Rightarrow> page_count h)"

definition contract_ok :: "int \<Rightarrow> 'd pool \<Rightarrow> bool" where
  "contract_ok fid s \<longleftrightarrow> pool_ok s \<and> 0 \<le> fid \<and> fid < MAX_OPEN_FILE \<and> open_list s fid \<noteq> None \<and>
     (\<forall>i < length (frames s). allocated (frame_of s i) \<and> file_desc (frame_of s i) = file_fd s fid \<and>
        page_num (page (frame_of s i)) \<noteq> 0 \<longrightarrow> file_valid s fid (page_num (page (frame_of s i)))) \<and>
     (\<forall>a b fa fb. open_list s a = Some fa \<and> open_list s b = Some fb \<and>
        fh_file_desc fa = fh_file_desc fb \<longrightarrow> a = b)"

lemma contract_okE:
  assumes "contract_ok fid s"
  obtains fh h bm where "open_list s fid = Some fh" "file_fd s fid = fh_file_desc fh"
    "file_hdr s fid = Some (h, bm)" "hdr_frame fh < length (frames s)"
    "data (page (frame_of s (hdr_frame fh))) = HdrData h bm"
    "hdr_wf h bm (file_length s (file_fd s fid))" "pool_ok s"
    "check_file_id fid s = Some (Inr fh, s)"
    "file_desc (frame_of s (hdr_frame fh)) = file_fd s fid"
    "page_num (page (frame_of s (hdr_frame fh))) = 0" "pin_count (frame_of s (hdr_frame fh)) \<noteq> 0"
    "allocated (frame_of s (hdr_frame fh))"
proof -
  obtain fh where fh: "open_list s fid = Some fh" and "pool_ok s" "0 \<le> fid" "fid < MAX_OPEN_FILE"
    using assms by (auto simp: contract_ok_def)
  then have "file_ok s fh" by (auto dest: pool_okD)
  then show ?thesis
    using that [of fh] fh \<open>pool_ok s\<close> \<open>0 \<le> fid\<close> \<open>fid < MAX_OPEN_FILE\<close>
    by (auto simp: file_ok_def Let_def file_fd_def file_hdr_def check_file_id_def split: page_data.splits)
qed

lemma valid_on_disk:
  assumes "contract_ok fid s" "file_valid s fid p"
  shows "disk_page s (file_fd s fid) p \<noteq> None" "key_range (file_fd s fid)" "key_range p" "0 < p"
proof -
  obtain fh h bm where h: "file_hdr s fid = Some (h, bm)" "hdr_wf h bm (file_length s (file_fd s fid))" "pool_ok s"
    by (rule contract_okE [OF assms(1)]) blast
  show "0 < p" using assms(2) h by (simp add: file_valid_def)
  show d: "disk_page s (file_fd s fid) p \<noteq> None"
    using assms(2) h by (simp add: file_valid_def hdr_wf_def os_page_length del: not_None_eq)
  show "key_range (file_fd s fid)" "key_range p"
    using disk_page_range [OF pool_okD(1,4) [OF h(3)] d] by blast+
qed

lemma resident_page:
  assumes "contract_ok fid s" "file_valid s fid p" "list_map s (bp_key (file_fd s fid) p) = Some i"
  shows "i < length (frames s)" "allocated (frame_of s i)" "file_desc (frame_of s i) = file_fd s fid"
    "page_num (page (frame_of s i)) = p" "frame_ok s (frame_of s i)"
proof -
  have ok: "pool_ok s" using assms(1) by (simp add: contract_ok_def)
  show i: "i < length (frames s)" "allocated (frame_of s i)"
    using map_okD [OF pool_okD(3) [OF ok]] assms(3) by auto
  have "bp_key (file_fd s fid) p = frame_key (frame_of s i)"
    using map_okD [OF pool_okD(3) [OF ok]] assms(3) by auto
  then show "file_desc (frame_of s i) = file_fd s fid" "page_num (page (frame_of s i)) = p"
    using bp_key_inj [OF valid_on_disk(2,3) [OF assms(1,2)] frame_range(1,2) [OF ok i]] by auto
  show "frame_ok s (frame_of s i)" by (rule pool_okD(5) [OF ok i(1)])
qed

lemma valid_view:
  assumes "contract_ok fid s" "file_valid s fid p"
  obtains pg d where "pview s (file_fd s fid) p = Some pg" "data pg = Payload d" "page_num pg = p"
    "file_view s fid p = Some d"
proof -
  have ok: "pool_ok s" using assms(1) by (simp add: contract_ok_def)
  have "\<exists>pg d. pview s (file_fd s fid) p = Some pg \<and> data pg = Payload d \<and> page_num pg = p"
  proof (cases "list_map s (bp_key (file_fd s fid) p)")
    case None
    then show ?thesis
      using pool_okD(4) [OF ok] valid_on_disk [OF assms] unfolding disk_ok_def
      by (auto simp: pview_def) (metis less_irrefl page_data.exhaust)
  next
    case (Some i)
    note r = resident_page [OF assms Some]
    have "\<not> (\<exists>h bm. data (page (frame_of s i)) = HdrData h bm)"
      using r(2,4,5) valid_on_disk(4) [OF assms] by (auto simp: frame_ok_def)
    then show ?thesis using Some r(4) by (auto simp: pview_def) (metis page_data.exhaust)
  qed
  then show ?thesis using that assms(2) by (auto simp: file_view_def)
qed

lemma view_valid: "file_view s fid p = Some d \<Longrightarrow> file_valid s fid p"
  by (simp add: file_view_def split: if_splits)

lemma view_None: "contract_ok fid s \<Longrightarrow> file_view s fid p = None \<longleftrightarrow> \<not> file_valid s fid p"
  by (metis option.distinct(1) valid_view view_valid option.exhaust)

lemma held_resident:
  assumes "contract_ok fid s" "file_held s fid h p"
  shows "file_valid s fid p" "list_map s (bp_key (file_fd s fid) p) = Some (frame h)"
    "frame h < length (frames s)" "is_open h" "pin_count (frame_of s (frame h)) \<noteq> 0"
    "file_pins s fid p = unat (pin_count (frame_of s (frame h)))"
  using assms resident_page [of fid s p "frame h"] by (auto simp: file_held_def file_pins_def)

text \<open>An update of the frame of a resident page, seen from the client.\<close>

lemma client_upd_frame:
  assumes c: "contract_ok fid s" and v: "file_valid s fid p"
    and i: "list_map s (bp_key (file_fd s fid) p) = Some i"
    and g: "allocated (g (frame_of s i))" "file_desc (g (frame_of s i)) = file_fd s fid"
      "page_num (page (g (frame_of s i))) = p" "frame_ok s (g (frame_of s i))"
  shows "contract_ok fid (upd_frame i g s)" "file_fd (upd_frame i g s) fid = file_fd s fid"
    "file_hdr (upd_frame i g s) fid = file_hdr s fid" "file_valid (upd_frame i g s) fid = file_valid s fid"
proof -
  note r = resident_page [OF c v i]
  note p = valid_on_disk(4) [OF c v]
  show fd: "file_fd (upd_frame i g s) fid = file_fd s fid" by (simp add: file_fd_def)
  have hdr: "hdr_frame fh \<noteq> i" if "open_list s a = Some fh" for a fh
    using c that r(4) p unfolding contract_ok_def by (auto simp: file_ok_def Let_def dest!: pool_okD(6))
  then show h: "file_hdr (upd_frame i g s) fid = file_hdr s fid"
    using r(1) by (auto simp: file_hdr_def frame_of_upd_frame split: option.splits)
  then show v': "file_valid (upd_frame i g s) fid = file_valid s fid"
    by (auto simp: file_valid_def fun_eq_iff)
  have "pool_ok (upd_frame i g s)"
    using c r g hdr by (intro pool_ok_upd_frame) (auto simp: contract_ok_def)
  then show "contract_ok fid (upd_frame i g s)"
    using c r g v' fd v by (auto simp: contract_ok_def frame_of_upd_frame)
qed

lemma resident_unique:
  assumes "contract_ok fid s" "file_valid s fid p" "file_valid s fid q"
    "list_map s (bp_key (file_fd s fid) p) = Some i" "list_map s (bp_key (file_fd s fid) q) = Some i"
  shows "p = q"
  using resident_page(4) [OF assms(1,2,4)] resident_page(4) [OF assms(1,3,5)] by simp

lemma client_upd_sel:
  assumes c: "contract_ok fid s" and v: "file_valid s fid p"
    and i: "list_map s (bp_key (file_fd s fid) p) = Some i"
    and g: "allocated (g (frame_of s i))" "file_desc (g (frame_of s i)) = file_fd s fid"
      "page_num (page (g (frame_of s i))) = p" "frame_ok s (g (frame_of s i))"
  defines "t \<equiv> upd_frame i g s"
  shows "page (g (frame_of s i)) = page (frame_of s i) \<Longrightarrow> file_view t fid = file_view s fid"
    and "data (page (g (frame_of s i))) = Payload d \<Longrightarrow> file_view t fid = (file_view s fid)(p \<mapsto> d)"
    and "file_pins t fid = (file_pins s fid)(p := unat (pin_count (g (frame_of s i))))"
    and "\<And>h q. file_held s fid h q \<Longrightarrow> q \<noteq> p \<or> pin_count (g (frame_of s i)) \<noteq> 0 \<Longrightarrow> file_held t fid h q"
    and "\<And>q. file_stable s fid q \<Longrightarrow> q \<noteq> p \<or> dirty (g (frame_of s i)) \<or>
       page (g (frame_of s i)) = page (frame_of s i) \<and> dirty (g (frame_of s i)) = dirty (frame_of s i) \<Longrightarrow>
       file_stable t fid q"
    and "dirty (g (frame_of s i)) \<Longrightarrow> file_stable t fid p"
    and "file_cap t fid = file_cap s fid" and "file_count t fid = file_count s fid"
proof -
  note u = client_upd_frame [where g = g, OF c v i g, folded t_def]
  note r = resident_page [OF c v i]
  note p = valid_on_disk(4) [OF c v]
  have fr: "frame_of t j = (if j = i then g (frame_of s i) else frame_of s j)" for j
    using frame_of_upd_frame [OF r(1)] by (simp add: t_def)
  have sel: "list_map t = list_map s" "os t = os s" "length (frames t) = length (frames s)"
    by (simp_all add: t_def)
  have other: "list_map s (bp_key (file_fd s fid) q) \<noteq> Some i" if "file_valid s fid q" "q \<noteq> p" for q
    using resident_unique [OF c that(1) v _ i] that(2) by auto
  show "file_view t fid = file_view s fid" if "page (g (frame_of s i)) = page (frame_of s i)"
    using that by (auto simp: fun_eq_iff file_view_def pview_def u sel fr split: option.splits)
  show "file_view t fid = (file_view s fid)(p \<mapsto> d)" if "data (page (g (frame_of s i))) = Payload d"
  proof (rule ext)
    show "file_view t fid q = ((file_view s fid)(p \<mapsto> d)) q" for q
      using that other [of q] v i
      by (cases "q = p") (auto simp: file_view_def pview_def u sel fr split: option.splits)
  qed
  show "file_pins t fid = (file_pins s fid)(p := unat (pin_count (g (frame_of s i))))"
  proof (rule ext)
    show "file_pins t fid q = ((file_pins s fid)(p := unat (pin_count (g (frame_of s i))))) q" for q
      using other [of q] v i by (cases "q = p") (auto simp: file_pins_def u sel fr split: option.splits)
  qed
  show "file_held t fid h q" if "file_held s fid h q" "q \<noteq> p \<or> pin_count (g (frame_of s i)) \<noteq> 0" for h q
    using that other [of q] by (cases "q = p") (auto simp: file_held_def u sel fr)
  show "file_stable t fid q" if "file_stable s fid q" "q \<noteq> p \<or> dirty (g (frame_of s i)) \<or>
       page (g (frame_of s i)) = page (frame_of s i) \<and> dirty (g (frame_of s i)) = dirty (frame_of s i)" for q
    using that other [of q] i by (cases "q = p") (auto simp: file_stable_def u sel fr split: option.splits)
  show "file_stable t fid p" if "dirty (g (frame_of s i))"
    using that i by (simp add: file_stable_def sel fr u)
  have "file_frames t fid = file_frames s fid"
    using r g p by (auto simp: file_frames_def u sel fr)
  then show "file_cap t fid = file_cap s fid" by (simp add: file_cap_def)
  show "file_count t fid = file_count s fid" by (simp add: file_count_def u)
qed

lemma lru_update_client:
  "contract_ok fid s \<Longrightarrow> i < length (frames s) \<Longrightarrow> contract_ok fid (lru_update i s)"
  "file_view (lru_update i s) fid = file_view s fid" "file_pins (lru_update i s) fid = file_pins s fid"
  "file_held (lru_update i s) fid = file_held s fid" "file_stable (lru_update i s) fid = file_stable s fid"
  "file_cap (lru_update i s) fid = file_cap s fid" "file_count (lru_update i s) fid = file_count s fid"
  "file_valid (lru_update i s) fid = file_valid s fid" "file_fd (lru_update i s) fid = file_fd s fid"
proof -
  have h: "file_hdr (lru_update i s) fid = file_hdr s fid" by (simp add: file_hdr_def split: option.split)
  show fd: "file_fd (lru_update i s) fid = file_fd s fid" by (simp add: file_fd_def)
  show v: "file_valid (lru_update i s) fid = file_valid s fid" by (simp add: file_valid_def h fun_eq_iff)
  show "contract_ok fid (lru_update i s)" if "contract_ok fid s" "i < length (frames s)"
    using that unfolding contract_ok_def v fd by (auto intro: pool_ok_lru_update)
  show "file_view (lru_update i s) fid = file_view s fid"
    by (simp add: fun_eq_iff file_view_def v fd pview_def split: option.split)
  show "file_pins (lru_update i s) fid = file_pins s fid" by (simp add: fun_eq_iff file_pins_def v fd split: option.split)
  show "file_held (lru_update i s) fid = file_held s fid" by (simp add: fun_eq_iff file_held_def v fd)
  show "file_stable (lru_update i s) fid = file_stable s fid" by (simp add: fun_eq_iff file_stable_def v fd split: option.split)
  show "file_cap (lru_update i s) fid = file_cap s fid" by (simp add: file_cap_def file_frames_def fd)
  show "file_count (lru_update i s) fid = file_count s fid" by (simp add: file_count_def h)
qed

section \<open>The operations keep the contract\<close>

lemma hdr_get_run:
  assumes "hdr_frame fh < length (frames s)" "data (page (frame_of s (hdr_frame fh))) = HdrData h bm"
  shows "hdr_get fh s = Some (Inr (h, bm), s)"
  using assms by (simp add: hdr_get_def run)

lemma check_page_num_run:
  assumes c: "contract_ok fid s" and fh: "open_list s fid = Some fh"
  shows "file_valid s fid p \<Longrightarrow> check_page_num p fh s = Some (Inr (), s)"
    and "0 < p \<Longrightarrow> \<not> file_valid s fid p \<Longrightarrow>
      check_page_num p fh s = Some (Inl BUFFERPOOL_INVALID_PAGE_NUM, s)"
proof -
  obtain h bm where h: "file_hdr s fid = Some (h, bm)" "hdr_frame fh < length (frames s)"
      "data (page (frame_of s (hdr_frame fh))) = HdrData h bm" "hdr_wf h bm (file_length s (file_fd s fid))"
    by (rule contract_okE [OF c]) (use fh in simp)
  have bit: "bitmap_get_bit bm p = Some (bit_at bm (nat p))" if "0 < p" "p < page_count h"
    using that h(4) by (intro bitmap_get_bit_run) (auto simp: hdr_wf_def max_pages_def)
  show "check_page_num p fh s = Some (Inr (), s)" if "file_valid s fid p"
    using that h bit by (simp add: check_page_num_def hdr_get_run run file_valid_def)
  show "check_page_num p fh s = Some (Inl BUFFERPOOL_INVALID_PAGE_NUM, s)" if "0 < p" "\<not> file_valid s fid p"
    using that h bit by (cases "p < page_count h") (auto simp: check_page_num_def hdr_get_run run file_valid_def)
qed

lemma pin_frame_ok:
  "frame_ok s f \<Longrightarrow> k \<noteq> 0 \<or> dirty f \<or> disk_page s (file_desc f) (page_num (page f)) = Some (page f) \<Longrightarrow>
   frame_ok s (f\<lparr>pin_count := k\<rparr>)"
  by (auto simp: frame_ok_def)

lemma unat_Suc_pin:
  assumes "unat (k :: 32 word) < 2 ^ 32 - 1"
  shows "unat (k + 1) = Suc (unat k) \<and> k + 1 \<noteq> 0"
proof -
  have "k \<noteq> - 1" using assms by (auto simp: unsigned_minus_1_eq_mask mask_eq_exp_minus_1)
  then have "k + 1 \<noteq> 0" by (metis add_eq_0_iff2)
  then show ?thesis using unatSuc [of k] by (simp add: add.commute)
qed

text \<open>The promise of \<^verbatim>\<open>get_this_page\<close> to its caller.\<close>

definition get_post :: "int \<Rightarrow> int \<Rightarrow> 'd pool \<Rightarrow> BPPageHandle \<Rightarrow> 'd pool \<Rightarrow> bool" where
  "get_post fid p s h s' \<longleftrightarrow> contract_ok fid s' \<and>
    file_view s' fid = file_view s fid \<and> file_pins s' fid = (file_pins s fid)(p := Suc (file_pins s fid p)) \<and>
    file_held s' fid h p \<and> file_cap s' fid = file_cap s fid \<and> file_count s' fid = file_count s fid \<and>
    (\<forall>h' q. file_held s fid h' q \<longrightarrow> file_held s' fid h' q) \<and>
    (\<forall>q. file_stable s fid q \<longrightarrow> file_stable s' fid q)"

lemma get_resident:
  assumes c: "contract_ok fid s" and v: "file_valid s fid p"
    and i: "list_map s (bp_key (file_fd s fid) p) = Some i" and b: "file_pins s fid p < 2 ^ 32 - 1"
  shows "\<exists>h s'. get_this_page fid p s = Some (Inr h, s') \<and> get_post fid p s h s'"
proof -
  note r = resident_page [OF c v i]
  let ?t = "lru_update i s" let ?g = "pin_count_update (\<lambda>p. p + 1)"
  obtain fh where fh: "open_list s fid = Some fh" "file_fd s fid = fh_file_desc fh"
      "check_file_id fid s = Some (Inr fh, s)"
    by (rule contract_okE [OF c]) blast
  have run: "get_this_page fid p s = Some (Inr \<lparr>is_open = True, frame = i\<rparr>, upd_frame i ?g ?t)"
    using fh i r(1) check_page_num_run(1) [OF c fh(1) v]
    by (simp add: get_this_page_def run bpm_get_def bpm_find_def)
  note l = lru_update_client [where s = s and i = i and fid = fid]
  have pin: "unat (pin_count (frame_of s i) + 1) = Suc (file_pins s fid p)" "pin_count (frame_of s i) + 1 \<noteq> 0"
    using unat_Suc_pin [of "pin_count (frame_of s i)"] b v i by (auto simp: file_pins_def)
  have t: "contract_ok fid ?t" "file_valid ?t fid p" "list_map ?t (bp_key (file_fd ?t fid) p) = Some i"
    using l c r v i by simp_all
  have g: "allocated (?g (frame_of ?t i))" "file_desc (?g (frame_of ?t i)) = file_fd ?t fid"
    "page_num (page (?g (frame_of ?t i))) = p" "frame_ok ?t (?g (frame_of ?t i))"
    using r pin(2) l by (simp_all add: frame_ok_def)
  note u = client_upd_frame [where g = ?g, OF t g] and w = client_upd_sel [where g = ?g, OF t g]
  show ?thesis
    unfolding run get_post_def
  proof (intro exI conjI)
    show "contract_ok fid (upd_frame i ?g ?t)" by (rule u(1))
    show "file_view (upd_frame i ?g ?t) fid = file_view s fid" using w(1) l(2) by simp
    show "file_pins (upd_frame i ?g ?t) fid = (file_pins s fid)(p := Suc (file_pins s fid p))"
      using w(3) l(3) pin by simp
    show "file_held (upd_frame i ?g ?t) fid \<lparr>is_open = True, frame = i\<rparr> p"
      using u(2,4) l(8,9) v i r(1) pin by (simp add: file_held_def frame_of_upd_frame)
    show "file_cap (upd_frame i ?g ?t) fid = file_cap s fid" using w(7) l(6) by simp
    show "file_count (upd_frame i ?g ?t) fid = file_count s fid" using w(8) l(7) by simp
    show "\<forall>h' q. file_held s fid h' q \<longrightarrow> file_held (upd_frame i ?g ?t) fid h' q"
      using w(4) l(4) pin by simp
    show "\<forall>q. file_stable s fid q \<longrightarrow> file_stable (upd_frame i ?g ?t) fid q"
      using w(5) l(5) by simp
  qed simp
qed

lemma claimed_os:
  assumes "claimed i fd pn s" "os_ok w" "os_page w = disk_page s" "os_length w = file_length s"
  shows "claimed i fd pn (s\<lparr>os := w\<rparr>)"
proof -
  have "file_ok (s\<lparr>os := w\<rparr>) fh" if "file_ok s fh" for fh
    by (rule file_ok_cong [OF that]) (use assms in simp_all)
  then show ?thesis
    using assms unfolding claimed_def by (simp add: lru_ok_def disk_ok_def frame_ok_def)
qed

lemma load_into_run:
  assumes c: "claimed i (fh_file_desc fh) pn s" and d: "disk_page s (fh_file_desc fh) pn = Some pg" "page_num pg = pn"
  obtains w where "load_into pn fh i s = Some (Inr \<lparr>is_open = True, frame = i\<rparr>,
      upd_frame i (\<lambda>f. f\<lparr>pin_count := 1, page := pg\<rparr>) (s\<lparr>os := w\<rparr>))"
    "pool_ok (upd_frame i (\<lambda>f. f\<lparr>pin_count := 1, page := pg\<rparr>) (s\<lparr>os := w\<rparr>))"
    "os_page w = disk_page s" "os_length w = file_length s"
proof -
  have i: "i < length (frames s)" "os_ok (os s)" using c by (auto simp: claimed_def)
  obtain w1 w where w: "os_lseek (fh_file_desc fh) pn (os s) = (pn * int BP_PAGE_SIZE, w1)"
    "os_read (fh_file_desc fh) w1 = (Some pg, w)" "os_ok w" "os_page w = disk_page s" "os_length w = file_length s"
    by (rule seek_read [OF i(2) d(1)]) blast
  have "0 \<le> pn" using d(1) os_page_length [of "os s" "fh_file_desc fh" pn] by simp
  then have pn: "pn * int BP_PAGE_SIZE \<noteq> - 1" by (metis mult_nonneg_nonneg neg_0_le_iff_le not_one_le_zero of_nat_0_le_iff)
  let ?t = "upd_frame i (\<lambda>f. f\<lparr>pin_count := 1, page := pg\<rparr>) (s\<lparr>os := w\<rparr>)"
  have "upd_frame i (page_update (\<lambda>_. pg)) ((upd_frame i (pin_count_update (\<lambda>_. 1)) s)\<lparr>os := w\<rparr>) = ?t"
    using i by (simp add: upd_frame_def)
  then have run: "load_into pn fh i s = Some (Inr \<lparr>is_open = True, frame = i\<rparr>, ?t)"
    using w i pn by (simp add: load_into_def load_page_def run)
  have "frame_ok (s\<lparr>os := w\<rparr>) ((\<lambda>f. f\<lparr>pin_count := 1, page := pg\<rparr>) (frame_of (s\<lparr>os := w\<rparr>) i))"
    using c d w(4) unfolding frame_ok_def claimed_def disk_ok_def by auto
  then have "pool_ok ?t"
    using d c claimed_os [OF c w(3-5)] by (intro claimed_fill [where fd = "fh_file_desc fh" and pn = pn]) (simp_all add: claimed_def)
  then show ?thesis using that run w(4,5) by blast
qed

text \<open>The client's view after a frame has been claimed for page \<^verbatim>\<open>p\<close> and filled.\<close>

lemma option_without:
  assumes "\<And>j. a = Some j \<longleftrightarrow> b = Some j \<and> j \<noteq> i"
  shows "a = (if b = Some i then None else b)"
proof (cases a)
  case None
  then show ?thesis using assms by (cases b) auto
next
  case (Some j)
  then show ?thesis using assms [of j] by simp
qed

lemma claimed_map:
  assumes ok: "pool_ok s" and post: "alloc_post fd p s i s'" and k: "k \<noteq> bp_key fd p"
  shows "list_map s' k = (if list_map s k = Some i then None else list_map s k)"
proof -
  have m: "list_map s' k = Some j \<longleftrightarrow> (if j = i then k = bp_key fd p
      else j < length (frames s') \<and> allocated (frame_of s' j) \<and> k = frame_key (frame_of s' j))" for j
    using post unfolding alloc_post_def claimed_def by blast
  have fr: "length (frames s') = length (frames s)" "\<And>j. j \<noteq> i \<Longrightarrow> frame_of s' j = frame_of s j"
    using post by (simp_all add: alloc_post_def)
  show ?thesis
  proof (rule option_without)
    show "list_map s' k = Some j \<longleftrightarrow> list_map s k = Some j \<and> j \<noteq> i" for j
      using m [of j] fr(1) fr(2) [of j] k map_okD [OF pool_okD(3) [OF ok], of k j] by (cases "j = i") simp_all
  qed
qed

text \<open>Frame \<^verbatim>\<open>i\<close> was taken from another page, or was free, and now holds page
  \<^verbatim>\<open>p\<close>; nothing else has moved.\<close>

definition moved_in :: "int \<Rightarrow> int \<Rightarrow> nat \<Rightarrow> 'd pool \<Rightarrow> 'd pool \<Rightarrow> bool" where
  "moved_in fid p i s t \<longleftrightarrow> takable s i \<and> pool_ok t \<and>
     (\<forall>a fh. open_list s a = Some fh \<longrightarrow> hdr_frame fh \<noteq> i) \<and> open_list t = open_list s \<and>
     length (frames t) = length (frames s) \<and> (\<forall>j. j \<noteq> i \<longrightarrow> frame_of t j = frame_of s j) \<and>
     list_map t (bp_key (file_fd s fid) p) = Some i \<and>
     (\<forall>k. k \<noteq> bp_key (file_fd s fid) p \<longrightarrow>
        list_map t k = (if list_map s k = Some i then None else list_map s k)) \<and>
     (\<forall>q. file_valid s fid q \<and> q \<noteq> p \<longrightarrow> pview t (file_fd s fid) q = pview s (file_fd s fid) q) \<and>
     (\<forall>j < length (frames s). j \<noteq> i \<and> allocated (frame_of s j) \<longrightarrow>
        disk_page t (file_desc (frame_of s j)) (page_num (page (frame_of s j))) =
        disk_page s (file_desc (frame_of s j)) (page_num (page (frame_of s j)))) \<and>
     allocated (frame_of t i) \<and> file_desc (frame_of t i) = file_fd s fid \<and>
     page_num (page (frame_of t i)) = p \<and> pin_count (frame_of t i) = 1 \<and>
     disk_page s (file_fd s fid) p = Some (page (frame_of t i)) \<and>
     disk_page t (file_fd s fid) p = Some (page (frame_of t i))"

lemma moved_in_sel:
  assumes c: "contract_ok fid s" and v: "file_valid s fid p" and m: "moved_in fid p i s t"
  shows "file_fd t fid = file_fd s fid" "file_hdr t fid = file_hdr s fid" "file_valid t fid = file_valid s fid"
    "contract_ok fid t" "file_cap t fid = file_cap s fid"
proof -
  have t: "length (frames t) = length (frames s)" "\<And>j. j \<noteq> i \<Longrightarrow> frame_of t j = frame_of s j"
    "open_list t = open_list s" "takable s i" "file_desc (frame_of t i) = file_fd s fid"
    "page_num (page (frame_of t i)) = p" "pool_ok t"
    using m by (simp_all add: moved_in_def)
  obtain fh where fh: "open_list s fid = Some fh" by (rule contract_okE [OF c])
  then have hi: "hdr_frame fh \<noteq> i" using m unfolding moved_in_def by blast
  show fd: "file_fd t fid = file_fd s fid" by (simp add: file_fd_def t)
  show hdr: "file_hdr t fid = file_hdr s fid" using hi fh by (simp add: file_hdr_def t)
  show val: "file_valid t fid = file_valid s fid" by (simp add: file_valid_def hdr fun_eq_iff)
  have "file_frames t fid = file_frames s fid"
  proof (rule set_eqI)
    show "j \<in> file_frames t fid \<longleftrightarrow> j \<in> file_frames s fid" for j
      using t valid_on_disk(4) [OF c v] by (cases "j = i") (auto simp: file_frames_def fd takable_def)
  qed
  then show "file_cap t fid = file_cap s fid" by (simp add: file_cap_def)
  show "contract_ok fid t"
    unfolding contract_ok_def
  proof (intro conjI allI impI)
    fix j assume j: "j < length (frames t)"
      "allocated (frame_of t j) \<and> file_desc (frame_of t j) = file_fd t fid \<and> page_num (page (frame_of t j)) \<noteq> 0"
    then show "file_valid t fid (page_num (page (frame_of t j)))"
      using c v t unfolding contract_ok_def val fd by (cases "j = i") auto
  qed (use c t in \<open>auto simp: contract_ok_def\<close>)
qed

lemma moved_in_client:
  assumes c: "contract_ok fid s" and v: "file_valid s fid p" and m: "moved_in fid p i s t"
    and a: "list_map s (bp_key (file_fd s fid) p) = None"
  shows "get_post fid p s \<lparr>is_open = True, frame = i\<rparr> t"
proof -
  let ?fd = "file_fd s fid"
  note sel = moved_in_sel [OF c v m]
  note d = valid_on_disk [OF c v]
  have ok: "pool_ok s" using c by (simp add: contract_ok_def)
  have t: "\<And>j. j \<noteq> i \<Longrightarrow> frame_of t j = frame_of s j" "list_map t (bp_key ?fd p) = Some i"
    "pin_count (frame_of t i) = 1" "disk_page s ?fd p = Some (page (frame_of t i))"
    "disk_page t ?fd p = Some (page (frame_of t i))" "takable s i"
    using m by (simp_all add: moved_in_def)
  have mq: "list_map t (bp_key ?fd q) = (if list_map s (bp_key ?fd q) = Some i then None else list_map s (bp_key ?fd q))"
    if "file_valid s fid q" "q \<noteq> p" for q
    using m that d(2,3) bp_key_inj [of ?fd q ?fd p] valid_on_disk(3) [OF c that(1)] by (simp add: moved_in_def)
  have free: "pin_count (frame_of s i) = 0" if "list_map s k = Some i" for k
    using t(6) map_okD [OF pool_okD(3) [OF ok], of k i] that by (auto simp: takable_def)
  have pv: "pview t ?fd q = pview s ?fd q" if "file_valid s fid q" for q
    using m that t(2,4) a by (cases "q = p") (simp_all add: moved_in_def pview_def)
  have pins: "file_pins t fid q = (if q = p then Suc (file_pins s fid p) else file_pins s fid q)" for q
    using t(1,2,3) mq [of q] a v free by (auto simp: file_pins_def sel split: option.splits)
  have held: "file_held t fid h q" if "file_held s fid h q" for h q
  proof -
    have "frame h \<noteq> i" using that free by (auto simp: file_held_def)
    then show ?thesis using that mq [of q] a t(1) by (cases "q = p") (auto simp: file_held_def sel)
  qed
  have stable: "file_stable t fid q" if "file_stable s fid q" for q
  proof (cases "file_valid s fid q \<and> q \<noteq> p")
    case True
    then have q: "file_valid s fid q" "q \<noteq> p" by auto
    have "disk_page t ?fd q = disk_page s ?fd q" if "list_map s (bp_key ?fd q) = Some j" "j \<noteq> i" for j
      using m resident_page [OF c q(1) that(1)] that(2) unfolding moved_in_def by auto
    then show ?thesis
      using that mq [OF q] t(1) by (auto simp: file_stable_def sel split: option.splits)
  qed (use t in \<open>auto simp: file_stable_def sel\<close>)
  show ?thesis
    using pv pins held stable t v sel
    by (auto simp: get_post_def file_view_def file_count_def file_held_def fun_eq_iff)
qed

lemma get_absent:
  assumes c: "contract_ok fid s" and v: "file_valid s fid p"
    and a: "list_map s (bp_key (file_fd s fid) p) = None" and t: "\<exists>i. takable s i"
  shows "\<exists>h s'. get_this_page fid p s = Some (Inr h, s') \<and> get_post fid p s h s'"
proof -
  let ?fd = "file_fd s fid"
  note d = valid_on_disk [OF c v]
  obtain fh h bm where fh: "open_list s fid = Some fh" "?fd = fh_file_desc fh" "pool_ok s"
      "check_file_id fid s = Some (Inr fh, s)" "file_hdr s fid = Some (h, bm)"
    by (rule contract_okE [OF c]) blast
  obtain i s1 where al: "alloc ?fd p s = Some (Inr (Some i), s1)" and post: "alloc_post ?fd p s i s1"
    by (rule alloc_run [OF fh(3) t a d(2,3)])
  obtain pg where pg: "disk_page s ?fd p = Some pg" using d(1) by blast
  have pgn: "page_num pg = p" using pool_okD(4) [OF fh(3)] pg by (simp add: disk_ok_def)
  have cl: "claimed i (fh_file_desc fh) p s1" "disk_page s1 (fh_file_desc fh) p = Some pg"
    using post pg fh(2) by (simp_all add: alloc_post_def)
  let ?g = "\<lambda>f. f\<lparr>pin_count := 1, page := pg\<rparr>"
  obtain w where w: "load_into p fh i s1 = Some (Inr \<lparr>is_open = True, frame = i\<rparr>, upd_frame i ?g (s1\<lparr>os := w\<rparr>))"
    "pool_ok (upd_frame i ?g (s1\<lparr>os := w\<rparr>))" "os_page w = disk_page s1" "os_length w = file_length s1"
    by (rule load_into_run [OF cl pgn])
  let ?t = "upd_frame i ?g (s1\<lparr>os := w\<rparr>)"
  have run: "get_this_page fid p s = Some (Inr \<lparr>is_open = True, frame = i\<rparr>, ?t)"
    using fh al w(1) a check_page_num_run(1) [OF c fh(1) v]
    by (simp add: get_this_page_def run bpm_get_def bpm_find_def allocate_block_def)
  have map: "\<And>k. k \<noteq> bp_key ?fd p \<Longrightarrow> list_map s1 k = (if list_map s k = Some i then None else list_map s k)"
    "list_map s1 (bp_key ?fd p) = Some i" "i < length (frames s1)" "allocated (frame_of s1 i)"
    "file_desc (frame_of s1 i) = ?fd" "\<And>a fh. open_list s1 a = Some fh \<Longrightarrow> hdr_frame fh \<noteq> i"
    using claimed_map [OF fh(3) post] cl(1) fh(2) unfolding claimed_def by auto
  have "pview ?t ?fd q = pview s ?fd q" if "file_valid s fid q" "q \<noteq> p" for q
  proof -
    have "pview s1 ?fd q = pview s ?fd q" "bp_key ?fd q \<noteq> bp_key ?fd p"
      using post that valid_on_disk [OF c that(1)] d bp_key_inj [of ?fd q ?fd p] by (auto simp: alloc_post_def)
    moreover from this have "list_map s1 (bp_key ?fd q) \<noteq> Some i" using map(1) [of "bp_key ?fd q"] by auto
    ultimately show ?thesis
      using map(3) w(3) by (auto simp: pview_def frame_of_upd_frame split: option.splits)
  qed
  then have moved: "moved_in fid p i s ?t"
    using post w cl pg pgn fh(2) map
    unfolding moved_in_def alloc_post_def by (simp add: frame_of_upd_frame)
  have "get_post fid p s \<lparr>is_open = True, frame = i\<rparr> ?t"
    by (rule moved_in_client [OF c v moved a])
  then show ?thesis using run by blast
qed

end
