(* ===== verification/Pool_Stored.thy ===== *)
theory Pool_Stored
  imports Pool_Contract
begin

text \<open>
  What the clients of the pool store in their pages stays what they stored: when every page in
  memory and on disk satisfies a predicate (it has the length the client's casts expect, for
  instance), it still does after any operation of the pool that a client calls.
\<close>

definition page_good :: "('d \<Rightarrow> bool) \<Rightarrow> 'd Page \<Rightarrow> bool" where
  "page_good good pg \<longleftrightarrow> (case data pg of Payload d \<Rightarrow> good d | HdrData _ _ \<Rightarrow> True)"

definition stored_ok :: "('d \<Rightarrow> bool) \<Rightarrow> 'd pool \<Rightarrow> bool" where
  "stored_ok good s \<longleftrightarrow> good (zero_data s) \<and> (\<forall>i < length (frames s). page_good good (page (frame_of s i))) \<and>
     (\<forall>name xs pg. files (os s) name = Some xs \<longrightarrow> pg \<in> set xs \<longrightarrow> page_good good pg)"

lemma stored_ok_upd_frame:
  assumes "stored_ok good s" "page_good good (page (frame_of s i)) \<Longrightarrow> page_good good (page (g (frame_of s i)))"
  shows "stored_ok good (upd_frame i g s)"
proof -
  have "page_good good (page ((frames s)[i := g (frame_of s i)] ! j))" if "j < length (frames s)" for j
    using assms that by (cases "i = j") (auto simp: stored_ok_def)
  then show ?thesis using assms(1) by (auto simp: stored_ok_def frames_upd_frame)
qed

lemma stored_ok_files:
  assumes "stored_ok good s" "\<And>name xs pg. files w name = Some xs \<Longrightarrow> pg \<in> set xs \<Longrightarrow> page_good good pg"
  shows "stored_ok good (s\<lparr>os := w\<rparr>)"
  using assms by (auto simp: stored_ok_def)

lemma stored_ok_sel [simp]:
  "stored_ok good (lru_update i s) = stored_ok good s" "stored_ok good (s\<lparr>list_map := m\<rparr>) = stored_ok good s"
  by (simp_all add: stored_ok_def)

lemma stored_deref [preserves_intros]: "preserves (stored_ok good) (deref i)"
  by (rule preservesI) (auto simp: deref_def split: if_splits)

lemma stored_modify_frame [preserves_intros]:
  "(\<And>f. page_good good (page f) \<Longrightarrow> page_good good (page (g f))) \<Longrightarrow> preserves (stored_ok good) (modify_frame i g)"
  by (rule preservesI) (auto simp: modify_frame_def split: if_splits intro: stored_ok_upd_frame)

lemma files_lseek: "files (snd (os_lseek fd pn w)) = files w"
  by (auto simp: os_lseek_def split: option.splits)

lemma page_good_zero: "stored_ok good s \<Longrightarrow> page_good good (zero_page s)"
  by (simp add: stored_ok_def page_good_def zero_page_def)

lemma set_file_put: "set (file_put hole xs pos pg) \<subseteq> insert hole (insert pg (set xs))"
  using set_update_subset_insert [of xs pos pg] by (auto simp: file_put_def)

lemma files_write:
  assumes "files (snd (os_write hole fd pg w)) name = Some xs" "q \<in> set xs"
  shows "q = hole \<or> q = pg \<or> (\<exists>ys. files w name = Some ys \<and> q \<in> set ys)"
proof -
  have "files w name = Some xs \<or>
      (\<exists>ys pos. files w name = Some ys \<and> xs = file_put hole ys pos pg)"
    using assms(1) by (auto simp: os_write_def split: option.splits prod.splits if_splits)
  then show ?thesis
  proof
    assume "\<exists>ys pos. files w name = Some ys \<and> xs = file_put hole ys pos pg"
    then obtain ys pos where y: "files w name = Some ys" "xs = file_put hole ys pos pg" by blast
    have "q \<in> insert hole (insert pg (set ys))"
      using assms(2) unfolding y(2) by (rule set_mp [OF set_file_put])
    then show ?thesis using y(1) by auto
  qed (use assms(2) in blast)
qed

lemma stored_flush_block [preserves_intros]: "preserves (stored_ok good) (flush_block i)"
proof (rule preservesI)
  fix s r s' assume s: "stored_ok good s" and ex: "flush_block i s = Some (r, s')"
  show "stored_ok good s'"
  proof (cases "i < length (frames s)")
    case True
    let ?f = "frame_of s i"
    obtain off w where l: "os_lseek (file_desc ?f) (page_num (page ?f)) (os s) = (off, w)" by fastforce
    obtain ok w' where wr: "os_write (zero_page s) (file_desc ?f) (page ?f) w = (ok, w')" by fastforce
    have fw: "files w = files (os s)" using files_lseek [of "file_desc ?f" "page_num (page ?f)" "os s"] l by simp
    have pf: "page_good good (page ?f)" using s True by (simp add: stored_ok_def)
    have s1: "stored_ok good (s\<lparr>os := w\<rparr>)" using s fw by (intro stored_ok_files) (auto simp: stored_ok_def)
    have s2: "stored_ok good (s\<lparr>os := w'\<rparr>)"
    proof (rule stored_ok_files [OF s])
      fix name xs pg assume "files w' name = Some xs" "pg \<in> set xs"
      then have "pg = zero_page s \<or> pg = page ?f \<or> (\<exists>ys. files w name = Some ys \<and> pg \<in> set ys)"
        using files_write [of "zero_page s" "file_desc ?f" "page ?f" w name xs pg] wr by simp
      then show "page_good good pg" using page_good_zero [OF s] pf s fw by (auto simp: stored_ok_def)
    qed
    have s3: "stored_ok good (upd_frame i (dirty_update (\<lambda>_. False)) (s\<lparr>os := w'\<rparr>))"
      using s2 by (rule stored_ok_upd_frame) simp
    show ?thesis
      using ex s1 s2 s3 True l wr by (auto simp: flush_block_def run split: if_splits)
  qed (use ex in \<open>simp add: flush_block_def bindE_def deref_def\<close>)
qed

lemma os_read_mem:
  assumes "os_lseek fd pn w0 = (off, w)" "off \<noteq> - 1" "os_read fd w = (Some pg, w')"
  shows "\<exists>name xs. files w name = Some xs \<and> pg \<in> set xs"
proof -
  obtain name where n: "fds w fd = Some (name, pn)" "0 \<le> pn"
    using assms(1,2) by (auto simp: os_lseek_def split: option.splits prod.splits if_splits)
  then obtain xs where "files w name = Some xs" "pn < int (length xs)" "pg = xs ! nat pn"
    using assms(3) by (auto simp: os_read_def split: option.splits if_splits)
  then show ?thesis using n(2) by (intro exI [of _ name] exI [of _ xs]) simp
qed

lemma files_read: "files (snd (os_read fd w)) = files w"
  by (auto simp: os_read_def split: option.splits)

lemma stored_load_page [preserves_intros]: "preserves (stored_ok good) (load_page pn fh i)"
proof (rule preservesI)
  fix s r s' assume s: "stored_ok good s" and ex: "load_page pn fh i s = Some (r, s')"
  obtain off w where l: "os_lseek (fh_file_desc fh) pn (os s) = (off, w)" by fastforce
  obtain pgo w' where rd: "os_read (fh_file_desc fh) w = (pgo, w')" by fastforce
  have fw: "files w = files (os s)" "files w' = files w"
    using files_lseek [of "fh_file_desc fh" pn "os s"] files_read [of "fh_file_desc fh" w] l rd by simp_all
  have s1: "stored_ok good (s\<lparr>os := w\<rparr>)" "stored_ok good (s\<lparr>os := w'\<rparr>)"
    using s fw by (auto intro!: stored_ok_files simp: stored_ok_def)
  have pg: "page_good good pg" if "off \<noteq> - 1" "pgo = Some pg" for pg
    using os_read_mem [OF l that(1), of pg w'] rd that(2) s fw by (auto simp: stored_ok_def)
  have s2: "stored_ok good (upd_frame i (page_update (\<lambda>_. pg)) (s\<lparr>os := w'\<rparr>))" if "off \<noteq> - 1" "pgo = Some pg" for pg
    using s1(2) by (rule stored_ok_upd_frame) (use pg [OF that] in simp)
  show "stored_ok good s'"
    using ex s1 s2 l rd by (auto simp: load_page_def modify_frame_def split: if_splits option.splits)
qed

lemma stored_alloc_finish: "stored_ok good s \<Longrightarrow> stored_ok good (alloc_finish fd pn i s)"
  unfolding alloc_finish_def Let_def by (simp add: stored_ok_upd_frame)

lemma stored_evict [preserves_intros]: "preserves (stored_ok good) evict"
proof (rule preservesI)
  fix s r s' assume s: "stored_ok good s" and ex: "evict s = Some (r, s')"
  show "stored_ok good s'"
  proof (cases "find (\<lambda>i. pin_count (frame_of s i) = 0) (rev (frame_list s))")
    case None
    then show ?thesis using ex s by (auto simp: evict_def)
  next
    case (Some i)
    let ?s1 = "s\<lparr>list_map := (list_map s)(frame_key (frame_of s i) := None)\<rparr>"
    let ?m = "attempt (flush_block i) (\<lambda>r. ret (case r of Inl _ \<Rightarrow> None | Inr _ \<Rightarrow> Some i))"
    have p: "preserves (stored_ok good) ?m" by (intro preserves_intros)
    have "?m ?s1 = Some (r, s') \<or> s' = ?s1"
      using ex Some by (auto simp: evict_def Let_def split: if_splits)
    moreover have s1: "stored_ok good ?s1" using s by simp
    ultimately show ?thesis using preservesD [OF p s1] by blast
  qed
qed

lemma stored_alloc [preserves_intros]: "preserves (stored_ok good) (alloc fd pn)"
proof (rule preservesI)
  fix s r s' assume s: "stored_ok good s" and ex: "alloc fd pn s = Some (r, s')"
  have m: "preserves (stored_ok good) (modify (alloc_finish fd pn i))" for i
    by (rule preservesI) (auto simp: modify_def intro: stored_alloc_finish)
  have "preserves (stored_ok good) (bindE evict (\<lambda>r. case r of None \<Rightarrow> ret None
      | Some i \<Rightarrow> bindE (modify (alloc_finish fd pn i)) (\<lambda>_. ret (Some i))))"
    by (intro preserves_intros m) (auto split: option.split intro!: preserves_intros m)
  note p = preservesD [OF this s]
  show "stored_ok good s'"
  proof (cases "find_unallocated s")
    case None
    then show ?thesis using ex p by (simp add: alloc_def)
  next
    case (Some i)
    have "stored_ok good (upd_frame i (allocated_update (\<lambda>_. True)) s)" using s by (rule stored_ok_upd_frame) simp
    then show ?thesis using ex Some by (auto simp: alloc_def intro: stored_alloc_finish)
  qed
qed

lemma stored_check_file_id [preserves_intros]: "preserves (stored_ok good) (check_file_id fid)"
  by (rule preservesI) (auto simp: check_file_id_def split: if_splits option.splits)

lemma stored_hdr_get [preserves_intros]: "preserves (stored_ok good) (hdr_get fh)"
  unfolding hdr_get_def by (intro preserves_intros) (auto split: page_data.split intro: preserves_intros)

lemma stored_hdr_set [preserves_intros]: "preserves (stored_ok good) (hdr_set fh h bm)"
  unfolding hdr_set_def by (intro preserves_intros) (simp add: page_good_def)

lemma stored_check_page_num [preserves_intros]: "preserves (stored_ok good) (check_page_num pn fh)"
  unfolding check_page_num_def by (intro preserves_intros) (auto intro!: preserves_intros split: prod.split)

lemma stored_allocate_block [preserves_intros]: "preserves (stored_ok good) (allocate_block fd pn)"
  unfolding allocate_block_def
  by (intro preserves_intros) (auto split: option.split intro: preserves_intros)

lemma stored_dispose_block [preserves_intros]: "preserves (stored_ok good) (dispose_block i)"
  unfolding dispose_block_def by (intro preserves_intros) simp_all

lemma stored_load_into [preserves_intros]: "preserves (stored_ok good) (load_into pn fh i)"
  unfolding load_into_def by (intro preserves_intros) (auto intro!: preserves_intros split: sum.split)

lemma stored_get_this_page [preserves_intros]: "preserves (stored_ok good) (get_this_page fid pn)"
proof -
  have "preserves (stored_ok good) (\<lambda>s. case bpm_get fd pn s of
         (Some i, s1) \<Rightarrow> bindE (modify_frame i (pin_count_update (\<lambda>p. p + 1))) (\<lambda>_. ret \<lparr>is_open = True, frame = i\<rparr>) s1
       | (None, s1) \<Rightarrow> bindE (allocate_block fd pn) (load_into pn fh) s1)" for fd fh
  proof (rule preservesI)
    fix s r s' assume s: "stored_ok good s" and ex: "(case bpm_get fd pn s of
         (Some i, s1) \<Rightarrow> bindE (modify_frame i (pin_count_update (\<lambda>p. p + 1))) (\<lambda>_. ret \<lparr>is_open = True, frame = i\<rparr>) s1
       | (None, s1) \<Rightarrow> bindE (allocate_block fd pn) (load_into pn fh) s1) = Some (r, s')"
    have a: "preserves (stored_ok good) (bindE (allocate_block fd pn) (load_into pn fh))"
      by (intro preserves_intros)
    have b: "preserves (stored_ok good) (bindE (modify_frame i (pin_count_update (\<lambda>p. p + 1)))
        (\<lambda>_. ret \<lparr>is_open = True, frame = i\<rparr>))" for i
      by (intro preserves_intros) simp
    have l: "stored_ok good (lru_update i s)" for i using s by simp
    show "stored_ok good s'"
      using ex preservesD [OF a s] preservesD [OF b l]
      by (cases "bpm_find fd pn s") (simp_all add: bpm_get_def)
  qed
  then show ?thesis unfolding get_this_page_def by (intro preserves_intros)
qed

lemma stored_extend_file [preserves_intros]: "preserves (stored_ok good) (extend_file pn fh)"
proof -
  have z: "preserves (stored_ok good) (bindE (gets zero_page) (\<lambda>z.
      bindE (modify_frame i (\<lambda>f. f\<lparr>pin_count := 1, page := z\<rparr>)) m))" if "preserves (stored_ok good) (m ())" for i m
  proof (rule preservesI)
    fix s r s' assume s: "stored_ok good s" and ex: "bindE (gets zero_page) (\<lambda>z.
      bindE (modify_frame i (\<lambda>f. f\<lparr>pin_count := 1, page := z\<rparr>)) m) s = Some (r, s')"
    have "stored_ok good (upd_frame i (\<lambda>f. f\<lparr>pin_count := 1, page := zero_page s\<rparr>) s)"
      using s by (rule stored_ok_upd_frame) (simp add: page_good_zero [OF s])
    then show "stored_ok good s'"
      using ex preservesD [OF that]
      by (auto simp: bindE_def gets_def modify_frame_def split: if_splits)
  qed
  show ?thesis
    unfolding extend_file_def
    by (intro preserves_intros)
      (auto intro!: preserves_intros z split: prod.split simp: page_good_def)
qed

lemma stored_allocate_page [preserves_intros]: "preserves (stored_ok good) (allocate_page fid)"
  unfolding allocate_page_def
  by (intro preserves_intros) (auto intro!: preserves_intros split: prod.split option.split)

lemma stored_put_data [preserves_intros]: "good d \<Longrightarrow> preserves (stored_ok good) (put_data h d)"
  unfolding put_data_def by (intro preserves_intros) (simp add: page_good_def)

lemma stored_mark_dirty [preserves_intros]: "preserves (stored_ok good) (mark_dirty h)"
  unfolding mark_dirty_def by (intro preserves_intros) simp

lemma stored_unpin_page [preserves_intros]: "preserves (stored_ok good) (unpin_page h)"
  unfolding unpin_page_def by (intro preserves_intros) simp

text \<open>What a client reads satisfies the predicate.\<close>

lemma stored_view:
  assumes "contract_ok fid s" "stored_ok good s" "file_view s fid p = Some d"
  shows "good d"
proof -
  obtain pg where pg: "pview s (file_fd s fid) p = Some pg" "data pg = Payload d"
    using assms(3) by (auto simp: file_view_def split: if_splits option.splits page_data.splits)
  have "page_good good pg"
  proof (cases "list_map s (bp_key (file_fd s fid) p)")
    case None
    then have "disk_page s (file_fd s fid) p = Some pg" using pg(1) by (simp add: pview_def)
    then obtain name xs where "files (os s) name = Some xs" "pg \<in> set xs"
      by (auto simp: os_page_def split: option.splits prod.splits if_splits)
    then show ?thesis using assms(2) by (auto simp: stored_ok_def)
  next
    case (Some i)
    have "i < length (frames s)"
      using resident_page(1) [OF assms(1) view_valid [OF assms(3)] Some] .
    then show ?thesis using pg(1) Some assms(2) by (auto simp: pview_def stored_ok_def)
  qed
  then show ?thesis using pg(2) by (simp add: page_good_def)
qed

end
