(* ===== verification/Pool_Interface.thy ===== *)
theory Pool_Interface
  imports Pool_Stored
begin

text \<open>
  The buffer pool as an implementation of \<^verbatim>\<open>page_pool\<close>: the remaining operations of
  the interface (a store through a handle, \<^verbatim>\<open>mark_dirty\<close>, \<^verbatim>\<open>unpin_page\<close>,
  \<^verbatim>\<open>allocate_page\<close>), the interpretation, and the properties of the pool.
\<close>

section \<open>A frame can be found as long as pins are left\<close>

lemma file_pins_frame:
  assumes c: "contract_ok fid s"
  shows "{q. 0 < file_pins s fid q} \<subseteq> (\<lambda>i. page_num (page (frame_of s i))) ` {..<length (frames s)}"
proof
  fix q assume "q \<in> {q. 0 < file_pins s fid q}"
  then obtain i where v: "file_valid s fid q" and i: "list_map s (bp_key (file_fd s fid) q) = Some i"
    by (auto simp: file_pins_def split: if_splits option.splits)
  show "q \<in> (\<lambda>i. page_num (page (frame_of s i))) ` {..<length (frames s)}"
    using resident_page [OF c v i] by force
qed

lemma takable_exists:
  assumes c: "contract_ok fid s" and cap: "card {q. 0 < file_pins s fid q} < file_cap s fid"
  shows "\<exists>i. takable s i"
proof (rule ccontr)
  assume "\<nexists>i. takable s i"
  then have all: "allocated (frame_of s i)" "pin_count (frame_of s i) \<noteq> 0" if "i < length (frames s)" for i
    using that by (auto simp: takable_def)
  have ok: "pool_ok s" using c by (simp add: contract_ok_def)
  let ?num = "\<lambda>i. page_num (page (frame_of s i))"
  have mine: "file_desc (frame_of s i) = file_fd s fid" "?num i \<noteq> 0" "i < length (frames s)"
    if "i \<in> file_frames s fid" for i
    using that all by (auto simp: file_frames_def)
  have key: "list_map s (bp_key (file_fd s fid) (?num i)) = Some i" if "i \<in> file_frames s fid" for i
    using map_okD [OF pool_okD(3) [OF ok]] mine [OF that] all by simp
  have "inj_on ?num (file_frames s fid)"
    by (rule inj_onI) (metis key option.inject)
  moreover have "?num ` file_frames s fid \<subseteq> {q. 0 < file_pins s fid q}"
  proof (rule image_subsetI)
    fix i assume i: "i \<in> file_frames s fid"
    then have "file_valid s fid (?num i)"
      using c mine [OF i] all unfolding contract_ok_def by blast
    then show "?num i \<in> {q. 0 < file_pins s fid q}"
      using key [OF i] all(2) [OF mine(3) [OF i]] by (simp add: file_pins_def unat_gt_0)
  qed
  moreover have "finite {q. 0 < file_pins s fid q}"
    by (rule finite_subset [OF file_pins_frame [OF c]]) simp
  ultimately have "card (file_frames s fid) \<le> card {q. 0 < file_pins s fid q}"
    by (metis card_inj_on_le)
  then show False using cap by (simp add: file_cap_def)
qed

lemma get_this_page_post:
  assumes "contract_ok fid s" "file_view s fid p = Some d"
    and "0 < file_pins s fid p \<or> card {q. 0 < file_pins s fid q} < file_cap s fid"
    and "file_pins s fid p < 2 ^ 32 - 1"
  shows "\<exists>h s'. get_this_page fid p s = Some (Inr h, s') \<and> get_post fid p s h s'"
proof (cases "list_map s (bp_key (file_fd s fid) p)")
  case (Some i)
  then show ?thesis using get_resident [OF assms(1) view_valid [OF assms(2)]] assms(4) by blast
next
  case None
  then have "file_pins s fid p = 0" by (simp add: file_pins_def)
  then have "card {q. 0 < file_pins s fid q} < file_cap s fid" using assms(3) by simp
  then show ?thesis
    using get_absent [OF assms(1) view_valid [OF assms(2)] None] takable_exists [OF assms(1)] by blast
qed

lemma get_this_page_invalid:
  assumes "contract_ok fid s" "0 < p" "file_view s fid p = None"
  shows "get_this_page fid p s = Some (Inl BUFFERPOOL_INVALID_PAGE_NUM, s)"
proof -
  obtain fh where fh: "open_list s fid = Some fh" "check_file_id fid s = Some (Inr fh, s)"
    by (rule contract_okE [OF assms(1)])
  have "\<not> file_valid s fid p" using view_None [OF assms(1)] assms(3) by simp
  then show ?thesis
    using fh check_page_num_run(2) [OF assms(1) fh(1) assms(2)] by (simp add: get_this_page_def run)
qed

section \<open>Working on a held page\<close>

lemma held_frame:
  assumes "contract_ok fid s" "file_held s fid h p"
  shows "frame h < length (frames s)" "allocated (frame_of s (frame h))"
    "file_desc (frame_of s (frame h)) = file_fd s fid" "page_num (page (frame_of s (frame h))) = p"
    "frame_ok s (frame_of s (frame h))"
  using resident_page [OF assms(1) held_resident(1,2) [OF assms]] by blast+

lemma get_page_num_held:
  "contract_ok fid s \<Longrightarrow> file_held s fid h p \<Longrightarrow> get_page_num h s = Some (Inr p, s)"
  using held_frame held_resident(4) by (fastforce simp: get_page_num_def peek_num_def run)

lemma get_data_held:
  assumes "contract_ok fid s" "file_held s fid h p" "file_view s fid p = Some d"
  shows "get_data h s = Some (Inr d, s)"
proof -
  note r = held_resident [OF assms(1,2)]
  have "data (page (frame_of s (frame h))) = Payload d"
    using assms(3) r(1,2) by (simp add: file_view_def pview_def split: page_data.splits)
  then show ?thesis using r by (simp add: get_data_def peek_data_def run)
qed

lemma put_data_held:
  assumes c: "contract_ok fid s" and h: "file_held s fid h p"
  shows "\<exists>s'. put_data h d s = Some (Inr (), s') \<and> contract_ok fid s' \<and>
    file_view s' fid = (file_view s fid)(p \<mapsto> d) \<and> file_pins s' fid = file_pins s fid \<and>
    file_cap s' fid = file_cap s fid \<and> file_count s' fid = file_count s fid \<and>
    file_held s' fid = file_held s fid \<and> (\<forall>q. q \<noteq> p \<longrightarrow> file_stable s fid q \<longrightarrow> file_stable s' fid q)"
proof -
  let ?g = "page_update (data_update (\<lambda>_. Payload d))"
  let ?i = "frame h"
  note r = held_frame [OF c h] and hr = held_resident [OF c h]
  have "p \<noteq> 0" using valid_on_disk(4) [OF c hr(1)] by simp
  then have g: "allocated (?g (frame_of s ?i))" "file_desc (?g (frame_of s ?i)) = file_fd s fid"
    "page_num (page (?g (frame_of s ?i))) = p" "frame_ok s (?g (frame_of s ?i))"
    using r hr by (simp_all add: frame_ok_def)
  note u = client_upd_frame [where g = ?g, OF c hr(1,2) g] and w = client_upd_sel [where g = ?g, OF c hr(1,2) g]
  have "file_held (upd_frame ?i ?g s) fid h' q = file_held s fid h' q" for h' q
    using r(1) u by (auto simp: file_held_def frame_of_upd_frame)
  then show ?thesis
    using r(1) u w hr(6) by (intro exI [of _ "upd_frame ?i ?g s"]) (simp add: put_data_def run fun_eq_iff)
qed

lemma mark_dirty_held:
  assumes c: "contract_ok fid s" and h: "file_held s fid h p"
  shows "\<exists>s'. mark_dirty h s = Some (Inr (), s') \<and> contract_ok fid s' \<and>
    file_view s' fid = file_view s fid \<and> file_pins s' fid = file_pins s fid \<and>
    file_cap s' fid = file_cap s fid \<and> file_count s' fid = file_count s fid \<and>
    file_held s' fid = file_held s fid \<and> file_stable s' fid p \<and>
    (\<forall>q. file_stable s fid q \<longrightarrow> file_stable s' fid q)"
proof -
  let ?g = "dirty_update (\<lambda>_. True)"
  let ?i = "frame h"
  note r = held_frame [OF c h] and hr = held_resident [OF c h]
  have g: "allocated (?g (frame_of s ?i))" "file_desc (?g (frame_of s ?i)) = file_fd s fid"
    "page_num (page (?g (frame_of s ?i))) = p" "frame_ok s (?g (frame_of s ?i))"
    using r hr by (simp_all add: frame_ok_def)
  note u = client_upd_frame [where g = ?g, OF c hr(1,2) g] and w = client_upd_sel [where g = ?g, OF c hr(1,2) g]
  have "file_held (upd_frame ?i ?g s) fid h' q = file_held s fid h' q" for h' q
    using r(1) u by (auto simp: file_held_def frame_of_upd_frame)
  then show ?thesis
    using r(1) u w hr(6) by (intro exI [of _ "upd_frame ?i ?g s"]) (simp add: mark_dirty_def run fun_eq_iff)
qed

lemma unpin_page_held:
  assumes c: "contract_ok fid s" and h: "file_held s fid h p" and st: "file_stable s fid p"
  shows "\<exists>s'. unpin_page h s = Some (Inr (h\<lparr>is_open := False\<rparr>), s') \<and> contract_ok fid s' \<and>
    file_view s' fid = file_view s fid \<and> file_pins s' fid = (file_pins s fid)(p := file_pins s fid p - 1) \<and>
    file_cap s' fid = file_cap s fid \<and> file_count s' fid = file_count s fid \<and>
    (\<forall>h' q. file_held s fid h' q \<longrightarrow> q \<noteq> p \<or> 1 < file_pins s fid p \<longrightarrow> file_held s' fid h' q) \<and>
    (\<forall>q. file_stable s fid q \<longrightarrow> file_stable s' fid q) \<and>
    peek_num (h\<lparr>is_open := False\<rparr>) s' = Some (Inr p, s')"
proof -
  let ?g = "pin_count_update (\<lambda>k. k - 1)"
  let ?i = "frame h"
  note r = held_frame [OF c h] and hr = held_resident [OF c h]
  have pin: "unat (pin_count (frame_of s ?i) - 1) = file_pins s fid p - 1"
    using hr(5,6) by (simp add: unat_minus_one)
  have "dirty (frame_of s ?i) \<or> disk_page s (file_fd s fid) p = Some (page (frame_of s ?i))"
    using st hr(1,2) by (simp add: file_stable_def)
  then have g: "allocated (?g (frame_of s ?i))" "file_desc (?g (frame_of s ?i)) = file_fd s fid"
    "page_num (page (?g (frame_of s ?i))) = p" "frame_ok s (?g (frame_of s ?i))"
    using r hr by (auto simp: frame_ok_def)
  note u = client_upd_frame [where g = ?g, OF c hr(1,2) g] and w = client_upd_sel [where g = ?g, OF c hr(1,2) g]
  have "pin_count (frame_of s ?i) - 1 \<noteq> 0" if "1 < file_pins s fid p"
    using that pin by (auto simp: unat_eq_zero)
  then show ?thesis
    using r(1,4) u w pin by (intro exI [of _ "upd_frame ?i ?g s"]) (auto simp: unpin_page_def peek_num_def frame_of_upd_frame run)
qed

section \<open>Allocating a page\<close>

lemma free_loop_spec:
  assumes "0 \<le> i" "i \<le> n" "n \<le> 8 * int (length bm)"
  shows "free_loop bm n i = Some (let r = first_such (\<lambda>k. \<not> bit_at bm k) (nat i) (nat n)
    in if r < 0 then None else Some r)"
  using assms
proof (induction "nat (n - i)" arbitrary: i)
  case 0
  then show ?case by (subst free_loop.simps) simp
next
  case (Suc k)
  then have "i < n" by simp
  have step: "nat (i + 1) = Suc (nat i)" using Suc.prems by simp
  have "free_loop bm n (i + 1) = Some (let r = first_such (\<lambda>k. \<not> bit_at bm k) (Suc (nat i)) (nat n)
    in if r < 0 then None else Some r)"
    unfolding step [symmetric] by (rule Suc.hyps(1)) (use Suc.hyps(2) Suc.prems \<open>i < n\<close> in auto)
  then show ?case
    using \<open>i < n\<close> Suc.prems
    by (subst free_loop.simps) (simp add: bitmap_get_bit_run first_such_step Let_def)
qed

text \<open>
  The header and the file after a page has been added (or taken from the free pages), before it is
  brought into memory: page \<^verbatim>\<open>pn\<close> becomes valid with the content the disk has for it.
\<close>

definition hdr_upd :: "BPFileSubHeader \<Rightarrow> byte list \<Rightarrow> bool \<Rightarrow> 'd Frame \<Rightarrow> 'd Frame" where
  "hdr_upd h bm b f = f\<lparr>dirty := b, page := (page f)\<lparr>data := HdrData h bm\<rparr>\<rparr>"

definition adds_page :: "int \<Rightarrow> int \<Rightarrow> 'd \<Rightarrow> 'd pool \<Rightarrow> 'd os_state \<Rightarrow> BPFileSubHeader \<Rightarrow> byte list \<Rightarrow> bool" where
  "adds_page fid pn d s w h' bm' \<longleftrightarrow> os_ok w \<and> key_range pn \<and> 0 < pn \<and> \<not> file_valid s fid pn \<and>
     (\<forall>a q. (a, q) \<noteq> (file_fd s fid, pn) \<longrightarrow> os_page w a q = disk_page s a q) \<and>
     os_page w (file_fd s fid) pn = Some \<lparr>page_num = pn, data = Payload d\<rparr> \<and>
     (\<forall>a. a \<noteq> file_fd s fid \<longrightarrow> os_length w a = file_length s a) \<and>
     hdr_wf h' bm' (os_length w (file_fd s fid)) \<and>
     (\<forall>h bm q. file_hdr s fid = Some (h, bm) \<longrightarrow> 0 < q \<longrightarrow>
        (q < page_count h' \<and> bit_at bm' (nat q) \<longleftrightarrow> q < page_count h \<and> bit_at bm (nat q) \<or> q = pn)) \<and>
     pn \<le> file_count s fid \<and> page_count h' = max (file_count s fid) (pn + 1)"

text \<open>A page that is not valid is not resident.\<close>

lemma invalid_absent:
  assumes c: "contract_ok fid s" and v: "\<not> file_valid s fid p" "0 < p" "key_range p" "key_range (file_fd s fid)"
  shows "list_map s (bp_key (file_fd s fid) p) = None"
proof (rule ccontr)
  assume "list_map s (bp_key (file_fd s fid) p) \<noteq> None"
  then obtain i where i: "list_map s (bp_key (file_fd s fid) p) = Some i" by auto
  have ok: "pool_ok s" using c by (simp add: contract_ok_def)
  have a: "i < length (frames s)" "allocated (frame_of s i)" "bp_key (file_fd s fid) p = frame_key (frame_of s i)"
    using map_okD [OF pool_okD(3) [OF ok]] i by auto
  then have "file_desc (frame_of s i) = file_fd s fid" "page_num (page (frame_of s i)) = p"
    using bp_key_inj [OF v(4,3) frame_range(1,2) [OF ok a(1,2)]] by auto
  then show False using c a v(1,2) unfolding contract_ok_def by auto
qed

lemma adds_page_file_ok:
  assumes c: "contract_ok fid s" and fh: "open_list s fid = Some fh" 
    and ad: "\<And>a. a \<noteq> file_fd s fid \<Longrightarrow> os_length w a = file_length s a"
      "hdr_wf h' bm' (os_length w (file_fd s fid))"
    and x: "length (frames x) = length (frames s)" "open_list x = open_list s" "file_length x = file_length s"
      "\<And>a fa. open_list s a = Some fa \<Longrightarrow> frame_of x (hdr_frame fa) = frame_of s (hdr_frame fa)"
    and o: "open_list s a = Some fa"
  shows "file_ok (upd_frame (hdr_frame fh) (hdr_upd h' bm' b) (x\<lparr>os := w\<rparr>)) fa" (is "file_ok ?t fa")
proof (cases "a = fid")
  case True
  have "file_ok s fh" using c fh by (auto simp: contract_ok_def dest: pool_okD)
  moreover have "file_fd s fid = fh_file_desc fh" by (simp add: file_fd_def fh)
  ultimately show ?thesis
    using True o fh x(1) x(4) [OF fh] ad
    by (auto simp: file_ok_def Let_def frame_of_upd_frame hdr_upd_def split: page_data.splits)
next
  case False
  have fa: "file_ok s fa" "file_ok s fh" using c fh o by (auto simp: contract_ok_def dest: pool_okD)
  have "fh_file_desc fa \<noteq> fh_file_desc fh" using c fh o False unfolding contract_ok_def by blast
  moreover from this have "hdr_frame fa \<noteq> hdr_frame fh" using fa by (auto simp: file_ok_def Let_def)
  moreover have "file_fd s fid = fh_file_desc fh" by (simp add: file_fd_def fh)
  ultimately show ?thesis
    using fa(2) x(1) x(4) [OF o] ad
    by (intro file_ok_cong [OF fa(1)]) (auto simp: frame_of_upd_frame file_ok_def)
qed

lemma file_fd_range: "contract_ok fid s \<Longrightarrow> key_range (file_fd s fid)"
  by (rule contract_okE, assumption) (metis frame_range(1))

lemma added_pool_ok:
  assumes c: "contract_ok fid s" and fh: "open_list s fid = Some fh" and ad: "adds_page fid pn d s w h' bm'"
  shows "pool_ok (upd_frame (hdr_frame fh) (hdr_upd h' bm' b) (s\<lparr>os := w\<rparr>))" (is "pool_ok ?t")
proof -
  have ok: "pool_ok s" using c by (simp add: contract_ok_def)
  note ok' = pool_okD [OF ok]
  have h: "hdr_frame fh < length (frames s)" "pin_count (frame_of s (hdr_frame fh)) \<noteq> 0"
    "page_num (page (frame_of s (hdr_frame fh))) = 0" "allocated (frame_of s (hdr_frame fh))"
    using ok'(6) [OF fh] by (auto simp: file_ok_def Let_def)
  have fr: "frame_of ?t j = (if j = hdr_frame fh then hdr_upd h' bm' b (frame_of s (hdr_frame fh)) else frame_of s j)" for j
    using h(1) by (simp add: frame_of_upd_frame)
  have absent: "list_map s (bp_key (file_fd s fid) pn) = None"
    using invalid_absent [OF c] ad file_fd_range [OF c] by (simp add: adds_page_def)
  have disk: "os_page w (file_desc (frame_of s j)) (page_num (page (frame_of s j))) =
      disk_page s (file_desc (frame_of s j)) (page_num (page (frame_of s j)))"
    if "j < length (frames s)" "allocated (frame_of s j)" for j
  proof -
    have "list_map s (frame_key (frame_of s j)) = Some j" using map_okD [OF ok'(3)] that by simp
    then have "(file_desc (frame_of s j), page_num (page (frame_of s j))) \<noteq> (file_fd s fid, pn)"
      using absent by auto
    then show ?thesis using ad by (simp add: adds_page_def)
  qed
  show ?thesis
  proof (rule pool_okI)
    show "os_ok (os ?t)" "lru_ok ?t" using ad ok'(2) by (simp_all add: adds_page_def lru_ok_def)
    show "map_ok ?t" using ok'(3) unfolding map_ok_def fr by (simp add: hdr_upd_def)
    show "disk_ok ?t"
      unfolding disk_ok_def
    proof (intro allI impI)
      fix a q pg assume "disk_page ?t a q = Some pg"
      then show "key_range q \<and> page_num pg = q \<and> (q = 0) = (\<exists>h bm. data pg = HdrData h bm)"
        using ok'(4) ad by (cases "(a, q) = (file_fd s fid, pn)") (auto simp: adds_page_def disk_ok_def)
    qed
    show "frame_ok ?t (frame_of ?t j)" if "j < length (frames ?t)" for j
      using ok'(5) [of j] that h disk [of j] by (auto simp: fr frame_ok_def hdr_upd_def)
    show "file_ok ?t fa" if "open_list ?t a = Some fa" for a fa
      by (rule adds_page_file_ok [OF c fh]) (use that ad in \<open>simp_all add: adds_page_def\<close>)
  qed
qed

lemma added_client:
  assumes c: "contract_ok fid s" and fh: "open_list s fid = Some fh" and ad: "adds_page fid pn d s w h' bm'"
    and t_def: "t = upd_frame (hdr_frame fh) (hdr_upd h' bm' b) (s\<lparr>os := w\<rparr>)"
  shows "contract_ok fid t" "file_fd t fid = file_fd s fid" "file_valid t fid pn"
    "file_valid t fid q \<longleftrightarrow> file_valid s fid q \<or> q = pn"
    "file_view t fid = (file_view s fid)(pn \<mapsto> d)" "file_pins t fid = file_pins s fid"
    "file_pins s fid pn = 0" "file_view s fid pn = None" "list_map t (bp_key (file_fd t fid) pn) = None"
    "file_held s fid hh q \<Longrightarrow> file_held t fid hh q" "file_stable s fid q \<Longrightarrow> file_stable t fid q"
    "file_cap t fid = file_cap s fid" "file_count t fid = page_count h'"
proof -
  obtain h bm where fh': "file_hdr s fid = Some (h, bm)" "hdr_frame fh < length (frames s)"
      "file_desc (frame_of s (hdr_frame fh)) = file_fd s fid" "page_num (page (frame_of s (hdr_frame fh))) = 0"
    by (rule contract_okE [OF c]) (use fh in simp)
  have pn: "\<not> file_valid s fid pn" "0 < pn" "key_range pn" using ad by (simp_all add: adds_page_def)
  show fd: "file_fd t fid = file_fd s fid" by (simp add: file_fd_def t_def)
  have absent: "list_map s (bp_key (file_fd s fid) pn) = None"
    using invalid_absent [OF c] pn file_fd_range [OF c] by simp
  then show "list_map t (bp_key (file_fd t fid) pn) = None" by (simp add: fd) (simp add: t_def)
  have fr: "frame_of t j = (if j = hdr_frame fh then hdr_upd h' bm' b (frame_of s (hdr_frame fh)) else frame_of s j)" for j
    using fh'(2) by (simp add: t_def frame_of_upd_frame)
  have sel: "list_map t = list_map s" "os t = w" "open_list t = open_list s" "length (frames t) = length (frames s)"
    by (simp_all add: t_def)
  have hdr: "file_hdr t fid = Some (h', bm')" using fh fh'(2) by (simp add: file_hdr_def sel fr hdr_upd_def)
  then show "file_count t fid = page_count h'" by (simp add: file_count_def)
  show val: "file_valid t fid q \<longleftrightarrow> file_valid s fid q \<or> q = pn" for q
    using ad fh'(1) pn(2) by (auto simp: file_valid_def hdr adds_page_def)
  then show "file_valid t fid pn" by simp
  have res: "frame_of t i = frame_of s i" if "file_valid s fid q" "list_map s (bp_key (file_fd s fid) q) = Some i" for q i
    using resident_page(4) [OF c that] valid_on_disk(4) [OF c that(1)] fh'(4) by (auto simp: fr)
  have disk: "os_page w (file_fd s fid) q = disk_page s (file_fd s fid) q" if "file_valid s fid q" for q
    using ad that pn(1) by (auto simp: adds_page_def)
  show "file_view t fid = (file_view s fid)(pn \<mapsto> d)"
  proof (rule ext)
    show "file_view t fid q = ((file_view s fid)(pn \<mapsto> d)) q" for q
      using val [of q] res [of q] disk [of q] absent pn ad
      by (cases "q = pn") (auto simp: file_view_def pview_def fd sel adds_page_def split: option.splits)
  qed
  show "file_pins t fid = file_pins s fid"
  proof (rule ext)
    show "file_pins t fid q = file_pins s fid q" for q
      using val [of q] res [of q] absent pn(1) by (auto simp: file_pins_def fd sel split: option.splits)
  qed
  show "file_pins s fid pn = 0" "file_view s fid pn = None" using pn by (simp_all add: file_pins_def file_view_def)
  show "file_held t fid hh q" if "file_held s fid hh q" using that res val by (auto simp: file_held_def fd sel)
  show "file_stable t fid q" if "file_stable s fid q"
    using that val [of q] res [of q] disk [of q] absent by (auto simp: file_stable_def fd sel split: option.splits)
  have "file_frames t fid = file_frames s fid" by (auto simp: file_frames_def fd sel fr hdr_upd_def)
  then show "file_cap t fid = file_cap s fid" by (simp add: file_cap_def)
  show "contract_ok fid t"
    using c added_pool_ok [OF c fh ad, of b] val fh'(4)
    unfolding contract_ok_def fd sel fr t_def [symmetric] by (auto simp: hdr_upd_def)
qed

text \<open>The promise of \<^verbatim>\<open>allocate_page\<close>.\<close>

definition alloc_page_post :: "int \<Rightarrow> 'd pool \<Rightarrow> BPPageHandle \<Rightarrow> int \<Rightarrow> 'd \<Rightarrow> 'd pool \<Rightarrow> bool" where
  "alloc_page_post fid s h p d s' \<longleftrightarrow> contract_ok fid s' \<and> 0 < p \<and> file_view s fid p = None \<and>
     file_pins s fid p = 0 \<and> file_view s' fid = (file_view s fid)(p \<mapsto> d) \<and>
     file_pins s' fid = (file_pins s fid)(p := 1) \<and> file_held s' fid h p \<and> file_cap s' fid = file_cap s fid \<and>
     p \<le> file_count s fid \<and> file_count s' fid = max (file_count s fid) (p + 1) \<and>
     (\<forall>h' q. file_held s fid h' q \<longrightarrow> file_held s' fid h' q) \<and>
     (\<forall>q. file_stable s fid q \<longrightarrow> file_stable s' fid q)"

lemma added_then_got:
  assumes c: "contract_ok fid s" and fh: "open_list s fid = Some fh" and ad: "adds_page fid pn d s w h' bm'"
    and t: "t = upd_frame (hdr_frame fh) (hdr_upd h' bm' b) (s\<lparr>os := w\<rparr>)" and g: "get_post fid pn t hd' s'"
  shows "alloc_page_post fid s hd' pn d s'"
  using added_client [OF c fh ad t] g ad by (auto simp: alloc_page_post_def get_post_def adds_page_def)

lemma hdr_set_eq:
  "upd_frame i (page_update (data_update (\<lambda>_. HdrData h bm))) s =
   upd_frame i (hdr_upd h bm (dirty (frame_of s i))) (s\<lparr>os := os s\<rparr>)"
  by (cases "frame_of s i") (simp add: upd_frame_def hdr_upd_def)

lemma hdr_wf_free:
  assumes "hdr_wf h bm n" "k < n" "\<not> bit_at bm k"
  shows "hdr_wf (h\<lparr>allocated_pages := allocated_pages h + 1\<rparr>) (bit_put bm k True) n"
    "k < 8 * length bm"
proof -
  show k: "k < 8 * length bm" using assms by (simp add: hdr_wf_def max_pages_def)
  then show "hdr_wf (h\<lparr>allocated_pages := allocated_pages h + 1\<rparr>) (bit_put bm k True) n"
    using assms bm.used_put_set [of k bm n] by (simp add: hdr_wf_def bit_at_bit_put)
qed

lemma disk_payload:
  assumes "disk_ok s" "disk_page s fd p = Some pg" "p \<noteq> 0"
  obtains d where "pg = \<lparr>page_num = p, data = Payload d\<rparr>" "key_range p"
proof -
  have "key_range p \<and> page_num pg = p \<and> (p = 0) = (\<exists>h bm. data pg = HdrData h bm)"
    using assms(1,2) unfolding disk_ok_def by blast
  then show ?thesis using that assms(3) by (cases pg; cases "data pg") auto
qed

lemma allocate_free:
  assumes c: "contract_ok fid s" and hdr: "file_hdr s fid = Some (h, bm)"
    and less: "allocated_pages h < page_count h" and cap: "card {q. 0 < file_pins s fid q} < file_cap s fid"
  shows "\<exists>hd' p d s'. allocate_page fid s = Some (Inr hd', s') \<and> alloc_page_post fid s hd' p d s'"
proof -
  obtain fh where fh: "open_list s fid = Some fh" "check_file_id fid s = Some (Inr fh, s)"
      "hdr_frame fh < length (frames s)" "data (page (frame_of s (hdr_frame fh))) = HdrData h bm"
      "hdr_wf h bm (file_length s (file_fd s fid))" "pool_ok s"
    by (rule contract_okE [OF c]) (use hdr in simp)
  let ?n = "file_length s (file_fd s fid)"
  have n: "page_count h = int ?n" "length bm = BP_PAGE_DATA_SIZE - BP_FILE_SUB_HDR_SIZE" "?n \<le> max_pages"
    using fh(5) by (simp_all add: hdr_wf_def)
  have "bm.used bm ?n < ?n" using fh(5) less by (simp add: hdr_wf_def)
  then obtain k where k: "first_such (\<lambda>k. \<not> bit_at bm k) 0 ?n = int k" "k < ?n" "\<not> bit_at bm k"
    using bm.used_full_iff [of bm ?n] by (cases rule: first_such_cases [of "\<lambda>k. \<not> bit_at bm k" 0 ?n]) auto
  then have k0: "0 < k" using fh(5) by (cases k) (auto simp: hdr_wf_def)
  have free: "free_loop bm (page_count h) 0 = Some (Some (int k))"
    using free_loop_spec [of 0 "page_count h" bm] n k(1) by (simp add: max_pages_def)
  note wf = hdr_wf_free [OF fh(5) k(2,3)]
  let ?h' = "h\<lparr>allocated_pages := allocated_pages h + 1\<rparr>" and ?bm' = "bit_put bm k True"
  have "disk_page s (file_fd s fid) (int k) \<noteq> None" using os_page_length [of "os s" "file_fd s fid" "int k"] k(2) by simp
  then obtain pg where pg: "disk_page s (file_fd s fid) (int k) = Some pg" by blast
  then obtain d where pgk: "pg = \<lparr>page_num = int k, data = Payload d\<rparr>" "key_range (int k)"
    using disk_payload [OF pool_okD(4) [OF fh(6)] pg] k0 by auto
  have ad: "adds_page fid (int k) d s (os s) ?h' ?bm'"
    using pool_okD(1) [OF fh(6)] pgk pg wf k0 k(2,3) hdr n(1)
    by (auto simp: adds_page_def file_valid_def file_count_def bit_at_bit_put)
  let ?t = "upd_frame (hdr_frame fh) (hdr_upd ?h' ?bm' (dirty (frame_of s (hdr_frame fh)))) (s\<lparr>os := os s\<rparr>)"
  note a = added_client [where b = "dirty (frame_of s (hdr_frame fh))", OF c fh(1) ad refl]
  have "0 < file_pins ?t fid (int k) \<or> card {q. 0 < file_pins ?t fid q} < file_cap ?t fid"
    using a(6,12) cap by simp
  then obtain hd' s' where g: "get_this_page fid (int k) ?t = Some (Inr hd', s')" "get_post fid (int k) ?t hd' s'"
    using get_this_page_post [OF a(1), of "int k" d] a(5,6,7) by auto
  have "bitmap_set_bit bm (int k) = Some ?bm'" using bitmap_set_bit_run [of "int k" bm] wf(2) by simp
  then have "allocate_page fid s = Some (Inr hd', s')"
    using fh less free g(1) hdr_set_eq [of "hdr_frame fh" ?h' ?bm' s]
    by (simp add: allocate_page_def run hdr_get_run hdr_set_def)
  then show ?thesis using added_then_got [OF c fh(1) ad refl g(2)] by blast
qed

lemma hdr_wf_extend:
  assumes "hdr_wf h bm n" "n < max_pages"
  shows "hdr_wf (h\<lparr>allocated_pages := allocated_pages h + 1, page_count := page_count h + 1\<rparr>) (bit_put bm n True) (Suc n)"
    "n < 8 * length bm"
proof -
  show n: "n < 8 * length bm" using assms by (simp add: hdr_wf_def max_pages_def)
  have "{i. i < Suc n \<and> bit_at (bit_put bm n True) i} = insert n {i. i < n \<and> bit_at bm i}"
    using n by (auto simp: bit_at_bit_put)
  then have "bm.used (bit_put bm n True) (Suc n) = Suc (bm.used bm n)" by (simp add: bm.used_def)
  then show "hdr_wf (h\<lparr>allocated_pages := allocated_pages h + 1, page_count := page_count h + 1\<rparr>) (bit_put bm n True) (Suc n)"
    using assms n by (simp add: hdr_wf_def bit_at_bit_put)
qed

text \<open>Extending the file keeps a claimed frame claimed.\<close>

lemma claimed_extend:
  assumes c: "contract_ok fid s" and fh: "open_list s fid = Some fh"
    and post: "alloc_post (file_fd s fid) (int n) s i x" and n: "n = file_length s (file_fd s fid)" "0 < n"
    and w: "os_ok w" "\<And>a q. os_page w a q = (if a = file_fd s fid \<and> q = int n then Some \<lparr>page_num = int n, data = Payload d\<rparr> else disk_page x a q)"
      "\<And>a. os_length w a = (if a = file_fd s fid then Suc n else file_length s a)"
    and wf: "hdr_wf h' bm' (Suc n)" and kn: "key_range (int n)"
  shows "claimed i (file_fd s fid) (int n) (upd_frame (hdr_frame fh) (hdr_upd h' bm' b) (x\<lparr>os := w\<rparr>))"
    (is "claimed i ?fd _ ?y")
proof -
  have ok: "pool_ok s" using c by (simp add: contract_ok_def)
  have x: "claimed i ?fd (int n) x" "open_list x = open_list s" "length (frames x) = length (frames s)"
    "file_length x = file_length s" "\<And>j. j \<noteq> i \<Longrightarrow> frame_of x j = frame_of s j"
    using post by (simp_all add: alloc_post_def)
  have hx: "hdr_frame fa \<noteq> i" if "open_list s a = Some fa" for a fa
    using x(1,2) that unfolding claimed_def by auto
  have h: "hdr_frame fh < length (frames s)" "pin_count (frame_of s (hdr_frame fh)) \<noteq> 0"
    "page_num (page (frame_of s (hdr_frame fh))) = 0" "allocated (frame_of s (hdr_frame fh))"
    using pool_okD(6) [OF ok fh] by (auto simp: file_ok_def Let_def)
  have fr: "frame_of ?y j = (if j = hdr_frame fh then hdr_upd h' bm' b (frame_of x (hdr_frame fh)) else frame_of x j)" for j
    using h(1) x(3) by (simp add: frame_of_upd_frame)
  have lm: "list_map x k = Some j \<longleftrightarrow> (if j = i then k = bp_key ?fd (int n)
        else j < length (frames x) \<and> allocated (frame_of x j) \<and> k = frame_key (frame_of x j))" for k j
    using x(1) unfolding claimed_def by blast
  have fo: "frame_ok ?y (frame_of ?y j)" if j: "j < length (frames x)" "j \<noteq> i" for j
  proof (cases "allocated (frame_of x j)")
    case True
    have "bp_key ?fd (int n) \<noteq> frame_key (frame_of x j)" using lm [of _ j] lm [of _ i] True j by (metis option.inject)
    then have "os_page w (file_desc (frame_of x j)) (page_num (page (frame_of x j))) =
        disk_page x (file_desc (frame_of x j)) (page_num (page (frame_of x j)))"
      using w(2) by auto
    moreover have "frame_ok x (frame_of x j)" using x(1) j unfolding claimed_def by blast
    ultimately show ?thesis
      using h x(5) hx [OF fh] by (auto simp: fr frame_ok_def hdr_upd_def)
  qed (auto simp: fr frame_ok_def hdr_upd_def)
  have fi: "file_ok ?y fa" if "open_list s a = Some fa" for a fa
    by (rule adds_page_file_ok [OF c fh _ _ x(3,2,4) _ that]) (use w(3) wf x(5) hx in auto)
  have "disk_ok x" using x(1) by (simp add: claimed_def)
  then have "disk_ok ?y" using kn n(2) by (auto simp: disk_ok_def w(2) split: if_splits)
  moreover have "frame_of ?y i = frame_of x i" using hx [OF fh] by (simp add: fr)
  moreover have "allocated (frame_of ?y j) = allocated (frame_of x j)" "frame_key (frame_of ?y j) = frame_key (frame_of x j)" for j
    by (simp_all add: fr hdr_upd_def)
  ultimately show ?thesis
    using x(1,2) w(1) fo fi hx lm unfolding claimed_def by (simp add: lru_ok_def)
qed

lemma extend_moved_in:
  assumes c: "contract_ok fid s" and fh: "open_list s fid = Some fh"
    and post: "alloc_post (file_fd s fid) (int n) s i x"
    and n: "n = file_length s (file_fd s fid)" "0 < n" "key_range (int n)"
    and w: "os_ok w" "\<And>a q. os_page w a q = (if a = file_fd s fid \<and> q = int n then Some \<lparr>page_num = int n, data = Payload d\<rparr> else disk_page x a q)"
      "\<And>a. os_length w a = (if a = file_fd s fid then Suc n else file_length s a)"
    and v: "os_ok v" "\<And>a q. os_page v a q = (if a = file_fd s fid \<and> q = int n then Some \<lparr>page_num = int n, data = Payload d\<rparr> else disk_page s a q)"
      "\<And>a. os_length v a = (if a = file_fd s fid then Suc n else file_length s a)"
    and wf: "hdr_wf h' bm' (Suc n)" and absent: "list_map s (bp_key (file_fd s fid) (int n)) = None"
    and t: "t = upd_frame (hdr_frame fh) (hdr_upd h' bm' b) (s\<lparr>os := v\<rparr>)"
      "T = upd_frame i (\<lambda>f. f\<lparr>pin_count := 1, page := \<lparr>page_num = int n, data = Payload d\<rparr>, dirty := False\<rparr>)
         (upd_frame (hdr_frame fh) (hdr_upd h' bm' b) (x\<lparr>os := w\<rparr>))"
    and val: "\<And>q. file_valid t fid q \<Longrightarrow> file_valid s fid q \<or> q = int n"
  shows "moved_in fid (int n) i t T"
proof -
  let ?fd = "file_fd s fid" and ?hf = "hdr_frame fh"
  let ?y = "upd_frame (hdr_frame fh) (hdr_upd h' bm' b) (x\<lparr>os := w\<rparr>)"
  have ok: "pool_ok s" using c by (simp add: contract_ok_def)
  have x: "claimed i ?fd (int n) x" "open_list x = open_list s" "length (frames x) = length (frames s)"
    "\<And>j. j \<noteq> i \<Longrightarrow> frame_of x j = frame_of s j" "takable s i"
    using post by (simp_all add: alloc_post_def)
  have hx: "hdr_frame fa \<noteq> i" if "open_list s a = Some fa" for a fa
    using x(1,2) that unfolding claimed_def by auto
  have i: "i < length (frames x)" "allocated (frame_of x i)" "file_desc (frame_of x i) = ?fd"
    "list_map x (bp_key ?fd (int n)) = Some i"
    using x(1) by (auto simp: claimed_def)
  have h: "?hf < length (frames s)" "page_num (page (frame_of s ?hf)) = 0"
    using pool_okD(6) [OF ok fh] by (auto simp: file_ok_def Let_def)
  have ft: "frame_of t j = (if j = ?hf then hdr_upd h' bm' b (frame_of s ?hf) else frame_of s j)" for j
    using h(1) by (simp add: t frame_of_upd_frame)
  have fT: "frame_of T j = (if j = i then (frame_of x i)\<lparr>pin_count := 1, page := \<lparr>page_num = int n, data = Payload d\<rparr>, dirty := False\<rparr>
      else frame_of t j)" for j
    using h(1) i(1) x(3,4) hx [OF fh] by (simp add: t frame_of_upd_frame)
  have sel: "open_list t = open_list s" "open_list T = open_list s" "list_map t = list_map s" "list_map T = list_map x"
    "length (frames T) = length (frames s)" "length (frames t) = length (frames s)" "os t = v" "os T = w" "file_fd t fid = ?fd"
    using x(2,3) by (simp_all add: t file_fd_def)
  have "claimed i ?fd (int n) ?y" by (rule claimed_extend [OF c fh post n(1,2) w wf n(3)])
  moreover have fi: "frame_of ?y i = frame_of x i" using h(1) x(3) hx [OF fh] by (simp add: frame_of_upd_frame)
  moreover have "0 < int n" using n(2) by simp
  ultimately have okT: "pool_ok T"
    unfolding t(2) using i w(2) by (intro claimed_fill) (auto simp: frame_ok_def)
  have other: "pview T ?fd q = pview t ?fd q" if q: "file_valid s fid q" "q \<noteq> int n" for q
  proof -
    have k: "bp_key ?fd q \<noteq> bp_key ?fd (int n)"
      using bp_key_inj [of ?fd q ?fd "int n"] valid_on_disk(2,3) [OF c q(1)] n(3) q(2) by simp
    have r: "j \<noteq> ?hf" if "list_map s (bp_key ?fd q) = Some j" for j
      using resident_page(4) [OF c q(1) that] valid_on_disk(4) [OF c q(1)] h(2) by auto
    have "pview x ?fd q = pview s ?fd q" using post q valid_on_disk(2,3) [OF c q(1)] by (auto simp: alloc_post_def)
    then show ?thesis
      using r claimed_map [OF ok post k] q(2) x(4)
      by (auto simp: pview_def sel fT ft w(2) v(2) split: option.splits if_splits)
  qed
  have disk: "os_page w (file_desc (frame_of t j)) (page_num (page (frame_of t j))) =
      os_page v (file_desc (frame_of t j)) (page_num (page (frame_of t j)))"
    if j: "j < length (frames s)" "j \<noteq> i" "allocated (frame_of t j)" for j
  proof -
    have e: "file_desc (frame_of t j) = file_desc (frame_of s j)" "page_num (page (frame_of t j)) = page_num (page (frame_of s j))"
      "allocated (frame_of s j)" using j(3) by (auto simp: ft hdr_upd_def split: if_splits)
    then have "list_map s (frame_key (frame_of s j)) = Some j" using map_okD [OF pool_okD(3) [OF ok]] j(1) by simp
    then have "(file_desc (frame_of s j), page_num (page (frame_of s j))) \<noteq> (?fd, int n)" using absent by auto
    then show ?thesis using post j(1,2) e by (auto simp: w(2) v(2) alloc_post_def)
  qed
  have other': "pview T ?fd q = pview t ?fd q" if "file_valid t fid q" "q \<noteq> int n" for q
    using other val [OF that(1)] that(2) by blast
  have tk: "takable t i" using x(5) hx [OF fh] by (simp add: takable_def sel ft)
  show ?thesis
    unfolding moved_in_def sel
    using tk okT hx fT i(2,3,4) other' disk claimed_map [OF ok post] w(2) [of ?fd "int n"] v(2) [of ?fd "int n"]
    by auto
qed

lemma extend_file_run:
  assumes al: "alloc (fh_file_desc fh) (int n) s = Some (Inr (Some i), x)"
    and x: "claimed i (fh_file_desc fh) (int n) x" "hdr_frame fh < length (frames x)" "hdr_frame fh \<noteq> i"
      "data (page (frame_of x (hdr_frame fh))) = HdrData h bm" "page_count h = int n" "n < 8 * length bm"
      "fds (os x) (fh_file_desc fh) \<noteq> None" "file_length x (fh_file_desc fh) = n"
  defines "h' \<equiv> h\<lparr>allocated_pages := allocated_pages h + 1, page_count := page_count h + 1\<rparr>"
  obtains w where "extend_file (int n) fh s = Some (Inr \<lparr>is_open = True, frame = i\<rparr>,
      upd_frame i (\<lambda>f. f\<lparr>pin_count := 1, page := \<lparr>page_num = int n, data = Payload (zero_data x)\<rparr>, dirty := False\<rparr>)
        (upd_frame (hdr_frame fh) (hdr_upd h' (bit_put bm n True) True) (x\<lparr>os := w\<rparr>)))"
    "os_ok w" "\<And>a q. os_page w a q = (if a = fh_file_desc fh \<and> q = int n
       then Some \<lparr>page_num = int n, data = Payload (zero_data x)\<rparr> else disk_page x a q)"
    "\<And>a. os_length w a = (if a = fh_file_desc fh then Suc n else file_length x a)"
proof -
  let ?Z = "\<lparr>page_num = int n, data = Payload (zero_data x)\<rparr>"
  let ?hf = "hdr_frame fh" and ?bm' = "bit_put bm n True"
  have i: "i < length (frames x)" "os_ok (os x)" "file_desc (frame_of x i) = fh_file_desc fh"
    using x(1) by (auto simp: claimed_def)
  have len: "0 \<le> int n" "int n \<le> int (file_length x (fh_file_desc fh))" using x(8) by simp_all
  obtain w1 w where w: "os_lseek (fh_file_desc fh) (int n) (os x) = (int n * int BP_PAGE_SIZE, w1)"
    "os_write (zero_page x) (fh_file_desc fh) ?Z w1 = (True, w)" "os_ok w"
    "\<And>d q. os_page w d q = (if d = fh_file_desc fh \<and> q = int n then Some ?Z else disk_page x d q)"
    "\<And>d. os_length w d = (if d = fh_file_desc fh \<and> int n = int (file_length x (fh_file_desc fh))
       then Suc (file_length x d) else file_length x d)"
    by (rule seek_write [OF i(2) x(7) len, of "zero_page x" ?Z]) blast
  let ?x2 = "upd_frame ?hf (hdr_upd h' ?bm' True) x"
  let ?x4 = "upd_frame i (\<lambda>f. f\<lparr>pin_count := 1, page := ?Z\<rparr>) ?x2"
  have set: "upd_frame ?hf (dirty_update (\<lambda>_. True)) (upd_frame ?hf (page_update (data_update (\<lambda>_. HdrData h' ?bm'))) x) = ?x2"
    using x(2) by (cases "frame_of x ?hf") (simp add: upd_frame_def hdr_upd_def)
  have pg: "upd_frame i (page_update (page_num_update (\<lambda>_. int n)))
      (upd_frame i (\<lambda>f. f\<lparr>pin_count := 1, page := zero_page x\<rparr>) ?x2) = ?x4"
    using i(1) x(3) by (cases "frame_of x i") (simp add: upd_frame_def zero_page_def)
  have f4: "frame_of ?x4 i = (frame_of x i)\<lparr>pin_count := 1, page := ?Z\<rparr>" "os ?x4 = os x" "zero_page ?x4 = zero_page x"
    using i(1) x(2,3) by (simp_all add: frame_of_upd_frame zero_page_def)
  have fl: "flush_block i ?x4 = Some (Inr (), upd_frame i (dirty_update (\<lambda>_. False)) (?x4\<lparr>os := w\<rparr>))"
    unfolding flush_block_def using i w(1,2) f4 by (simp add: run)
  have T: "upd_frame i (dirty_update (\<lambda>_. False)) (?x4\<lparr>os := w\<rparr>) =
      upd_frame i (\<lambda>f. f\<lparr>pin_count := 1, page := ?Z, dirty := False\<rparr>) (upd_frame ?hf (hdr_upd h' ?bm' True) (x\<lparr>os := w\<rparr>))"
    using i(1) x(2,3) by (cases "frame_of x i") (simp add: upd_frame_def)
  have g1: "hdr_get fh x = Some (Inr (h, bm), x)" using x by (simp add: hdr_get_run)
  have g2: "hdr_get fh (upd_frame i (\<lambda>f. f\<lparr>pin_count := 1, page := zero_page x\<rparr>) ?x2) =
      Some (Inr (h', ?bm'), upd_frame i (\<lambda>f. f\<lparr>pin_count := 1, page := zero_page x\<rparr>) ?x2)"
    using i(1) x(2,3) by (intro hdr_get_run) (simp_all add: frame_of_upd_frame hdr_upd_def)
  have bit: "bitmap_set_bit bm (int n) = Some ?bm'" using bitmap_set_bit_run [of "int n" bm] x(6) by simp
  have "extend_file (int n) fh s = Some (Inr \<lparr>is_open = True, frame = i\<rparr>, upd_frame i (dirty_update (\<lambda>_. False)) (?x4\<lparr>os := w\<rparr>))"
    using al g1 bit x(2,5) i(1) set g2 pg fl
    by (simp add: extend_file_def allocate_block_def run hdr_set_def h'_def zero_page_def)
  then show ?thesis using that w(3,4,5) x(8) unfolding T by auto
qed

lemma allocate_extend:
  assumes c: "contract_ok fid s" and hdr: "file_hdr s fid = Some (h, bm)"
    and full: "\<not> allocated_pages h < page_count h" and room: "file_count s fid < int max_pages"
    and cap: "card {q. 0 < file_pins s fid q} < file_cap s fid"
  shows "\<exists>hd' p d s'. allocate_page fid s = Some (Inr hd', s') \<and> alloc_page_post fid s hd' p d s'"
proof -
  let ?fd = "file_fd s fid"
  obtain fh where fh: "open_list s fid = Some fh" "check_file_id fid s = Some (Inr fh, s)"
      "hdr_frame fh < length (frames s)" "data (page (frame_of s (hdr_frame fh))) = HdrData h bm"
      "hdr_wf h bm (file_length s ?fd)" "pool_ok s" "?fd = fh_file_desc fh"
    by (rule contract_okE [OF c]) (use hdr in simp)
  define n where "n = file_length s ?fd"
  have n: "page_count h = int n" "0 < n" "n < max_pages" "key_range (int n)"
    using fh(5) room hdr by (auto simp: n_def hdr_wf_def file_count_def key_range_def max_pages_def
        BP_PAGE_DATA_SIZE_def BP_PAGE_SIZE_def)
  let ?h' = "h\<lparr>allocated_pages := allocated_pages h + 1, page_count := page_count h + 1\<rparr>"
  let ?bm' = "bit_put bm n True"
  note wf = hdr_wf_extend [OF fh(5) n(3) [unfolded n_def], folded n_def]
  have inv: "\<not> file_valid s fid (int n)" using hdr n(1) by (simp add: file_valid_def)
  have absent: "list_map s (bp_key ?fd (int n)) = None"
    using invalid_absent [OF c inv] n(2,4) file_fd_range [OF c] by simp
  obtain i x where al: "alloc ?fd (int n) s = Some (Inr (Some i), x)" and post: "alloc_post ?fd (int n) s i x"
    by (rule alloc_run [OF fh(6) takable_exists [OF c cap] absent file_fd_range [OF c] n(4)])
  have fds: "fds (os y) ?fd \<noteq> None" if "file_length y ?fd = n" for y :: "'a pool"
    using that n(2) by (auto simp: os_length_def split: option.splits)
  have x: "claimed i ?fd (int n) x" "open_list x = open_list s" "length (frames x) = length (frames s)"
    "file_length x = file_length s" "\<And>j. j \<noteq> i \<Longrightarrow> frame_of x j = frame_of s j" "zero_data x = zero_data s" "takable s i"
    using post by (simp_all add: alloc_post_def)
  have hx: "hdr_frame fa \<noteq> i" if "open_list s a = Some fa" for a fa
    using x(1,2) that unfolding claimed_def by auto
  let ?Z = "\<lparr>page_num = int n, data = Payload (zero_data s)\<rparr>"
  let ?g = "\<lambda>f. f\<lparr>pin_count := 1, page := ?Z, dirty := False\<rparr>"
  obtain w where w: "extend_file (int n) fh s = Some (Inr \<lparr>is_open = True, frame = i\<rparr>,
      upd_frame i ?g (upd_frame (hdr_frame fh) (hdr_upd ?h' ?bm' True) (x\<lparr>os := w\<rparr>)))" "os_ok w"
    "\<And>a q. os_page w a q = (if a = ?fd \<and> q = int n then Some ?Z else disk_page x a q)"
    "\<And>a. os_length w a = (if a = ?fd then Suc n else file_length s a)"
  proof -
    have p: "alloc (fh_file_desc fh) (int n) s = Some (Inr (Some i), x)" "claimed i (fh_file_desc fh) (int n) x"
      "hdr_frame fh < length (frames x)" "hdr_frame fh \<noteq> i"
      "data (page (frame_of x (hdr_frame fh))) = HdrData h bm" "fds (os x) (fh_file_desc fh) \<noteq> None"
      "file_length x (fh_file_desc fh) = n"
      using al x fh hx [OF fh(1)] fds [of x] by (simp_all add: n_def)
    show ?thesis
      by (rule extend_file_run [OF p(1-5) n(1) wf(2) p(6,7)])
        (rule that, auto simp: fh(7) x(4,6))
  qed
  obtain v where v: "os_ok v" "\<And>a q. os_page v a q = (if a = ?fd \<and> q = int n then Some ?Z else disk_page s a q)"
    "\<And>a. os_length v a = (if a = ?fd then Suc n else file_length s a)"
  proof -
    have l: "file_length s ?fd = n" "0 \<le> int n" "int n \<le> int (file_length s ?fd)" by (simp_all add: n_def)
    show ?thesis
      by (rule seek_write [OF pool_okD(1) [OF fh(6)] fds [of s, OF l(1)] l(2,3), of "zero_page s" ?Z])
        (rule that, auto simp: l(1))
  qed
  have ad: "adds_page fid (int n) (zero_data s) s v ?h' ?bm'"
    using v wf n inv hdr by (auto simp: adds_page_def file_count_def bit_at_bit_put)
  let ?t = "upd_frame (hdr_frame fh) (hdr_upd ?h' ?bm' True) (s\<lparr>os := v\<rparr>)"
  let ?y = "upd_frame (hdr_frame fh) (hdr_upd ?h' ?bm' True) (x\<lparr>os := w\<rparr>)"
  have "moved_in fid (int n) i ?t (upd_frame i ?g ?y)"
    by (rule extend_moved_in [OF c fh(1) post n_def n(2,4) w(2-4) v wf(1) absent refl refl])
      (use added_client(4) [OF c fh(1) ad refl] in blast)
  then have "get_post fid (int n) ?t \<lparr>is_open = True, frame = i\<rparr> (upd_frame i ?g ?y)"
    using added_client [OF c fh(1) ad refl] by (intro moved_in_client) auto
  then have "alloc_page_post fid s \<lparr>is_open = True, frame = i\<rparr> (int n) (zero_data s) (upd_frame i ?g ?y)"
    by (rule added_then_got [OF c fh(1) ad refl])
  moreover have "allocate_page fid s = Some (Inr \<lparr>is_open = True, frame = i\<rparr>, upd_frame i ?g ?y)"
    using fh full w(1) n(1) by (simp add: allocate_page_def run hdr_get_run)
  ultimately show ?thesis by blast
qed

lemma allocate_page_post:
  assumes "contract_ok fid s" "file_count s fid < int max_pages" "card {q. 0 < file_pins s fid q} < file_cap s fid"
  shows "\<exists>h p d s'. allocate_page fid s = Some (Inr h, s') \<and> alloc_page_post fid s h p d s'"
proof -
  obtain h bm where "file_hdr s fid = Some (h, bm)" by (rule contract_okE [OF assms(1)])
  then show ?thesis
    using allocate_free [OF assms(1) _ _ assms(3)] allocate_extend [OF assms(1) _ _ assms(2,3)]
    by (cases "allocated_pages h < page_count h") blast+
qed

section \<open>The interpretation\<close>

definition bp_ops :: "('d pool, 'd) pool_ops" where
  "bp_ops = \<lparr>op_get_this_page = get_this_page, op_allocate_page = allocate_page,
     op_get_page_num = get_page_num, op_get_data = get_data, op_peek_num = peek_num, op_peek_data = peek_data,
     op_put_data = put_data, op_mark_dirty = mark_dirty, op_unpin_page = unpin_page, op_dispose_page = dispose_page,
     op_get_page_count = get_page_count, op_flush_all_pages = flush_all_pages,
     op_create_file = create_file, op_open_file = open_file, op_close_file = close_file\<rparr>"

lemma stable_unpinned_file:
  assumes "contract_ok fid s" "file_pins s fid q = 0"
  shows "file_stable s fid q"
proof (cases "file_valid s fid q \<and> list_map s (bp_key (file_fd s fid) q) \<noteq> None")
  case True
  then obtain i where i: "file_valid s fid q" "list_map s (bp_key (file_fd s fid) q) = Some i" by auto
  note r = resident_page [OF assms(1) i]
  have "pin_count (frame_of s i) = 0" using assms(2) i by (simp add: file_pins_def unat_eq_0)
  then show ?thesis using r i by (auto simp: file_stable_def frame_ok_def)
qed (auto simp: file_stable_def)

lemma get_page_count_run: "contract_ok fid s \<Longrightarrow> get_page_count fid s = Some (Inr (file_count s fid), s)"
  by (rule contract_okE) (auto simp: get_page_count_def run hdr_get_run file_count_def)

lemma file_view_range: "file_view s fid p \<noteq> None \<Longrightarrow> 0 < p \<and> p < file_count s fid"
  by (auto simp: file_view_def file_valid_def file_count_def split: if_splits option.splits)

definition client_ok :: "('d \<Rightarrow> bool) \<Rightarrow> int \<Rightarrow> 'd pool \<Rightarrow> bool" where
  "client_ok good fid s \<longleftrightarrow> contract_ok fid s \<and> stored_ok good s"

lemma bp_ops_sel [simp]:
  "op_get_this_page bp_ops = get_this_page" "op_allocate_page bp_ops = allocate_page"
  "op_get_page_num bp_ops = get_page_num" "op_get_data bp_ops = get_data" "op_peek_num bp_ops = peek_num"
  "op_peek_data bp_ops = peek_data" "op_put_data bp_ops = put_data" "op_mark_dirty bp_ops = mark_dirty"
  "op_unpin_page bp_ops = unpin_page" "op_dispose_page bp_ops = dispose_page"
  "op_get_page_count bp_ops = get_page_count" "op_flush_all_pages bp_ops = flush_all_pages"
  "op_create_file bp_ops = create_file" "op_open_file bp_ops = open_file" "op_close_file bp_ops = close_file"
  by (simp_all add: bp_ops_def)

interpretation dbp: page_pool bp_ops fid "client_ok good fid" "\<lambda>s. file_view s fid" "\<lambda>s. file_pins s fid"
  "\<lambda>s. file_held s fid" "\<lambda>s. file_stable s fid" "\<lambda>s. file_cap s fid" "\<lambda>s. file_count s fid" "int max_pages" good
  for fid :: int and good :: "'d \<Rightarrow> bool"
proof unfold_locales
  fix s :: "'d pool" and p d
  assume "client_ok good fid s" "file_view s fid p = Some d"
    "0 < file_pins s fid p \<or> card {q. 0 < file_pins s fid q} < file_cap s fid" "file_pins s fid p < 2 ^ 32 - 1"
  then show "\<exists>h s'. op_get_this_page bp_ops fid p s = Some (Inr h, s') \<and> client_ok good fid s' \<and>
    file_view s' fid = file_view s fid \<and> file_pins s' fid = (file_pins s fid)(p := Suc (file_pins s fid p)) \<and>
    file_held s' fid h p \<and> file_cap s' fid = file_cap s fid \<and> file_count s' fid = file_count s fid \<and>
    (\<forall>h' q. file_held s fid h' q \<longrightarrow> file_held s' fid h' q) \<and> (\<forall>q. file_stable s fid q \<longrightarrow> file_stable s' fid q)"
    using get_this_page_post [of fid s p d] preservesD [OF stored_get_this_page, of good s fid p]
    unfolding client_ok_def get_post_def bp_ops_sel by blast
next
  fix s :: "'d pool"
  assume "client_ok good fid s" "file_count s fid < int max_pages" "card {q. 0 < file_pins s fid q} < file_cap s fid"
  then show "\<exists>h p d s'. op_allocate_page bp_ops fid s = Some (Inr h, s') \<and> client_ok good fid s' \<and> 0 < p \<and>
    file_view s fid p = None \<and> file_pins s fid p = 0 \<and> file_view s' fid = (file_view s fid)(p \<mapsto> d) \<and>
    file_pins s' fid = (file_pins s fid)(p := 1) \<and> file_held s' fid h p \<and> file_cap s' fid = file_cap s fid \<and>
    p \<le> file_count s fid \<and> file_count s' fid = max (file_count s fid) (p + 1) \<and>
    (\<forall>h' q. file_held s fid h' q \<longrightarrow> file_held s' fid h' q) \<and> (\<forall>q. file_stable s fid q \<longrightarrow> file_stable s' fid q)"
    using allocate_page_post [of fid s] preservesD [OF stored_allocate_page, of good s fid]
    unfolding client_ok_def alloc_page_post_def bp_ops_sel by blast
next
  fix s :: "'d pool"
  show "client_ok good fid s \<Longrightarrow> finite {q. 0 < file_pins s fid q}"
    unfolding client_ok_def by (rule finite_subset [OF file_pins_frame]) simp_all
next
  fix s :: "'d pool" and h p
  assume "client_ok good fid s" "file_held s fid h p"
  then show "0 < file_pins s fid p \<and> is_open h \<and> file_view s fid p \<noteq> None"
    using held_resident [of fid s h p] view_None [of fid s p] by (simp add: client_ok_def unat_gt_0)
next
  fix s :: "'d pool" and h p
  assume "client_ok good fid s" "file_held s fid h p"
  then show "op_peek_num bp_ops h s = op_get_page_num bp_ops h s \<and> op_peek_data bp_ops h s = op_get_data bp_ops h s"
    using held_resident(4) [of fid s h p] by (simp add: client_ok_def get_page_num_def get_data_def)
next
  fix s :: "'d pool" and h p d
  assume "client_ok good fid s" "file_held s fid h p" "good d"
  then show "\<exists>s'. op_put_data bp_ops h d s = Some (Inr (), s') \<and> client_ok good fid s' \<and>
    file_view s' fid = (file_view s fid)(p \<mapsto> d) \<and> file_pins s' fid = file_pins s fid \<and>
    file_cap s' fid = file_cap s fid \<and> file_count s' fid = file_count s fid \<and>
    file_held s' fid = file_held s fid \<and> (\<forall>q. q \<noteq> p \<longrightarrow> file_stable s fid q \<longrightarrow> file_stable s' fid q)"
    using put_data_held [of fid s h p d] preservesD [OF stored_put_data, of good d s h]
    unfolding client_ok_def bp_ops_sel by blast
next
  fix s :: "'d pool" and h p
  assume "client_ok good fid s" "file_held s fid h p"
  then show "\<exists>s'. op_mark_dirty bp_ops h s = Some (Inr (), s') \<and> client_ok good fid s' \<and>
    file_view s' fid = file_view s fid \<and> file_pins s' fid = file_pins s fid \<and>
    file_cap s' fid = file_cap s fid \<and> file_count s' fid = file_count s fid \<and>
    file_held s' fid = file_held s fid \<and> file_stable s' fid p \<and>
    (\<forall>q. file_stable s fid q \<longrightarrow> file_stable s' fid q)"
    using mark_dirty_held [of fid s h p] preservesD [OF stored_mark_dirty, of good s h]
    unfolding client_ok_def bp_ops_sel by blast
next
  fix s :: "'d pool" and h p
  assume "client_ok good fid s" "file_held s fid h p" "file_stable s fid p"
  then show "\<exists>s'. op_unpin_page bp_ops h s = Some (Inr (h\<lparr>is_open := False\<rparr>), s') \<and> client_ok good fid s' \<and>
    file_view s' fid = file_view s fid \<and> file_pins s' fid = (file_pins s fid)(p := file_pins s fid p - 1) \<and>
    file_cap s' fid = file_cap s fid \<and> file_count s' fid = file_count s fid \<and>
    (\<forall>h' q. file_held s fid h' q \<longrightarrow> q \<noteq> p \<or> 1 < file_pins s fid p \<longrightarrow> file_held s' fid h' q) \<and>
    (\<forall>q. file_stable s fid q \<longrightarrow> file_stable s' fid q) \<and>
    op_peek_num bp_ops (h\<lparr>is_open := False\<rparr>) s' = Some (Inr p, s')"
    using unpin_page_held [of fid s h p] preservesD [OF stored_unpin_page, of good s h]
    unfolding client_ok_def bp_ops_sel by blast
qed (auto simp: client_ok_def get_this_page_invalid get_page_num_held get_data_held
    stable_unpinned_file get_page_count_run file_view_range stored_view)

end
