(* ===== verification/Pool_Runs.thy ===== *)
theory Pool_Runs
  imports Pool_Properties
begin

text \<open>
  The properties of the buffer pool, each with the concrete run that shows its hypotheses can hold,
  and a run of public operations in which the pool loses a change.
\<close>

section \<open>A concrete pool\<close>

text \<open>One open file (descriptor 3, file id 0) with a header page and two data pages; two of the
  three frames are free.\<close>

definition demo_bitmap :: "byte list" where
  "demo_bitmap = 7 # replicate (BP_PAGE_DATA_SIZE - BP_FILE_SUB_HDR_SIZE - 1) 0"

definition demo_header :: "nat Page" where
  "demo_header = \<lparr>page_num = 0, data = HdrData \<lparr>page_count = 3, allocated_pages = 3\<rparr> demo_bitmap\<rparr>"

definition demo_page :: "int \<Rightarrow> nat Page" where
  "demo_page p = \<lparr>page_num = p, data = Payload (if p = 1 then 11 else 22)\<rparr>"

definition demo_os :: "nat os_state" where
  "demo_os = \<lparr>files = [''t'' \<mapsto> [demo_header, demo_page 1, demo_page 2]], fds = [3 \<mapsto> (''t'', 1)],
     pick_fd = (\<lambda>used. if used 3 then 4 else 3), sys_fail = (\<lambda>_. False)\<rparr>"

definition free_frame :: "nat Frame" where
  "free_frame = \<lparr>dirty = False, pin_count = 0, file_desc = 0, page = demo_page 0, allocated = False\<rparr>"

definition demo_pool :: "nat pool" where
  "demo_pool = \<lparr>frames = [\<lparr>dirty = False, pin_count = 1, file_desc = 3, page = demo_header, allocated = True\<rparr>,
       free_frame, free_frame],
     frame_list = [0, 1, 2], list_map = [bp_key 3 0 \<mapsto> 0],
     open_list = [0 \<mapsto> \<lparr>bopen = True, file_name = ''t'', fh_file_desc = 3, hdr_frame = 0\<rparr>],
     os = demo_os, zero_data = 0\<rparr>"

lemmas demo_defs = demo_pool_def demo_os_def free_frame_def demo_header_def demo_page_def

lemma demo_disk:
  "disk_page demo_pool fd p = (if fd = 3 \<and> p = 0 then Some demo_header
     else if fd = 3 \<and> (p = 1 \<or> p = 2) then Some (demo_page p) else None)"
  by (auto simp: os_page_def demo_pool_def demo_os_def nth_Cons split: nat.splits)

lemma demo_length: "file_length demo_pool fd = (if fd = 3 then 3 else 0)"
  by (simp add: os_length_def demo_pool_def demo_os_def)

lemma demo_bits: "i < max_pages \<Longrightarrow> bit_at demo_bitmap i \<longleftrightarrow> i < 3"
proof -
  assume i: "i < max_pages"
  have seven: "(7 :: byte) = mask 3" by (simp add: mask_eq_exp_minus_1)
  have "bit (7 :: byte) i \<longleftrightarrow> i < 3" unfolding seven bit_mask_iff by auto
  moreover have "demo_bitmap ! (i div 8) = (if i div 8 = 0 then 7 else 0)"
    using i by (simp add: demo_bitmap_def max_pages_def nth_Cons BP_PAGE_DATA_SIZE_def BP_PAGE_SIZE_def
        BP_FILE_SUB_HDR_SIZE_def split: nat.split)
  ultimately show ?thesis by (cases "i < 8") (simp_all add: bit_at_def div_eq_0_iff)
qed

lemma demo_hdr_wf: "hdr_wf \<lparr>page_count = 3, allocated_pages = 3\<rparr> demo_bitmap 3"
proof -
  have "{i. i < 3 \<and> bit_at demo_bitmap i} = {..<3}"
    using demo_bits by (auto simp: max_pages_def BP_PAGE_DATA_SIZE_def BP_PAGE_SIZE_def BP_FILE_SUB_HDR_SIZE_def)
  then have "bm.used demo_bitmap 3 = 3" by (simp add: bm.used_def)
  then show ?thesis
    using demo_bits [of 0]
    by (simp add: hdr_wf_def demo_bitmap_def max_pages_def BP_PAGE_DATA_SIZE_def BP_PAGE_SIZE_def BP_FILE_SUB_HDR_SIZE_def)
qed

lemma demo_pool_ok: "pool_ok demo_pool"
proof (rule pool_okI)
  show "os_ok (os demo_pool)" by (auto simp: os_ok_def demo_pool_def demo_os_def split: if_splits)
  show "lru_ok demo_pool" by (auto simp: lru_ok_def demo_pool_def)
  show "map_ok demo_pool" by (auto simp: map_ok_def demo_defs less_Suc_eq nth_Cons split: nat.splits if_splits)
  show "disk_ok demo_pool"
    unfolding disk_ok_def demo_disk by (auto simp: key_range_def demo_header_def demo_page_def split: if_splits)
  show "frame_ok demo_pool (frame_of demo_pool i)" if "i < length (frames demo_pool)" for i
    using that unfolding frame_ok_def demo_disk
    by (auto simp: demo_defs less_Suc_eq numeral_3_eq_3)
  show "file_ok demo_pool fh" if "open_list demo_pool fid = Some fh" for fid fh
  proof -
    have fh: "fh = \<lparr>bopen = True, file_name = ''t'', fh_file_desc = 3, hdr_frame = 0\<rparr>"
      using that by (simp add: demo_pool_def split: if_splits)
    show ?thesis
      unfolding file_ok_def fh BPFileHandle.select_convs demo_length
      using demo_hdr_wf by (simp add: demo_pool_def demo_header_def)
  qed
qed

lemma demo_hdr: "file_hdr demo_pool 0 = Some (\<lparr>page_count = 3, allocated_pages = 3\<rparr>, demo_bitmap)"
  "file_fd demo_pool 0 = 3"
  by (simp_all add: file_hdr_def file_fd_def demo_pool_def demo_header_def)

lemma demo_valid: "file_valid demo_pool 0 p \<longleftrightarrow> p = 1 \<or> p = 2"
  using demo_bits [of 1] demo_bits [of 2]
  by (auto simp: file_valid_def demo_hdr max_pages_def BP_PAGE_DATA_SIZE_def BP_PAGE_SIZE_def BP_FILE_SUB_HDR_SIZE_def)

lemma demo_contract: "contract_ok 0 demo_pool"
  unfolding contract_ok_def
  using demo_pool_ok by (auto simp: MAX_OPEN_FILE_def demo_hdr) (auto simp: demo_defs less_Suc_eq numeral_3_eq_3 split: if_splits)

lemma demo_view: "file_view demo_pool 0 1 = Some 11" "file_view demo_pool 0 2 = Some 22"
  "file_pins demo_pool 0 p = 0"
proof -
  have m: "list_map demo_pool (bp_key 3 1) = None" "list_map demo_pool (bp_key 3 2) = None"
    by (simp_all add: demo_pool_def bp_key_def)
  show "file_view demo_pool 0 1 = Some 11" "file_view demo_pool 0 2 = Some 22"
    using m by (simp_all add: file_view_def demo_valid pview_def demo_hdr demo_disk demo_page_def)
  show "file_pins demo_pool 0 p = 0"
    using m by (auto simp: file_pins_def demo_valid demo_hdr)
qed

lemma demo_cap: "file_cap demo_pool 0 = 2" "file_count demo_pool 0 < int max_pages"
proof -
  have "file_frames demo_pool 0 = {1, 2}"
    unfolding file_frames_def demo_hdr(2)
    by (auto simp: demo_pool_def free_frame_def demo_header_def less_Suc_eq numeral_3_eq_3)
  then show "file_cap demo_pool 0 = 2" by (simp add: file_cap_def)
  show "file_count demo_pool 0 < int max_pages"
    by (simp add: file_count_def demo_hdr max_pages_def BP_PAGE_DATA_SIZE_def BP_PAGE_SIZE_def BP_FILE_SUB_HDR_SIZE_def)
qed

section \<open>Properties\<close>

text \<open>C16. In every state the pool can reach, with any sequence of operations and any outcome of
  the system calls, the LRU list is a permutation of the frames, and \<^verbatim>\<open>list_map\<close> and
  the open files refer to existing frames, so no operation follows a dangling frame pointer.\<close>

theorem lru_list_is_permutation:
  assumes "pool_reachable s"
  shows "distinct (frame_list s) \<and> set (frame_list s) = {..<length (frames s)} \<and>
    (\<forall>k i. list_map s k = Some i \<longrightarrow> i < length (frames s)) \<and>
    (\<forall>fid fh. open_list s fid = Some fh \<longrightarrow> hdr_frame fh < length (frames s))"
proof -
  have "\<exists>n. struct_ok n s"
    using assms
  proof induction
    case (initial s)
    then obtain junk w z where "s = BPManager_new junk w z" by (auto simp: pool_initial_def)
    then have "struct_ok (length junk) s" by (simp add: struct_ok_initial)
    then show ?case by blast
  next
    case (step s s')
    then show ?case using struct_ok_step by blast
  qed
  then show ?thesis by (auto simp: struct_ok_def lru_ok_def)
qed

theorem lru_list_is_permutation_witness:
  "\<exists>s'. mark_dirty \<lparr>is_open = True, frame = 1\<rparr> (BPManager_new [free_frame, free_frame] demo_os 0) = Some (Inr (), s') \<and>
    distinct (frame_list s') \<and> set (frame_list s') = {..<length (frames s')}"
proof -
  let ?s = "BPManager_new [free_frame, free_frame] demo_os (0 :: nat)"
  let ?s' = "upd_frame 1 (dirty_update (\<lambda>_. True)) ?s"
  have m: "mark_dirty \<lparr>is_open = True, frame = 1\<rparr> ?s = Some (Inr (), ?s')"
    by (simp add: mark_dirty_def modify_frame_def BPManager_new_def)
  have "pool_reachable ?s"
    by (rule pool_reachable.initial) (auto simp: pool_initial_def)
  then have "pool_reachable ?s'" by (rule pool_reachable.step) (rule pool_step.mark [OF m])
  from lru_list_is_permutation [OF this] m show ?thesis by blast
qed

text \<open>C8. Reading through the buffer pool is reading the file: when a frame is available,
  \<^verbatim>\<open>get_this_page\<close> succeeds, the handle it returns gives the current content of the
  requested page, and neither the content of any page nor the pins of the other pages change,
  whether the page was resident or another page had to be evicted and written back for it.\<close>

theorem get_this_page_refines:
  assumes "contract_ok fid s" "file_view s fid p = Some d"
    and "0 < file_pins s fid p \<or> card {q. 0 < file_pins s fid q} < file_cap s fid"
    and "file_pins s fid p < 2 ^ 32 - 1"
  shows "\<exists>h s'. get_this_page fid p s = Some (Inr h, s') \<and> get_data h s' = Some (Inr d, s') \<and>
    get_page_num h s' = Some (Inr p, s') \<and> contract_ok fid s' \<and> file_view s' fid = file_view s fid \<and>
    file_pins s' fid = (file_pins s fid)(p := Suc (file_pins s fid p))"
proof -
  obtain h s' where g: "get_this_page fid p s = Some (Inr h, s')" "get_post fid p s h s'"
    using get_this_page_post [OF assms] by blast
  then show ?thesis
    using get_data_held [of fid s' h p d] get_page_num_held [of fid s' h p] assms(2)
    by (auto simp: get_post_def)
qed

theorem get_this_page_refines_witness:
  "\<exists>h s'. get_this_page 0 2 demo_pool = Some (Inr h, s') \<and> get_data h s' = Some (Inr 22, s') \<and>
    get_page_num h s' = Some (Inr 2, s') \<and> contract_ok 0 s' \<and> file_view s' 0 = file_view demo_pool 0 \<and>
    file_pins s' 0 = (file_pins demo_pool 0)(2 := Suc (file_pins demo_pool 0 2))"
  using get_this_page_refines [OF demo_contract demo_view(2)] demo_view(3) demo_cap by simp

text \<open>C17. \<^verbatim>\<open>allocate_page\<close> hands out a page number that was not in use: when the file
  has room and a frame is available it succeeds, the page was not allocated before, every other
  page keeps its content, and the new page is pinned once.\<close>

theorem allocate_page_fresh:
  assumes "contract_ok fid s" "file_count s fid < int max_pages" "card {q. 0 < file_pins s fid q} < file_cap s fid"
  shows "\<exists>h p d s'. allocate_page fid s = Some (Inr h, s') \<and> get_page_num h s' = Some (Inr p, s') \<and>
    file_view s fid p = None \<and> file_view s' fid = (file_view s fid)(p \<mapsto> d) \<and>
    file_pins s' fid = (file_pins s fid)(p := 1) \<and> contract_ok fid s'"
proof -
  obtain h p d s' where "allocate_page fid s = Some (Inr h, s')" "alloc_page_post fid s h p d s'"
    using allocate_page_post [OF assms] by blast
  then show ?thesis using get_page_num_held [of fid s' h p] by (auto simp: alloc_page_post_def)
qed

theorem allocate_page_fresh_witness:
  "\<exists>h p d s'. allocate_page 0 demo_pool = Some (Inr h, s') \<and> get_page_num h s' = Some (Inr p, s') \<and>
    file_view demo_pool 0 p = None \<and> file_view s' 0 = (file_view demo_pool 0)(p \<mapsto> d) \<and>
    file_pins s' 0 = (file_pins demo_pool 0)(p := 1) \<and> contract_ok 0 s'"
  using allocate_page_fresh [OF demo_contract demo_cap(2)] demo_view(3) demo_cap(1) by simp

text \<open>C21. The frame that \<^verbatim>\<open>evict\<close> gives up is never pinned, and every frame that has
  been used less recently is pinned: it is the least recently used frame that may be evicted.\<close>

theorem evict_least_recently_used:
  assumes "evict s = Some (Inr (Some i), s')"
  shows "pin_count (frame_of s i) = 0 \<and>
    (\<exists>recent older. frame_list s = recent @ i # older \<and> (\<forall>j \<in> set older. pin_count (frame_of s j) \<noteq> 0))"
proof -
  have f: "find (\<lambda>i. pin_count (frame_of s i) = 0) (rev (frame_list s)) = Some i"
    using assms by (auto simp: evict_def Let_def attempt_def ret_def split: option.splits if_splits sum.splits)
  then obtain older recent where "rev (frame_list s) = older @ i # recent"
      "\<forall>j \<in> set older. pin_count (frame_of s j) \<noteq> 0"
    using find_split [OF f] by blast
  then have "frame_list s = rev recent @ i # rev older" by (metis append.assoc append_Cons append_Nil rev.simps(2) rev_append rev_rev_ident)
  then show ?thesis
    using find_SomeD [OF f] \<open>\<forall>j \<in> set older. pin_count (frame_of s j) \<noteq> 0\<close> by (metis set_rev)
qed

theorem evict_least_recently_used_witness:
  "(\<exists>s'. evict demo_pool = Some (Inr (Some 2), s')) \<and> pin_count (frame_of demo_pool 2) = 0"
proof -
  have e: "\<exists>s'. evict demo_pool = Some (Inr (Some 2), s')"
    by (simp add: evict_def demo_pool_def free_frame_def Let_def)
  then show ?thesis using evict_least_recently_used [of demo_pool 2] by blast
qed

section \<open>A run that loses a change\<close>

lemmas pool_eval = get_this_page_def allocate_page_def dispose_page_def unpin_page_def get_page_num_def peek_num_def peek_data_def
  get_data_def get_page_count_def flush_all_pages_def force_all_pages_def close_file_def
  check_file_id_def check_page_num_def hdr_get_def hdr_set_def deref_def modify_frame_def upd_frame_def
  lift_opt_def bpm_get_def bpm_find_def bpm_dispose_page_def lru_update_def allocate_block_def alloc_def
  alloc_finish_def find_unallocated_def load_into_def load_page_def os_lseek_def os_read_def os_close_def
  bindE_def attempt_def ret_def fail_def undef_def modify_def bitmap_get_bit_def bitmap_set_bit_def
  bitmap_clear_bit_def byte_at_def demo_bitmap_def demo_defs MAX_OPEN_FILE_def BP_PAGE_SIZE_def
  BP_PAGE_DATA_SIZE_def BP_FILE_SUB_HDR_SIZE_def bp_key_def

text \<open>A clean file in which page 2 is free: allocate a page and close the file.\<close>

definition free_header :: "nat Page" where
  "free_header = \<lparr>page_num = 0, data = HdrData \<lparr>page_count = 3, allocated_pages = 2\<rparr>
     (3 # replicate (BP_PAGE_DATA_SIZE - BP_FILE_SUB_HDR_SIZE - 1) 0)\<rparr>"

definition free_page_pool :: "nat pool" where
  "free_page_pool = demo_pool\<lparr>os := demo_os\<lparr>files := [''t'' \<mapsto> [free_header, demo_page 1, demo_page 2]]\<rparr>,
     frames := (frames demo_pool)[0 := (frame_of demo_pool 0)\<lparr>page := free_header\<rparr>]\<rparr>"

definition run_allocate :: "(nat pool, int) M" where
  "run_allocate = bindE (allocate_page 0) (\<lambda>h. bindE (get_page_num h) (\<lambda>n.
     bindE (unpin_page h) (\<lambda>_. bindE (close_file 0) (\<lambda>_. ret n))))"

text \<open>When \<^verbatim>\<open>allocate_page\<close> reuses a free page it does not mark the header page
  dirty: page 2 is handed out, and after the file has been closed its header on disk still says
  that page 2 is free.\<close>

theorem allocate_page_loses_header:
  "\<exists>s'. run_allocate free_page_pool = Some (Inr 2, s') \<and>
    files (os s') ''t'' = Some [free_header, demo_page 1, demo_page 2]"
  by (simp add: run_allocate_def free_page_pool_def free_header_def free_loop.simps pool_eval upt_rec Let_def)

end
