(* ===== verification/Pool_Losses.thy ===== *)
theory Pool_Losses
  imports Pool_Runs
begin

text \<open>
  Where the buffer pool hands out the wrong page: after a page has been disposed of, after the pages of a file have
  been flushed, and after a file has been closed. The statements are about every state of the pool with the
  listed pages and frames; each has a concrete run.
\<close>

section \<open>Reading pages\<close>

definition header_at :: "'d pool \<Rightarrow> BPFileHandle \<Rightarrow> BPFileSubHeader \<Rightarrow> byte list \<Rightarrow> bool" where
  "header_at s fh sub bm \<longleftrightarrow> hdr_frame fh < length (frames s) \<and> data (page (frame_of s (hdr_frame fh))) = HdrData sub bm"

text \<open>The page that reading at a position of a descriptor gives.\<close>

definition readable :: "'d pool \<Rightarrow> int \<Rightarrow> int \<Rightarrow> 'd Page \<Rightarrow> bool" where
  "readable s fd q pg \<longleftrightarrow> 0 \<le> q \<and> \<not> sys_fail (os s) (SysLseek fd q) \<and> \<not> sys_fail (os s) (SysRead fd)
    \<and> (\<exists>name pos pages. fds (os s) fd = Some (name, pos) \<and> files (os s) name = Some pages \<and> nat q < length pages \<and> pages ! nat q = pg)"

lemma check_file_id_ok: "0 \<le> fid \<Longrightarrow> fid < MAX_OPEN_FILE \<Longrightarrow> open_list s fid = Some fh \<Longrightarrow> check_file_id fid s = Some (Inr fh, s)"
  by (simp add: check_file_id_def)

lemma check_page_ok:
  assumes "header_at s fh sub bm" "0 \<le> p" "p < page_count sub" "page_count sub \<le> 8 * int (length bm)" "bit_at bm (nat p)"
  shows "check_page_num p fh s = Some (Inr (), s)"
proof -
  have "bitmap_get_bit bm p = Some True" using assms bitmap_get_bit_run [of p bm] by simp
  then show ?thesis using assms hdr_get_run [of fh s sub bm] by (simp add: header_at_def check_page_num_def bindE_def run)
qed

lemma read_resident:
  assumes "0 \<le> fid" "fid < MAX_OPEN_FILE" "open_list s fid = Some fh" "check_page_num p fh s = Some (Inr (), s)"
    and "list_map s (bp_key (fh_file_desc fh) p) = Some i" "i < length (frames s)"
  shows "get_this_page fid p s = Some (Inr \<lparr>is_open = True, frame = i\<rparr>, upd_frame i (pin_count_update (\<lambda>n. n + 1)) (lru_update i s))"
  using assms check_file_id_ok [of fid s fh] by (simp add: get_this_page_def bpm_get_def bpm_find_def run)

lemma load_page_run:
  assumes "readable s (fh_file_desc fh) q pg" "i < length (frames s)"
  shows "\<exists>w. load_page q fh i s = Some (Inr (), upd_frame i (page_update (\<lambda>_. pg)) (s\<lparr>os := w\<rparr>))"
proof -
  obtain name pos pages where d: "fds (os s) (fh_file_desc fh) = Some (name, pos)" "files (os s) name = Some pages" "nat q < length pages" "pages ! nat q = pg"
    and q: "0 \<le> q" "\<not> sys_fail (os s) (SysLseek (fh_file_desc fh) q)" "\<not> sys_fail (os s) (SysRead (fh_file_desc fh))"
    using assms(1) by (auto simp: readable_def)
  let ?w = "os s\<lparr>fds := (fds (os s))(fh_file_desc fh \<mapsto> (name, q + 1))\<rparr>"
  have "q * int BP_PAGE_SIZE \<noteq> - 1" "\<not> int (length pages) \<le> q" using q(1) d(3) by (auto simp: BP_PAGE_SIZE_def)
  then have "load_page q fh i s = modify_frame i (page_update (\<lambda>_. pg)) (s\<lparr>os := ?w\<rparr>)"
    using d q by (simp add: load_page_def os_lseek_def os_read_def)
  then show ?thesis using assms(2) by (intro exI [of _ ?w]) (simp add: modify_frame_def)
qed

lemma read_into_free:
  assumes "0 \<le> fid" "fid < MAX_OPEN_FILE" "open_list s fid = Some fh" "check_page_num q fh s = Some (Inr (), s)"
    and "list_map s (bp_key (fh_file_desc fh) q) = None" "find_unallocated s = Some i" "readable s (fh_file_desc fh) q pg"
  shows "\<exists>s'. get_this_page fid q s = Some (Inr \<lparr>is_open = True, frame = i\<rparr>, s') \<and> list_map s' = (list_map s)(bp_key (fh_file_desc fh) q \<mapsto> i)
    \<and> open_list s' = open_list s \<and> length (frames s') = length (frames s) \<and> page (frame_of s' i) = pg \<and> pin_count (frame_of s' i) = 1
    \<and> (\<forall>j. j \<noteq> i \<longrightarrow> frame_of s' j = frame_of s j)"
proof -
  let ?fd = "fh_file_desc fh"
  have i: "i < length (frames s)" using assms(6) by (auto simp: find_unallocated_def find_Some_iff)
  let ?s1 = "alloc_finish ?fd q i (upd_frame i (allocated_update (\<lambda>_. True)) s)"
  let ?s2 = "upd_frame i (pin_count_update (\<lambda>_. 1)) ?s1"
  have len: "length (frames ?s1) = length (frames s)" using i by (simp add: alloc_finish_sel)
  have "readable ?s2 ?fd q pg" using assms(7) i by (simp add: readable_def alloc_finish_sel)
  then obtain w where w: "load_page q fh i ?s2 = Some (Inr (), upd_frame i (page_update (\<lambda>_. pg)) (?s2\<lparr>os := w\<rparr>))"
    using load_page_run [of ?s2 fh q pg i] i len by auto
  have a: "allocate_block ?fd q s = Some (Inr i, ?s1)" using assms(6) by (simp add: allocate_block_def alloc_def run)
  have "get_this_page fid q s = Some (Inr \<lparr>is_open = True, frame = i\<rparr>, upd_frame i (page_update (\<lambda>_. pg)) (?s2\<lparr>os := w\<rparr>))"
    using assms(1-5) check_file_id_ok [of fid s fh] a w i len
    by (simp add: get_this_page_def bpm_get_def bpm_find_def load_into_def run)
  then show ?thesis using i len by (simp add: frame_of_upd_frame alloc_finish_sel frames_upd_frame nth_list_update)
qed

section \<open>Disposing of a page\<close>

text \<open>What \<^verbatim>\<open>dispose_page\<close> leaves of a page in memory: its frame is free, its entry in \<^verbatim>\<open>list_map\<close> stays.\<close>

lemma dispose_page_run:
  assumes opened: "0 \<le> fid" "fid < MAX_OPEN_FILE" "open_list s fid = Some fh" "header_at s fh sub bm"
    and p: "0 \<le> p" "p < page_count sub" "page_count sub \<le> 8 * int (length bm)" "bit_at bm (nat p)"
    and i: "list_map s (bp_key (fh_file_desc fh) p) = Some i" "i < length (frames s)" "i \<noteq> hdr_frame fh" "pin_count (frame_of s i) = 0"
  shows "\<exists>s'. dispose_page fid p s = Some (Inr (), s') \<and> list_map s' = list_map s \<and> open_list s' = open_list s \<and> os s' = os s
    \<and> length (frames s') = length (frames s) \<and> header_at s' fh (sub\<lparr>allocated_pages := allocated_pages sub - 1\<rparr>) (bit_put bm (nat p) False)
    \<and> (\<forall>j < length (frames s). allocated (frame_of s' j) \<longleftrightarrow> j \<noteq> i \<and> allocated (frame_of s j))"
proof -
  let ?sub = "sub\<lparr>allocated_pages := allocated_pages sub - 1\<rparr>" and ?bm = "bit_put bm (nat p) False" and ?k = "hdr_frame fh"
  let ?s1 = "upd_frame i (allocated_update (\<lambda>_. False)) s"
  let ?s2 = "upd_frame ?k (dirty_update (\<lambda>_. True)) ?s1"
  let ?s3 = "upd_frame ?k (page_update (data_update (\<lambda>_. HdrData ?sub ?bm))) ?s2"
  have k: "?k < length (frames s)" "data (page (frame_of s ?k)) = HdrData sub bm" using opened(4) by (simp_all add: header_at_def)
  have h: "hdr_get fh ?s2 = Some (Inr (sub, bm), ?s2)" using k i(2,3) by (intro hdr_get_run) (simp_all add: frame_of_upd_frame)
  have "dispose_page fid p s = Some (Inr (), ?s3)"
    using check_file_id_ok [OF opened(1-3)] check_page_ok [OF opened(4) p] i k h bitmap_clear_bit_run [of p bm] p
    by (simp add: dispose_page_def bpm_dispose_page_def bpm_find_def hdr_set_def run)
  then show ?thesis using k i(2,3) by (intro exI [of _ ?s3]) (auto simp: header_at_def frame_of_upd_frame)
qed

text \<open>\<^verbatim>\<open>allocate_page\<close> of a page that is the only free one and still has an entry.\<close>

lemma allocate_resident:
  assumes opened: "0 \<le> fid" "fid < MAX_OPEN_FILE" "open_list s fid = Some fh" "header_at s fh sub bm" "allocated_pages sub < page_count sub"
    and p: "0 \<le> p" "p < page_count sub" "page_count sub \<le> 8 * int (length bm)" "\<forall>n < nat (page_count sub). bit_at bm n \<longleftrightarrow> n \<noteq> nat p"
    and i: "list_map s (bp_key (fh_file_desc fh) p) = Some i" "i < length (frames s)" "i \<noteq> hdr_frame fh"
  shows "\<exists>s'. allocate_page fid s = Some (Inr \<lparr>is_open = True, frame = i\<rparr>, s') \<and> page (frame_of s' i) = page (frame_of s i)
    \<and> pin_count (frame_of s' i) = pin_count (frame_of s i) + 1"
proof -
  let ?sub = "sub\<lparr>allocated_pages := allocated_pages sub + 1\<rparr>" and ?bm = "bit_put bm (nat p) True"
  let ?s1 = "upd_frame (hdr_frame fh) (page_update (data_update (\<lambda>_. HdrData ?sub ?bm))) s"
  have k: "hdr_frame fh < length (frames s)" "data (page (frame_of s (hdr_frame fh))) = HdrData sub bm" using opened(4) by (simp_all add: header_at_def)
  have np: "nat p < 8 * length bm" using p by (simp add: nat_less_iff)
  have "first_such (\<lambda>k. \<not> bit_at bm k) 0 (nat (page_count sub)) = p"
  proof (cases rule: first_such_cases [of "\<lambda>k. \<not> bit_at bm k" 0 "nat (page_count sub)"])
    case none
    then show ?thesis using p(1,2,4) by (metis nat_less_eq_zless zero_le)
  next
    case (some j)
    then have "j = nat p" using p(4) by blast
    then show ?thesis using some p(1) by simp
  qed
  then have free: "free_loop bm (page_count sub) 0 = Some (Some p)" using free_loop_spec [of 0 "page_count sub" bm] p by (simp add: Let_def)
  have "header_at ?s1 fh ?sub ?bm" using k by (simp add: header_at_def frame_of_upd_frame)
  then have c: "check_page_num p fh ?s1 = Some (Inr (), ?s1)"
    using p np by (intro check_page_ok [of _ _ ?sub ?bm]) (simp_all add: bit_at_bit_put)
  have "allocate_page fid s = get_this_page fid p ?s1"
    using check_file_id_ok [OF opened(1-3)] hdr_get_run [OF k] opened(5) free bitmap_set_bit_run [of p bm] p k
    by (simp add: allocate_page_def hdr_set_def run)
  then show ?thesis
    using read_resident [of fid ?s1 fh p i] opened(1-3) c i k by (simp add: frame_of_upd_frame frames_upd_frame)
qed

text \<open>Dispose of one page, read another one, allocate a page again.\<close>

definition dispose_and_reuse :: "int \<Rightarrow> int \<Rightarrow> int \<Rightarrow> ('d pool, BPPageHandle \<times> BPPageHandle) M" where
  "dispose_and_reuse fid p q = bindE (dispose_page fid p) (\<lambda>_. bindE (get_this_page fid q) (\<lambda>h2.
     bindE (allocate_page fid) (\<lambda>h1. ret (h2, h1))))"

text \<open>C25. \<^verbatim>\<open>dispose_page\<close> leaves the entry of the page in \<^verbatim>\<open>list_map\<close>. In a pool all of whose frames are in
  use, take a file all of whose pages are in use, a page \<^verbatim>\<open>p\<close> of it that is in memory and not pinned, and a page \<^verbatim>\<open>q\<close> that
  is not in memory. When \<^verbatim>\<open>p\<close> is disposed of, \<^verbatim>\<open>q\<close> is read and a page is allocated, all three succeed, \<^verbatim>\<open>q\<close> and the
  allocated page, which is \<^verbatim>\<open>p\<close> again, are given the same frame, and the frame holds \<^verbatim>\<open>q\<close>.\<close>

theorem dispose_page_aliases_frames:
  assumes opened: "0 \<le> fid" "fid < MAX_OPEN_FILE" "open_list s fid = Some fh" "header_at s fh sub bm" "allocated_pages sub = page_count sub"
      "page_count sub \<le> 8 * int (length bm)" "\<forall>n < nat (page_count sub). bit_at bm n"
    and full: "\<forall>j < length (frames s). allocated (frame_of s j)"
    and p: "0 \<le> p" "p < page_count sub" "list_map s (bp_key (fh_file_desc fh) p) = Some i" "i < length (frames s)" "i \<noteq> hdr_frame fh"
      "pin_count (frame_of s i) = 0"
    and q: "q < page_count sub" "list_map s (bp_key (fh_file_desc fh) q) = None" "readable s (fh_file_desc fh) q pg"
  shows "\<exists>h2 h1 s'. dispose_and_reuse fid p q s = Some (Inr (h2, h1), s') \<and> frame h1 = i \<and> frame h2 = i
    \<and> page (frame_of s' i) = pg \<and> pin_count (frame_of s' i) = 2"
proof -
  let ?fd = "fh_file_desc fh" and ?sub = "sub\<lparr>allocated_pages := allocated_pages sub - 1\<rparr>" and ?bm = "bit_put bm (nat p) False"
  have np: "nat p < 8 * length bm" and q0: "0 \<le> q" and pq: "p \<noteq> q" using opened(6) p(1-3) q by (auto simp: nat_less_iff readable_def)
  have bit: "bit_at bm (nat p)" "bit_at bm (nat q)" using opened(7) p(1,2) q(1) q0 by (simp_all add: nat_less_iff)
  obtain s1 where s1: "dispose_page fid p s = Some (Inr (), s1)" "list_map s1 = list_map s" "open_list s1 = open_list s" "os s1 = os s"
      "length (frames s1) = length (frames s)" "header_at s1 fh ?sub ?bm"
      "\<forall>j < length (frames s). allocated (frame_of s1 j) \<longleftrightarrow> j \<noteq> i \<and> allocated (frame_of s j)"
    using dispose_page_run [OF opened(1-4) p(1,2) opened(6) bit(1) p(3-6)] by blast
  have bits: "bit_at ?bm n \<longleftrightarrow> n \<noteq> nat p" if "n < nat (page_count sub)" for n using opened(7) that by (simp add: bit_at_bit_put [OF np])
  have "check_page_num q fh s1 = Some (Inr (), s1)"
    using s1(6) q(1) q0 opened(6) bits [of "nat q"] np pq p(1) by (intro check_page_ok [of _ _ ?sub ?bm]) (auto simp: nat_less_iff eq_nat_nat_iff)
  moreover have "find_unallocated s1 = Some i"
    unfolding find_unallocated_def using s1(5,7) full p(4) by (auto simp: find_Some_iff intro!: exI [of _ i])
  moreover have "readable s1 ?fd q pg" using q(3) s1(4) by (simp add: readable_def)
  ultimately obtain s2 where s2: "get_this_page fid q s1 = Some (Inr \<lparr>is_open = True, frame = i\<rparr>, s2)" "list_map s2 = (list_map s)(bp_key ?fd q \<mapsto> i)"
      "open_list s2 = open_list s" "length (frames s2) = length (frames s)" "page (frame_of s2 i) = pg" "pin_count (frame_of s2 i) = 1"
      "\<forall>j. j \<noteq> i \<longrightarrow> frame_of s2 j = frame_of s1 j"
    using read_into_free [of fid s1 fh q i pg] opened(1-3) q(2) s1(2,3,5) by auto
  have "header_at s2 fh ?sub ?bm" using s1(5,6) s2(4,7) p(5) by (simp add: header_at_def)
  moreover have "list_map s2 (bp_key ?fd p) = Some i" using s2(2) p(3) by simp
  ultimately obtain s' where "allocate_page fid s2 = Some (Inr \<lparr>is_open = True, frame = i\<rparr>, s')" "page (frame_of s' i) = pg" "pin_count (frame_of s' i) = 2"
    using allocate_resident [of fid s2 fh ?sub ?bm p i] opened(1-3,5,6) s2(3-6) p(1,2,4,5) bits np by auto
  then show ?thesis using s1(1) s2(1) by (simp add: dispose_and_reuse_def run)
qed

definition full_pool :: "nat pool" where
  "full_pool = demo_pool\<lparr>frames := [frame_of demo_pool 0, \<lparr>dirty = False, pin_count = 0, file_desc = 3, page = demo_page 1, allocated = True\<rparr>],
     frame_list := [0, 1], list_map := [bp_key 3 0 \<mapsto> 0, bp_key 3 1 \<mapsto> 1]\<rparr>"

theorem dispose_page_aliases_frames_witness:
  "\<exists>h2 h1 s'. dispose_and_reuse 0 1 2 full_pool = Some (Inr (h2, h1), s') \<and> frame h1 = 1 \<and> frame h2 = 1 \<and> page (frame_of s' 1) = demo_page 2"
proof -
  let ?fh = "\<lparr>bopen = True, file_name = ''t'', fh_file_desc = 3, hdr_frame = 0\<rparr>" and ?sub = "\<lparr>page_count = 3, allocated_pages = 3\<rparr>"
  have o: "(0 :: int) \<le> 0" "0 < MAX_OPEN_FILE" "open_list full_pool 0 = Some ?fh" "header_at full_pool ?fh ?sub demo_bitmap"
      "allocated_pages ?sub = page_count ?sub" "page_count ?sub \<le> 8 * int (length demo_bitmap)"
    by (simp_all add: MAX_OPEN_FILE_def full_pool_def demo_pool_def header_at_def demo_header_def demo_bitmap_def
        BP_PAGE_DATA_SIZE_def BP_PAGE_SIZE_def BP_FILE_SUB_HDR_SIZE_def)
  have bits: "\<forall>n < nat (page_count ?sub). bit_at demo_bitmap n"
    using demo_bits by (auto simp: max_pages_def BP_PAGE_DATA_SIZE_def BP_PAGE_SIZE_def BP_FILE_SUB_HDR_SIZE_def)
  have full: "\<forall>j < length (frames full_pool). allocated (frame_of full_pool j)"
    by (simp add: full_pool_def demo_pool_def less_Suc_eq)
  have r: "readable full_pool (fh_file_desc ?fh) 2 (demo_page 2)" by (simp add: readable_def full_pool_def demo_pool_def demo_os_def)
  have l: "list_map full_pool (bp_key (fh_file_desc ?fh) 1) = Some 1" "list_map full_pool (bp_key (fh_file_desc ?fh) 2) = None"
    by (simp_all add: full_pool_def bp_key_def)
  have f: "1 < length (frames full_pool)" "(1 :: nat) \<noteq> hdr_frame ?fh" "pin_count (frame_of full_pool 1) = 0" by (simp_all add: full_pool_def)
  show ?thesis using dispose_page_aliases_frames [OF o bits full _ _ l(1) f _ l(2) r] by auto
qed

section \<open>Flushing the pages of a file\<close>

text \<open>What flushing does to the frames: those of the file are free, everything else stays.\<close>

definition released_frames :: "int \<Rightarrow> nat set \<Rightarrow> 'd pool \<Rightarrow> 'd pool \<Rightarrow> bool" where
  "released_frames fd I s s' \<longleftrightarrow> list_map s' = list_map s \<and> open_list s' = open_list s \<and> length (frames s') = length (frames s)
    \<and> (\<forall>j < length (frames s). page (frame_of s' j) = page (frame_of s j) \<and> pin_count (frame_of s' j) = pin_count (frame_of s j)
        \<and> file_desc (frame_of s' j) = file_desc (frame_of s j)
        \<and> (allocated (frame_of s' j) \<longleftrightarrow> allocated (frame_of s j) \<and> \<not> (j \<in> I \<and> file_desc (frame_of s j) = fd)))"

lemma flush_block_released:
  assumes "flush_block i s = Some (r, s')"
  shows "released_frames fd {} s s'"
  using assms
  by (auto simp: flush_block_def bindE_def deref_def released_frames_def upd_frame_def Let_def nth_list_update split: if_splits prod.splits)

lemma released_frames_trans: "released_frames fd I s s1 \<Longrightarrow> released_frames fd J s1 s2 \<Longrightarrow> released_frames fd (I \<union> J) s s2"
  by (auto simp: released_frames_def)

lemma force_loop_released: "force_loop fd is s = Some (Inr (), s') \<Longrightarrow> released_frames fd (set is) s s'"
proof (induction "is" arbitrary: s)
  case Nil
  then show ?case by (simp add: ret_def released_frames_def)
next
  case (Cons i "is")
  have i: "i < length (frames s)" using Cons.prems by (auto simp: bindE_def deref_def split: if_splits)
  show ?case
  proof (cases "\<not> allocated (frame_of s i) \<or> file_desc (frame_of s i) \<noteq> fd")
    case True
    then have "released_frames fd (set is) s s'" using Cons i by (simp add: run)
    moreover have "released_frames fd {i} s s" using True by (auto simp: released_frames_def)
    ultimately show ?thesis using released_frames_trans [of fd "{i}" s s "set is" s'] by simp
  next
    case False
    then obtain s1 where s1: "(if dirty (frame_of s i) then flush_block i else ret ()) s = Some (Inr (), s1)"
        "bindE (modify_frame i (allocated_update (\<lambda>_. False))) (\<lambda>_. force_loop fd is) s1 = Some (Inr (), s')"
      using Cons.prems i by (auto simp: run elim!: bindE_SomeE)
    have f: "released_frames fd {} s s1"
    proof (cases "dirty (frame_of s i)")
      case True
      then show ?thesis using s1(1) flush_block_released by auto
    next
      case False
      then show ?thesis using s1(1) by (simp add: ret_def released_frames_def)
    qed
    then have "i < length (frames s1)" using i by (simp add: released_frames_def)
    then have r: "force_loop fd is (upd_frame i (allocated_update (\<lambda>_. False)) s1) = Some (Inr (), s')" using s1(2) by (simp add: run)
    have "released_frames fd {i} s1 (upd_frame i (allocated_update (\<lambda>_. False)) s1)"
      using False f i by (auto simp: released_frames_def frame_of_upd_frame)
    from released_frames_trans [OF f released_frames_trans [OF this Cons.IH [OF r]]] show ?thesis by simp
  qed
qed

lemma flush_all_pages_released:
  assumes "flush_all_pages fid s = Some (Inr (), s')" "open_list s fid = Some fh"
  shows "released_frames (fh_file_desc fh) {..<length (frames s)} s s'"
proof -
  have "force_loop (fh_file_desc fh) [0..<length (frames s)] s = Some (Inr (), s')"
    using assms by (auto simp: flush_all_pages_def check_file_id_def force_all_pages_def bindE_def split: if_splits)
  from force_loop_released [OF this] show ?thesis by (simp add: atLeast0LessThan)
qed

lemma find_first: "(\<forall>j < k. \<not> P j) \<Longrightarrow> P k \<Longrightarrow> k < n \<Longrightarrow> find P [0..<n] = Some k"
  by (auto simp: find_Some_iff intro!: exI [of _ k])

lemma find_before:
  assumes "P k" "k < n"
  obtains j where "find P [0..<n] = Some j" "j \<le> k"
proof -
  have l: "P (LEAST j. P j)" using assms(1) by (rule LeastI)
  have le: "(LEAST j. P j) \<le> k" using assms(1) by (rule Least_le)
  have min: "\<forall>j < (LEAST j. P j). \<not> P j" by (blast dest: not_less_Least)
  have "(LEAST j. P j) < n" using le assms(2) by (rule le_less_trans)
  with min l have "find P [0..<n] = Some (LEAST j. P j)" by (rule find_first)
  then show thesis using le by (rule that)
qed

text \<open>C26. \<^verbatim>\<open>flush_all_pages\<close> marks every frame of the file as free, the pinned header frame included, while the
  file stays open. When the frames before the header frame belong to other files, the next page of the
  file that is not in memory is read into the header frame, and once it holds a page of the client there is no header
  left to ask for the number of pages.\<close>

theorem flush_all_pages_drops_header:
  assumes flush: "flush_all_pages fid s = Some (Inr (), s')"
    and opened: "0 \<le> fid" "fid < MAX_OPEN_FILE" "open_list s fid = Some fh" "header_at s fh sub bm"
    and others: "\<forall>j < hdr_frame fh. allocated (frame_of s j) \<and> file_desc (frame_of s j) \<noteq> fh_file_desc fh"
    and hdr: "file_desc (frame_of s (hdr_frame fh)) = fh_file_desc fh"
    and q: "q < page_count sub" "page_count sub \<le> 8 * int (length bm)" "bit_at bm (nat q)" "list_map s (bp_key (fh_file_desc fh) q) = None"
      "readable s' (fh_file_desc fh) q pg" "data pg = Payload d"
  shows "\<not> allocated (frame_of s' (hdr_frame fh)) \<and> pin_count (frame_of s' (hdr_frame fh)) = pin_count (frame_of s (hdr_frame fh))
    \<and> (\<exists>h s''. get_this_page fid q s' = Some (Inr h, s'') \<and> frame h = hdr_frame fh \<and> open_list s'' fid = Some fh
        \<and> page (frame_of s'' (hdr_frame fh)) = pg \<and> get_page_count fid s'' = None)"
proof -
  let ?k = "hdr_frame fh"
  have k: "?k < length (frames s)" "data (page (frame_of s ?k)) = HdrData sub bm" using opened(4) by (simp_all add: header_at_def)
  have r: "released_frames (fh_file_desc fh) {..<length (frames s)} s s'" by (rule flush_all_pages_released [OF flush opened(3)])
  then have s': "list_map s' = list_map s" "open_list s' = open_list s" "length (frames s') = length (frames s)" "header_at s' fh sub bm"
      "\<not> allocated (frame_of s' ?k)" "pin_count (frame_of s' ?k) = pin_count (frame_of s ?k)"
    using k hdr by (auto simp: released_frames_def header_at_def)
  have "\<forall>j < ?k. allocated (frame_of s' j)" using others r k(1) by (auto simp: released_frames_def)
  then have free: "find_unallocated s' = Some ?k" unfolding find_unallocated_def using s'(3,5) k(1) by (intro find_first) auto
  have "0 \<le> q" using q(5) by (simp add: readable_def)
  then have c: "check_page_num q fh s' = Some (Inr (), s')" using s'(4) q(1-3) by (intro check_page_ok) auto
  obtain s'' where s'': "get_this_page fid q s' = Some (Inr \<lparr>is_open = True, frame = ?k\<rparr>, s'')" "open_list s'' = open_list s"
      "length (frames s'') = length (frames s)" "page (frame_of s'' ?k) = pg"
    using read_into_free [OF opened(1,2) _ c _ free q(5)] s'(1-3) opened(3) q(4) by auto
  have "get_page_count fid s'' = None"
    using check_file_id_ok [OF opened(1,2), of s''] s''(2-4) opened(3) k(1) q(6) by (simp add: get_page_count_def hdr_get_def run)
  then show ?thesis using s'(5,6) s''(1,2,4) opened(3) by auto
qed

theorem flush_all_pages_drops_header_witness:
  "\<exists>s' h s''. flush_all_pages 0 demo_pool = Some (Inr (), s') \<and> get_this_page 0 1 s' = Some (Inr h, s'') \<and> frame h = 0
    \<and> page (frame_of s'' 0) = demo_page 1 \<and> get_page_count 0 s'' = None"
proof -
  let ?fh = "\<lparr>bopen = True, file_name = ''t'', fh_file_desc = 3, hdr_frame = 0\<rparr>" and ?sub = "\<lparr>page_count = 3, allocated_pages = 3\<rparr>"
  let ?s' = "upd_frame 0 (allocated_update (\<lambda>_. False)) demo_pool"
  have flush: "flush_all_pages 0 demo_pool = Some (Inr (), ?s')"
    by (simp add: flush_all_pages_def force_all_pages_def check_file_id_def demo_pool_def free_frame_def MAX_OPEN_FILE_def upt_rec run upd_frame_def)
  have o: "(0 :: int) \<le> 0" "0 < MAX_OPEN_FILE" "open_list demo_pool 0 = Some ?fh" "header_at demo_pool ?fh ?sub demo_bitmap"
      "page_count ?sub \<le> 8 * int (length demo_bitmap)"
    by (simp_all add: MAX_OPEN_FILE_def demo_pool_def header_at_def demo_header_def demo_bitmap_def
        BP_PAGE_DATA_SIZE_def BP_PAGE_SIZE_def BP_FILE_SUB_HDR_SIZE_def)
  have bit: "bit_at demo_bitmap (nat 1)"
    using demo_bits by (auto simp: max_pages_def BP_PAGE_DATA_SIZE_def BP_PAGE_SIZE_def BP_FILE_SUB_HDR_SIZE_def)
  have r: "readable ?s' (fh_file_desc ?fh) 1 (demo_page 1)" by (simp add: readable_def demo_pool_def demo_os_def)
  have l: "list_map demo_pool (bp_key (fh_file_desc ?fh) 1) = None" "file_desc (frame_of demo_pool (hdr_frame ?fh)) = fh_file_desc ?fh"
    by (simp_all add: demo_pool_def bp_key_def)
  have d: "data (demo_page 1) = Payload 11" by (simp add: demo_page_def)
  show ?thesis using flush flush_all_pages_drops_header [OF flush o(1-4) _ l(2) _ o(5) bit l(1) r d] by auto
qed

section \<open>Closing a file\<close>

lemma close_file_released:
  assumes "close_file fid s = Some (Inr (), s1)" "open_list s fid = Some fh"
  shows "hdr_frame fh < length (frames s) \<and> list_map s1 = list_map s \<and> length (frames s1) = length (frames s)
    \<and> (\<forall>j < length (frames s). page (frame_of s1 j) = page (frame_of s j)
        \<and> (allocated (frame_of s1 j) \<longleftrightarrow> allocated (frame_of s j) \<and> file_desc (frame_of s j) \<noteq> fh_file_desc fh))"
proof -
  let ?s0 = "upd_frame (hdr_frame fh) (pin_count_update (\<lambda>p. p - 1)) s"
  obtain s2 where s2: "hdr_frame fh < length (frames s)" "force_loop (fh_file_desc fh) [0..<length (frames ?s0)] ?s0 = Some (Inr (), s2)"
      "list_map s1 = list_map s2" "frames s1 = frames s2"
    using assms
    by (auto simp: close_file_def check_file_id_def force_all_pages_def bindE_def attempt_def modify_frame_def fail_def Let_def
        split: if_splits option.splits sum.splits prod.splits)
  from force_loop_released [OF s2(2)] show ?thesis
    using s2 by (auto simp: released_frames_def frame_of_upd_frame split: if_splits)
qed

lemma open_header_ok:
  assumes "find_unallocated s = Some k" "open_header slot name fd s = Some (Inr r, s')"
  shows "r = slot \<and> list_map s' = (list_map s)(bp_key fd 0 \<mapsto> k) \<and> open_list s' = (open_list s)(slot \<mapsto> \<lparr>bopen = True, file_name = name, fh_file_desc = fd, hdr_frame = k\<rparr>)
    \<and> length (frames s') = length (frames s) \<and> (\<forall>j. j \<noteq> k \<longrightarrow> frame_of s' j = frame_of s j)"
proof -
  have k: "k < length (frames s)" using assms(1) by (auto simp: find_unallocated_def find_Some_iff)
  let ?s1 = "alloc_finish fd 0 k (upd_frame k (allocated_update (\<lambda>_. True)) s)"
  let ?s2 = "upd_frame k (\<lambda>f. f\<lparr>dirty := False, file_desc := fd, pin_count := 1\<rparr>) ?s1"
  let ?fh = "\<lparr>bopen = True, file_name = name, fh_file_desc = fd, hdr_frame = k\<rparr>"
  have a: "allocate_block fd 0 s = Some (Inr k, ?s1)" using assms(1) by (simp add: allocate_block_def alloc_def run)
  have len: "length (frames ?s1) = length (frames s)" using k by (simp add: alloc_finish_sel)
  have m: "modify_frame k (\<lambda>f. f\<lparr>dirty := False, file_desc := fd, pin_count := 1\<rparr>) ?s1 = Some (Inr (), ?s2)"
    using k len by (simp add: modify_frame_def)
  obtain x s3 where l: "load_page 0 ?fh k ?s2 = Some (x, s3)"
    using assms(2) a m by (cases "load_page 0 ?fh k ?s2") (auto simp: open_header_def attempt_def bindE_def Let_def)
  show ?thesis
  proof (cases x)
    case (Inl rc)
    then show ?thesis using assms(2) a m l
      by (auto simp: open_header_def Let_def attempt_def bindE_def modify_def fail_def split: option.splits if_splits sum.splits prod.splits)
  next
    case (Inr y)
    then have "s' = open_list_update (\<lambda>l. l(slot \<mapsto> ?fh)) s3" "r = slot"
      using assms(2) a m l by (auto simp: open_header_def Let_def attempt_def bindE_def modify_def ret_def)
    moreover obtain pg w where "s3 = upd_frame k (page_update (\<lambda>_. pg)) (?s2\<lparr>os := w\<rparr>)"
      using l Inr by (auto simp: load_page_def modify_frame_def split: if_splits prod.splits option.splits)
    ultimately show ?thesis using k len by (auto simp: alloc_finish_sel frames_upd_frame)
  qed
qed

text \<open>Opening a file, when a frame other than \<^verbatim>\<open>i\<close> is the first free one, leaves \<^verbatim>\<open>i\<close> and its entry as they are.\<close>

lemma open_file_keeps_frame:
  assumes "open_file u s = Some (Inr fid, s')" "find_unallocated s = Some k" "k \<noteq> i"
  shows "0 \<le> fid \<and> fid < MAX_OPEN_FILE \<and> length (frames s') = length (frames s) \<and> frame_of s' i = frame_of s i
    \<and> (\<forall>fh key. open_list s' fid = Some fh \<longrightarrow> key \<noteq> bp_key (fh_file_desc fh) 0 \<longrightarrow> list_map s' key = list_map s key)"
proof (cases "find (\<lambda>i. case open_list s i of None \<Rightarrow> False | Some fh \<Rightarrow> file_name fh = u) [0..MAX_OPEN_FILE - 1]")
  case None
  obtain fd w where w: "os_open u (os s) = (fd, w)" by fastforce
  obtain slot where slot: "find (\<lambda>i. open_list s i = None) [0..MAX_OPEN_FILE - 1] = Some slot"
      "open_header slot u fd (s\<lparr>os := w\<rparr>) = Some (Inr fid, s')"
    using assms(1) None w by (auto simp: open_file_def split: option.splits if_splits)
  have "slot \<in> set [0..MAX_OPEN_FILE - 1]" using slot(1) by (metis find_Some_iff nth_mem)
  moreover have "find_unallocated (s\<lparr>os := w\<rparr>) = Some k" using assms(2) by (simp add: find_unallocated_def)
  from open_header_ok [OF this slot(2)] show ?thesis using assms(3) calculation by auto
next
  case (Some j)
  then have "fid = j" "s' = s" using assms(1) by (simp_all add: open_file_def)
  moreover have "j \<in> set [0..MAX_OPEN_FILE - 1]" using Some by (metis find_Some_iff nth_mem)
  ultimately show ?thesis by auto
qed

text \<open>C27. \<^verbatim>\<open>close_file\<close> leaves the pages of the file in \<^verbatim>\<open>list_map\<close>, which is keyed by the file descriptor. When a
  page \<^verbatim>\<open>p\<close> of the closed file was in a frame behind that of its header page, and the file that is opened next is given
  the same descriptor, which is what POSIX prescribes for the lowest descriptor that is free, then reading page \<^verbatim>\<open>p\<close> of the
  new file gives the frame and the content of page \<^verbatim>\<open>p\<close> of the closed file, whatever the new file has on disk.\<close>

theorem close_file_leaks_pages:
  assumes close: "close_file fid s = Some (Inr (), s1)" "open_list s fid = Some fh"
    and hdr: "file_desc (frame_of s (hdr_frame fh)) = fh_file_desc fh" "hdr_frame fh < i"
    and p: "list_map s (bp_key (fh_file_desc fh) p) = Some i" "i < length (frames s)" "key_range (fh_file_desc fh)" "key_range p" "p \<noteq> 0"
    and reopen: "open_file u s1 = Some (Inr fid', s2)" "open_list s2 fid' = Some fh'" "fh_file_desc fh' = fh_file_desc fh"
    and valid: "check_page_num p fh' s2 = Some (Inr (), s2)"
  shows "\<exists>h s3. get_this_page fid' p s2 = Some (Inr h, s3) \<and> frame h = i \<and> page (frame_of s3 i) = page (frame_of s i)"
proof -
  note r = close_file_released [OF close]
  have "\<not> allocated (frame_of s1 (hdr_frame fh))" "hdr_frame fh < length (frames s1)" using r hdr(1) by auto
  then obtain k where k: "find_unallocated s1 = Some k" "k \<le> hdr_frame fh"
    unfolding find_unallocated_def by (rule find_before)
  have "bp_key (fh_file_desc fh) p \<noteq> bp_key (fh_file_desc fh) 0" using p(3-5) bp_key_inj [of "fh_file_desc fh" p "fh_file_desc fh" 0] by (auto simp: key_range_def)
  then have s2: "0 \<le> fid'" "fid' < MAX_OPEN_FILE" "length (frames s2) = length (frames s)" "page (frame_of s2 i) = page (frame_of s i)"
      "list_map s2 (bp_key (fh_file_desc fh') p) = Some i"
    using open_file_keeps_frame [OF reopen(1) k(1), of i] k(2) hdr(2) reopen(2,3) r p(1,2) by auto
  show ?thesis using read_resident [OF s2(1,2) reopen(2) valid s2(5)] s2(3,4) p(2) by (simp add: frame_of_upd_frame)
qed

text \<open>Two files whose pages 1 hold 11 and 99; the first one is open and its page 1 is in memory.\<close>

definition two_files :: "nat pool" where
  "two_files = demo_pool\<lparr>os := demo_os\<lparr>files := (files demo_os)(''u'' \<mapsto>
       [demo_header, \<lparr>page_num = 1, data = Payload 99\<rparr>, demo_page 2])\<rparr>,
     frames := [frame_of demo_pool 0, \<lparr>dirty = False, pin_count = 0, file_desc = 3, page = demo_page 1, allocated = True\<rparr>, free_frame],
     list_map := [bp_key 3 0 \<mapsto> 0, bp_key 3 1 \<mapsto> 1]\<rparr>"

lemma open_file_none_open:
  assumes "open_list s = (\<lambda>_. None)"
  shows "open_file name s = (let (fd, w) = os_open name (os s) in
    if fd < 0 then Some (Inl IOERR_ACCESS, s\<lparr>os := w\<rparr>) else open_header 0 name fd (s\<lparr>os := w\<rparr>))"
proof -
  have "[0..MAX_OPEN_FILE - 1] = 0 # [1..MAX_OPEN_FILE - 1]" by (simp add: MAX_OPEN_FILE_def upto_rec1)
  moreover have "find (\<lambda>i. False) xs = None" for xs :: "int list" by (induction xs) auto
  ultimately show ?thesis by (simp add: open_file_def assms)
qed

lemma two_files_reopened:
  "\<exists>s1 s2. close_file 0 two_files = Some (Inr (), s1) \<and> open_file ''u'' s1 = Some (Inr 0, s2)
    \<and> open_list s2 0 = Some \<lparr>bopen = True, file_name = ''u'', fh_file_desc = 3, hdr_frame = 0\<rparr>
    \<and> check_page_num 1 \<lparr>bopen = True, file_name = ''u'', fh_file_desc = 3, hdr_frame = 0\<rparr> s2 = Some (Inr (), s2)"
  by (simp add: two_files_def open_file_none_open open_header_def os_open_def pool_eval upt_rec Let_def)

theorem close_file_leaks_pages_witness:
  "\<exists>s1 s2 s3 h pages. close_file 0 two_files = Some (Inr (), s1) \<and> open_file ''u'' s1 = Some (Inr 0, s2)
    \<and> get_this_page 0 1 s2 = Some (Inr h, s3) \<and> data (page (frame_of s3 (frame h))) = Payload 11
    \<and> files (os two_files) ''u'' = Some pages \<and> data (pages ! 1) = Payload 99"
proof -
  let ?fh = "\<lparr>bopen = True, file_name = ''t'', fh_file_desc = 3, hdr_frame = 0\<rparr>"
  obtain s1 s2 where s2: "close_file 0 two_files = Some (Inr (), s1)" "open_file ''u'' s1 = Some (Inr 0, s2)"
      "open_list s2 0 = Some \<lparr>bopen = True, file_name = ''u'', fh_file_desc = 3, hdr_frame = 0\<rparr>"
      "check_page_num 1 \<lparr>bopen = True, file_name = ''u'', fh_file_desc = 3, hdr_frame = 0\<rparr> s2 = Some (Inr (), s2)"
    using two_files_reopened by blast
  have t: "open_list two_files 0 = Some ?fh" "file_desc (frame_of two_files (hdr_frame ?fh)) = fh_file_desc ?fh" "hdr_frame ?fh < 1"
      "list_map two_files (bp_key (fh_file_desc ?fh) 1) = Some 1" "1 < length (frames two_files)" "key_range (fh_file_desc ?fh)" "key_range 1"
      "data (page (frame_of two_files 1)) = Payload 11"
    by (simp_all add: two_files_def demo_pool_def bp_key_def key_range_def demo_page_def)
  have u: "\<exists>pages. files (os two_files) ''u'' = Some pages \<and> data (pages ! 1) = Payload 99"
    by (simp add: two_files_def)
  show ?thesis using close_file_leaks_pages [OF s2(1) t(1-7) _ s2(2,3) _ s2(4)] s2(1,2) t(8) u by force
qed

end
