(* ===== verification/Record_Page.thy ===== *)
theory Record_Page
  imports Bitmap Disk_Buffer_Pool
begin

text \<open>
  One page of a record file (\<^verbatim>\<open>storage/common/record_manager.cpp\<close>): a header of five
  integers, a bitmap of the used slots, and the slots. \<^verbatim>\<open>body\<close> is the page data behind
  the header, so the bitmap starts at its index 0 and a slot at its offset in the page minus
  \<^verbatim>\<open>page_fix_size\<close>. The operations are those of \<^verbatim>\<open>RecordPageHandler\<close> on
  the page its handle points to; a copy that leaves the page, or that reads behind the end of its
  source, has no defined result.
\<close>

section \<open>Layout\<close>

record rec_page =
  record_num :: int
  record_capacity :: int
  record_real_size :: int
  record_size :: int
  first_record_offset :: int
  body :: "byte list"

definition align8 :: "int \<Rightarrow> int" where
  "align8 sz = sz div 8 * 8 + (if sz mod 8 = 0 then 0 else 8)"

definition page_fix_size :: int where
  "page_fix_size = 4 + 4 + 4 + 4 + 4"

text \<open>The quotient by \<^verbatim>\<open>record_size + 0.125\<close>, truncated. All operands are multiples of
  1/8 far below the precision of a \<^verbatim>\<open>double\<close>, so the truncated quotient is exact.\<close>

definition page_record_capacity :: "int \<Rightarrow> int \<Rightarrow> int" where
  "page_record_capacity page_size rs = (8 * (page_size - page_fix_size - 1)) div (8 * rs + 1)"

definition page_bitmap_size :: "int \<Rightarrow> int" where
  "page_bitmap_size cap = cap div 8 + (if cap mod 8 = 0 then 0 else 1)"

definition page_header_size :: "int \<Rightarrow> int" where
  "page_header_size cap = align8 (page_fix_size + page_bitmap_size cap)"

section \<open>Copies into and out of the page\<close>

definition copy_in :: "byte list \<Rightarrow> int \<Rightarrow> byte list \<Rightarrow> int \<Rightarrow> byte list option" where
  "copy_in mem off src n =
    (if 0 \<le> n \<and> n \<le> int (length src) \<and> 0 \<le> off \<and> off + n \<le> int (length mem)
     then Some (overwrite mem (nat off) (take (nat n) src)) else None)"

definition copy_out :: "byte list \<Rightarrow> int \<Rightarrow> int \<Rightarrow> byte list option" where
  "copy_out mem off n =
    (if 0 \<le> n \<and> 0 \<le> off \<and> off + n \<le> int (length mem) then Some (segment mem (nat off) (nat n)) else None)"

text \<open>The offset of a slot within \<^verbatim>\<open>body\<close>.\<close>

definition slot_offset :: "rec_page \<Rightarrow> int \<Rightarrow> int" where
  "slot_offset pg i = first_record_offset pg + i * record_size pg - page_fix_size"

section \<open>Operations\<close>

definition init_empty :: "int \<Rightarrow> rec_page \<Rightarrow> rec_page option" where
  "init_empty rs pg =
    (let phy = align8 rs;
         cap = page_record_capacity (int BP_PAGE_DATA_SIZE) phy;
         bms = page_bitmap_size cap
     in map_option (\<lambda>mem. \<lparr>record_num = 0, record_capacity = cap, record_real_size = rs, record_size = phy,
            first_record_offset = page_header_size cap, body = mem\<rparr>)
          (copy_in (body pg) 0 (replicate (nat bms) 0) bms))"

definition page_insert :: "byte list \<Rightarrow> int \<Rightarrow> rec_page \<Rightarrow> ((RC + int) \<times> rec_page) option" where
  "page_insert src len pg =
    (if record_num pg = record_capacity pg then Some (Inl RECORD_NOMEM, pg)
     else case next_unsetted_bit (body pg) (record_capacity pg) 0 of
       None \<Rightarrow> None
     | Some index \<Rightarrow>
         (case bitmap_set_bit (body pg) index of
            None \<Rightarrow> None
          | Some mem \<Rightarrow>
              map_option (\<lambda>mem'. (Inr index, pg\<lparr>record_num := record_num pg + 1, body := mem'\<rparr>))
                (copy_in mem (slot_offset pg index) src (if len = 0 then record_real_size pg else len))))"

definition page_update_record :: "int \<Rightarrow> byte list \<Rightarrow> rec_page \<Rightarrow> ((RC + unit) \<times> rec_page) option" where
  "page_update_record slot src pg =
    (if slot \<ge> record_capacity pg then Some (Inl INVALID_ARGUMENT, pg)
     else case bitmap_get_bit (body pg) slot of
       None \<Rightarrow> None
     | Some used \<Rightarrow>
         if \<not> used then Some (Inl RECORD_RECORD_NOT_EXIST, pg)
         else map_option (\<lambda>mem. (Inr (), pg\<lparr>body := mem\<rparr>))
                (copy_in (body pg) (slot_offset pg slot) src (record_real_size pg)))"

definition page_delete :: "int \<Rightarrow> rec_page \<Rightarrow> ((RC + unit) \<times> rec_page) option" where
  "page_delete slot pg =
    (if slot \<ge> record_capacity pg then Some (Inl INVALID_ARGUMENT, pg)
     else case bitmap_get_bit (body pg) slot of
       None \<Rightarrow> None
     | Some used \<Rightarrow>
         if \<not> used then Some (Inl RECORD_RECORD_NOT_EXIST, pg)
         else map_option (\<lambda>mem. (Inr (), pg\<lparr>record_num := record_num pg - 1, body := mem\<rparr>))
                (bitmap_clear_bit (body pg) slot))"

definition page_get :: "int \<Rightarrow> rec_page \<Rightarrow> (RC + byte list) option" where
  "page_get slot pg =
    (if slot \<ge> record_capacity pg then Some (Inl RECORD_INVALIDRID)
     else case bitmap_get_bit (body pg) slot of
       None \<Rightarrow> None
     | Some used \<Rightarrow>
         if \<not> used then Some (Inl RECORD_RECORD_NOT_EXIST)
         else map_option Inr (copy_out (body pg) (slot_offset pg slot) (record_real_size pg)))"

definition page_next :: "int \<Rightarrow> rec_page \<Rightarrow> (RC + int \<times> byte list) option" where
  "page_next slot pg =
    (if slot \<ge> record_capacity pg - 1 then Some (Inl RECORD_EOF)
     else case next_setted_bit (body pg) (record_capacity pg) (slot + 1) of
       None \<Rightarrow> None
     | Some index \<Rightarrow>
         if index < 0 then Some (Inl RECORD_EOF)
         else map_option (\<lambda>d. Inr (index, d)) (copy_out (body pg) (slot_offset pg index) (record_real_size pg)))"

definition page_is_full :: "rec_page \<Rightarrow> bool" where
  "page_is_full pg \<longleftrightarrow> record_num pg \<ge> record_capacity pg"

section \<open>The invariant of a page\<close>

definition layout_ok :: "rec_page \<Rightarrow> bool" where
  "layout_ok pg \<longleftrightarrow> int (length (body pg)) = int BP_PAGE_DATA_SIZE - page_fix_size \<and>
     0 < record_real_size pg \<and> record_real_size pg \<le> record_size pg \<and> 0 < record_capacity pg \<and>
     page_fix_size + page_bitmap_size (record_capacity pg) \<le> first_record_offset pg \<and>
     first_record_offset pg + record_capacity pg * record_size pg \<le> int BP_PAGE_DATA_SIZE"

definition page_ok :: "rec_page \<Rightarrow> bool" where
  "page_ok pg \<longleftrightarrow> layout_ok pg \<and> record_num pg = int (bm.used (body pg) (nat (record_capacity pg)))"

text \<open>The records of a page, by slot.\<close>

definition page_map :: "rec_page \<Rightarrow> nat \<Rightarrow> byte list option" where
  "page_map pg i = (if int i < record_capacity pg \<and> bit_at (body pg) i
     then Some (segment (body pg) (nat (slot_offset pg (int i))) (nat (record_real_size pg))) else None)"

section \<open>Bitmap and slots do not overlap\<close>

lemma layoutD:
  assumes "layout_ok pg" "int i < record_capacity pg"
  shows "int (i div 8) < page_bitmap_size (record_capacity pg)"
    "page_bitmap_size (record_capacity pg) \<le> slot_offset pg (int i)"
    "0 \<le> slot_offset pg (int i)"
    "slot_offset pg (int i) + record_size pg \<le> int (length (body pg))"
    "i < 8 * length (body pg)"
proof -
  let ?c = "record_capacity pg" and ?rs = "record_size pg"
  have rs: "0 < ?rs" using assms by (simp add: layout_ok_def)
  show b: "int (i div 8) < page_bitmap_size ?c"
    using assms(2) by (auto simp: page_bitmap_size_def zdiv_int)
  have m: "0 \<le> int i * ?rs" "int i * ?rs + ?rs \<le> ?c * ?rs"
  proof -
    show "0 \<le> int i * ?rs" using rs by simp
    have "(int i + 1) * ?rs \<le> ?c * ?rs" using assms(2) rs by (intro mult_right_mono) auto
    then show "int i * ?rs + ?rs \<le> ?c * ?rs" by (simp add: algebra_simps)
  qed
  show o: "page_bitmap_size ?c \<le> slot_offset pg (int i)"
    using assms(1) m(1) unfolding layout_ok_def slot_offset_def by linarith
  show "0 \<le> slot_offset pg (int i)" using b o by simp
  show e: "slot_offset pg (int i) + ?rs \<le> int (length (body pg))"
    using assms(1) m(2) unfolding layout_ok_def slot_offset_def by linarith
  have "int (i div 8) < int (length (body pg))" using b o e rs by linarith
  then show "i < 8 * length (body pg)" by simp
qed

lemma layout_in_page: "layout_ok pg \<Longrightarrow> in_page (body pg) (record_capacity pg)"
proof -
  assume l: "layout_ok pg"
  have "bitmap_end (record_capacity pg) = nat (page_bitmap_size (record_capacity pg))"
    by (simp add: bitmap_end_def page_bitmap_size_def)
  moreover have "page_bitmap_size (record_capacity pg) < int (length (body pg))"
    using layoutD [OF l, of 0] l by (simp add: layout_ok_def)
  moreover have "0 \<le> page_bitmap_size (record_capacity pg)" using layoutD(1) [OF l, of 0] l by (simp add: layout_ok_def)
  ultimately show ?thesis using l by (simp add: in_page_def layout_ok_def nat_less_iff)
qed

lemma slots_disjoint:
  assumes "layout_ok pg" "int i < record_capacity pg" "int j < record_capacity pg" "i \<noteq> j"
  shows "slot_offset pg (int i) + record_size pg \<le> slot_offset pg (int j) \<or>
    slot_offset pg (int j) + record_size pg \<le> slot_offset pg (int i)"
proof -
  have *: "slot_offset pg (int a) + record_size pg \<le> slot_offset pg (int b)" if "a < b" for a b
  proof -
    have "(int a + 1) * record_size pg \<le> int b * record_size pg"
      using that assms(1) by (intro mult_right_mono) (auto simp: layout_ok_def)
    then show ?thesis by (simp add: slot_offset_def algebra_simps)
  qed
  show ?thesis using assms(4) * [of i j] * [of j i] by (cases "i < j") auto
qed

lemma bit_at_overwrite:
  "off + length ys \<le> length xs \<Longrightarrow> i div 8 < off \<Longrightarrow> bit_at (overwrite xs off ys) i = bit_at xs i"
  by (simp add: bit_at_def nth_overwrite)

lemma segment_bit_put:
  assumes "i < 8 * length xs" "i div 8 < off" "off + n \<le> length xs"
  shows "segment (bit_put xs i v) off n = segment xs off n"
proof (rule nth_equalityI)
  fix k assume "k < length (segment (bit_put xs i v) off n)"
  then have "k < n" using assms by simp
  then show "segment (bit_put xs i v) off n ! k = segment xs off n ! k"
    using assms by (simp add: segment_def nth_bit_put_other)
qed (use assms in simp)

text \<open>The layout does not depend on the content.\<close>

lemma slot_offset_cong [simp]:
  "slot_offset (pg\<lparr>body := b\<rparr>) i = slot_offset pg i"
  "slot_offset (pg\<lparr>record_num := n\<rparr>) i = slot_offset pg i"
  by (simp_all add: slot_offset_def)

lemma layout_ok_cong [simp]:
  "length b = length (body pg) \<Longrightarrow> layout_ok (pg\<lparr>body := b\<rparr>) = layout_ok pg"
  "layout_ok (pg\<lparr>record_num := n\<rparr>) = layout_ok pg"
  by (simp_all add: layout_ok_def)

text \<open>Filling a slot and marking it used, seen on the map of records.\<close>

lemma page_map_store:
  assumes l: "layout_ok pg" and i: "int i < record_capacity pg" and src: "int (length d) = record_real_size pg"
    and mem: "mem = overwrite (bit_put (body pg) i True) (nat (slot_offset pg (int i))) d"
  shows "page_map (pg\<lparr>body := mem\<rparr>) = (page_map pg)(i \<mapsto> d)" "length mem = length (body pg)"
    "\<And>j. int j < record_capacity pg \<Longrightarrow> bit_at mem j = (j = i \<or> bit_at (body pg) j)"
proof -
  note li = layoutD [OF l i]
  let ?o = "nat (slot_offset pg (int i))"
  have real: "record_real_size pg \<le> record_size pg" "0 < record_real_size pg" using l by (auto simp: layout_ok_def)
  have fit: "?o + length d \<le> length (bit_put (body pg) i True)" using li real src by simp
  show len: "length mem = length (body pg)" using fit li(5) by (simp add: mem)
  show bit: "bit_at mem j = (j = i \<or> bit_at (body pg) j)" if "int j < record_capacity pg" for j
  proof -
    have "j div 8 < ?o" using layoutD(1) [OF l that] li(2) by linarith
    then show ?thesis using fit li(5) by (simp add: mem bit_at_overwrite bit_at_bit_put)
  qed
  have seg: "segment mem (nat (slot_offset pg (int j))) (nat (record_real_size pg)) =
      (if j = i then d else segment (body pg) (nat (slot_offset pg (int j))) (nat (record_real_size pg)))"
    if j: "int j < record_capacity pg" for j
  proof (cases "j = i")
    case True
    have "nat (record_real_size pg) = length d" using src real by simp
    then show ?thesis using True fit by (simp add: mem)
  next
    case False
    note lj = layoutD [OF l j]
    have e: "nat (slot_offset pg (int j)) + nat (record_real_size pg) \<le> length (body pg)" using lj real by linarith
    have "nat (slot_offset pg (int j)) + nat (record_real_size pg) \<le> ?o \<or> ?o + length d \<le> nat (slot_offset pg (int j))"
      using slots_disjoint [OF l i j] False li(3) lj(3) real src by linarith
    moreover have "i div 8 < nat (slot_offset pg (int j))" using li(1) lj(2) by linarith
    ultimately show ?thesis
      using False fit e li(5) by (simp add: mem segment_overwrite_disjoint segment_bit_put)
  qed
  show "page_map (pg\<lparr>body := mem\<rparr>) = (page_map pg)(i \<mapsto> d)"
    using bit seg i by (auto simp: fun_eq_iff page_map_def)
qed

section \<open>Every operation on every branch\<close>

lemma page_insert_full: "record_num pg = record_capacity pg \<Longrightarrow> page_insert src len pg = Some (Inl RECORD_NOMEM, pg)"
  by (simp add: page_insert_def)

lemma page_get_eq:
  assumes l: "layout_ok pg" and i: "int i < record_capacity pg"
  shows "page_get (int i) pg =
    Some (case page_map pg i of None \<Rightarrow> Inl RECORD_RECORD_NOT_EXIST | Some d \<Rightarrow> Inr d)"
proof -
  note li = layoutD [OF l i]
  have r: "record_real_size pg \<le> record_size pg" "0 < record_real_size pg" using l by (auto simp: layout_ok_def)
  have "copy_out (body pg) (slot_offset pg (int i)) (record_real_size pg) =
      Some (segment (body pg) (nat (slot_offset pg (int i))) (nat (record_real_size pg)))"
    unfolding copy_out_def using li r by auto
  moreover have "bitmap_get_bit (body pg) (int i) = Some (bit_at (body pg) i)"
    using bitmap_get_bit_run [of "int i" "body pg"] li(5) by simp
  ultimately show ?thesis using i by (simp add: page_get_def page_map_def)
qed

lemma used_bits_store:
  assumes "\<And>j. int j < c \<Longrightarrow> bit_at mem j = (j = i \<or> bit_at b j)" "int i < c" "\<not> bit_at b i"
  shows "bm.used mem (nat c) = Suc (bm.used b (nat c))"
proof -
  have "{j. j < nat c \<and> bit_at mem j} = insert i {j. j < nat c \<and> bit_at b j}"
    using assms(1,2) by auto
  then show ?thesis using assms(3) by (simp add: bm.used_def)
qed

lemma page_insert_run:
  assumes ok: "page_ok pg" and less: "record_num pg < record_capacity pg"
    and src: "record_real_size pg \<le> int (length src)"
  obtains i where "int i < record_capacity pg" "page_map pg i = None" "\<forall>j < i. page_map pg j \<noteq> None"
    "page_insert src 0 pg = Some (Inr (int i), pg\<lparr>record_num := record_num pg + 1,
       body := overwrite (bit_put (body pg) i True) (nat (slot_offset pg (int i))) (take (nat (record_real_size pg)) src)\<rparr>)"
proof -
  have l: "layout_ok pg" using ok by (simp add: page_ok_def)
  let ?c = "record_capacity pg"
  have "bm.used (body pg) (nat ?c) \<noteq> nat ?c" using ok less by (simp add: page_ok_def)
  then obtain i where f: "first_such (\<lambda>i. \<not> bit_at (body pg) i) 0 (nat ?c) = int i" "i < nat ?c"
      "\<not> bit_at (body pg) i" "\<forall>j. 0 \<le> j \<and> j < i \<longrightarrow> bit_at (body pg) j"
    using bm.used_full_iff [of "body pg" "nat ?c"]
    by (cases rule: first_such_cases [of "\<lambda>i. \<not> bit_at (body pg) i" 0 "nat ?c"]) auto
  have i: "int i < ?c" using f(2) by simp
  note li = layoutD [OF l i]
  have r: "record_real_size pg \<le> record_size pg" "0 < record_real_size pg" using l by (auto simp: layout_ok_def)
  have n: "next_unsetted_bit (body pg) ?c 0 = Some (int i)"
    using next_unsetted_bit_eq [OF layout_in_page [OF l], of 0] f(1) l by (simp add: layout_ok_def)
  have b: "bitmap_set_bit (body pg) (int i) = Some (bit_put (body pg) i True)"
    using bitmap_set_bit_run [of "int i" "body pg"] li(5) by simp
  have c: "copy_in (bit_put (body pg) i True) (slot_offset pg (int i)) src (record_real_size pg) =
      Some (overwrite (bit_put (body pg) i True) (nat (slot_offset pg (int i))) (take (nat (record_real_size pg)) src))"
    unfolding copy_in_def using li r src by auto
  show ?thesis
    by (rule that [of i]) (use i f less n b c in \<open>auto simp: page_insert_def page_map_def\<close>)
qed

lemma page_insert_spec:
  assumes ok: "page_ok pg" and less: "record_num pg < record_capacity pg"
    and src: "record_real_size pg \<le> int (length src)"
  obtains i pg' where "page_insert src 0 pg = Some (Inr (int i), pg')" "int i < record_capacity pg"
    "page_map pg i = None" "\<forall>j < i. page_map pg j \<noteq> None" "page_ok pg'"
    "page_map pg' = (page_map pg)(i \<mapsto> take (nat (record_real_size pg)) src)"
    "record_num pg' = record_num pg + 1" "record_capacity pg' = record_capacity pg"
    "record_real_size pg' = record_real_size pg"
proof -
  have l: "layout_ok pg" using ok by (simp add: page_ok_def)
  obtain i where i: "int i < record_capacity pg" "page_map pg i = None" "\<forall>j < i. page_map pg j \<noteq> None"
    and run: "page_insert src 0 pg = Some (Inr (int i), pg\<lparr>record_num := record_num pg + 1,
       body := overwrite (bit_put (body pg) i True) (nat (slot_offset pg (int i))) (take (nat (record_real_size pg)) src)\<rparr>)"
    by (rule page_insert_run [OF assms])
  let ?d = "take (nat (record_real_size pg)) src"
  let ?mem = "overwrite (bit_put (body pg) i True) (nat (slot_offset pg (int i))) ?d"
  have d: "int (length ?d) = record_real_size pg" using src l by (simp add: layout_ok_def)
  note st = page_map_store [OF l i(1) d refl]
  have nb: "\<not> bit_at (body pg) i" using i by (simp add: page_map_def split: if_splits)
  have "page_ok (pg\<lparr>record_num := record_num pg + 1, body := ?mem\<rparr>)"
    using ok l st(2) used_bits_store [OF st(3) i(1) nb] by (simp add: page_ok_def layout_ok_def)
  moreover have "page_map (pg\<lparr>record_num := record_num pg + 1, body := ?mem\<rparr>) = page_map (pg\<lparr>body := ?mem\<rparr>)"
    by (simp add: fun_eq_iff page_map_def slot_offset_def)
  ultimately show ?thesis using that run i st(1) by simp
qed

lemma page_delete_spec:
  assumes ok: "page_ok pg" and i: "int i < record_capacity pg"
  shows "page_map pg i = None \<Longrightarrow> page_delete (int i) pg = Some (Inl RECORD_RECORD_NOT_EXIST, pg)"
    and "page_map pg i \<noteq> None \<Longrightarrow> \<exists>pg'. page_delete (int i) pg = Some (Inr (), pg') \<and> page_ok pg' \<and>
      page_map pg' = (page_map pg)(i := None) \<and> record_num pg' = record_num pg - 1 \<and>
      record_capacity pg' = record_capacity pg \<and> record_real_size pg' = record_real_size pg"
proof -
  have l: "layout_ok pg" using ok by (simp add: page_ok_def)
  note li = layoutD [OF l i]
  have b: "bitmap_get_bit (body pg) (int i) = Some (bit_at (body pg) i)"
    "bitmap_clear_bit (body pg) (int i) = Some (bit_put (body pg) i False)"
    using bitmap_get_bit_run [of "int i" "body pg"] bitmap_clear_bit_run [of "int i" "body pg"] li(5) by simp_all
  show "page_delete (int i) pg = Some (Inl RECORD_RECORD_NOT_EXIST, pg)" if "page_map pg i = None"
    using that i b by (simp add: page_delete_def page_map_def split: if_splits)
  show "\<exists>pg'. page_delete (int i) pg = Some (Inr (), pg') \<and> page_ok pg' \<and>
      page_map pg' = (page_map pg)(i := None) \<and> record_num pg' = record_num pg - 1 \<and>
      record_capacity pg' = record_capacity pg \<and> record_real_size pg' = record_real_size pg" if "page_map pg i \<noteq> None"
  proof -
    let ?pg' = "pg\<lparr>record_num := record_num pg - 1, body := bit_put (body pg) i False\<rparr>"
    have set: "bit_at (body pg) i" using that by (simp add: page_map_def split: if_splits)
    have run: "page_delete (int i) pg = Some (Inr (), ?pg')" using set i b by (simp add: page_delete_def)
    have "Suc (bm.used (bit_put (body pg) i False) (nat (record_capacity pg))) = bm.used (body pg) (nat (record_capacity pg))"
      using bm.used_put_clear [of i "body pg" "nat (record_capacity pg)"] li(5) i set by simp
    then have "page_ok ?pg'" using ok l li(5) by (simp add: page_ok_def layout_ok_def)
    moreover have "page_map ?pg' j = ((page_map pg)(i := None)) j" for j
    proof (cases "int j < record_capacity pg")
      case True
      note lj = layoutD [OF l True]
      have "segment (bit_put (body pg) i False) (nat (slot_offset pg (int j))) (nat (record_real_size pg)) =
          segment (body pg) (nat (slot_offset pg (int j))) (nat (record_real_size pg))"
        using li(1,5) lj l by (intro segment_bit_put) (auto simp: layout_ok_def)
      then show ?thesis using li(5) by (simp add: page_map_def bit_at_bit_put slot_offset_def)
    qed (simp add: page_map_def)
    ultimately show ?thesis using run by (auto simp: fun_eq_iff)
  qed
qed

lemma page_update_spec:
  assumes ok: "page_ok pg" and i: "int i < record_capacity pg" and src: "record_real_size pg \<le> int (length src)"
  shows "page_map pg i = None \<Longrightarrow> page_update_record (int i) src pg = Some (Inl RECORD_RECORD_NOT_EXIST, pg)"
    and "page_map pg i \<noteq> None \<Longrightarrow> \<exists>pg'. page_update_record (int i) src pg = Some (Inr (), pg') \<and> page_ok pg' \<and>
      page_map pg' = (page_map pg)(i \<mapsto> take (nat (record_real_size pg)) src)"
proof -
  have l: "layout_ok pg" using ok by (simp add: page_ok_def)
  note li = layoutD [OF l i]
  have r: "record_real_size pg \<le> record_size pg" "0 < record_real_size pg" using l by (auto simp: layout_ok_def)
  have b: "bitmap_get_bit (body pg) (int i) = Some (bit_at (body pg) i)"
    using bitmap_get_bit_run [of "int i" "body pg"] li(5) by simp
  show "page_update_record (int i) src pg = Some (Inl RECORD_RECORD_NOT_EXIST, pg)" if "page_map pg i = None"
    using that i b by (simp add: page_update_record_def page_map_def split: if_splits)
  show "\<exists>pg'. page_update_record (int i) src pg = Some (Inr (), pg') \<and> page_ok pg' \<and>
      page_map pg' = (page_map pg)(i \<mapsto> take (nat (record_real_size pg)) src)" if "page_map pg i \<noteq> None"
  proof -
    let ?d = "take (nat (record_real_size pg)) src"
    have set: "bit_at (body pg) i" using that by (simp add: page_map_def split: if_splits)
    then have same: "bit_put (body pg) i True = body pg" by (rule bit_put_same [OF li(5)])
    let ?mem = "overwrite (body pg) (nat (slot_offset pg (int i))) ?d"
    have d: "int (length ?d) = record_real_size pg" using src r by simp
    note st = page_map_store [OF l i d refl, unfolded same]
    have "copy_in (body pg) (slot_offset pg (int i)) src (record_real_size pg) = Some ?mem"
      unfolding copy_in_def using li r src by auto
    then have run: "page_update_record (int i) src pg = Some (Inr (), pg\<lparr>body := ?mem\<rparr>)"
      using i b set by (simp add: page_update_record_def)
    have "{j. j < nat (record_capacity pg) \<and> bit_at ?mem j} = {j. j < nat (record_capacity pg) \<and> bit_at (body pg) j}"
      using st(3) set by auto
    then have "bm.used ?mem (nat (record_capacity pg)) = bm.used (body pg) (nat (record_capacity pg))"
      by (simp add: bm.used_def)
    then have "page_ok (pg\<lparr>body := ?mem\<rparr>)" using ok l st(2) by (simp add: page_ok_def layout_ok_def)
    then show ?thesis using run st(1) by simp
  qed
qed

section \<open>Scanning a page\<close>

text \<open>The calls a scan makes on one page: \<^verbatim>\<open>get_next_record\<close> until it reports
  \<^verbatim>\<open>RECORD_EOF\<close>.\<close>

fun page_scan :: "nat \<Rightarrow> int \<Rightarrow> rec_page \<Rightarrow> (int \<times> byte list) list option" where
  "page_scan 0 slot pg = None"
| "page_scan (Suc n) slot pg = (case page_next slot pg of
      None \<Rightarrow> None
    | Some (Inl rc) \<Rightarrow> if rc = RECORD_EOF then Some [] else None
    | Some (Inr (i, d)) \<Rightarrow> map_option (Cons (i, d)) (page_scan n i pg))"

definition slots_from :: "rec_page \<Rightarrow> nat \<Rightarrow> nat list" where
  "slots_from pg k = filter (\<lambda>i. page_map pg i \<noteq> None) [k..<nat (record_capacity pg)]"

lemma filter_first_such:
  "filter P [a..<b] = (let r = first_such P a b in if r < 0 then [] else nat r # filter P [Suc (nat r)..<b])"
proof (cases rule: first_such_cases [of P a b])
  case none
  then show ?thesis by (auto simp: filter_empty_conv)
next
  case (some k)
  then have "[a..<b] = [a..<k] @ k # [Suc k..<b]"
    using upt_add_eq_append [of a k "b - k"] by (simp add: upt_conv_Cons)
  moreover have "filter P [a..<k] = []" using some by (auto simp: filter_empty_conv)
  ultimately show ?thesis using some by simp
qed

lemma scan_start:
  assumes "layout_ok pg" "slot = - 1 \<or> 0 \<le> slot \<and> slot < record_capacity pg \<and> bit_at (body pg) (nat slot)"
  shows "(slot + 1) mod 8 = 0 \<or> body pg ! (nat (slot + 1) div 8) \<noteq> 0"
proof (cases "(slot + 1) mod 8 = 0")
  case False
  then have s: "0 \<le> slot" "bit_at (body pg) (nat slot)" using assms(2) by auto
  then obtain m where m: "slot = int m" by (metis nonneg_int_cases)
  have "(slot + 1) mod 8 = int (Suc m mod 8)" by (simp add: m zmod_int add.commute)
  then have "Suc m mod 8 \<noteq> 0" using False by simp
  then have "Suc m div 8 = m div 8" by (simp add: div_Suc)
  moreover have "nat (slot + 1) = Suc m" by (simp add: m)
  ultimately show ?thesis using s(2) m by (auto simp: bit_at_def)
qed simp

lemma page_next_spec:
  assumes l: "layout_ok pg" and s: "slot = - 1 \<or> 0 \<le> slot \<and> slot < record_capacity pg \<and> bit_at (body pg) (nat slot)"
  shows "page_next slot pg = Some (case slots_from pg (nat (slot + 1)) of
      [] \<Rightarrow> Inl RECORD_EOF
    | i # _ \<Rightarrow> Inr (int i, the (page_map pg i)))"
proof (cases "slot \<ge> record_capacity pg - 1")
  case True
  then show ?thesis using l by (simp add: page_next_def slots_from_def layout_ok_def)
next
  case False
  let ?c = "record_capacity pg" and ?k = "nat (slot + 1)"
  have r: "record_real_size pg \<le> record_size pg" "0 < record_real_size pg" using l by (auto simp: layout_ok_def)
  have n: "next_setted_bit (body pg) ?c (slot + 1) = Some (first_such (bit_at (body pg)) ?k (nat ?c))"
    using next_setted_bit_eq [OF layout_in_page [OF l] _ _ scan_start [OF assms]] s False by auto
  have "slots_from pg ?k = filter (bit_at (body pg)) [?k..<nat ?c]"
    unfolding slots_from_def by (rule filter_cong) (auto simp: page_map_def)
  then have sl: "slots_from pg ?k = (let r = first_such (bit_at (body pg)) ?k (nat ?c)
      in if r < 0 then [] else nat r # filter (bit_at (body pg)) [Suc (nat r)..<nat ?c])"
    using filter_first_such [of "bit_at (body pg)" ?k "nat ?c"] by simp
  show ?thesis
  proof (cases rule: first_such_cases [of "bit_at (body pg)" ?k "nat ?c"])
    case none
    then show ?thesis using False n sl by (simp add: page_next_def)
  next
    case (some i)
    then have i: "int i < ?c" by simp
    note li = layoutD [OF l i]
    have "copy_out (body pg) (slot_offset pg (int i)) (record_real_size pg) = Some (the (page_map pg i))"
      unfolding copy_out_def using li r some i by (auto simp: page_map_def)
    then show ?thesis using False n sl some by (simp add: page_next_def)
  qed
qed

lemma slots_from_cons:
  assumes "slots_from pg k = i # is"
  shows "k \<le> i" "int i < record_capacity pg" "page_map pg i \<noteq> None" "slots_from pg (Suc i) = is"
proof -
  let ?P = "\<lambda>i. page_map pg i \<noteq> None" and ?c = "nat (record_capacity pg)"
  have f: "filter ?P [k..<?c] = i # is" using assms by (simp add: slots_from_def)
  then show "page_map pg i \<noteq> None" by (auto simp: filter_eq_Cons_iff)
  have "i \<in> set (filter ?P [k..<?c])" using f by simp
  then show "k \<le> i" "int i < record_capacity pg" by auto
  show "slots_from pg (Suc i) = is"
    using f filter_first_such [of ?P k ?c] unfolding slots_from_def by (simp add: Let_def split: if_splits)
qed

lemma page_scan_run:
  assumes l: "layout_ok pg" and s: "slot = - 1 \<or> 0 \<le> slot \<and> slot < record_capacity pg \<and> bit_at (body pg) (nat slot)"
    and n: "length (slots_from pg (nat (slot + 1))) < n"
  shows "page_scan n slot pg = Some (map (\<lambda>i. (int i, the (page_map pg i))) (slots_from pg (nat (slot + 1))))"
  using s n
proof (induction n arbitrary: slot)
  case (Suc n)
  note next' = page_next_spec [OF l Suc.prems(1)]
  show ?case
  proof (cases "slots_from pg (nat (slot + 1))")
    case Nil
    then show ?thesis using next' by simp
  next
    case (Cons i "is")
    note c = slots_from_cons [OF Cons]
    have "bit_at (body pg) i" using c(3) by (simp add: page_map_def split: if_splits)
    moreover have e: "nat (int i + 1) = Suc i" by simp
    ultimately have "page_scan n (int i) pg = Some (map (\<lambda>i. (int i, the (page_map pg i))) is)"
      using Suc.IH [of "int i"] Suc.prems(2) Cons c unfolding e by simp
    then show ?thesis using next' Cons by simp
  qed
qed simp

section \<open>A new page\<close>

lemma align8_mult: "0 \<le> sz \<Longrightarrow> align8 sz = 8 * ((sz + 7) div 8)"
  unfolding align8_def by presburger

lemma align8_ge: "x \<le> align8 x"
  unfolding align8_def by presburger

definition fits :: "int \<Rightarrow> bool" where
  "fits phy \<longleftrightarrow> (let cap = page_record_capacity (int BP_PAGE_DATA_SIZE) phy in
     0 < cap \<and> page_header_size cap + cap * phy \<le> int BP_PAGE_DATA_SIZE)"

lemma fits_div:
  "fits phy \<longleftrightarrow> (let cap = 32568 div (8 * phy + 1); h = 20 + (cap div 8 + (if cap mod 8 = 0 then 0 else 1)) in
     0 < cap \<and> h div 8 * 8 + (if h mod 8 = 0 then 0 else 8) + cap * phy \<le> 4092)"
  by (simp add: fits_def page_record_capacity_def page_header_size_def page_bitmap_size_def align8_def
      page_fix_size_def BP_PAGE_DATA_SIZE_def BP_PAGE_SIZE_def Let_def)

lemma fits_all: "list_all (\<lambda>k. fits (8 * k)) [2..507]"
  unfolding fits_div by code_simp

lemma fits_align8:
  assumes "8 < rs" "rs \<le> 4056"
  shows "fits (align8 rs)"
proof -
  have "(rs + 7) div 8 \<in> set [2..507]"
    unfolding set_upto atLeastAtMost_iff using assms by linarith
  then have "fits (8 * ((rs + 7) div 8))" using fits_all unfolding list_all_iff by blast
  then show ?thesis using assms by (simp only: align8_mult)
qed

lemma init_empty_spec:
  assumes rs: "8 < rs" "rs \<le> 4056" and len: "int (length (body pg)) = int BP_PAGE_DATA_SIZE - page_fix_size"
  obtains pg' where "init_empty rs pg = Some pg'" "page_ok pg'" "page_map pg' = Map.empty"
    "record_num pg' = 0" "record_real_size pg' = rs"
proof -
  define cap where "cap = page_record_capacity (int BP_PAGE_DATA_SIZE) (align8 rs)"
  let ?bms = "page_bitmap_size cap" and ?z = "replicate (nat (page_bitmap_size cap)) (0 :: byte)"
  have f: "0 < cap" "page_header_size cap + cap * align8 rs \<le> int BP_PAGE_DATA_SIZE"
    using fits_align8 [OF rs] by (auto simp: fits_def Let_def cap_def)
  have a: "rs \<le> align8 rs" "0 < align8 rs" using rs align8_ge [of rs] by auto
  have b: "0 \<le> ?bms" using f(1) by (auto simp: page_bitmap_size_def)
  have h: "page_fix_size + ?bms \<le> page_header_size cap"
    unfolding page_header_size_def by (rule align8_ge)
  have "0 < cap * align8 rs" using f(1) a(2) by simp
  then have fit: "?bms \<le> int (length (body pg))" using f(2) h len by simp
  let ?mem = "overwrite (body pg) 0 ?z"
  let ?pg = "\<lparr>record_num = 0, record_capacity = cap, record_real_size = rs, record_size = align8 rs,
      first_record_offset = page_header_size cap, body = ?mem\<rparr>"
  have run: "init_empty rs pg = Some ?pg"
    using b fit by (simp add: init_empty_def Let_def copy_in_def cap_def [symmetric])
  have lm: "length ?mem = length (body pg)" using fit b by simp
  then have l: "layout_ok ?pg" using rs a f h len by (simp add: layout_ok_def)
  have bits: "\<not> bit_at ?mem i" if "int i < cap" for i
  proof -
    have "i div 8 < nat ?bms" using layoutD(1) [OF l, of i] that by simp
    then show ?thesis using fit b by (simp add: bit_at_def nth_overwrite)
  qed
  then have "bm.used ?mem (nat cap) = 0" by (simp add: bm.used_zero_iff)
  then show ?thesis
    using that [OF run] l bits by (auto simp: page_ok_def page_map_def fun_eq_iff)
qed

section \<open>Properties\<close>

definition demo_rec_page :: rec_page where
  "demo_rec_page = the (init_empty 16 \<lparr>record_num = 0, record_capacity = 0, record_real_size = 0,
     record_size = 0, first_record_offset = 0, body = replicate 4072 0\<rparr>)"

lemma demo_rec_page_ok:
  "page_ok demo_rec_page" "page_map demo_rec_page = Map.empty" "record_num demo_rec_page = 0"
  "record_real_size demo_rec_page = 16" "0 < record_capacity demo_rec_page"
proof -
  let ?z = "\<lparr>record_num = 0, record_capacity = 0, record_real_size = 0,
     record_size = 0, first_record_offset = 0, body = replicate 4072 (0 :: byte)\<rparr>"
  have "int (length (body ?z)) = int BP_PAGE_DATA_SIZE - page_fix_size"
    by (simp add: BP_PAGE_DATA_SIZE_def BP_PAGE_SIZE_def page_fix_size_def)
  then obtain pg where pg: "init_empty 16 ?z = Some pg" "page_ok pg" "page_map pg = Map.empty"
      "record_num pg = 0" "record_real_size pg = 16"
    using init_empty_spec [of 16 ?z] by auto
  moreover have "demo_rec_page = pg" using pg(1) by (simp add: demo_rec_page_def)
  ultimately show "page_ok demo_rec_page" "page_map demo_rec_page = Map.empty" "record_num demo_rec_page = 0"
    "record_real_size demo_rec_page = 16" "0 < record_capacity demo_rec_page"
    by (auto simp: page_ok_def layout_ok_def)
qed

text \<open>C20. For every record size from 9 to 4056 bytes \<^verbatim>\<open>init_empty_page\<close> sets up a
  well-formed empty page: the bitmap lies before the first slot, every slot lies inside the page,
  and no slot is in use.\<close>

theorem init_empty_page_ok:
  assumes "8 < rs" "rs \<le> 4056" "int (length (body pg)) = int BP_PAGE_DATA_SIZE - page_fix_size"
  shows "\<exists>pg'. init_empty rs pg = Some pg' \<and> page_ok pg' \<and> page_map pg' = Map.empty \<and>
    first_record_offset pg' + record_capacity pg' * record_size pg' \<le> int BP_PAGE_DATA_SIZE"
proof -
  obtain pg' where "init_empty rs pg = Some pg'" "page_ok pg'" "page_map pg' = Map.empty"
    by (rule init_empty_spec [OF assms])
  then show ?thesis by (auto simp: page_ok_def layout_ok_def)
qed

theorem init_empty_page_ok_witness:
  "\<exists>pg'. init_empty 100 demo_rec_page = Some pg' \<and> page_ok pg' \<and> page_map pg' = Map.empty \<and>
    first_record_offset pg' + record_capacity pg' * record_size pg' \<le> int BP_PAGE_DATA_SIZE"
  using demo_rec_page_ok(1) by (intro init_empty_page_ok) (simp_all add: page_ok_def layout_ok_def)

text \<open>For records of at most 8 bytes (a table with one \<^verbatim>\<open>int\<close> column has 8, with
  the transaction field) the capacity is one too large: the slots end at offset 4096, four bytes
  behind the page data, so the last record of a page is written past its end.\<close>

theorem small_records_overflow:
  assumes "0 < rs" "rs \<le> 8"
  shows "let cap = page_record_capacity (int BP_PAGE_DATA_SIZE) (align8 rs) in
    page_header_size cap + cap * align8 rs = int BP_PAGE_DATA_SIZE + 4"
proof -
  have "align8 rs = 8" using assms by (auto simp: align8_mult)
  then show ?thesis
    by (simp add: page_record_capacity_def page_header_size_def page_bitmap_size_def align8_def
      page_fix_size_def BP_PAGE_DATA_SIZE_def BP_PAGE_SIZE_def)
qed

theorem small_records_overflow_witness:
  "let cap = page_record_capacity (int BP_PAGE_DATA_SIZE) (align8 8) in
    page_header_size cap + cap * align8 8 = int BP_PAGE_DATA_SIZE + 4"
  by (rule small_records_overflow) simp_all

text \<open>C18. Inserting into a page that is not full stores the record in the lowest free slot: reading
  that slot returns the record, every other slot is unchanged, the record count goes up by one and
  the page stays well formed.\<close>

theorem page_insert_then_get:
  assumes "page_ok pg" "record_num pg < record_capacity pg" "int (length src) = record_real_size pg"
  shows "\<exists>i pg'. page_insert src 0 pg = Some (Inr (int i), pg') \<and> page_ok pg' \<and>
    page_get (int i) pg' = Some (Inr src) \<and> page_map pg i = None \<and> (\<forall>j < i. page_map pg j \<noteq> None) \<and>
    (\<forall>j. j \<noteq> i \<longrightarrow> page_map pg' j = page_map pg j) \<and> record_num pg' = record_num pg + 1"
proof -
  obtain i pg' where p: "page_insert src 0 pg = Some (Inr (int i), pg')" "int i < record_capacity pg"
    "page_map pg i = None" "\<forall>j < i. page_map pg j \<noteq> None" "page_ok pg'"
    "page_map pg' = (page_map pg)(i \<mapsto> take (nat (record_real_size pg)) src)"
    "record_num pg' = record_num pg + 1" "record_capacity pg' = record_capacity pg"
    by (rule page_insert_spec [OF assms(1,2) eq_refl [OF assms(3) [symmetric]]])
  have "take (nat (record_real_size pg)) src = src" using assms(3) by simp
  then have "page_get (int i) pg' = Some (Inr src)"
    using page_get_eq [of pg' i] p by (simp add: page_ok_def)
  then show ?thesis using p by auto
qed

theorem page_insert_then_get_witness:
  "\<exists>i pg'. page_insert (replicate 16 7) 0 demo_rec_page = Some (Inr (int i), pg') \<and> page_ok pg' \<and>
    page_get (int i) pg' = Some (Inr (replicate 16 7)) \<and> page_map demo_rec_page i = None \<and>
    (\<forall>j < i. page_map demo_rec_page j \<noteq> None) \<and>
    (\<forall>j. j \<noteq> i \<longrightarrow> page_map pg' j = page_map demo_rec_page j) \<and> record_num pg' = record_num demo_rec_page + 1"
  using demo_rec_page_ok by (intro page_insert_then_get) simp_all

text \<open>C22. Deleting a slot: a slot in use becomes free, no other slot changes, the count goes down
  by one and the page stays well formed; a slot that is not in use is reported as
  \<^verbatim>\<open>RECORD_RECORD_NOT_EXIST\<close>, a slot behind the capacity as
  \<^verbatim>\<open>INVALID_ARGUMENT\<close>, and neither changes the page.\<close>

theorem page_delete_all_cases:
  assumes "page_ok pg"
  shows "if record_capacity pg \<le> int i then page_delete (int i) pg = Some (Inl INVALID_ARGUMENT, pg)
    else if page_map pg i = None then page_delete (int i) pg = Some (Inl RECORD_RECORD_NOT_EXIST, pg)
    else \<exists>pg'. page_delete (int i) pg = Some (Inr (), pg') \<and> page_ok pg' \<and>
      page_map pg' = (page_map pg)(i := None) \<and> record_num pg' = record_num pg - 1"
  using page_delete_spec [OF assms, of i] by (auto simp: page_delete_def)

theorem page_delete_all_cases_witness:
  "page_delete 0 demo_rec_page = Some (Inl RECORD_RECORD_NOT_EXIST, demo_rec_page)"
  using page_delete_all_cases [OF demo_rec_page_ok(1), of 0] demo_rec_page_ok(2,5) by simp

text \<open>C19. Scanning a page from the start with \<^verbatim>\<open>get_next_record\<close> until it reports the
  end returns every record of the page exactly once, in the order of the slots; at most one more
  call than there are slots is needed.\<close>

theorem page_scan_complete:
  assumes "page_ok pg"
  shows "page_scan (Suc (nat (record_capacity pg))) (- 1) pg =
    Some (map (\<lambda>i. (int i, the (page_map pg i)))
      (filter (\<lambda>i. page_map pg i \<noteq> None) [0..<nat (record_capacity pg)]))"
proof -
  have "length (slots_from pg 0) < Suc (nat (record_capacity pg))"
    unfolding slots_from_def by (simp add: le_imp_less_Suc length_filter_le [THEN order_trans])
  then show ?thesis
    using page_scan_run [of pg "- 1"] assms by (simp add: page_ok_def slots_from_def del: page_scan.simps)
qed

theorem page_scan_complete_witness:
  "page_scan (Suc (nat (record_capacity demo_rec_page))) (- 1) demo_rec_page = Some []"
  using page_scan_complete [OF demo_rec_page_ok(1)] demo_rec_page_ok(2) by (simp del: page_scan.simps)

end
