(* ===== verification/Record_Manager.thy ===== *)
theory Record_Manager
  imports Record_Page Pool_Interface
begin

text \<open>
  The record manager (\<^verbatim>\<open>storage/common/record_manager.cpp\<close>): the handler of one record
  page, the handler of a record file and the scanner of a record file, over the operations of the
  buffer pool. A handler object is the first component of the state, the pool the second; a method
  of a handler that returns an \<^verbatim>\<open>RC\<close> is a fallible operation on the pair.

  \<^verbatim>\<open>ph_pool\<close> and \<^verbatim>\<open>rf_pool\<close> say that \<^verbatim>\<open>disk_buffer_pool_\<close> is not
  null, and \<^verbatim>\<open>ph_header\<close> is the page that \<^verbatim>\<open>page_header_\<close> points into, as the
  handle it was reached through: \<^verbatim>\<open>deinit\<close> unpins the page and keeps that pointer. Following
  a null pointer has no defined result. When \<^verbatim>\<open>get_this_page\<close> fails, the model leaves the
  handle as it was. A \<^verbatim>\<open>Record\<close> that the code returns as a pointer into the page is returned
  with the bytes it points to.
\<close>

section \<open>State\<close>

record RID =
  rid_page :: int
  rid_slot :: int

record page_handler =
  ph_pool :: bool
  ph_file_id :: int
  ph_handle :: BPPageHandle
  ph_header :: "BPPageHandle option"

definition rph_new :: page_handler where
  "rph_new = \<lparr>ph_pool = False, ph_file_id = - 1, ph_handle = \<lparr>is_open = False, frame = 0\<rparr>, ph_header = None\<rparr>"

text \<open>An operation of the pool, run beside a handler.\<close>

definition pool_op :: "('s, 'a) M \<Rightarrow> ('h \<times> 's, 'a) M" where
  "pool_op m = (\<lambda>(h, s). case m s of None \<Rightarrow> None | Some (r, s') \<Rightarrow> Some (r, (h, s')))"

definition upd_handler :: "('h \<Rightarrow> 'h) \<Rightarrow> ('h \<times> 's, unit) M" where
  "upd_handler f = modify (\<lambda>(h, s). (f h, s))"

section \<open>RecordPageHandler\<close>

definition rph_init :: "('s, 'd) pool_ops \<Rightarrow> int \<Rightarrow> int \<Rightarrow> (page_handler \<times> 's, unit) M" where
  "rph_init ops file_id pn = bindE (gets fst) (\<lambda>h.
     if ph_pool h then fail RECORD_OPENNED
     else bindE (pool_op (op_get_this_page ops file_id pn)) (\<lambda>p.
       bindE (upd_handler (ph_handle_update (\<lambda>_. p))) (\<lambda>_.
       bindE (pool_op (op_get_data ops p)) (\<lambda>_.
       upd_handler (\<lambda>h. h\<lparr>ph_pool := True, ph_file_id := file_id, ph_header := Some p\<rparr>)))))"

text \<open>Reading and writing the page through \<^verbatim>\<open>page_header_\<close>, \<^verbatim>\<open>bitmap_\<close> and
  \<^verbatim>\<open>page_handle_.frame\<close>, which point into the same page.\<close>

definition rph_page :: "('s, 'd) pool_ops \<Rightarrow> (page_handler \<times> 's, 'd) M" where
  "rph_page ops = bindE (gets fst) (\<lambda>h. case ph_header h of
      None \<Rightarrow> undef
    | Some p \<Rightarrow> pool_op (op_peek_data ops p))"

definition rph_store :: "('s, 'd) pool_ops \<Rightarrow> 'd \<Rightarrow> (page_handler \<times> 's, unit) M" where
  "rph_store ops d = bindE (gets fst) (\<lambda>h. case ph_header h of
      None \<Rightarrow> undef
    | Some p \<Rightarrow> pool_op (op_put_data ops p d))"

definition rph_mark_dirty :: "('s, 'd) pool_ops \<Rightarrow> (page_handler \<times> 's, unit) M" where
  "rph_mark_dirty ops = bindE (gets fst) (\<lambda>h.
     if ph_pool h then pool_op (op_mark_dirty ops (ph_handle h)) else undef)"

text \<open>Going on whatever the result code is.\<close>

definition ignoring :: "('s, 'a) M \<Rightarrow> ('s, unit) M" where
  "ignoring m = attempt m (\<lambda>_. ret ())"

definition rph_init_empty_page :: "('s, rec_page) pool_ops \<Rightarrow> int \<Rightarrow> int \<Rightarrow> int \<Rightarrow> (page_handler \<times> 's, unit) M" where
  "rph_init_empty_page ops file_id pn rs = bindE (rph_init ops file_id pn) (\<lambda>_.
     bindE (rph_page ops) (\<lambda>d.
     bindE (lift_opt (init_empty rs d)) (\<lambda>d'.
     bindE (rph_store ops d') (\<lambda>_. ignoring (rph_mark_dirty ops)))))"

definition rph_deinit :: "('s, 'd) pool_ops \<Rightarrow> (page_handler \<times> 's, unit) M" where
  "rph_deinit ops = bindE (gets fst) (\<lambda>h.
     if \<not> ph_pool h then ret ()
     else attempt (pool_op (op_unpin_page ops (ph_handle h))) (\<lambda>r.
       upd_handler (\<lambda>h. h\<lparr>ph_handle := (case r of Inr p \<Rightarrow> p | Inl _ \<Rightarrow> ph_handle h), ph_pool := False\<rparr>)))"

definition rph_get_page_num :: "('s, 'd) pool_ops \<Rightarrow> (page_handler \<times> 's, int) M" where
  "rph_get_page_num ops = bindE (gets fst) (\<lambda>h.
     if ph_header h = None then ret (- 1) else pool_op (op_peek_num ops (ph_handle h)))"

definition rph_insert_record :: "('s, rec_page) pool_ops \<Rightarrow> byte list \<Rightarrow> int \<Rightarrow> (page_handler \<times> 's, RID) M" where
  "rph_insert_record ops src len = bindE (rph_page ops) (\<lambda>d.
     bindE (lift_opt (page_insert src len d)) (\<lambda>(r, d'). case r of
        Inl rc \<Rightarrow> fail rc
      | Inr index \<Rightarrow>
          bindE (rph_store ops d') (\<lambda>_.
          bindE (ignoring (rph_mark_dirty ops)) (\<lambda>_.
          bindE (rph_get_page_num ops) (\<lambda>pn. ret \<lparr>rid_page = pn, rid_slot = index\<rparr>)))))"

definition rph_update_record :: "('s, rec_page) pool_ops \<Rightarrow> RID \<Rightarrow> byte list \<Rightarrow> (page_handler \<times> 's, unit) M" where
  "rph_update_record ops rid src = bindE (rph_page ops) (\<lambda>d.
     bindE (lift_opt (page_update_record (rid_slot rid) src d)) (\<lambda>(r, d'). case r of
        Inl rc \<Rightarrow> fail rc
      | Inr _ \<Rightarrow> bindE (rph_store ops d') (\<lambda>_. rph_mark_dirty ops)))"

text \<open>An updater gets the bytes of the record and gives its result code and the new bytes.\<close>

definition rph_update_record_in_place ::
    "('s, rec_page) pool_ops \<Rightarrow> RID \<Rightarrow> (byte list \<Rightarrow> (RC + unit) \<times> byte list) \<Rightarrow> (page_handler \<times> 's, unit) M" where
  "rph_update_record_in_place ops rid updater = bindE (rph_page ops) (\<lambda>d.
     bindE (lift_opt (page_get (rid_slot rid) d)) (\<lambda>g. case g of
        Inl rc \<Rightarrow> fail rc
      | Inr bytes \<Rightarrow>
          let (r, bytes') = updater bytes in
          bindE (lift_opt (copy_in (body d) (slot_offset d (rid_slot rid)) bytes' (record_real_size d))) (\<lambda>mem.
          bindE (rph_store ops (d\<lparr>body := mem\<rparr>)) (\<lambda>_.
          bindE (ignoring (rph_mark_dirty ops)) (\<lambda>_.
          (case r of Inl rc \<Rightarrow> fail rc | Inr _ \<Rightarrow> ret ()))))))"

text \<open>What \<^verbatim>\<open>delete_record\<close> does with a page that has become empty.\<close>

definition dispose_empty :: "('s, 'd) pool_ops \<Rightarrow> (page_handler \<times> 's, unit) M" where
  "dispose_empty ops = bindE (gets fst) (\<lambda>h.
     bindE (rph_get_page_num ops) (\<lambda>pn.
     bindE (rph_deinit ops) (\<lambda>_. ignoring (pool_op (op_dispose_page ops (ph_file_id h) pn)))))"

definition rph_delete_record :: "('s, rec_page) pool_ops \<Rightarrow> RID \<Rightarrow> (page_handler \<times> 's, unit) M" where
  "rph_delete_record ops rid = bindE (rph_page ops) (\<lambda>d.
     bindE (lift_opt (page_delete (rid_slot rid) d)) (\<lambda>(r, d'). case r of
        Inl rc \<Rightarrow> fail rc
      | Inr _ \<Rightarrow>
          bindE (rph_store ops d') (\<lambda>_.
          attempt (rph_mark_dirty ops) (\<lambda>r.
          bindE (if record_num d' = 0 then dispose_empty ops else ret ()) (\<lambda>_.
          (case r of Inl rc \<Rightarrow> fail rc | Inr _ \<Rightarrow> ret ()))))))"

definition rph_get_record :: "('s, rec_page) pool_ops \<Rightarrow> RID \<Rightarrow> (page_handler \<times> 's, byte list) M" where
  "rph_get_record ops rid = bindE (rph_page ops) (\<lambda>d.
     bindE (lift_opt (page_get (rid_slot rid) d)) (\<lambda>g. case g of Inl rc \<Rightarrow> fail rc | Inr bytes \<Rightarrow> ret bytes))"

definition rph_get_next_record :: "('s, rec_page) pool_ops \<Rightarrow> RID \<Rightarrow> (page_handler \<times> 's, RID \<times> byte list) M" where
  "rph_get_next_record ops rid = bindE (rph_page ops) (\<lambda>d.
     bindE (lift_opt (page_next (rid_slot rid) d)) (\<lambda>g. case g of
        Inl rc \<Rightarrow> fail rc
      | Inr (index, bytes) \<Rightarrow>
          bindE (rph_get_page_num ops) (\<lambda>pn. ret (\<lparr>rid_page = pn, rid_slot = index\<rparr>, bytes))))"

definition rph_is_full :: "('s, rec_page) pool_ops \<Rightarrow> (page_handler \<times> 's, bool) M" where
  "rph_is_full ops = bindE (rph_page ops) (\<lambda>d. ret (page_is_full d))"

section \<open>RecordFileHandler\<close>

record rec_file =
  rf_pool :: bool
  rf_file_id :: int
  rf_handler :: page_handler

definition rf_new :: rec_file where
  "rf_new = \<lparr>rf_pool = False, rf_file_id = - 1, rf_handler = rph_new\<rparr>"

definition on_handler :: "(page_handler \<times> 's, 'a) M \<Rightarrow> (rec_file \<times> 's, 'a) M" where
  "on_handler m = (\<lambda>(f, s). case m (rf_handler f, s) of
      None \<Rightarrow> None
    | Some (r, (h, s')) \<Rightarrow> Some (r, (f\<lparr>rf_handler := h\<rparr>, s')))"

text \<open>A \<^verbatim>\<open>RecordPageHandler\<close> on the stack: its destructor runs \<^verbatim>\<open>deinit\<close>.\<close>

definition local_handler :: "('s, 'd) pool_ops \<Rightarrow> (page_handler \<times> 's, 'a) M \<Rightarrow> ('h \<times> 's, 'a) M" where
  "local_handler ops m = (\<lambda>(f, s).
     case attempt m (\<lambda>r. bindE (rph_deinit ops) (\<lambda>_. case r of Inl rc \<Rightarrow> fail rc | Inr a \<Rightarrow> ret a)) (rph_new, s) of
       None \<Rightarrow> None
     | Some (r, (h, s')) \<Rightarrow> Some (r, (f, s')))"

definition rf_init :: "int \<Rightarrow> (rec_file \<times> 's, unit) M" where
  "rf_init file_id = bindE (gets fst) (\<lambda>f.
     if rf_pool f then fail RECORD_OPENNED
     else upd_handler (\<lambda>f. f\<lparr>rf_pool := True, rf_file_id := file_id\<rparr>))"

definition rf_close :: "(rec_file \<times> 's, unit) M" where
  "rf_close = upd_handler (\<lambda>f. f\<lparr>rf_pool := False\<rparr>)"

text \<open>The file behind \<^verbatim>\<open>disk_buffer_pool_\<close>.\<close>

definition rf_fid :: "(rec_file \<times> 's, int) M" where
  "rf_fid = bindE (gets fst) (\<lambda>f. if rf_pool f then ret (rf_file_id f) else undef)"

definition fixed_size :: int where
  "fixed_size = int BP_PAGE_DATA_SIZE - page_fix_size - 16"

text \<open>The page \<^verbatim>\<open>insert_record\<close> starts its search with.\<close>

definition start_page :: "('s, rec_page) pool_ops \<Rightarrow> int \<Rightarrow> int \<Rightarrow> (rec_file \<times> 's, int) M" where
  "start_page ops file_id pc = bindE (on_handler (rph_get_page_num ops)) (\<lambda>cur.
     if cur < 0
     then if pc \<ge> 2
          then bindE (on_handler (rph_init ops file_id 1)) (\<lambda>_. on_handler (rph_get_page_num ops))
          else ret 0
     else ret cur)"

definition move_to_page :: "('s, rec_page) pool_ops \<Rightarrow> int \<Rightarrow> int \<Rightarrow> (rec_file \<times> 's, unit) M" where
  "move_to_page ops file_id c = bindE (on_handler (rph_get_page_num ops)) (\<lambda>pn.
     if c = pn then ret ()
     else bindE (on_handler (rph_deinit ops)) (\<lambda>_.
       attempt (on_handler (rph_init ops file_id c)) (\<lambda>r. case r of
          Inl rc \<Rightarrow> if rc \<noteq> BUFFERPOOL_INVALID_PAGE_NUM then fail rc else ret ()
        | Inr _ \<Rightarrow> ret ())))"

text \<open>The loop over \<^verbatim>\<open>i\<close>, with the number of rounds left.\<close>

fun search_page :: "('s, rec_page) pool_ops \<Rightarrow> int \<Rightarrow> int \<Rightarrow> nat \<Rightarrow> int \<Rightarrow> int \<Rightarrow> (rec_file \<times> 's, bool) M" where
  "search_page ops file_id pc 0 i cur = ret False"
| "search_page ops file_id pc (Suc n) i cur =
    (let c = (cur + i) mod pc in
     if c = 0 then search_page ops file_id pc n (i + 1) c
     else bindE (move_to_page ops file_id c) (\<lambda>_.
       bindE (on_handler (rph_is_full ops)) (\<lambda>full.
         if \<not> full then ret True else search_page ops file_id pc n (i + 1) c)))"

definition new_page :: "('s, rec_page) pool_ops \<Rightarrow> int \<Rightarrow> int \<Rightarrow> (rec_file \<times> 's, unit) M" where
  "new_page ops file_id rs = bindE (pool_op (op_allocate_page ops file_id)) (\<lambda>p.
     bindE (pool_op (op_peek_num ops p)) (\<lambda>pn.
     bindE (on_handler (rph_deinit ops)) (\<lambda>_.
     attempt (on_handler (rph_init_empty_page ops file_id pn rs)) (\<lambda>r.
     bindE (ignoring (pool_op (op_unpin_page ops p))) (\<lambda>_.
     (case r of Inl rc \<Rightarrow> fail rc | Inr _ \<Rightarrow> ret ()))))))"

text \<open>One round of the loop over the chunks of the record: find or make a page.\<close>

definition provide_page :: "('s, rec_page) pool_ops \<Rightarrow> int \<Rightarrow> (rec_file \<times> 's, unit) M" where
  "provide_page ops rs = bindE rf_fid (\<lambda>file_id.
     bindE (pool_op (op_get_page_count ops file_id)) (\<lambda>pc.
     bindE (start_page ops file_id pc) (\<lambda>cur.
     bindE (search_page ops file_id pc (nat pc) 0 cur) (\<lambda>found.
       if found then ret () else new_page ops file_id rs))))"

function insert_chunks ::
    "('s, rec_page) pool_ops \<Rightarrow> byte list \<Rightarrow> int \<Rightarrow> int \<Rightarrow> int \<Rightarrow> RID option \<Rightarrow> (rec_file \<times> 's, RID option) M" where
  "insert_chunks ops src whole res cur rid =
    (if res > 0
     then bindE (provide_page ops (if whole > fixed_size then fixed_size else res)) (\<lambda>_.
       bindE (on_handler (if cur = 0 then rph_insert_record ops src 0
           else rph_insert_record ops (drop (nat (cur - 4)) src) (res + 4))) (\<lambda>rid'.
         insert_chunks ops src whole (res - fixed_size) (cur + fixed_size) (Some rid')))
     else ret rid)"
  by pat_completeness auto
termination
  by (relation "measure (\<lambda>(ops, src, rs, res, cur, rid). nat res)")
    (auto simp: fixed_size_def page_fix_size_def BP_PAGE_DATA_SIZE_def BP_PAGE_SIZE_def)

declare insert_chunks.simps [simp del]

definition rf_insert_record :: "('s, rec_page) pool_ops \<Rightarrow> byte list \<Rightarrow> int \<Rightarrow> (rec_file \<times> 's, RID option) M" where
  "rf_insert_record ops src whole = insert_chunks ops src whole whole 0 None"

text \<open>The test \<^verbatim>\<open>(ret != page_handler.init(...)) != RC::SUCCESS\<close> is true when
  \<^verbatim>\<open>init\<close> fails, and what is returned then is \<^verbatim>\<open>ret\<close>, which is still
  \<^verbatim>\<open>SUCCESS\<close>.\<close>

definition opened :: "('s, 'd) pool_ops \<Rightarrow> int \<Rightarrow> int \<Rightarrow> (page_handler \<times> 's, 'a) M \<Rightarrow> 'a \<Rightarrow> (page_handler \<times> 's, 'a) M" where
  "opened ops file_id pn m skipped = attempt (rph_init ops file_id pn) (\<lambda>r. case r of
      Inl _ \<Rightarrow> ret skipped
    | Inr _ \<Rightarrow> m)"

definition rf_update_record :: "('s, rec_page) pool_ops \<Rightarrow> RID \<Rightarrow> byte list \<Rightarrow> (rec_file \<times> 's, unit) M" where
  "rf_update_record ops rid src = bindE rf_fid (\<lambda>file_id.
     local_handler ops (opened ops file_id (rid_page rid) (rph_update_record ops rid src) ()))"

definition rf_delete_record :: "('s, rec_page) pool_ops \<Rightarrow> RID \<Rightarrow> (rec_file \<times> 's, unit) M" where
  "rf_delete_record ops rid = bindE rf_fid (\<lambda>file_id.
     local_handler ops (opened ops file_id (rid_page rid) (rph_delete_record ops rid) ()))"

text \<open>\<^verbatim>\<open>None\<close> as a result: success is reported and \<^verbatim>\<open>rec\<close> has not been written.\<close>

definition rf_get_record :: "('s, rec_page) pool_ops \<Rightarrow> RID \<Rightarrow> (rec_file \<times> 's, byte list option) M" where
  "rf_get_record ops rid = bindE rf_fid (\<lambda>file_id.
     local_handler ops (opened ops file_id (rid_page rid)
       (bindE (rph_get_record ops rid) (\<lambda>b. ret (Some b))) None))"

definition rf_update_record_in_place ::
    "('s, rec_page) pool_ops \<Rightarrow> RID \<Rightarrow> (byte list \<Rightarrow> (RC + unit) \<times> byte list) \<Rightarrow> (rec_file \<times> 's, unit) M" where
  "rf_update_record_in_place ops rid updater = bindE rf_fid (\<lambda>file_id.
     local_handler ops (opened ops file_id (rid_page rid) (rph_update_record_in_place ops rid updater) ()))"

section \<open>RecordFileScanner\<close>

text \<open>A condition filter is a predicate on records; a null pointer accepts every record.\<close>

record scanner =
  sc_pool :: bool
  sc_file_id :: int
  sc_filter :: "(RID \<Rightarrow> byte list \<Rightarrow> bool) option"
  sc_handler :: page_handler

definition sc_new :: scanner where
  "sc_new = \<lparr>sc_pool = False, sc_file_id = - 1, sc_filter = None, sc_handler = rph_new\<rparr>"

definition on_scan :: "(page_handler \<times> 's, 'a) M \<Rightarrow> (scanner \<times> 's, 'a) M" where
  "on_scan m = (\<lambda>(f, s). case m (sc_handler f, s) of
      None \<Rightarrow> None
    | Some (r, (h, s')) \<Rightarrow> Some (r, (f\<lparr>sc_handler := h\<rparr>, s')))"

definition close_scan :: "(scanner \<times> 's, unit) M" where
  "close_scan = upd_handler (\<lambda>f. f\<lparr>sc_pool := False, sc_filter := None\<rparr>)"

definition open_scan :: "int \<Rightarrow> (RID \<Rightarrow> byte list \<Rightarrow> bool) option \<Rightarrow> (scanner \<times> 's, unit) M" where
  "open_scan file_id flt = bindE close_scan (\<lambda>_.
     upd_handler (\<lambda>f. f\<lparr>sc_pool := True, sc_file_id := file_id, sc_filter := flt\<rparr>))"

definition sc_accepts :: "(RID \<Rightarrow> byte list \<Rightarrow> bool) option \<Rightarrow> RID \<Rightarrow> byte list \<Rightarrow> bool" where
  "sc_accepts flt rid bytes \<longleftrightarrow> (case flt of None \<Rightarrow> True | Some g \<Rightarrow> g rid bytes)"

text \<open>Bringing the page handler onto a page, unless it is there.\<close>

definition sc_enter_page :: "('s, 'd) pool_ops \<Rightarrow> int \<Rightarrow> (scanner \<times> 's, unit) M" where
  "sc_enter_page ops p = bindE (on_scan (rph_get_page_num ops)) (\<lambda>pn.
     if p = pn then ret ()
     else bindE (on_scan (rph_deinit ops)) (\<lambda>_.
       bindE (gets fst) (\<lambda>f. on_scan (rph_init ops (sc_file_id f) p))))"

text \<open>The loop of \<^verbatim>\<open>get_next_record\<close>, with a bound on its rounds; \<^verbatim>\<open>so_far\<close> is the
  value of \<^verbatim>\<open>ret\<close>. When the loop ends with \<^verbatim>\<open>ret\<close> equal to \<^verbatim>\<open>SUCCESS\<close>
  without having found a record, \<^verbatim>\<open>rec\<close> keeps its data: \<^verbatim>\<open>None\<close>.\<close>

fun scan_loop :: "('s, rec_page) pool_ops \<Rightarrow> int \<Rightarrow> nat \<Rightarrow> (RC + unit) \<Rightarrow> RID \<Rightarrow> (scanner \<times> 's, RID \<times> byte list option) M" where
  "scan_loop ops pc 0 so_far rid = undef"
| "scan_loop ops pc (Suc n) so_far rid =
    (if rid_page rid < pc
     then bindE (gets fst) (\<lambda>f.
       attempt (sc_enter_page ops (rid_page rid)) (\<lambda>r.
       if r = Inl BUFFERPOOL_INVALID_PAGE_NUM
       then scan_loop ops pc n r \<lparr>rid_page = rid_page rid + 1, rid_slot = - 1\<rparr>
       else case r of
         Inl rc \<Rightarrow> fail rc
       | Inr _ \<Rightarrow>
           attempt (on_scan (rph_get_next_record ops rid)) (\<lambda>g. case g of
              Inr (rid', bytes) \<Rightarrow>
                if sc_accepts (sc_filter f) rid' bytes then ret (rid', Some bytes)
                else scan_loop ops pc n (Inr ()) rid'
            | Inl rc \<Rightarrow>
                if rc = RECORD_EOF then scan_loop ops pc n (Inl rc) \<lparr>rid_page = rid_page rid + 1, rid_slot = - 1\<rparr>
                else fail rc)))
     else case so_far of Inl rc \<Rightarrow> fail rc | Inr _ \<Rightarrow> ret (rid, None))"

text \<open>Every round goes on to the next slot of a page or to the next page; a page has fewer than
  32768 slots.\<close>

definition sc_get_next_record :: "('s, rec_page) pool_ops \<Rightarrow> RID \<Rightarrow> (scanner \<times> 's, RID \<times> byte list option) M" where
  "sc_get_next_record ops rid = bindE (gets fst) (\<lambda>f.
     if \<not> sc_pool f then fail RECORD_CLOSED
     else attempt (pool_op (op_get_page_count ops (sc_file_id f))) (\<lambda>r. case r of
         Inl _ \<Rightarrow> fail RECORD_EOF
       | Inr pc \<Rightarrow>
           if pc = 1 then fail RECORD_EOF
           else scan_loop ops pc (Suc (nat (pc - rid_page rid) * 32768)) (Inr ()) rid))"

definition sc_get_first_record :: "('s, rec_page) pool_ops \<Rightarrow> (scanner \<times> 's, RID \<times> byte list option) M" where
  "sc_get_first_record ops = sc_get_next_record ops \<lparr>rid_page = 1, rid_slot = - 1\<rparr>"

end
