(* ===== verification/Record_File.thy ===== *)
theory Record_File
  imports Record_Manager
begin

text \<open>
  What the record manager promises, proved once over the interface of the buffer pool: reading,
  inserting and scanning a record file in terms of the map from record identifiers to records.
\<close>

section \<open>The content of a record file\<close>

definition rec_good :: "rec_page \<Rightarrow> bool" where
  "rec_good d \<longleftrightarrow> int (length (body d)) = int BP_PAGE_DATA_SIZE - page_fix_size"

definition file_map :: "(int \<Rightarrow> rec_page option) \<Rightarrow> int \<Rightarrow> nat \<Rightarrow> byte list option" where
  "file_map v p i = (case v p of None \<Rightarrow> None | Some pg \<Rightarrow> page_map pg i)"

text \<open>Every page is well formed and holds records of \<^verbatim>\<open>rs\<close> bytes.\<close>

definition pages_ok :: "int \<Rightarrow> (int \<Rightarrow> rec_page option) \<Rightarrow> bool" where
  "pages_ok rs v \<longleftrightarrow> (\<forall>p d. v p = Some d \<longrightarrow> page_ok d \<and> record_real_size d = rs)"

lemma page_ok_good: "page_ok d \<Longrightarrow> rec_good d"
  by (simp add: page_ok_def layout_ok_def rec_good_def)

lemma file_map_upd: "file_map (v(p \<mapsto> d)) = (file_map v)(p := page_map d)"
  by (auto simp: fun_eq_iff file_map_def)

text \<open>No page below the page count has been given back.\<close>

definition dense :: "(int \<Rightarrow> rec_page option) \<Rightarrow> int \<Rightarrow> bool" where
  "dense v n \<longleftrightarrow> (\<forall>p. 0 < p \<and> p < n \<longrightarrow> v p \<noteq> None)"

section \<open>Running handlers\<close>

lemma pool_op_run [run]: "m s = Some (r, s') \<Longrightarrow> pool_op m (h, s) = Some (r, (h, s'))"
  by (simp add: pool_op_def)

lemma upd_handler_run [run]: "upd_handler f (h, s) = Some (Inr (), (f h, s))"
  by (simp add: upd_handler_def run)

lemma on_handler_run [run]:
  "m (rf_handler f, s) = Some (r, (h, s')) \<Longrightarrow> on_handler m (f, s) = Some (r, (f\<lparr>rf_handler := h\<rparr>, s'))"
  by (simp add: on_handler_def)

lemma on_scan_run [run]:
  "m (sc_handler f, s) = Some (r, (h, s')) \<Longrightarrow> on_scan m (f, s) = Some (r, (f\<lparr>sc_handler := h\<rparr>, s'))"
  by (simp add: on_scan_def)

lemma ignoring_run [run]: "m s = Some (r, s') \<Longrightarrow> ignoring m s = Some (Inr (), s')"
  by (simp add: ignoring_def run)

lemma rf_fid_run [run]: "rf_pool f \<Longrightarrow> rf_fid (f, s) = Some (Inr (rf_file_id f), (f, s))"
  by (simp add: rf_fid_def run)

text \<open>The pages \<^verbatim>\<open>search_page\<close> visits: the loop adds its counter to the page it is on.\<close>

fun probes :: "int \<Rightarrow> nat \<Rightarrow> int \<Rightarrow> int \<Rightarrow> int list" where
  "probes pc 0 i cur = []"
| "probes pc (Suc n) i cur = (let c = (cur + i) mod pc in c # probes pc n (i + 1) c)"

section \<open>Handlers over the pool\<close>

locale record_pool = page_pool ops fid ok view pins held stable cap count limit rec_good
  for ops :: "('s, rec_page) pool_ops" and fid ok view pins held stable cap count limit
begin

text \<open>Nothing that is in memory only would be lost.\<close>

definition ready :: "'s \<Rightarrow> bool" where
  "ready s \<longleftrightarrow> ok s \<and> (\<forall>q. stable s q)"

definition same :: "'s \<Rightarrow> 's \<Rightarrow> bool" where
  "same s s' \<longleftrightarrow> view s' = view s \<and> cap s' = cap s \<and> count s' = count s"

text \<open>Frames and pins are left for two more pages beside those pinned by \<^verbatim>\<open>b\<close>.\<close>

definition space :: "(int \<Rightarrow> nat) \<Rightarrow> 's \<Rightarrow> bool" where
  "space b s \<longleftrightarrow> finite {q. 0 < b q} \<and> card {q. 0 < b q} + 2 \<le> cap s \<and> (\<forall>q. b q + 2 < 2 ^ 32)"

definition holds :: "'s \<Rightarrow> page_handler \<Rightarrow> int \<Rightarrow> bool" where
  "holds s h p \<longleftrightarrow> ph_pool h \<and> ph_file_id h = fid \<and> ph_header h = Some (ph_handle h) \<and> held s (ph_handle h) p"

lemma card_pinned: "finite {q. 0 < b q} \<Longrightarrow> card {q. 0 < (b(p := Suc (b p))) q} \<le> Suc (card {q. 0 < b q})"
proof -
  assume f: "finite {q. 0 < b q}"
  have "{q. 0 < (b(p := Suc (b p))) q} \<subseteq> insert p {q. 0 < b q}" by auto
  then have "card {q. 0 < (b(p := Suc (b p))) q} \<le> card (insert p {q. 0 < b q})"
    using f by (intro card_mono) auto
  also have "\<dots> \<le> Suc (card {q. 0 < b q})" using f by (simp add: card_insert_if)
  finally show ?thesis .
qed

lemma same_refl [simp]: "same s s"
  by (simp add: same_def)

lemma same_trans: "same s t \<Longrightarrow> same t u \<Longrightarrow> same s u"
  by (simp add: same_def)

lemma space_same: "space b s \<Longrightarrow> cap s' = cap s \<Longrightarrow> space b s'"
  by (simp add: space_def)

lemma spaceD:
  assumes "space b s"
  shows "card {q. 0 < b q} < cap s" "b p + 1 < 2 ^ 32" "finite {q. 0 < b q}"
    "card {q. 0 < (b(c := Suc (b c))) q} < cap s" "(b(c := Suc (b c))) p + 1 < 2 ^ 32"
proof -
  have f: "finite {q. 0 < b q}" "card {q. 0 < b q} + 2 \<le> cap s" "b p + 2 < 2 ^ 32"
    using assms unfolding space_def by blast+
  show "card {q. 0 < b q} < cap s" "b p + 1 < 2 ^ 32" "finite {q. 0 < b q}" using f by simp_all
  show "card {q. 0 < (b(c := Suc (b c))) q} < cap s" using card_pinned [OF f(1), of c] f(2) by simp
  show "(b(c := Suc (b c))) p + 1 < 2 ^ 32" using f(3) by auto
qed

lemma get_ready:
  assumes "ready s" "view s p = Some d" "card {q. 0 < pins s q} < cap s" "pins s p + 1 < 2 ^ 32"
  obtains h s' where "op_get_this_page ops fid p s = Some (Inr h, s')" "ready s'" "same s s'" "held s' h p"
    "pins s' = (pins s)(p := Suc (pins s p))" "\<And>h' q. held s h' q \<Longrightarrow> held s' h' q"
  using get_ok [of s p d] assms by (auto simp: ready_def same_def)

lemma unpin_ready:
  assumes "ready s" "held s h p"
  obtains s' where "op_unpin_page ops h s = Some (Inr (h\<lparr>is_open := False\<rparr>), s')" "ready s'" "same s s'"
    "pins s' = (pins s)(p := pins s p - 1)" "\<And>h' q. held s h' q \<Longrightarrow> q \<noteq> p \<or> 1 < pins s p \<Longrightarrow> held s' h' q"
  using unpin_ok [of s h p] assms by (auto simp: ready_def same_def)

lemma held_reads:
  assumes "ready s" "held s h p" "view s p = Some d"
  shows "op_get_data ops h s = Some (Inr d, s)" "op_peek_data ops h s = Some (Inr d, s)"
    "op_get_page_num ops h s = Some (Inr p, s)" "op_peek_num ops h s = Some (Inr p, s)"
  using data_ok [of s h p d] peek_ok [of s h p] num_ok [of s h p] assms by (auto simp: ready_def)

lemma holds_view: "ready s \<Longrightarrow> holds s h p \<Longrightarrow> \<exists>d. view s p = Some d"
  using held_pins [of s "ph_handle h" p] by (auto simp: holds_def ready_def)

lemma holds_reads:
  assumes "ready s" "holds s h p" "view s p = Some d"
  shows "rph_page ops (h, s) = Some (Inr d, (h, s))" "rph_get_page_num ops (h, s) = Some (Inr p, (h, s))"
    "rph_is_full ops (h, s) = Some (Inr (page_is_full d), (h, s))"
  using held_reads [of s "ph_handle h" p d] assms
  by (simp_all add: holds_def rph_page_def rph_get_page_num_def rph_is_full_def run)

lemma rph_init_ready:
  assumes "ready s" "\<not> ph_pool h" "view s p = Some d" "card {q. 0 < pins s q} < cap s" "pins s p + 1 < 2 ^ 32"
  obtains h' s' where "rph_init ops fid p (h, s) = Some (Inr (), (h', s'))" "ready s'" "same s s'" "holds s' h' p"
    "pins s' = (pins s)(p := Suc (pins s p))" "\<And>h' q. held s h' q \<Longrightarrow> held s' h' q"
proof -
  obtain ph s' where g: "op_get_this_page ops fid p s = Some (Inr ph, s')" "ready s'" "same s s'" "held s' ph p"
    "pins s' = (pins s)(p := Suc (pins s p))" "\<And>h' q. held s h' q \<Longrightarrow> held s' h' q"
    by (rule get_ready [OF assms(1,3,4,5)]) blast
  then have "view s' p = Some d" using assms(3) by (simp add: same_def)
  then have "rph_init ops fid p (h, s) =
      Some (Inr (), (h\<lparr>ph_handle := ph, ph_pool := True, ph_file_id := fid, ph_header := Some ph\<rparr>, s'))"
    using g held_reads [of s' ph p d] assms(2) by (simp add: rph_init_def run)
  then show ?thesis by (rule that) (use g in \<open>simp_all add: holds_def\<close>)
qed

lemma rph_init_absent:
  assumes "ready s" "\<not> ph_pool h" "view s p = None" "0 < p"
  shows "rph_init ops fid p (h, s) = Some (Inl BUFFERPOOL_INVALID_PAGE_NUM, (h, s))"
  using get_invalid [of s p] assms by (simp add: rph_init_def run ready_def)

lemma rph_deinit_ready:
  assumes "ready s" "holds s h p"
  obtains h' s' where "rph_deinit ops (h, s) = Some (Inr (), (h', s'))" "ready s'" "same s s'" "\<not> ph_pool h'"
    "ph_header h' \<noteq> None" "pins s' = (pins s)(p := pins s p - 1)"
    "\<And>h' q. held s h' q \<Longrightarrow> q \<noteq> p \<or> 1 < pins s p \<Longrightarrow> held s' h' q"
proof -
  obtain s' where u: "op_unpin_page ops (ph_handle h) s = Some (Inr ((ph_handle h)\<lparr>is_open := False\<rparr>), s')"
    "ready s'" "same s s'" "pins s' = (pins s)(p := pins s p - 1)"
    "\<And>h' q. held s h' q \<Longrightarrow> q \<noteq> p \<or> 1 < pins s p \<Longrightarrow> held s' h' q"
    by (rule unpin_ready [OF assms(1), of "ph_handle h" p]) (use assms(2) in \<open>auto simp: holds_def\<close>)
  then have "rph_deinit ops (h, s) =
      Some (Inr (), (h\<lparr>ph_handle := (ph_handle h)\<lparr>is_open := False\<rparr>, ph_pool := False\<rparr>, s'))"
    using assms(2) by (simp add: rph_deinit_def holds_def run)
  then show ?thesis by (rule that) (use u assms(2) in \<open>simp_all add: holds_def\<close>)
qed

lemma rph_store_ready:
  assumes "ready s" "holds s h p" "rec_good d"
  obtains s' where "bindE (rph_store ops d) (\<lambda>_. rph_mark_dirty ops) (h, s) = Some (Inr (), (h, s'))"
    "bindE (rph_store ops d) (\<lambda>_. ignoring (rph_mark_dirty ops)) (h, s) = Some (Inr (), (h, s'))"
    "ready s'" "view s' = (view s)(p \<mapsto> d)" "cap s' = cap s" "count s' = count s" "pins s' = pins s" "held s' = held s"
proof -
  have h: "held s (ph_handle h) p" "view s p \<noteq> None"
    using assms(2) holds_view [OF assms(1,2)] by (auto simp: holds_def)
  obtain s1 where s1: "op_put_data ops (ph_handle h) d s = Some (Inr (), s1)" "ok s1" "view s1 = (view s)(p \<mapsto> d)"
    "pins s1 = pins s" "cap s1 = cap s" "count s1 = count s" "held s1 = held s"
    "\<forall>q. q \<noteq> p \<longrightarrow> stable s q \<longrightarrow> stable s1 q"
    using put_ok [of s "ph_handle h" p d] assms(1,3) h by (auto simp: ready_def)
  obtain s2 where s2: "op_mark_dirty ops (ph_handle h) s1 = Some (Inr (), s2)" "ok s2" "view s2 = view s1"
    "pins s2 = pins s1" "cap s2 = cap s1" "count s2 = count s1" "held s2 = held s1" "stable s2 p"
    "\<forall>q. stable s1 q \<longrightarrow> stable s2 q"
    using dirty_ok [of s1 "ph_handle h" p] s1 h by auto
  have "ready s2" using s1 s2 assms(1) unfolding ready_def by metis
  then show ?thesis
    using that [of s2] s1 s2 assms(2) by (simp add: rph_store_def rph_mark_dirty_def holds_def run)
qed

section \<open>Reading a record\<close>

text \<open>A handler on the stack that only reads leaves the pool as it was, up to the frames.\<close>

lemma local_opened_read:
  assumes s: "ready s" "view s p = Some d" "card {q. 0 < pins s q} < cap s" "pins s p + 1 < 2 ^ 32"
    and m: "\<And>h s1. ready s1 \<Longrightarrow> holds s1 h p \<Longrightarrow> view s1 p = Some d \<Longrightarrow> m (h, s1) = Some (r, (h, s1))"
  obtains s' where "local_handler ops (opened ops fid p m skipped) (f, s) = Some (r, (f, s'))"
    "ready s'" "same s s'" "pins s' = pins s"
proof -
  have np: "\<not> ph_pool rph_new" by (simp add: rph_new_def)
  obtain h1 s1 where i: "rph_init ops fid p (rph_new, s) = Some (Inr (), (h1, s1))" "ready s1" "same s s1"
    "holds s1 h1 p" "pins s1 = (pins s)(p := Suc (pins s p))" "\<And>h' q. held s h' q \<Longrightarrow> held s1 h' q"
    by (rule rph_init_ready [OF s(1) np s(2-4)]) blast
  have v: "view s1 p = Some d" using i(3) s(2) by (simp add: same_def)
  obtain h2 s2 where u: "rph_deinit ops (h1, s1) = Some (Inr (), (h2, s2))" "ready s2" "same s1 s2"
    "pins s2 = (pins s1)(p := pins s1 p - 1)"
    by (rule rph_deinit_ready [OF i(2,4)]) blast
  have "local_handler ops (opened ops fid p m skipped) (f, s) = Some (r, (f, s2))"
    using i(1) m [OF i(2,4) v] u(1)
    by (cases r) (simp_all add: local_handler_def opened_def run)
  then show ?thesis by (rule that) (use u i in \<open>auto simp: same_def\<close>)
qed

lemma rf_get_record_run:
  assumes s: "ready s" "view s p = Some d" "card {q. 0 < pins s q} < cap s" "pins s p + 1 < 2 ^ 32"
      "layout_ok d" "int i < record_capacity d"
    and f: "rf_pool f" "rf_file_id f = fid"
  obtains s' where "rf_get_record ops \<lparr>rid_page = p, rid_slot = int i\<rparr> (f, s) =
      Some (case page_map d i of None \<Rightarrow> Inl RECORD_RECORD_NOT_EXIST | Some b \<Rightarrow> Inr (Some b), (f, s'))"
    "ready s'" "same s s'" "pins s' = pins s"
proof -
  let ?m = "bindE (rph_get_record ops \<lparr>rid_page = p, rid_slot = int i\<rparr>) (\<lambda>b. ret (Some b))"
  let ?r = "case page_map d i of None \<Rightarrow> Inl RECORD_RECORD_NOT_EXIST | Some b \<Rightarrow> Inr (Some b)"
  have m: "?m (h, s1) = Some (?r, (h, s1))" if "ready s1" "holds s1 h p" "view s1 p = Some d" for h s1
    using holds_reads(1) [OF that] page_get_eq [OF s(5,6)]
    by (cases "page_map d i") (simp_all add: rph_get_record_def run)
  obtain s' where "local_handler ops (opened ops fid p ?m None) (f, s) = Some (?r, (f, s'))"
    "ready s'" "same s s'" "pins s' = pins s"
    by (rule local_opened_read [where m = ?m and skipped = None and f = f, OF s(1-4) m]) blast+
  then show ?thesis using that f by (simp add: rf_get_record_def run)
qed

lemma rf_get_record_absent:
  assumes "ready s" "view s (rid_page rid) = None" "0 < rid_page rid" "rf_pool f" "rf_file_id f = fid"
  shows "rf_get_record ops rid (f, s) = Some (Inr None, (f, s))"
proof -
  have np: "\<not> ph_pool rph_new" by (simp add: rph_new_def)
  show ?thesis
    using rph_init_absent [OF assms(1) np assms(2,3)] assms(4,5) np
    by (simp add: rf_get_record_def local_handler_def opened_def rph_deinit_def run)
qed

section \<open>Inserting a record\<close>

text \<open>The handler of a file at rest: its page handler holds a page \<^verbatim>\<open>c\<close> beside the pins
  \<^verbatim>\<open>b\<close> of everyone else, or has never been used.\<close>

definition rf_on :: "(int \<Rightarrow> nat) \<Rightarrow> rec_file \<Rightarrow> 's \<Rightarrow> int \<Rightarrow> bool" where
  "rf_on b f s c \<longleftrightarrow> rf_pool f \<and> rf_file_id f = fid \<and> ready s \<and> holds s (rf_handler f) c \<and>
     pins s = b(c := Suc (b c)) \<and> space b s"

definition rf_off :: "(int \<Rightarrow> nat) \<Rightarrow> rec_file \<Rightarrow> 's \<Rightarrow> bool" where
  "rf_off b f s \<longleftrightarrow> rf_pool f \<and> rf_file_id f = fid \<and> ready s \<and> \<not> ph_pool (rf_handler f) \<and>
     ph_header (rf_handler f) = None \<and> pins s = b \<and> space b s"

definition rf_idle :: "(int \<Rightarrow> nat) \<Rightarrow> rec_file \<Rightarrow> 's \<Rightarrow> bool" where
  "rf_idle b f s \<longleftrightarrow> rf_off b f s \<or> (\<exists>c. rf_on b f s c)"

lemma rf_on_view: "rf_on b f s c \<Longrightarrow> \<exists>d. view s c = Some d"
  using holds_view by (auto simp: rf_on_def)

lemma rf_deinit_run:
  assumes "rf_on b f s c"
  obtains f' s' where "on_handler (rph_deinit ops) (f, s) = Some (Inr (), (f', s'))" "ready s'" "same s s'"
    "rf_pool f'" "rf_file_id f' = fid" "\<not> ph_pool (rf_handler f')" "pins s' = b"
    "\<And>h' q. held s h' q \<Longrightarrow> q \<noteq> c \<or> 1 < pins s c \<Longrightarrow> held s' h' q"
proof -
  have o: "ready s" "holds s (rf_handler f) c" "pins s = b(c := Suc (b c))" "rf_pool f" "rf_file_id f = fid"
    using assms by (auto simp: rf_on_def)
  obtain h' s' where u: "rph_deinit ops (rf_handler f, s) = Some (Inr (), (h', s'))" "ready s'" "same s s'"
    "\<not> ph_pool h'" "pins s' = (pins s)(c := pins s c - 1)"
    "\<And>h' q. held s h' q \<Longrightarrow> q \<noteq> c \<or> 1 < pins s c \<Longrightarrow> held s' h' q"
    by (rule rph_deinit_ready [OF o(1,2)]) blast
  show ?thesis
    by (rule that [of "f\<lparr>rf_handler := h'\<rparr>" s']) (use u o in \<open>auto simp: run\<close>)
qed

lemma move_to_page_run:
  assumes o: "rf_on b f s c0" and v: "view s c = Some d"
  obtains f' s' where "move_to_page ops fid c (f, s) = Some (Inr (), (f', s'))" "rf_on b f' s' c" "same s s'"
proof (cases "c = c0")
  case True
  obtain d0 where "view s c0 = Some d0" using rf_on_view [OF o] by blast
  then have "on_handler (rph_get_page_num ops) (f, s) = Some (Inr c0, (f, s))"
    using holds_reads(2) [of s "rf_handler f" c0 d0] o by (simp add: rf_on_def run)
  then have "move_to_page ops fid c (f, s) = Some (Inr (), (f, s))"
    using True by (simp add: move_to_page_def run)
  then show ?thesis by (rule that) (use o True in simp_all)
next
  case False
  obtain d0 where "view s c0 = Some d0" using rf_on_view [OF o] by blast
  then have g: "on_handler (rph_get_page_num ops) (f, s) = Some (Inr c0, (f, s))"
    using holds_reads(2) [of s "rf_handler f" c0 d0] o by (simp add: rf_on_def run)
  obtain f1 s1 where u: "on_handler (rph_deinit ops) (f, s) = Some (Inr (), (f1, s1))" "ready s1" "same s s1"
    "rf_pool f1" "rf_file_id f1 = fid" "\<not> ph_pool (rf_handler f1)" "pins s1 = b"
    by (rule rf_deinit_run [OF o]) blast
  have v1: "view s1 c = Some d" and sp: "space b s1"
    using u(3) v o by (auto simp: same_def rf_on_def intro: space_same)
  obtain h2 s2 where i: "rph_init ops fid c (rf_handler f1, s1) = Some (Inr (), (h2, s2))" "ready s2" "same s1 s2"
    "holds s2 h2 c" "pins s2 = (pins s1)(c := Suc (pins s1 c))"
    by (rule rph_init_ready [OF u(2,6) v1]) (use spaceD(1,2) [OF sp] u(7) in auto)
  have "move_to_page ops fid c (f, s) = Some (Inr (), (f1\<lparr>rf_handler := h2\<rparr>, s2))"
    using g False u(1) i(1) by (simp add: move_to_page_def run)
  then show ?thesis
    by (rule that) (use u i sp in \<open>auto simp: rf_on_def same_def intro: space_same\<close>)
qed

text \<open>The pages the search loop looks at.\<close>

lemma search_page_run:
  assumes "rf_on b f s c0" "\<And>p. 0 < p \<Longrightarrow> p < pc \<Longrightarrow> view s p \<noteq> None" "0 < pc"
  shows "\<exists>found f' s' c. search_page ops fid pc n i cur (f, s) = Some (Inr found, (f', s')) \<and>
    rf_on b f' s' c \<and> same s s' \<and> (found \<longrightarrow> (\<exists>d. view s c = Some d \<and> \<not> page_is_full d))"
  using assms(1,2)
proof (induction n arbitrary: f s i cur c0)
  case 0
  then show ?case by (auto simp: run)
next
  case (Suc n)
  define c where "c = (cur + i) mod pc"
  show ?case
  proof (cases "c = 0")
    case True
    then show ?thesis using Suc by (simp add: c_def)
  next
    case False
    then have "0 < c" "c < pc" using assms(3) pos_mod_sign [of pc "cur + i"] pos_mod_bound [of pc "cur + i"]
      by (simp_all add: c_def order_le_less)
    then obtain d where d: "view s c = Some d" using Suc.prems(2) [of c] by auto
    obtain f1 s1 where m: "move_to_page ops fid c (f, s) = Some (Inr (), (f1, s1))" "rf_on b f1 s1 c" "same s s1"
      by (rule move_to_page_run [OF Suc.prems(1) d]) blast
    have v1: "view s1 = view s" using m(3) by (simp add: same_def)
    have full: "on_handler (rph_is_full ops) (f1, s1) = Some (Inr (page_is_full d), (f1, s1))"
      using holds_reads(3) [of s1 "rf_handler f1" c d] m(2) d v1 by (simp add: rf_on_def run)
    have step: "search_page ops fid pc (Suc n) i cur (f, s) =
        (if \<not> page_is_full d then Some (Inr True, (f1, s1)) else search_page ops fid pc n (i + 1) c (f1, s1))"
      using False m(1) full by (simp add: c_def [symmetric] Let_def run)
    show ?thesis
    proof (cases "page_is_full d")
      case False
      then show ?thesis unfolding step using m d by auto
    next
      case True
      then show ?thesis
        unfolding step using Suc.IH [OF m(2), of "i + 1" c] Suc.prems(2) v1 m(3)
        by (auto simp: same_def)
    qed
  qed
qed

lemma alloc_ready:
  assumes "ready s" "count s < limit" "card {q. 0 < pins s q} < cap s"
  obtains h p d s' where "op_allocate_page ops fid s = Some (Inr h, s')" "ready s'" "0 < p" "view s p = None"
    "pins s p = 0" "view s' = (view s)(p \<mapsto> d)" "pins s' = (pins s)(p := 1)" "held s' h p" "cap s' = cap s"
    "p \<le> count s" "count s' = max (count s) (p + 1)" "\<And>h' q. held s h' q \<Longrightarrow> held s' h' q" "rec_good d"
proof -
  obtain h p d s' where a: "op_allocate_page ops fid s = Some (Inr h, s')" "ok s'" "0 < p" "view s p = None"
    "pins s p = 0" "view s' = (view s)(p \<mapsto> d)" "pins s' = (pins s)(p := 1)" "held s' h p" "cap s' = cap s"
    "p \<le> count s" "count s' = max (count s) (p + 1)" "\<forall>h' q. held s h' q \<longrightarrow> held s' h' q"
    "\<forall>q. stable s q \<longrightarrow> stable s' q"
    using alloc_ok [of s] assms unfolding ready_def by blast
  have "ready s'" using a(2,13) assms(1) by (simp add: ready_def)
  moreover have "rec_good d" using view_good [of s' p d] a(2,6) by simp
  ultimately show ?thesis by (intro that [of h s' p d]) (use a in auto)
qed

text \<open>Giving up the page of the handler, if it has one, while a new page is pinned.\<close>

lemma deinit_beside:
  assumes "rf_idle b f s" and t: "ready t" "view t = (view s)(p \<mapsto> d)" "pins t = (pins s)(p := 1)"
    "held t ph p" "view s p = None" "pins s p = 0" "\<And>h' q. held s h' q \<Longrightarrow> held t h' q"
  obtains f' t' where "on_handler (rph_deinit ops) (f, t) = Some (Inr (), (f', t'))" "ready t'" "same t t'"
    "rf_pool f'" "rf_file_id f' = fid" "\<not> ph_pool (rf_handler f')" "pins t' = b(p := 1)" "b p = 0" "held t' ph p"
proof -
  consider "rf_off b f s" | c where "rf_on b f s c" using assms(1) by (auto simp: rf_idle_def)
  then show ?thesis
  proof cases
    case 1
    then have "on_handler (rph_deinit ops) (f, t) = Some (Inr (), (f, t))"
      by (simp add: rf_off_def rph_deinit_def run)
    then show ?thesis by (rule that) (use 1 t in \<open>auto simp: rf_off_def\<close>)
  next
    case 2
    have o: "holds s (rf_handler f) c" "pins s = b(c := Suc (b c))" "rf_pool f" "rf_file_id f = fid"
      using 2 by (auto simp: rf_on_def)
    have cp: "c \<noteq> p" using rf_on_view [OF 2] t(5) by auto
    have h: "holds t (rf_handler f) c" using o(1) t(7) by (simp add: holds_def)
    obtain h' t' where u: "rph_deinit ops (rf_handler f, t) = Some (Inr (), (h', t'))" "ready t'" "same t t'"
      "\<not> ph_pool h'" "pins t' = (pins t)(c := pins t c - 1)"
      "\<And>h' q. held t h' q \<Longrightarrow> q \<noteq> c \<or> 1 < pins t c \<Longrightarrow> held t' h' q"
      by (rule rph_deinit_ready [OF t(1) h]) blast
    have "pins t' = b(p := 1)" using u(5) t(3) o(2) cp by auto
    moreover have "b p = 0" using t(6) o(2) cp by simp
    ultimately show ?thesis
      by (intro that [of "f\<lparr>rf_handler := h'\<rparr>" t']) (use u o t(4) cp in \<open>auto simp: run\<close>)
  qed
qed

lemma rph_init_empty_page_run:
  assumes "ready s" "\<not> ph_pool h" "view s p = Some d" "card {q. 0 < pins s q} < cap s" "pins s p + 1 < 2 ^ 32"
    "8 < rs" "rs \<le> 4056"
  obtains h' s' d' where "rph_init_empty_page ops fid p rs (h, s) = Some (Inr (), (h', s'))" "ready s'" "holds s' h' p"
    "init_empty rs d = Some d'" "page_ok d'" "page_map d' = Map.empty" "record_num d' = 0" "record_real_size d' = rs"
    "view s' = (view s)(p \<mapsto> d')" "cap s' = cap s" "count s' = count s" "pins s' = (pins s)(p := Suc (pins s p))"
    "\<And>h' q. held s h' q \<Longrightarrow> held s' h' q"
proof -
  have "rec_good d" using view_good [of s p d] assms(1,3) by (simp add: ready_def)
  then obtain d' where d': "init_empty rs d = Some d'" "page_ok d'" "page_map d' = Map.empty" "record_num d' = 0"
      "record_real_size d' = rs"
    by (auto intro: init_empty_spec [OF assms(6,7), of d] simp: rec_good_def)
  obtain h1 s1 where i: "rph_init ops fid p (h, s) = Some (Inr (), (h1, s1))" "ready s1" "same s s1"
    "holds s1 h1 p" "pins s1 = (pins s)(p := Suc (pins s p))" "\<And>h' q. held s h' q \<Longrightarrow> held s1 h' q"
    by (rule rph_init_ready [OF assms(1-5)]) blast
  have "view s1 p = Some d" using i(3) assms(3) by (simp add: same_def)
  then have r: "rph_page ops (h1, s1) = Some (Inr d, (h1, s1))" by (rule holds_reads [OF i(2,4)])
  obtain s2 where w: "bindE (rph_store ops d') (\<lambda>_. ignoring (rph_mark_dirty ops)) (h1, s1) = Some (Inr (), (h1, s2))"
    "ready s2" "view s2 = (view s1)(p \<mapsto> d')" "cap s2 = cap s1" "count s2 = count s1" "pins s2 = pins s1" "held s2 = held s1"
    by (rule rph_store_ready [OF i(2,4) page_ok_good [OF d'(2)]]) blast
  have "rph_init_empty_page ops fid p rs (h, s) = Some (Inr (), (h1, s2))"
    using i(1) r d'(1) w(1) by (simp add: rph_init_empty_page_def run)
  then show ?thesis by (rule that) (use i w d' in \<open>auto simp: same_def holds_def\<close>)
qed

lemma new_page_run:
  assumes o: "rf_idle b f s" and room: "count s < limit" and rs: "8 < rs" "rs \<le> 4056"
  obtains f' s' p d where "new_page ops fid rs (f, s) = Some (Inr (), (f', s'))" "rf_on b f' s' p"
    "0 < p" "view s p = None" "view s' = (view s)(p \<mapsto> d)" "page_ok d" "page_map d = Map.empty"
    "record_num d = 0" "record_real_size d = rs" "cap s' = cap s" "p \<le> count s" "count s' = max (count s) (p + 1)"
proof -
  have s: "ready s" "space b s" "card {q. 0 < pins s q} < cap s"
    using o spaceD(1,4) [of b s] by (auto simp: rf_idle_def rf_on_def rf_off_def)
  obtain ph p d0 s1 where a: "op_allocate_page ops fid s = Some (Inr ph, s1)" "ready s1" "0 < p" "view s p = None"
    "pins s p = 0" "view s1 = (view s)(p \<mapsto> d0)" "pins s1 = (pins s)(p := 1)" "held s1 ph p" "cap s1 = cap s"
    "p \<le> count s" "count s1 = max (count s) (p + 1)" "\<And>h' q. held s h' q \<Longrightarrow> held s1 h' q" "rec_good d0"
    by (rule alloc_ready [OF s(1) room s(3)]) blast
  obtain f1 s2 where u: "on_handler (rph_deinit ops) (f, s1) = Some (Inr (), (f1, s2))" "ready s2" "same s1 s2"
    "rf_pool f1" "rf_file_id f1 = fid" "\<not> ph_pool (rf_handler f1)" "pins s2 = b(p := 1)" "b p = 0" "held s2 ph p"
    by (rule deinit_beside [OF o a(2,6,7,8,4,5,12)]) blast+
  have sp: "space b s2" using s(2) u(3) a(9) by (auto simp: same_def intro: space_same)
  have v2: "view s2 p = Some d0" "cap s2 = cap s" using u(3) a(6,9) by (simp_all add: same_def)
  have c2: "card {q. 0 < pins s2 q} < cap s2" "pins s2 p + 1 < 2 ^ 32"
    using spaceD(4) [OF sp, of p] u(7,8) by simp_all
  obtain h3 s3 d where i: "rph_init_empty_page ops fid p rs (rf_handler f1, s2) = Some (Inr (), (h3, s3))" "ready s3"
    "holds s3 h3 p" "page_ok d" "page_map d = Map.empty" "record_num d = 0" "record_real_size d = rs"
    "view s3 = (view s2)(p \<mapsto> d)" "cap s3 = cap s2" "count s3 = count s2" "pins s3 = (pins s2)(p := Suc (pins s2 p))"
    "\<And>h' q. held s2 h' q \<Longrightarrow> held s3 h' q"
    by (rule rph_init_empty_page_run [OF u(2,6) v2(1) c2 rs]) blast
  obtain s4 where w: "op_unpin_page ops ph s3 = Some (Inr (ph\<lparr>is_open := False\<rparr>), s4)" "ready s4" "same s3 s4"
    "pins s4 = (pins s3)(p := pins s3 p - 1)" "\<And>h' q. held s3 h' q \<Longrightarrow> q \<noteq> p \<or> 1 < pins s3 p \<Longrightarrow> held s4 h' q"
    by (rule unpin_ready [OF i(2) i(12) [OF u(9)]]) blast
  have n: "op_peek_num ops ph s1 = Some (Inr p, s1)" using held_reads(4) [OF a(2,8), of d0] a(6) by simp
  have "new_page ops fid rs (f, s) = Some (Inr (), (f1\<lparr>rf_handler := h3\<rparr>, s4))"
    using a(1) n u(1) i(1) w(1) by (simp add: new_page_def run)
  moreover have "rf_on b (f1\<lparr>rf_handler := h3\<rparr>) s4 p"
    using u i w sp by (auto simp: rf_on_def holds_def same_def intro: space_same)
  ultimately show ?thesis
    by (rule that) (use a u i w in \<open>auto simp: same_def\<close>)
qed

lemma start_page_run:
  assumes o: "rf_idle b f s" and v: "dense (view s) (count s)"
  obtains cur f' s' where "start_page ops fid (count s) (f, s) = Some (Inr cur, (f', s'))" "same s s'"
    "(\<exists>c. rf_on b f' s' c) \<or> rf_off b f' s' \<and> count s < 2 \<and> cur = 0"
proof -
  consider "rf_off b f s" "count s < 2" | "rf_off b f s" "2 \<le> count s" | c where "rf_on b f s c"
    using o not_less [of "count s" 2] unfolding rf_idle_def by blast
  then show ?thesis
  proof cases
    case 1
    then have "start_page ops fid (count s) (f, s) = Some (Inr 0, (f, s))"
      by (simp add: start_page_def rf_off_def rph_get_page_num_def run)
    then show ?thesis by (rule that) (use 1 in simp_all)
  next
    case 2
    then have "view s 1 \<noteq> None" using v by (simp add: dense_def)
    then obtain d where d: "view s 1 = Some d" by blast
    have r: "ready s" "\<not> ph_pool (rf_handler f)" "pins s = b" "space b s" "ph_header (rf_handler f) = None"
      using 2 by (auto simp: rf_off_def)
    obtain h' s' where i: "rph_init ops fid 1 (rf_handler f, s) = Some (Inr (), (h', s'))" "ready s'" "same s s'"
      "holds s' h' 1" "pins s' = (pins s)(1 := Suc (pins s 1))"
      by (rule rph_init_ready [OF r(1,2) d]) (use spaceD(1,2) [OF r(4)] r(3) in auto)
    have "rph_get_page_num ops (h', s') = Some (Inr 1, (h', s'))"
      using holds_reads(2) [OF i(2,4), of d] i(3) d by (simp add: same_def)
    then have "start_page ops fid (count s) (f, s) = Some (Inr 1, (f\<lparr>rf_handler := h'\<rparr>, s'))"
      using 2 r(5) i(1) by (simp add: start_page_def rph_get_page_num_def run)
    moreover have "rf_on b (f\<lparr>rf_handler := h'\<rparr>) s' 1"
      using 2 i r by (auto simp: rf_on_def rf_off_def same_def intro: space_same)
    ultimately show ?thesis using that i(3) by blast
  next
    case 3
    obtain d where d: "view s c = Some d" using rf_on_view [OF 3] by blast
    have r: "ready s" "holds s (rf_handler f) c" using 3 by (auto simp: rf_on_def)
    have "0 < c" using view_range [of s c] d r(1) by (simp add: ready_def)
    then have "start_page ops fid (count s) (f, s) = Some (Inr c, (f, s))"
      using holds_reads(2) [OF r d] by (simp add: start_page_def run)
    then show ?thesis by (rule that) (use 3 in auto)
  qed
qed

lemma provide_page_run:
  assumes o: "rf_idle b f s" and v: "dense (view s) (count s)" "pages_ok rs (view s)"
    and room: "count s < limit" and rs: "8 < rs" "rs \<le> 4056"
  obtains f' s' c d where "provide_page ops rs (f, s) = Some (Inr (), (f', s'))" "rf_on b f' s' c"
    "view s' c = Some d" "\<not> page_is_full d" "dense (view s') (count s')" "pages_ok rs (view s')"
    "file_map (view s') = file_map (view s)" "cap s' = cap s"
proof -
  have f: "rf_pool f" "rf_file_id f = fid" "ready s" using o by (auto simp: rf_idle_def rf_on_def rf_off_def)
  then have cnt: "op_get_page_count ops fid s = Some (Inr (count s), s)" using count_ok by (simp add: ready_def)
  obtain cur f1 s1 where st: "start_page ops fid (count s) (f, s) = Some (Inr cur, (f1, s1))" "same s s1"
    "(\<exists>c. rf_on b f1 s1 c) \<or> rf_off b f1 s1 \<and> count s < 2 \<and> cur = 0"
    by (rule start_page_run [OF o v(1)]) blast
  have s1: "view s1 = view s" "count s1 = count s" "cap s1 = cap s" using st(2) by (simp_all add: same_def)
  obtain found f2 s2 where sr: "search_page ops fid (count s) (nat (count s)) 0 cur (f1, s1) = Some (Inr found, (f2, s2))"
    "rf_idle b f2 s2" "same s1 s2" "found \<Longrightarrow> \<exists>c d. rf_on b f2 s2 c \<and> view s c = Some d \<and> \<not> page_is_full d"
  proof (cases "\<exists>c. rf_on b f1 s1 c")
    case True
    then obtain c where c: "rf_on b f1 s1 c" by blast
    then have "0 < c \<and> c < count s1" using rf_on_view [OF c] view_range [of s1 c] by (auto simp: rf_on_def ready_def)
    then have n: "0 < count s" using s1 by simp
    have dv: "view s1 p \<noteq> None" if "0 < p" "p < count s" for p using v(1) that s1(1) by (simp add: dense_def)
    obtain found f2 s2 c2 where r: "search_page ops fid (count s) (nat (count s)) 0 cur (f1, s1) = Some (Inr found, (f2, s2))"
      "rf_on b f2 s2 c2" "same s1 s2" "found \<longrightarrow> (\<exists>d. view s1 c2 = Some d \<and> \<not> page_is_full d)"
      using search_page_run [OF c dv n, of "nat (count s)" 0 cur] by blast
    show ?thesis by (rule that [OF r(1)]) (use r s1(1) in \<open>auto simp: rf_idle_def\<close>)
  next
    case False
    then have off: "rf_off b f1 s1" "count s < 2" "cur = 0" using st(3) by auto
    have "search_page ops fid (count s) (nat (count s)) 0 0 (f1, s1) = Some (Inr False, (f1, s1))"
    proof (cases "count s = 1")
      case True
      then show ?thesis by (simp add: run numeral_eq_Suc)
    next
      case False
      then have "nat (count s) = 0" using off(2) by simp
      then show ?thesis by (simp add: run)
    qed
    then show ?thesis using that [of False f1 s1] off by (simp add: rf_idle_def)
  qed
  have s2: "view s2 = view s" "count s2 = count s" "cap s2 = cap s" using sr(3) s1 by (simp_all add: same_def)
  show ?thesis
  proof (cases found)
    case True
    then obtain c d where c: "rf_on b f2 s2 c" "view s c = Some d" "\<not> page_is_full d" using sr(4) by blast
    have "provide_page ops rs (f, s) = Some (Inr (), (f2, s2))"
      using f cnt st(1) sr(1) True by (simp add: provide_page_def run)
    then show ?thesis by (rule that) (use c s2 v in auto)
  next
    case False
    obtain f3 s3 p d where n: "new_page ops fid rs (f2, s2) = Some (Inr (), (f3, s3))" "rf_on b f3 s3 p"
      "0 < p" "view s2 p = None" "view s3 = (view s2)(p \<mapsto> d)" "page_ok d" "page_map d = Map.empty"
      "record_num d = 0" "record_real_size d = rs" "cap s3 = cap s2" "p \<le> count s2" "count s3 = max (count s2) (p + 1)"
      by (rule new_page_run [OF sr(2) _ rs]) (use room s2 in auto)
    have "provide_page ops rs (f, s) = Some (Inr (), (f3, s3))"
      using f cnt st(1) sr(1) False n(1) by (simp add: provide_page_def run)
    moreover have "file_map (view s3) = file_map (view s)"
      using n(4,5,7) s2(1) by (auto simp: fun_eq_iff file_map_def)
    moreover have "p = count s"
      using n(3,4,11) v(1) s2 unfolding dense_def by (metis order_le_less)
    then have "dense (view s3) (count s3)"
      using v(1) n(5,12) s2 by (auto simp: dense_def)
    moreover have "\<not> page_is_full d"
      using n(6,8) by (simp add: page_is_full_def page_ok_def layout_ok_def)
    ultimately show ?thesis
      by (intro that [of f3 s3 p d]) (use n s2 v in \<open>auto simp: pages_ok_def\<close>)
  qed
qed

lemma rph_insert_record_run:
  assumes h: "ready s" "holds s h c" "view s c = Some d" and d: "page_ok d" "\<not> page_is_full d"
    "record_real_size d \<le> int (length src)"
  obtains i d' s' where "rph_insert_record ops src 0 (h, s) = Some (Inr \<lparr>rid_page = c, rid_slot = int i\<rparr>, (h, s'))"
    "ready s'" "holds s' h c" "view s' = (view s)(c \<mapsto> d')" "cap s' = cap s" "count s' = count s" "pins s' = pins s"
    "page_ok d'" "record_real_size d' = record_real_size d" "page_map d i = None" "page_map d' = (page_map d)(i \<mapsto> take (nat (record_real_size d)) src)"
proof -
  have less: "record_num d < record_capacity d" using d(2) by (simp add: page_is_full_def)
  obtain i d' where p: "page_insert src 0 d = Some (Inr (int i), d')" "page_map d i = None" "page_ok d'"
    "page_map d' = (page_map d)(i \<mapsto> take (nat (record_real_size d)) src)"
    "record_real_size d' = record_real_size d"
    by (rule page_insert_spec [OF d(1) less d(3)])
  obtain s1 where w: "bindE (rph_store ops d') (\<lambda>_. ignoring (rph_mark_dirty ops)) (h, s) = Some (Inr (), (h, s1))"
    "ready s1" "view s1 = (view s)(c \<mapsto> d')" "cap s1 = cap s" "count s1 = count s" "pins s1 = pins s" "held s1 = held s"
    by (rule rph_store_ready [OF h(1,2) page_ok_good [OF p(3)]]) blast
  have h1: "holds s1 h c" using h(2) w(7) by (simp add: holds_def)
  have n: "rph_get_page_num ops (h, s1) = Some (Inr c, (h, s1))"
    using holds_reads(2) [OF w(2) h1] w(3) by simp
  have "rph_insert_record ops src 0 (h, s) = Some (Inr \<lparr>rid_page = c, rid_slot = int i\<rparr>, (h, s1))"
    using holds_reads(1) [OF h] p(1) w(1) n
    by (auto simp: rph_insert_record_def run bindE_def split: option.splits sum.splits)
  then show ?thesis by (rule that) (use w h1 p in auto)
qed

lemma rf_insert_record_run:
  assumes o: "rf_idle b f s" and v: "dense (view s) (count s)" "pages_ok rs (view s)"
    and room: "count s < limit" and rs: "8 < rs" "rs \<le> 4056" and src: "rs \<le> int (length src)"
  obtains c i f' s' where
    "rf_insert_record ops src rs (f, s) = Some (Inr (Some \<lparr>rid_page = c, rid_slot = int i\<rparr>), (f', s'))"
    "rf_idle b f' s'" "dense (view s') (count s')" "pages_ok rs (view s')" "file_map (view s) c i = None"
    "file_map (view s') = (file_map (view s))(c := (file_map (view s) c)(i \<mapsto> take (nat rs) src))" "cap s' = cap s"
proof -
  obtain f1 s1 c d where p: "provide_page ops rs (f, s) = Some (Inr (), (f1, s1))" "rf_on b f1 s1 c"
    "view s1 c = Some d" "\<not> page_is_full d" "dense (view s1) (count s1)" "pages_ok rs (view s1)"
    "file_map (view s1) = file_map (view s)" "cap s1 = cap s"
    by (rule provide_page_run [OF o v room rs])
  have h: "ready s1" "holds s1 (rf_handler f1) c" using p(2) by (auto simp: rf_on_def)
  have d: "page_ok d" "record_real_size d \<le> int (length src)" "record_real_size d = rs" using p(3,6) src by (auto simp: pages_ok_def)
  obtain i d' s2 where n: "rph_insert_record ops src 0 (rf_handler f1, s1) =
      Some (Inr \<lparr>rid_page = c, rid_slot = int i\<rparr>, (rf_handler f1, s2))"
    "ready s2" "holds s2 (rf_handler f1) c" "view s2 = (view s1)(c \<mapsto> d')" "cap s2 = cap s1" "count s2 = count s1"
    "pins s2 = pins s1" "page_ok d'" "record_real_size d' = record_real_size d" "page_map d i = None"
    "page_map d' = (page_map d)(i \<mapsto> take (nat rs) src)"
    unfolding d(3) [symmetric] by (rule rph_insert_record_run [OF h p(3) d(1) p(4) d(2)])
  have fs: "fixed_size = 4056"
    by (simp add: fixed_size_def page_fix_size_def BP_PAGE_DATA_SIZE_def BP_PAGE_SIZE_def)
  have "rf_insert_record ops src rs (f, s) =
      Some (Inr (Some \<lparr>rid_page = c, rid_slot = int i\<rparr>), (f1\<lparr>rf_handler := rf_handler f1\<rparr>, s2))"
    using p(1) n(1) rs by (simp add: rf_insert_record_def insert_chunks.simps run fs)
  moreover have fm: "file_map (view s) c = page_map d"
    using p(3,7) by (simp add: file_map_def fun_eq_iff) (metis option.simps(5))
  then have "file_map (view s2) = (file_map (view s))(c := (file_map (view s) c)(i \<mapsto> take (nat rs) src))"
    using p(7) n(4,11) by (simp add: file_map_upd)
  moreover have "rf_idle b f1 s2"
    using p(2) n by (auto simp: rf_idle_def rf_on_def intro: space_same)
  moreover have "dense (view s2) (count s2)" "pages_ok rs (view s2)"
    using p(3,5,6) n(4,6,8,9) by (auto simp: dense_def pages_ok_def)
  ultimately show ?thesis using that n(5,10) p(8) fm by simp
qed

text \<open>The pages the search loop looks at, in order.\<close>

lemma search_page_full:
  assumes "0 < pc"
  shows "rf_on b f s c0 \<Longrightarrow> (\<And>c. c \<in> set (probes pc n i cur) \<Longrightarrow> c \<noteq> 0 \<Longrightarrow> \<exists>d. view s c = Some d \<and> page_is_full d) \<Longrightarrow>
    \<exists>f' s' c. search_page ops fid pc n i cur (f, s) = Some (Inr False, (f', s')) \<and> rf_on b f' s' c \<and> same s s'"
proof (induction n arbitrary: f s i cur c0)
  case 0
  then show ?case by (auto simp: run)
next
  case (Suc n)
  define c where "c = (cur + i) mod pc"
  have rest: "\<exists>d. view s x = Some d \<and> page_is_full d" if "x \<in> set (probes pc n (i + 1) c)" "x \<noteq> 0" for x
    using Suc.prems(2) [of x] that by (simp add: c_def Let_def)
  show ?case
  proof (cases "c = 0")
    case True
    then show ?thesis using Suc.IH [OF Suc.prems(1), of "i + 1" c] rest by (simp add: c_def [symmetric])
  next
    case False
    then obtain d where d: "view s c = Some d" "page_is_full d"
      using Suc.prems(2) [of c] by (auto simp: c_def Let_def)
    obtain f1 s1 where m: "move_to_page ops fid c (f, s) = Some (Inr (), (f1, s1))" "rf_on b f1 s1 c" "same s s1"
      by (rule move_to_page_run [OF Suc.prems(1) d(1)]) blast
    have v1: "view s1 = view s" using m(3) by (simp add: same_def)
    have "on_handler (rph_is_full ops) (f1, s1) = Some (Inr (page_is_full d), (f1, s1))"
      using holds_reads(3) [of s1 "rf_handler f1" c d] m(2) d v1 by (simp add: rf_on_def run)
    then have step: "search_page ops fid pc (Suc n) i cur (f, s) = search_page ops fid pc n (i + 1) c (f1, s1)"
      using False m(1) d(2) by (simp add: c_def [symmetric] Let_def run)
    show ?thesis
      unfolding step using Suc.IH [OF m(2), of "i + 1" c] rest v1 m(3) by (auto simp: same_def)
  qed
qed

lemma rf_insert_page_1_freed:
  assumes "rf_off b f s" "2 \<le> count s" "view s 1 = None" "0 < res"
  shows "rf_insert_record ops src res (f, s) = Some (Inl BUFFERPOOL_INVALID_PAGE_NUM, (f, s))"
proof -
  have r: "ready s" "\<not> ph_pool (rf_handler f)" "ph_header (rf_handler f) = None" "rf_pool f" "rf_file_id f = fid"
    using assms(1) by (auto simp: rf_off_def)
  have c: "op_get_page_count ops fid s = Some (Inr (count s), s)" using count_ok r(1) by (simp add: ready_def)
  have "start_page ops fid (count s) (f, s) = Some (Inl BUFFERPOOL_INVALID_PAGE_NUM, (f, s))"
    using assms(2) r(3) rph_init_absent [OF r(1,2) assms(3)]
    by (simp add: start_page_def rph_get_page_num_def run)
  then show ?thesis
    using r c assms(4) by (simp add: rf_insert_record_def insert_chunks.simps provide_page_def run)
qed

end

end
