(* ===== verification/Record_Scan.thy ===== *)
theory Record_Scan
  imports Record_File
begin

text \<open>
  The scan of a record file: \<^verbatim>\<open>get_next_record\<close> of the scanner returns the next record that
  the filter accepts, in the order of pages and slots, and at the end a result code that depends on
  whether the last page of the file is in use.
\<close>

section \<open>The records of a file, in order\<close>

definition page_records :: "int \<Rightarrow> rec_page \<Rightarrow> nat \<Rightarrow> (RID \<times> byte list) list" where
  "page_records p pg k = map (\<lambda>i. (\<lparr>rid_page = p, rid_slot = int i\<rparr>, the (page_map pg i))) (slots_from pg k)"

definition pages_from :: "(int \<Rightarrow> rec_page option) \<Rightarrow> int \<Rightarrow> int \<Rightarrow> (RID \<times> byte list) list" where
  "pages_from v p n = concat (map (\<lambda>q. case v q of None \<Rightarrow> [] | Some pg \<Rightarrow> page_records q pg 0) [p..n - 1])"

text \<open>The records behind a record identifier.\<close>

definition records_after :: "(int \<Rightarrow> rec_page option) \<Rightarrow> int \<Rightarrow> RID \<Rightarrow> (RID \<times> byte list) list" where
  "records_after v n rid =
    (case v (rid_page rid) of None \<Rightarrow> [] | Some pg \<Rightarrow> page_records (rid_page rid) pg (nat (rid_slot rid + 1))) @
    pages_from v (rid_page rid + 1) n"

text \<open>An identifier a scan can stand on: before the first slot of a page, or on a used slot.\<close>

definition scan_pos :: "(int \<Rightarrow> rec_page option) \<Rightarrow> RID \<Rightarrow> bool" where
  "scan_pos v rid \<longleftrightarrow> 0 < rid_page rid \<and> (rid_slot rid = - 1 \<or>
     (\<exists>pg. v (rid_page rid) = Some pg \<and> 0 \<le> rid_slot rid \<and> rid_slot rid < record_capacity pg \<and>
       bit_at (body pg) (nat (rid_slot rid))))"

text \<open>What is left to do, as an upper bound on the rounds of the loop.\<close>

definition scan_left :: "int \<Rightarrow> RID \<Rightarrow> nat" where
  "scan_left n rid = nat (n - rid_page rid) * 32768 - nat (rid_slot rid + 1)"

definition scan_end :: "(int \<Rightarrow> rec_page option) \<Rightarrow> int \<Rightarrow> RC" where
  "scan_end v n = (if v (n - 1) = None then BUFFERPOOL_INVALID_PAGE_NUM else RECORD_EOF)"

lemma layout_capacity:
  assumes "layout_ok pg"
  shows "record_capacity pg < 32768"
proof -
  have r: "0 < record_real_size pg" "record_real_size pg \<le> record_size pg" "0 < record_capacity pg"
    "page_fix_size + page_bitmap_size (record_capacity pg) \<le> first_record_offset pg"
    "first_record_offset pg + record_capacity pg * record_size pg \<le> int BP_PAGE_DATA_SIZE"
    using assms by (auto simp: layout_ok_def)
  have "0 \<le> page_bitmap_size (record_capacity pg)" using r(3) by (simp add: page_bitmap_size_def)
  moreover have "record_capacity pg * 1 \<le> record_capacity pg * record_size pg"
    using r by (intro mult_left_mono) auto
  ultimately show ?thesis
    using r(4,5) by (simp add: BP_PAGE_DATA_SIZE_def BP_PAGE_SIZE_def page_fix_size_def)
qed

lemma records_next_page:
  "records_after v n \<lparr>rid_page = p, rid_slot = - 1\<rparr> = pages_from v p n" if "p < n"
proof -
  have "[p..n - 1] = p # [p + 1..n - 1]" using that by (simp add: upto_rec1)
  then show ?thesis by (simp add: records_after_def pages_from_def split: option.split)
qed

lemma pages_from_end: "n \<le> p \<Longrightarrow> pages_from v p n = []"
  by (simp add: pages_from_def)

lemma page_records_cons:
  assumes "slots_from pg k = i # is"
  shows "page_records p pg k = (\<lparr>rid_page = p, rid_slot = int i\<rparr>, the (page_map pg i)) # page_records p pg (Suc i)"
  using assms slots_from_cons(4) [OF assms] by (simp add: page_records_def)

lemma scan_pos_slot:
  assumes "scan_pos v rid" "v (rid_page rid) = Some pg"
  shows "rid_slot rid = - 1 \<or> 0 \<le> rid_slot rid \<and> rid_slot rid < record_capacity pg \<and> bit_at (body pg) (nat (rid_slot rid))"
  using assms by (auto simp: scan_pos_def)

lemma scan_left_next:
  assumes "scan_pos v rid" "pages_ok rs v" "rid_page rid < n"
  shows "scan_left n \<lparr>rid_page = rid_page rid + 1, rid_slot = - 1\<rparr> < scan_left n rid"
proof -
  have "rid_slot rid + 1 < 32768"
    using assms(1,2) layout_capacity by (fastforce simp: scan_pos_def pages_ok_def page_ok_def)
  moreover have "nat (n - rid_page rid) = Suc (nat (n - (rid_page rid + 1)))" using assms(3) by simp
  ultimately show ?thesis by (simp add: scan_left_def)
qed

lemma scan_left_slot:
  assumes "pages_ok rs v" "v (rid_page rid) = Some pg" "rid_page rid < n" "- 1 \<le> rid_slot rid"
    "nat (rid_slot rid + 1) \<le> i" "int i < record_capacity pg"
  shows "scan_left n \<lparr>rid_page = rid_page rid, rid_slot = int i\<rparr> < scan_left n rid"
proof -
  have "int i < 32768" using assms(1,2,6) layout_capacity [of pg] by (fastforce simp: pages_ok_def page_ok_def)
  moreover have "1 \<le> nat (n - rid_page rid)" using assms(3) by simp
  then have "32768 \<le> nat (n - rid_page rid) * 32768" by simp
  moreover have "nat (int i + 1) = Suc i" by simp
  ultimately show ?thesis using assms(4,5) by (simp add: scan_left_def)
qed

section \<open>The scanner over the pool\<close>

context record_pool
begin

text \<open>The scanner between two calls and inside the loop: its page handler holds a page, has never
  been used, or has given up page \<^verbatim>\<open>c\<close> and still points into its frame.\<close>

definition sc_on :: "(int \<Rightarrow> nat) \<Rightarrow> scanner \<Rightarrow> 's \<Rightarrow> int \<Rightarrow> bool" where
  "sc_on b f s c \<longleftrightarrow> sc_pool f \<and> sc_file_id f = fid \<and> ready s \<and> space b s \<and> holds s (sc_handler f) c \<and>
     pins s = b(c := Suc (b c))"

definition sc_free :: "(int \<Rightarrow> nat) \<Rightarrow> scanner \<Rightarrow> 's \<Rightarrow> int \<Rightarrow> bool" where
  "sc_free b f s c \<longleftrightarrow> sc_pool f \<and> sc_file_id f = fid \<and> ready s \<and> space b s \<and> \<not> ph_pool (sc_handler f) \<and>
     pins s = b \<and> rph_get_page_num ops (sc_handler f, s) = Some (Inr c, (sc_handler f, s))"

lemma sc_on_view: "sc_on b f s c \<Longrightarrow> \<exists>d. view s c = Some d"
  using holds_view by (auto simp: sc_on_def)

lemma sc_num:
  assumes "sc_on b f s c \<or> sc_free b f s c"
  shows "on_scan (rph_get_page_num ops) (f, s) = Some (Inr c, (f, s))"
proof -
  have "rph_get_page_num ops (sc_handler f, s) = Some (Inr c, (sc_handler f, s))"
    using assms holds_reads(2) [of s "sc_handler f" c] sc_on_view [of b f s c]
    by (auto simp: sc_on_def sc_free_def)
  then show ?thesis by (simp add: run)
qed

lemma sc_deinit:
  assumes "sc_on b f s c \<or> sc_free b f s c"
  obtains f' s' where "on_scan (rph_deinit ops) (f, s) = Some (Inr (), (f', s'))" "sc_free b f' s' c" "same s s'"
    "sc_filter f' = sc_filter f"
proof (cases "sc_free b f s c")
  case True
  then have "on_scan (rph_deinit ops) (f, s) = Some (Inr (), (f, s))"
    by (simp add: sc_free_def rph_deinit_def run)
  then show ?thesis by (rule that) (use True in simp_all)
next
  case False
  then have o: "sc_on b f s c" using assms by blast
  then have h: "held s (ph_handle (sc_handler f)) c" and r: "ready s" "holds s (sc_handler f) c"
    by (auto simp: sc_on_def holds_def)
  let ?p = "ph_handle (sc_handler f)"
  obtain s' where u: "op_unpin_page ops ?p s = Some (Inr (?p\<lparr>is_open := False\<rparr>), s')" "ok s'" "view s' = view s"
      "pins s' = (pins s)(c := pins s c - 1)" "cap s' = cap s" "count s' = count s"
      "\<forall>q. stable s q \<longrightarrow> stable s' q" "op_peek_num ops (?p\<lparr>is_open := False\<rparr>) s' = Some (Inr c, s')"
    using unpin_ok [of s ?p c] r(1) h by (auto simp: ready_def)
  let ?h = "(sc_handler f)\<lparr>ph_handle := ?p\<lparr>is_open := False\<rparr>, ph_pool := False\<rparr>"
  have "on_scan (rph_deinit ops) (f, s) = Some (Inr (), (f\<lparr>sc_handler := ?h\<rparr>, s'))"
    using u(1) r(2) by (simp add: rph_deinit_def holds_def run)
  then show ?thesis
    by (rule that)
      (use o r u in \<open>auto simp: sc_on_def sc_free_def ready_def same_def holds_def rph_get_page_num_def run intro: space_same\<close>)
qed

lemma sc_move:
  assumes o: "sc_on b f s c0 \<or> sc_free b f s c0" and p: "0 < p" "c0 < p \<or> sc_on b f s p"
  shows "(\<exists>d f' s'. view s p = Some d \<and> sc_on b f' s' p \<and> same s s' \<and> sc_filter f' = sc_filter f \<and>
      sc_enter_page ops p (f, s) = Some (Inr (), (f', s'))) \<or>
    (\<exists>f' s'. view s p = None \<and> sc_free b f' s' c0 \<and> same s s' \<and> sc_filter f' = sc_filter f \<and>
      sc_enter_page ops p (f, s) = Some (Inl BUFFERPOOL_INVALID_PAGE_NUM, (f', s')))"
proof (cases "p = c0")
  case True
  then have o: "sc_on b f s p" using p(2) by auto
  then have "sc_enter_page ops p (f, s) = Some (Inr (), (f, s))"
    using sc_num [of b f s p] by (simp add: sc_enter_page_def run)
  then show ?thesis using o sc_on_view [OF o] by auto
next
  case False
  note num = sc_num [OF o]
  obtain f1 s1 where u: "on_scan (rph_deinit ops) (f, s) = Some (Inr (), (f1, s1))" "sc_free b f1 s1 c0" "same s s1"
    "sc_filter f1 = sc_filter f"
    by (rule sc_deinit [OF o])
  have r1: "ready s1" "\<not> ph_pool (sc_handler f1)" "pins s1 = b" "space b s1" "sc_file_id f1 = fid"
    using u(2) by (auto simp: sc_free_def)
  have v1: "view s1 = view s" using u(3) by (simp add: same_def)
  show ?thesis
  proof (cases "view s p")
    case None
    then have "on_scan (rph_init ops fid p) (f1, s1) = Some (Inl BUFFERPOOL_INVALID_PAGE_NUM, (f1, s1))"
      using rph_init_absent [OF r1(1,2) _ p(1)] v1 by (simp add: run)
    then have "sc_enter_page ops p (f, s) = Some (Inl BUFFERPOOL_INVALID_PAGE_NUM, (f1, s1))"
      using False num u(1) r1(5) by (simp add: sc_enter_page_def run)
    then show ?thesis using None u by blast
  next
    case (Some d)
    obtain h2 s2 where i: "rph_init ops fid p (sc_handler f1, s1) = Some (Inr (), (h2, s2))" "ready s2" "same s1 s2"
      "holds s2 h2 p" "pins s2 = (pins s1)(p := Suc (pins s1 p))"
      by (rule rph_init_ready [OF r1(1,2), of p d]) (use Some v1 spaceD(1,2) [OF r1(4)] r1(3) in auto)
    have "sc_enter_page ops p (f, s) = Some (Inr (), (f1\<lparr>sc_handler := h2\<rparr>, s2))"
      using False num u(1) r1(5) i(1) by (simp add: sc_enter_page_def run)
    moreover have "sc_on b (f1\<lparr>sc_handler := h2\<rparr>) s2 p"
      using u(2) i r1 by (auto simp: sc_on_def sc_free_def same_def intro: space_same)
    ultimately show ?thesis
      using Some same_trans [OF u(3) i(3)] u(4)
      by (intro disjI1 exI [of _ d] exI [of _ "f1\<lparr>sc_handler := h2\<rparr>"] exI [of _ s2]) simp
  qed
qed

text \<open>What a call returns: the first record of a list, or the code at the end of the file.\<close>

definition scan_result :: "(int \<Rightarrow> nat) \<Rightarrow> scanner \<Rightarrow> 's \<Rightarrow> RC \<Rightarrow> (RID \<times> byte list) list \<Rightarrow>
    ((RC + RID \<times> byte list option) \<times> scanner \<times> 's) option \<Rightarrow> bool" where
  "scan_result b f s rc xs out \<longleftrightarrow> (\<exists>f' s'. same s s' \<and> sc_filter f' = sc_filter f \<and> (case xs of
      [] \<Rightarrow> out = Some (Inl rc, (f', s')) \<and> (\<exists>c. sc_on b f' s' c \<or> sc_free b f' s' c)
    | (rid, d) # _ \<Rightarrow> out = Some (Inr (rid, Some d), (f', s')) \<and> sc_on b f' s' (rid_page rid)))"

lemma scan_result_trans:
  assumes "scan_result b f1 s1 rc xs out" "same s s1" "sc_filter f1 = sc_filter f"
  shows "scan_result b f s rc xs out"
  using assms by (cases xs) (force simp: scan_result_def same_def)+

lemma get_next_run:
  assumes o: "sc_on b f s p" and d: "view s p = Some d" "layout_ok d" and p: "rid_page rid = p" "scan_pos (view s) rid"
  shows "on_scan (rph_get_next_record ops rid) (f, s) = Some (case slots_from d (nat (rid_slot rid + 1)) of
      [] \<Rightarrow> Inl RECORD_EOF
    | i # _ \<Rightarrow> Inr (\<lparr>rid_page = p, rid_slot = int i\<rparr>, the (page_map d i)), (f, s))"
proof -
  have r: "ready s" "holds s (sc_handler f) p" using o by (auto simp: sc_on_def)
  have "rid_slot rid = - 1 \<or> 0 \<le> rid_slot rid \<and> rid_slot rid < record_capacity d \<and> bit_at (body d) (nat (rid_slot rid))"
    using scan_pos_slot [OF p(2)] d(1) p(1) by simp
  note n = page_next_spec [OF d(2) this]
  show ?thesis
    using holds_reads(1,2) [OF r d(1)] n
    by (cases "slots_from d (nat (rid_slot rid + 1))") (simp_all add: rph_get_next_record_def run)
qed

lemma scan_loop_run:
  assumes "pages_ok rs v"
  shows "sc_on b f s c0 \<or> sc_free b f s c0 \<Longrightarrow> view s = v \<Longrightarrow> scan_pos v rid \<Longrightarrow>
    c0 < rid_page rid \<or> sc_on b f s (rid_page rid) \<Longrightarrow> scan_left pc rid < n \<Longrightarrow>
    rid_page rid < pc \<or> rid_page rid = pc \<and> so_far = Inl (scan_end v pc) \<Longrightarrow>
    scan_result b f s (scan_end v pc)
      (filter (\<lambda>(r, d). sc_accepts (sc_filter f) r d) (if rid_page rid < pc then records_after v pc rid else []))
      (scan_loop ops pc n so_far rid (f, s))"
proof (induction n arbitrary: f s c0 rid so_far)
  case 0
  then show ?case by simp
next
  case (Suc n)
  let ?acc = "\<lambda>(r, d). sc_accepts (sc_filter f) r d"
  let ?nx = "\<lparr>rid_page = rid_page rid + 1, rid_slot = - 1\<rparr>"
  show ?case
  proof (cases "rid_page rid < pc")
    case False
    then show ?thesis using Suc.prems(1,6) unfolding scan_result_def by (auto simp: run intro!: exI [of _ f] exI [of _ s])
  next
    case True
    have p0: "0 < rid_page rid" using Suc.prems(3) by (simp add: scan_pos_def)
    have left: "scan_left pc ?nx < n" using scan_left_next [OF Suc.prems(3) assms True] Suc.prems(5) by simp
    have nx: "scan_pos v ?nx" using p0 by (simp add: scan_pos_def)
    have rest: "(if rid_page ?nx < pc then records_after v pc ?nx else []) = pages_from v (rid_page rid + 1) pc"
      using records_next_page [of "rid_page rid + 1" pc v] by (simp add: pages_from_end)
    have edge: "rid_page ?nx < pc \<or> rid_page ?nx = pc \<and> so = Inl (scan_end v pc)"
      if "rid_page rid + 1 = pc \<Longrightarrow> so = Inl (scan_end v pc)" for so :: "RC + unit"
      using True that by auto
    show ?thesis
      using sc_move [OF Suc.prems(1) p0 Suc.prems(4)]
    proof (elim disjE exE conjE)
      fix f1 s1
      assume a: "view s (rid_page rid) = None" "sc_free b f1 s1 c0" "same s s1" "sc_filter f1 = sc_filter f"
        "sc_enter_page ops (rid_page rid) (f, s) = Some (Inl BUFFERPOOL_INVALID_PAGE_NUM, (f1, s1))"
      have v1: "view s1 = v" using a(3) Suc.prems(2) by (simp add: same_def)
      have e: "Inl BUFFERPOOL_INVALID_PAGE_NUM = Inl (scan_end v pc)" if "rid_page rid + 1 = pc"
        using that a(1) Suc.prems(2) by (auto simp: scan_end_def)
      have c0: "c0 < rid_page ?nx" using Suc.prems(4) sc_on_view [of b f s "rid_page rid"] a(1) by auto
      have "scan_loop ops pc (Suc n) so_far rid (f, s) =
          scan_loop ops pc n (Inl BUFFERPOOL_INVALID_PAGE_NUM) ?nx (f1, s1)"
        using True a(5) by (simp add: run)
      moreover have "records_after v pc rid = pages_from v (rid_page rid + 1) pc"
        using a(1) Suc.prems(2) by (simp add: records_after_def)
      moreover have "scan_result b f1 s1 (scan_end v pc) (filter ?acc (pages_from v (rid_page rid + 1) pc))
          (scan_loop ops pc n (Inl BUFFERPOOL_INVALID_PAGE_NUM) ?nx (f1, s1))"
        using Suc.IH [OF disjI2 [OF a(2)] v1 nx disjI1 [OF c0] left edge [OF e]] unfolding rest a(4) .
      ultimately show ?thesis using scan_result_trans [OF _ a(3,4)] True by simp
    next
      fix d f1 s1
      assume a: "view s (rid_page rid) = Some d" "sc_on b f1 s1 (rid_page rid)" "same s s1" "sc_filter f1 = sc_filter f"
        "sc_enter_page ops (rid_page rid) (f, s) = Some (Inr (), (f1, s1))"
      have v1: "view s1 = v" "v (rid_page rid) = Some d" using a(1,3) Suc.prems(2) by (auto simp: same_def)
      have l: "layout_ok d" using assms v1(2) by (auto simp: pages_ok_def page_ok_def)
      note g = get_next_run [OF a(2) _ l refl, unfolded v1(1), OF v1(2) Suc.prems(3)]
      have e: "Inl RECORD_EOF = Inl (scan_end v pc)" if "rid_page rid + 1 = pc"
        using that v1(2) by (auto simp: scan_end_def)
      have c1: "rid_page rid < rid_page ?nx" by simp
      show ?thesis
      proof (cases "slots_from d (nat (rid_slot rid + 1))")
        case Nil
        have "scan_loop ops pc (Suc n) so_far rid (f, s) = scan_loop ops pc n (Inl RECORD_EOF) ?nx (f1, s1)"
          using True a(5) g Nil by (simp add: run)
        moreover have "records_after v pc rid = pages_from v (rid_page rid + 1) pc"
          using v1(2) Nil by (simp add: records_after_def page_records_def)
        moreover have "scan_result b f1 s1 (scan_end v pc) (filter ?acc (pages_from v (rid_page rid + 1) pc))
            (scan_loop ops pc n (Inl RECORD_EOF) ?nx (f1, s1))"
          using Suc.IH [OF disjI1 [OF a(2)] v1(1) nx disjI1 [OF c1] left edge [OF e]] unfolding rest a(4) .
        ultimately show ?thesis using scan_result_trans [OF _ a(3,4)] True by simp
      next
        case (Cons i "is")
        let ?r = "\<lparr>rid_page = rid_page rid, rid_slot = int i\<rparr>"
        note c = slots_from_cons [OF Cons]
        have recs: "records_after v pc rid = (?r, the (page_map d i)) # records_after v pc ?r"
          using v1(2) page_records_cons [OF Cons] by (simp add: records_after_def nat_add_distrib)
        have step: "scan_loop ops pc (Suc n) so_far rid (f, s) =
            (if ?acc (?r, the (page_map d i)) then Some (Inr (?r, Some (the (page_map d i))), (f1, s1))
             else scan_loop ops pc n (Inr ()) ?r (f1, s1))"
          using True a(4,5) g Cons by (simp add: run)
        show ?thesis
        proof (cases "?acc (?r, the (page_map d i))")
          case True
          then show ?thesis
            using step recs a \<open>rid_page rid < pc\<close> unfolding scan_result_def by (auto intro!: exI [of _ f1] exI [of _ s1])
        next
          case False
          have pos: "scan_pos v ?r"
            using p0 v1(2) c(2,3) by (auto simp: scan_pos_def page_map_def split: if_splits)
          have sl: "- 1 \<le> rid_slot rid" using Suc.prems(3) by (auto simp: scan_pos_def)
          have "scan_left pc ?r < n"
            using scan_left_slot [OF assms v1(2) True sl c(1,2)] Suc.prems(5) by simp
          then have "scan_result b f1 s1 (scan_end v pc) (filter ?acc (records_after v pc ?r))
              (scan_loop ops pc n (Inr ()) ?r (f1, s1))"
            using Suc.IH [OF disjI1 [OF a(2)] v1(1) pos] a(2,4) True by simp
          then show ?thesis using scan_result_trans [OF _ a(3,4)] step recs False True by simp
        qed
      qed
    qed
  qed
qed

lemma sc_get_next_run:
  assumes v: "pages_ok rs (view s)" "scan_pos (view s) rid" "rid_page rid < count s" "1 < count s"
    and o: "sc_on b f s (rid_page rid) \<or> sc_free b f s c0 \<and> c0 < rid_page rid"
  shows "scan_result b f s (scan_end (view s) (count s))
    (filter (\<lambda>(r, d). sc_accepts (sc_filter f) r d) (records_after (view s) (count s) rid))
    (sc_get_next_record ops rid (f, s))"
proof -
  have f: "sc_pool f" "sc_file_id f = fid" "ready s" using o by (auto simp: sc_on_def sc_free_def)
  then have cnt: "op_get_page_count ops fid s = Some (Inr (count s), s)" using count_ok by (simp add: ready_def)
  have left: "scan_left (count s) rid < Suc (nat (count s - rid_page rid) * 32768)" by (simp add: scan_left_def)
  obtain c where c: "sc_on b f s c \<or> sc_free b f s c" "c < rid_page rid \<or> sc_on b f s (rid_page rid)"
    using o by auto
  have "sc_get_next_record ops rid (f, s) =
      scan_loop ops (count s) (Suc (nat (count s - rid_page rid) * 32768)) (Inr ()) rid (f, s)"
    using f cnt v(4) by (simp add: sc_get_next_record_def run del: scan_loop.simps)
  then show ?thesis
    using scan_loop_run [OF v(1) c(1) refl v(2) c(2) left disjI1 [OF v(3)], of "Inr ()"] v(3) by simp
qed

end

text \<open>A client that asks for records until it gets a result code other than success.\<close>

fun scan_all :: "('s, rec_page) pool_ops \<Rightarrow> nat \<Rightarrow> RID \<Rightarrow> (scanner \<times> 's, (RID \<times> byte list option) list \<times> RC) M" where
  "scan_all ops 0 rid = undef"
| "scan_all ops (Suc n) rid = attempt (sc_get_next_record ops rid) (\<lambda>r. case r of
      Inl rc \<Rightarrow> ret ([], rc)
    | Inr (rid', d) \<Rightarrow> bindE (scan_all ops n rid') (\<lambda>(xs, rc). ret ((rid', d) # xs, rc)))"

lemma page_records_rest:
  assumes "slots_from pg k = as @ i # bs"
  shows "slots_from pg (Suc i) = bs" "int i < record_capacity pg" "page_map pg i \<noteq> None"
  using assms
proof (induction "as" arbitrary: k)
  case Nil
  case 1 then show ?case using slots_from_cons by simp
  case 2 then show ?case using slots_from_cons by simp
  case 3 then show ?case using slots_from_cons by simp
next
  case (Cons a "as")
  case 1 then show ?case using Cons.IH(1) slots_from_cons(4) [of pg k a "as @ i # bs"] by simp
  case 2 then show ?case using Cons.IH(2) slots_from_cons(4) [of pg k a "as @ i # bs"] by simp
  case 3 then show ?case using Cons.IH(3) slots_from_cons(4) [of pg k a "as @ i # bs"] by simp
qed

text \<open>The records behind a record are the rest of the list.\<close>

lemma pages_from_split:
  assumes "pages_from v p n = xs @ (r, d) # ys" "0 < p"
  shows "records_after v n r = ys \<and> scan_pos v r \<and> p \<le> rid_page r \<and> rid_page r < n"
  using assms
proof (induction "nat (n - p)" arbitrary: p xs)
  case 0
  then show ?case by (simp add: pages_from_end)
next
  case (Suc k)
  have pn: "p < n" "[p..n - 1] = p # [p + 1..n - 1]" using Suc.hyps(2) by (simp_all add: upto_rec1)
  let ?here = "case v p of None \<Rightarrow> [] | Some pg \<Rightarrow> page_records p pg 0"
  have split: "?here @ pages_from v (p + 1) n = xs @ (r, d) # ys"
    using Suc.prems(1) pn(2) by (simp add: pages_from_def)
  have k: "k = nat (n - (p + 1))" "0 < p + 1" using Suc.hyps(2) Suc.prems(2) by simp_all
  consider zs where "xs = ?here @ zs" "pages_from v (p + 1) n = zs @ (r, d) # ys"
    | zs where "?here = xs @ (r, d) # zs" "ys = zs @ pages_from v (p + 1) n"
    using split by (auto simp: append_eq_append_conv2 append_eq_Cons_conv)
  then show ?case
  proof cases
    case 1
    then show ?thesis using Suc.hyps(1) [OF k(1) 1(2) k(2)] by simp
  next
    case 2
    then obtain pg where pg: "v p = Some pg" "page_records p pg 0 = xs @ (r, d) # zs" by (auto split: option.splits)
    then obtain as i bs where i: "slots_from pg 0 = as @ i # bs" "r = \<lparr>rid_page = p, rid_slot = int i\<rparr>"
        "zs = map (\<lambda>i. (\<lparr>rid_page = p, rid_slot = int i\<rparr>, the (page_map pg i))) bs"
      by (auto simp: page_records_def map_eq_append_conv map_eq_Cons_conv)
    note c = page_records_rest [OF i(1)]
    have "nat (int i + 1) = Suc i" by simp
    then have "records_after v n r = ys"
      using pg(1) i 2(2) c(1) by (simp add: records_after_def page_records_def)
    moreover have "bit_at (body pg) i" using c(3) by (simp add: page_map_def split: if_splits)
    then have "scan_pos v r" using pg(1) i(2) c(2) Suc.prems(2) by (simp add: scan_pos_def)
    ultimately show ?thesis using i(2) pn(1) by simp
  qed
qed

lemma records_after_split:
  assumes "records_after v n rid = xs @ (r, d) # ys" "rid_page rid < n" "0 < rid_page rid"
  shows "records_after v n r = ys \<and> scan_pos v r \<and> rid_page rid \<le> rid_page r \<and> rid_page r < n"
proof -
  let ?p = "rid_page rid"
  let ?here = "case v ?p of None \<Rightarrow> [] | Some pg \<Rightarrow> page_records ?p pg (nat (rid_slot rid + 1))"
  consider zs where "xs = ?here @ zs" "pages_from v (?p + 1) n = zs @ (r, d) # ys"
    | zs where "?here = xs @ (r, d) # zs" "ys = zs @ pages_from v (?p + 1) n"
    using assms(1) by (auto simp: records_after_def append_eq_append_conv2 append_eq_Cons_conv)
  then show ?thesis
  proof cases
    case 1
    then show ?thesis using pages_from_split [OF 1(2)] assms(3) by simp
  next
    case 2
    then obtain pg where pg: "v ?p = Some pg" "page_records ?p pg (nat (rid_slot rid + 1)) = xs @ (r, d) # zs"
      by (auto split: option.splits)
    then obtain as i bs where i: "slots_from pg (nat (rid_slot rid + 1)) = as @ i # bs" "r = \<lparr>rid_page = ?p, rid_slot = int i\<rparr>"
        "zs = map (\<lambda>i. (\<lparr>rid_page = ?p, rid_slot = int i\<rparr>, the (page_map pg i))) bs"
      by (auto simp: page_records_def map_eq_append_conv map_eq_Cons_conv)
    note c = page_records_rest [OF i(1)]
    have "nat (int i + 1) = Suc i" by simp
    then have "records_after v n r = ys"
      using pg(1) i 2(2) c(1) by (simp add: records_after_def page_records_def)
    moreover have "bit_at (body pg) i" using c(3) by (simp add: page_map_def split: if_splits)
    then have "scan_pos v r" using pg(1) i(2) c(2) assms(3) by (simp add: scan_pos_def)
    ultimately show ?thesis using i(2) assms(2) by simp
  qed
qed

context record_pool
begin

lemma scan_all_run:
  assumes "pages_ok rs v" "1 < pc"
  shows "sc_on b f s (rid_page rid) \<or> sc_free b f s c0 \<and> c0 < rid_page rid \<Longrightarrow> view s = v \<Longrightarrow> count s = pc \<Longrightarrow>
    scan_pos v rid \<Longrightarrow> rid_page rid < pc \<Longrightarrow>
    length (filter (\<lambda>(r, d). sc_accepts (sc_filter f) r d) (records_after v pc rid)) < n \<Longrightarrow>
    \<exists>f' s'. same s s' \<and> scan_all ops n rid (f, s) = Some (Inr (map (\<lambda>(r, d). (r, Some d))
      (filter (\<lambda>(r, d). sc_accepts (sc_filter f) r d) (records_after v pc rid)), scan_end v pc), (f', s'))"
proof (induction n arbitrary: f s rid c0)
  case (Suc n)
  let ?acc = "\<lambda>(r, d). sc_accepts (sc_filter f) r d"
  have g: "scan_result b f s (scan_end v pc) (filter ?acc (records_after v pc rid)) (sc_get_next_record ops rid (f, s))"
    using sc_get_next_run [OF _ _ _ _ Suc.prems(1)] assms Suc.prems(2-5) by simp
  show ?case
  proof (cases "filter ?acc (records_after v pc rid)")
    case Nil
    then show ?thesis using g by (auto simp: scan_result_def run)
  next
    case (Cons x ys)
    obtain r d where x: "x = (r, d)" by fastforce
    obtain f' s' where o: "same s s'" "sc_filter f' = sc_filter f" "sc_on b f' s' (rid_page r)"
        "sc_get_next_record ops rid (f, s) = Some (Inr (r, Some d), (f', s'))"
      using g Cons x by (auto simp: scan_result_def)
    obtain us vs where split: "records_after v pc rid = us @ (r, d) # vs" "ys = filter ?acc vs"
      using Cons x by (auto simp: filter_eq_Cons_iff)
    have r0: "0 < rid_page rid" using Suc.prems(4) by (simp add: scan_pos_def)
    note rest = records_after_split [OF split(1) Suc.prems(5) r0]
    have v': "view s' = v" "count s' = pc" using o(1) Suc.prems(2,3) by (auto simp: same_def)
    have "length (filter (\<lambda>(r, d). sc_accepts (sc_filter f') r d) (records_after v pc r)) < n"
      using Suc.prems(6) Cons split(2) rest o(2) by simp
    then obtain f2 s2 where "same s' s2" "scan_all ops n r (f', s') = Some (Inr (map (\<lambda>(r, d). (r, Some d)) ys,
        scan_end v pc), (f2, s2))"
      using Suc.IH [OF disjI1 [OF o(3)] v'] rest split(2) o(2) by auto
    then show ?thesis using o(4) Cons x same_trans [OF o(1)] by (auto simp: run)
  qed
qed simp

end

end
