(* ===== verification/Pool_Fresh.thy ===== *)
theory Pool_Fresh
  imports Pool_Interface
begin

text \<open>
  Concrete pools to start runs of the clients from: one file has been opened, its header page is
  pinned in frame 0, \<^verbatim>\<open>n\<close> more frames are free, and the file on disk holds the pages
  \<^verbatim>\<open>xs\<close>, of which those marked in the bitmap are in use. \<^verbatim>\<open>fresh_pool\<close> is the pool
  beside a file that \<^verbatim>\<open>create_file\<close> has just made.
\<close>

definition blank_frame :: "'d \<Rightarrow> 'd Frame" where
  "blank_frame z = \<lparr>dirty = False, pin_count = 0, file_desc = 0, page = \<lparr>page_num = 0, data = Payload z\<rparr>, allocated = False\<rparr>"

definition hdr_page :: "BPFileSubHeader \<Rightarrow> byte list \<Rightarrow> 'd Page" where
  "hdr_page h bm = \<lparr>page_num = 0, data = HdrData h bm\<rparr>"

definition data_pages :: "'d list \<Rightarrow> 'd Page list" where
  "data_pages xs = map (\<lambda>i. \<lparr>page_num = int (Suc i), data = Payload (xs ! i)\<rparr>) [0..<length xs]"

definition built_pool :: "nat \<Rightarrow> BPFileSubHeader \<Rightarrow> byte list \<Rightarrow> 'd list \<Rightarrow> 'd \<Rightarrow> 'd pool" where
  "built_pool n h bm xs z =
    \<lparr>frames = \<lparr>dirty = False, pin_count = 1, file_desc = 3, page = hdr_page h bm, allocated = True\<rparr> #
       replicate n (blank_frame z),
     frame_list = [0..<Suc n], list_map = [bp_key 3 0 \<mapsto> 0],
     open_list = [0 \<mapsto> \<lparr>bopen = True, file_name = ''t'', fh_file_desc = 3, hdr_frame = 0\<rparr>],
     os = \<lparr>files = [''t'' \<mapsto> hdr_page h bm # data_pages xs], fds = [3 \<mapsto> (''t'', 1)], pick_fd = (\<lambda>_. 4),
       sys_fail = (\<lambda>_. False)\<rparr>,
     zero_data = z\<rparr>"

lemma nth_data_pages: "i < length xs \<Longrightarrow> data_pages xs ! i = \<lparr>page_num = int (Suc i), data = Payload (xs ! i)\<rparr>"
  "length (data_pages xs) = length xs"
  by (simp_all add: data_pages_def)

lemma built_disk: "disk_page (built_pool n h bm xs z) fd p = (if fd = 3 \<and> p = 0 then Some (hdr_page h bm)
    else if fd = 3 \<and> 0 < p \<and> p \<le> int (length xs) then Some \<lparr>page_num = p, data = Payload (xs ! (nat p - 1))\<rparr> else None)"
  by (auto simp: os_page_def built_pool_def nth_data_pages nth_Cons' nat_less_iff)

lemma built_length: "file_length (built_pool n h bm xs z) fd = (if fd = 3 then Suc (length xs) else 0)"
  by (simp add: os_length_def built_pool_def nth_data_pages)

lemma built_frame:
  "i \<le> n \<Longrightarrow> frame_of (built_pool n h bm xs z) i = (if i = 0
     then \<lparr>dirty = False, pin_count = 1, file_desc = 3, page = hdr_page h bm, allocated = True\<rparr> else blank_frame z)"
  "length (frames (built_pool n h bm xs z)) = Suc n"
  by (auto simp: built_pool_def nth_Cons split: nat.split)

lemma built_fd: "file_fd (built_pool n h bm xs z) 0 = 3" "open_list (built_pool n h bm xs z) 0 \<noteq> None"
  by (simp_all add: file_fd_def built_pool_def)

lemma built_file_hdr: "file_hdr (built_pool n h bm xs z) 0 = Some (h, bm)"
  by (simp add: file_hdr_def built_pool_def hdr_page_def)

lemma built_absent: "0 < p \<Longrightarrow> p < int max_pages \<Longrightarrow> list_map (built_pool n h bm xs z) (bp_key 3 p) = None"
proof -
  assume p: "0 < p" "p < int max_pages"
  then have "bp_key 3 p \<noteq> bp_key 3 0"
    using bp_key_inj [of 3 p 3 0] by (auto simp: key_range_def max_pages_def BP_PAGE_DATA_SIZE_def BP_PAGE_SIZE_def BP_FILE_SUB_HDR_SIZE_def)
  then show ?thesis by (simp add: built_pool_def)
qed

lemma built_pool_ok:
  assumes "hdr_wf h bm (Suc (length xs))"
  shows "pool_ok (built_pool n h bm xs z)"
proof (rule pool_okI)
  let ?s = "built_pool n h bm xs z"
  have len: "Suc (length xs) \<le> max_pages" using assms by (simp add: hdr_wf_def)
  show "os_ok (os ?s)" by (auto simp: os_ok_def built_pool_def split: if_splits)
  show "lru_ok ?s" by (auto simp: lru_ok_def built_pool_def)
  have k: "list_map ?s = [bp_key 3 0 \<mapsto> 0]" by (simp add: built_pool_def)
  show "map_ok ?s"
    unfolding map_ok_def k built_frame(2)
    by (auto simp: less_Suc_eq_le built_frame(1) hdr_page_def blank_frame_def split: if_splits)
  show "disk_ok ?s"
    unfolding disk_ok_def built_disk using len
    by (auto simp: key_range_def hdr_page_def max_pages_def BP_PAGE_DATA_SIZE_def BP_PAGE_SIZE_def
        BP_FILE_SUB_HDR_SIZE_def split: if_splits)
  show "frame_ok ?s (frame_of ?s i)" if "i < length (frames ?s)" for i
    using that unfolding frame_ok_def built_disk built_frame(2)
    by (auto simp: less_Suc_eq_le built_frame(1) hdr_page_def blank_frame_def)
  show "file_ok ?s fh" if "open_list ?s fid = Some fh" for fid fh
  proof -
    have fh: "fh = \<lparr>bopen = True, file_name = ''t'', fh_file_desc = 3, hdr_frame = 0\<rparr>"
      using that by (simp add: built_pool_def split: if_splits)
    show ?thesis
      unfolding file_ok_def fh BPFileHandle.select_convs built_length built_frame(2)
      using assms by (simp add: built_frame(1) hdr_page_def)
  qed
qed

lemma built_contract:
  assumes "hdr_wf h bm (Suc (length xs))"
  shows "contract_ok 0 (built_pool n h bm xs z)"
proof -
  let ?s = "built_pool n h bm xs z"
  have "\<not> (allocated (frame_of ?s i) \<and> file_desc (frame_of ?s i) = 3 \<and> page_num (page (frame_of ?s i)) \<noteq> 0)"
    if "i < length (frames ?s)" for i
    using that by (auto simp: built_frame less_Suc_eq_le hdr_page_def blank_frame_def)
  moreover have "a = b" if "open_list ?s a = Some fa" "open_list ?s b = Some fb" for a b fa fb
    using that by (simp add: built_pool_def split: if_splits)
  ultimately show ?thesis
    unfolding contract_ok_def built_fd(1) using built_pool_ok [OF assms] built_fd(2) [of n h bm xs z]
    by (auto simp: MAX_OPEN_FILE_def)
qed

lemma built_client:
  assumes "hdr_wf h bm (Suc (length xs))" "good z" "\<forall>x \<in> set xs. good x"
  shows "client_ok good 0 (built_pool n h bm xs z)"
proof -
  have "page_good good (page (frame_of (built_pool n h bm xs z) i))" if "i < Suc n" for i
    using that assms(2) by (auto simp: built_frame less_Suc_eq_le page_good_def hdr_page_def blank_frame_def)
  moreover have "page_good good pg" if "pg \<in> set (hdr_page h bm # data_pages xs)" for pg
    using that assms(3) by (auto simp: page_good_def hdr_page_def data_pages_def)
  ultimately show ?thesis
    unfolding client_ok_def stored_ok_def using built_contract [OF assms(1)] assms(2)
    by (auto simp: built_frame(2)) (auto simp: built_pool_def split: if_splits)
qed

lemma built_view:
  assumes "hdr_wf h bm (Suc (length xs))"
  shows "file_view (built_pool n h bm xs z) 0 = (\<lambda>p. if 0 < p \<and> p \<le> int (length xs) \<and> bit_at bm (nat p)
      then Some (xs ! (nat p - 1)) else None)"
    "file_pins (built_pool n h bm xs z) 0 = (\<lambda>_. 0)" "file_count (built_pool n h bm xs z) 0 = int (Suc (length xs))"
    "file_stable (built_pool n h bm xs z) 0 q"
proof -
  let ?s = "built_pool n h bm xs z"
  have w: "page_count h = int (Suc (length xs))" "Suc (length xs) \<le> max_pages" using assms by (auto simp: hdr_wf_def)
  have v: "file_valid ?s 0 p \<longleftrightarrow> 0 < p \<and> p \<le> int (length xs) \<and> bit_at bm (nat p)" for p
    by (auto simp: file_valid_def built_file_hdr w(1))
  have absent: "list_map ?s (bp_key 3 p) = None" if "file_valid ?s 0 p" for p
    using that w(2) by (intro built_absent) (auto simp: v)
  show "file_view ?s 0 = (\<lambda>p. if 0 < p \<and> p \<le> int (length xs) \<and> bit_at bm (nat p) then Some (xs ! (nat p - 1)) else None)"
  proof (rule ext)
    show "file_view ?s 0 p = (if 0 < p \<and> p \<le> int (length xs) \<and> bit_at bm (nat p) then Some (xs ! (nat p - 1)) else None)" for p
      using absent [of p] by (auto simp: file_view_def v pview_def built_fd built_disk)
  qed
  show "file_pins ?s 0 = (\<lambda>_. 0)" "file_stable ?s 0 q"
    using absent by (auto simp: fun_eq_iff file_pins_def file_stable_def built_fd)
  show "file_count ?s 0 = int (Suc (length xs))" by (simp add: file_count_def built_file_hdr w(1))
qed

lemma built_cap: "file_cap (built_pool n h bm xs z) 0 = n"
proof -
  have "file_frames (built_pool n h bm xs z) 0 = {1..n}"
    unfolding file_frames_def built_fd built_frame(2)
    by (auto simp: less_Suc_eq_le built_frame(1) hdr_page_def blank_frame_def Suc_le_eq split: if_splits)
  then show ?thesis by (simp add: file_cap_def)
qed

section \<open>Headers with at most eight pages\<close>

text \<open>The pages in use are the bits of the first byte of the bitmap.\<close>

definition byte_map :: "byte \<Rightarrow> byte list" where
  "byte_map w = w # replicate (BP_PAGE_DATA_SIZE - BP_FILE_SUB_HDR_SIZE - 1) 0"

lemma bit_at_byte_map: "i < max_pages \<Longrightarrow> bit_at (byte_map w) i \<longleftrightarrow> bit w i"
proof -
  assume i: "i < max_pages"
  have "bit w i = False" if "8 \<le> i" using that bit_imp_le_length [of w i] by auto
  moreover have "byte_map w ! (i div 8) = (if i div 8 = 0 then w else 0)"
    using i by (simp add: byte_map_def max_pages_def nth_Cons BP_PAGE_DATA_SIZE_def BP_PAGE_SIZE_def
        BP_FILE_SUB_HDR_SIZE_def split: nat.split)
  ultimately show ?thesis by (cases "i < 8") (simp_all add: bit_at_def div_eq_0_iff)
qed

lemma byte_map_wf:
  assumes "bit w 0" "n \<le> 8" "0 < n"
  shows "hdr_wf \<lparr>page_count = int n, allocated_pages = int (card {i. i < n \<and> bit w i})\<rparr> (byte_map w) n"
proof -
  have m: "8 \<le> max_pages" by (simp add: max_pages_def BP_PAGE_DATA_SIZE_def BP_PAGE_SIZE_def BP_FILE_SUB_HDR_SIZE_def)
  have "{i. i < n \<and> bit_at (byte_map w) i} = {i. i < n \<and> bit w i}"
    using assms(2) m by (auto simp: bit_at_byte_map)
  then have "bm.used (byte_map w) n = card {i. i < n \<and> bit w i}" by (simp add: bm.used_def)
  moreover have "length (byte_map w) = BP_PAGE_DATA_SIZE - BP_FILE_SUB_HDR_SIZE"
    by (simp add: byte_map_def BP_PAGE_DATA_SIZE_def BP_PAGE_SIZE_def BP_FILE_SUB_HDR_SIZE_def)
  ultimately show ?thesis
    using assms m bit_at_byte_map [of 0 w] by (simp add: hdr_wf_def)
qed

definition fresh_pool :: "nat \<Rightarrow> 'd \<Rightarrow> 'd pool" where
  "fresh_pool n z = built_pool n \<lparr>page_count = 1, allocated_pages = 1\<rparr> (byte_map 1) [] z"

lemma fresh_wf: "hdr_wf \<lparr>page_count = 1, allocated_pages = 1\<rparr> (byte_map 1) (Suc (length []))"
  using byte_map_wf [of 1 1] by (simp add: bit_1_iff conj_commute)

lemma fresh_header: "hdr_page \<lparr>page_count = 1, allocated_pages = 1\<rparr> (byte_map 1) = init_header_page"
  by (simp add: hdr_page_def byte_map_def init_header_page_def)

lemma fresh_pool_view [simp]:
  "file_view (fresh_pool n z) 0 = Map.empty" "file_pins (fresh_pool n z) 0 = (\<lambda>_. 0)" "file_count (fresh_pool n z) 0 = 1"
  "file_stable (fresh_pool n z) 0 q" "file_cap (fresh_pool n z) 0 = n"
  using built_view [OF fresh_wf, of n z] built_cap by (auto simp: fresh_pool_def fun_eq_iff)

lemma fresh_client: "good z \<Longrightarrow> client_ok good 0 (fresh_pool n z)"
  unfolding fresh_pool_def using built_client [OF fresh_wf] by simp

end
