(* ===== verification/Record_Properties.thy ===== *)
theory Record_Properties
  imports Record_Scan Pool_Fresh
begin

text \<open>
  The record manager on the buffer pool: the facts of \<^verbatim>\<open>record_pool\<close> for the pool's own
  operations, and runs from a newly created file that show their hypotheses can hold.
\<close>

interpretation dbr: record_pool bp_ops fid "client_ok rec_good fid" "\<lambda>s. file_view s fid" "\<lambda>s. file_pins s fid"
  "\<lambda>s. file_held s fid" "\<lambda>s. file_stable s fid" "\<lambda>s. file_cap s fid" "\<lambda>s. file_count s fid" "int max_pages"
  for fid :: int
  by (rule record_pool.intro) (rule dbp.page_pool_axioms)

section \<open>A record file at rest\<close>

text \<open>Every change is on disk or marked dirty, and the pages that others have pinned (\<^verbatim>\<open>b\<close>)
  leave two frames.\<close>

definition pool_ready :: "(int \<Rightarrow> nat) \<Rightarrow> int \<Rightarrow> rec_page pool \<Rightarrow> bool" where
  "pool_ready b fid s \<longleftrightarrow> client_ok rec_good fid s \<and> (\<forall>q. file_stable s fid q) \<and> finite {q. 0 < b q} \<and>
     card {q. 0 < b q} + 2 \<le> file_cap s fid \<and> (\<forall>q. b q + 2 < 2 ^ 32)"

text \<open>The file handler is open and its page handler is unused, or holds one page of the file.\<close>

definition rec_file_ok :: "(int \<Rightarrow> nat) \<Rightarrow> int \<Rightarrow> rec_file \<Rightarrow> rec_page pool \<Rightarrow> bool" where
  "rec_file_ok b fid f s \<longleftrightarrow> pool_ready b fid s \<and> rf_pool f \<and> rf_file_id f = fid \<and>
     (\<not> ph_pool (rf_handler f) \<and> ph_header (rf_handler f) = None \<and> file_pins s fid = b \<or>
      (\<exists>c. ph_pool (rf_handler f) \<and> ph_file_id (rf_handler f) = fid \<and>
         ph_header (rf_handler f) = Some (ph_handle (rf_handler f)) \<and>
         file_held s fid (ph_handle (rf_handler f)) c \<and> file_pins s fid = b(c := Suc (b c))))"

lemma rec_file_ok_idle: "rec_file_ok b fid f s = dbr.rf_idle fid b f s"
  by (auto simp: rec_file_ok_def pool_ready_def dbr.rf_idle_def dbr.rf_on_def dbr.rf_off_def dbr.ready_def
      dbr.space_def dbr.holds_def)

text \<open>A file in which records of \<^verbatim>\<open>rs\<close> bytes can be inserted.\<close>

definition rec_table_ok :: "int \<Rightarrow> int \<Rightarrow> rec_page pool \<Rightarrow> bool" where
  "rec_table_ok rs fid s \<longleftrightarrow> dense (file_view s fid) (file_count s fid) \<and> pages_ok rs (file_view s fid)"

definition zero_rec_page :: rec_page where
  "zero_rec_page = \<lparr>record_num = 0, record_capacity = 0, record_real_size = 0, record_size = 0, first_record_offset = 0,
     body = replicate (BP_PAGE_DATA_SIZE - 20) 0\<rparr>"

definition new_rec_pool :: "rec_page pool" where
  "new_rec_pool = fresh_pool 4 zero_rec_page"

definition opened_file :: rec_file where
  "opened_file = rf_new\<lparr>rf_pool := True, rf_file_id := 0\<rparr>"

lemma zero_rec_good: "rec_good zero_rec_page"
  by (simp add: rec_good_def zero_rec_page_def BP_PAGE_DATA_SIZE_def BP_PAGE_SIZE_def page_fix_size_def)

lemma new_rec_pool_ok:
  "rec_file_ok (\<lambda>_. 0) 0 opened_file new_rec_pool" "rec_table_ok rs 0 new_rec_pool"
proof -
  show "rec_file_ok (\<lambda>_. 0) 0 opened_file new_rec_pool"
    using fresh_client [of rec_good zero_rec_page 4] zero_rec_good
    by (simp add: rec_file_ok_def pool_ready_def opened_file_def rf_new_def rph_new_def new_rec_pool_def fun_eq_iff)
  show "rec_table_ok rs 0 new_rec_pool"
    by (simp add: rec_table_ok_def new_rec_pool_def dense_def pages_ok_def)
qed

section \<open>Properties\<close>

lemma insert_then_get:
  assumes "rec_file_ok b fid f s" "rec_table_ok rs fid s" "file_count s fid < int max_pages"
    and "8 < rs" "rs \<le> 4056" "rs \<le> int (length src)"
  shows "\<exists>c i f' s' s''. rf_insert_record bp_ops src rs (f, s) = Some (Inr (Some \<lparr>rid_page = c, rid_slot = int i\<rparr>), (f', s')) \<and>
    file_map (file_view s fid) c i = None \<and>
    file_map (file_view s' fid) = (file_map (file_view s fid))(c := (file_map (file_view s fid) c)(i \<mapsto> take (nat rs) src)) \<and>
    rec_file_ok b fid f' s' \<and> rec_table_ok rs fid s' \<and> file_cap s' fid = file_cap s fid \<and>
    rf_get_record bp_ops \<lparr>rid_page = c, rid_slot = int i\<rparr> (f', s') = Some (Inr (Some (take (nat rs) src)), (f', s''))"
proof -
  obtain c i f' s' where ins:
    "rf_insert_record bp_ops src rs (f, s) = Some (Inr (Some \<lparr>rid_page = c, rid_slot = int i\<rparr>), (f', s'))"
    "dbr.rf_idle fid b f' s'" "dense (file_view s' fid) (file_count s' fid)" "pages_ok rs (file_view s' fid)"
    "file_map (file_view s fid) c i = None"
    "file_map (file_view s' fid) = (file_map (file_view s fid))(c := (file_map (file_view s fid) c)(i \<mapsto> take (nat rs) src))" "file_cap s' fid = file_cap s fid"
    by (rule dbr.rf_insert_record_run [OF assms(1) [unfolded rec_file_ok_idle]])
      (use assms in \<open>auto simp: rec_table_ok_def\<close>)
  have m: "file_map (file_view s' fid) c i = Some (take (nat rs) src)" using ins(6) by simp
  then obtain d where d: "file_view s' fid c = Some d" "page_map d i = Some (take (nat rs) src)"
    by (auto simp: file_map_def split: option.splits)
  have "page_ok d" using ins(4) d(1) by (auto simp: pages_ok_def)
  then have l: "layout_ok d" "int i < record_capacity d"
    using d(2) by (auto simp: page_ok_def page_map_def split: if_splits)
  have sp: "dbr.ready fid s'" "dbr.space fid b s'" "rf_pool f'" "rf_file_id f' = fid"
    "file_pins s' fid = b \<or> (\<exists>e. file_pins s' fid = b(e := Suc (b e)))"
    using ins(2) by (auto simp: dbr.rf_idle_def dbr.rf_on_def dbr.rf_off_def)
  then have "card {q. 0 < file_pins s' fid q} < file_cap s' fid" "file_pins s' fid c + 1 < 2 ^ 32"
    using dbr.spaceD [OF sp(2)] by auto
  then obtain s'' where "rf_get_record bp_ops \<lparr>rid_page = c, rid_slot = int i\<rparr> (f', s') = Some (Inr (Some (take (nat rs) src)), (f', s''))"
    using dbr.rf_get_record_run [OF sp(1) d(1) _ _ l sp(3,4)] d(2) by auto
  then show ?thesis using ins by (auto simp: rec_file_ok_idle rec_table_ok_def)
qed

text \<open>C2. Inserting a record and reading it back: in a record file whose pages are all in use and
  well formed, \<^verbatim>\<open>insert_record\<close> succeeds for a record of the table's size, the identifier it
  returns was free, \<^verbatim>\<open>get_record\<close> with it returns the bytes that were inserted, every other
  record is as before, and the file can be inserted into again. This covers the search for a page
  with a free slot, the allocation of a new page, and the pages that the pool evicts meanwhile.\<close>

theorem insert_record_then_get_record:
  assumes "rec_file_ok b fid f s" "rec_table_ok rs fid s" "file_count s fid < int max_pages"
    and "8 < rs" "rs \<le> 4056" "int (length src) = rs"
  shows "\<exists>c i f' s' s''. rf_insert_record bp_ops src rs (f, s) = Some (Inr (Some \<lparr>rid_page = c, rid_slot = int i\<rparr>), (f', s')) \<and>
    file_map (file_view s fid) c i = None \<and>
    file_map (file_view s' fid) = (file_map (file_view s fid))(c := (file_map (file_view s fid) c)(i \<mapsto> src)) \<and>
    rec_file_ok b fid f' s' \<and> rec_table_ok rs fid s' \<and> file_cap s' fid = file_cap s fid \<and>
    rf_get_record bp_ops \<lparr>rid_page = c, rid_slot = int i\<rparr> (f', s') = Some (Inr (Some src), (f', s''))"
  using insert_then_get [OF assms(1-5), of src] assms(6) by auto

theorem insert_record_then_get_record_witness:
  "\<exists>c i f' s' s''. rf_insert_record bp_ops (replicate 16 7) 16 (opened_file, new_rec_pool) =
      Some (Inr (Some \<lparr>rid_page = c, rid_slot = int i\<rparr>), (f', s')) \<and>
    file_map (file_view s' 0) c i = Some (replicate 16 7) \<and>
    rf_get_record bp_ops \<lparr>rid_page = c, rid_slot = int i\<rparr> (f', s') = Some (Inr (Some (replicate 16 7)), (f', s''))"
proof -
  have c: "file_count new_rec_pool 0 < int max_pages"
    by (simp add: new_rec_pool_def max_pages_def BP_PAGE_DATA_SIZE_def BP_PAGE_SIZE_def BP_FILE_SUB_HDR_SIZE_def)
  obtain c i f' s' s'' where
    "rf_insert_record bp_ops (replicate 16 7) 16 (opened_file, new_rec_pool) =
      Some (Inr (Some \<lparr>rid_page = c, rid_slot = int i\<rparr>), (f', s'))"
    "file_map (file_view s' 0) = (file_map (file_view new_rec_pool 0))(c := (file_map (file_view new_rec_pool 0) c)(i \<mapsto> replicate 16 7))"
    "rf_get_record bp_ops \<lparr>rid_page = c, rid_slot = int i\<rparr> (f', s') = Some (Inr (Some (replicate 16 7)), (f', s''))"
    using insert_record_then_get_record [OF new_rec_pool_ok c, of 16 "replicate 16 7"] by auto
  then show ?thesis by fastforce
qed

text \<open>C4. A scan of a record file returns every record that the filter accepts exactly once, in
  the order of pages and slots, holes in the file included, and then a result code other than
  success; the calls in between terminate. The final code is \<^verbatim>\<open>RECORD_EOF\<close> when the last page
  of the file is in use, and \<^verbatim>\<open>BUFFERPOOL_INVALID_PAGE_NUM\<close> when it has been given back.\<close>

theorem file_scan_complete:
  assumes "pool_ready (file_pins s fid) fid s" "pages_ok rs (file_view s fid)" "1 < file_count s fid"
    and recs: "recs = filter (\<lambda>(r, d). sc_accepts flt r d) (pages_from (file_view s fid) 1 (file_count s fid))"
  shows "\<exists>f' s'. bindE (open_scan fid flt) (\<lambda>_. scan_all bp_ops (Suc (length recs)) \<lparr>rid_page = 1, rid_slot = - 1\<rparr>) (sc_new, s) =
    Some (Inr (map (\<lambda>(r, d). (r, Some d)) recs,
      if file_view s fid (file_count s fid - 1) = None then BUFFERPOOL_INVALID_PAGE_NUM else RECORD_EOF), (f', s')) \<and>
    file_view s' fid = file_view s fid"
proof -
  let ?r = "\<lparr>rid_page = 1, rid_slot = - 1\<rparr>"
  let ?f = "sc_new\<lparr>sc_pool := True, sc_file_id := fid, sc_filter := flt\<rparr>"
  have o: "bindE (open_scan fid flt) k (sc_new, s) = k () (?f, s)" for k :: "unit \<Rightarrow> (scanner \<times> rec_page pool, 'x) M"
    by (simp add: open_scan_def close_scan_def run sc_new_def)
  have "dbr.sc_free fid (file_pins s fid) ?f s (- 1)"
    using assms(1) by (simp add: dbr.sc_free_def pool_ready_def dbr.ready_def dbr.space_def sc_new_def rph_new_def
        rph_get_page_num_def run)
  then have free: "dbr.sc_on fid (file_pins s fid) ?f s (rid_page ?r) \<or>
      dbr.sc_free fid (file_pins s fid) ?f s (- 1) \<and> - 1 < rid_page ?r" by simp
  have r: "records_after (file_view s fid) (file_count s fid) ?r = pages_from (file_view s fid) 1 (file_count s fid)"
    using records_next_page [of 1 "file_count s fid"] assms(3) by simp
  have pos: "scan_pos (file_view s fid) ?r" "rid_page ?r < file_count s fid" using assms(3) by (simp_all add: scan_pos_def)
  have len: "length (filter (\<lambda>(r, d). sc_accepts (sc_filter ?f) r d)
      (records_after (file_view s fid) (file_count s fid) ?r)) < Suc (length recs)"
    unfolding r recs by (simp add: sc_new_def)
  show ?thesis
    using dbr.scan_all_run [OF assms(2,3) free refl refl pos len] unfolding o r
    by (auto simp: recs sc_new_def scan_end_def dbr.same_def simp del: scan_all.simps)
qed

lemma one_record_file:
  obtains c i f s where "rf_insert_record bp_ops (replicate 16 7) 16 (opened_file, new_rec_pool) =
      Some (Inr (Some \<lparr>rid_page = c, rid_slot = int i\<rparr>), (f, s))" "pool_ready (file_pins s 0) 0 s"
    "pages_ok 16 (file_view s 0)" "1 < file_count s 0" "file_view s 0 (file_count s 0 - 1) \<noteq> None"
proof -
  have m: "file_count new_rec_pool 0 < int max_pages"
    by (simp add: new_rec_pool_def max_pages_def BP_PAGE_DATA_SIZE_def BP_PAGE_SIZE_def BP_FILE_SUB_HDR_SIZE_def)
  obtain c i f s where r: "rf_insert_record bp_ops (replicate 16 7) 16 (opened_file, new_rec_pool) =
      Some (Inr (Some \<lparr>rid_page = c, rid_slot = int i\<rparr>), (f, s))" "rec_file_ok (\<lambda>_. 0) 0 f s" "rec_table_ok 16 0 s"
      "file_cap s 0 = file_cap new_rec_pool 0"
      "file_map (file_view s 0) = (file_map (file_view new_rec_pool 0))(c := (file_map (file_view new_rec_pool 0) c)(i \<mapsto> replicate 16 7))"
    using insert_then_get [OF new_rec_pool_ok m, of 16 "replicate 16 7"] by auto
  have cap: "file_cap s 0 = 4" using r(4) by (simp add: new_rec_pool_def)
  have "file_map (file_view s 0) c i \<noteq> None" using r(5) by simp
  then have "file_view s 0 c \<noteq> None" by (auto simp: file_map_def split: option.splits)
  then have "1 < file_count s 0" using file_view_range [of s 0 c] by simp
  then have n: "1 < file_count s 0" "file_view s 0 (file_count s 0 - 1) \<noteq> None"
    using r(3) by (auto simp: rec_table_ok_def dense_def)
  have "file_pins s 0 = (\<lambda>_. 0) \<or> (\<exists>e. file_pins s 0 = (\<lambda>_. 0)(e := 1))"
    using r(2) by (auto simp: rec_file_ok_def)
  then have p: "finite {q. 0 < file_pins s 0 q}" "card {q. 0 < file_pins s 0 q} \<le> 1" "\<forall>q. file_pins s 0 q \<le> 1"
    by auto
  have "pool_ready (file_pins s 0) 0 s"
    using r(2) p cap unfolding pool_ready_def rec_file_ok_def by (auto intro: le_less_trans [OF _ less_numeral_extra(1)])
  then show ?thesis by (rule that [OF r(1)]) (use r(3) n in \<open>auto simp: rec_table_ok_def\<close>)
qed

theorem file_scan_complete_witness:
  "\<exists>c i f s f' s' recs. rf_insert_record bp_ops (replicate 16 7) 16 (opened_file, new_rec_pool) =
      Some (Inr (Some \<lparr>rid_page = c, rid_slot = int i\<rparr>), (f, s)) \<and>
    bindE (open_scan 0 None) (\<lambda>_. scan_all bp_ops (Suc (length recs)) \<lparr>rid_page = 1, rid_slot = - 1\<rparr>) (sc_new, s) =
      Some (Inr (map (\<lambda>(r, d). (r, Some d)) recs, RECORD_EOF), (f', s'))"
proof -
  obtain c i f s where r: "rf_insert_record bp_ops (replicate 16 7) 16 (opened_file, new_rec_pool) =
      Some (Inr (Some \<lparr>rid_page = c, rid_slot = int i\<rparr>), (f, s))" "pool_ready (file_pins s 0) 0 s"
    "pages_ok 16 (file_view s 0)" "1 < file_count s 0" "file_view s 0 (file_count s 0 - 1) \<noteq> None"
    by (rule one_record_file)
  show ?thesis using file_scan_complete [OF r(2-4) refl, of None] r(1,5) by (auto simp del: scan_all.simps)
qed

text \<open>C29. Reading a record of a page that has been given back: \<^verbatim>\<open>get_record\<close> reports success
  and does not fill in the record, because its test of the result of \<^verbatim>\<open>init\<close> compares it with
  \<^verbatim>\<open>!=\<close> instead of assigning it.\<close>

theorem get_record_of_freed_page:
  assumes "client_ok rec_good fid s" "\<forall>q. file_stable s fid q" "rf_pool f" "rf_file_id f = fid"
    and "0 < rid_page rid" "file_view s fid (rid_page rid) = None"
  shows "rf_get_record bp_ops rid (f, s) = Some (Inr None, (f, s))"
  by (rule dbr.rf_get_record_absent) (use assms in \<open>auto simp: dbr.ready_def\<close>)

theorem get_record_of_freed_page_witness:
  "rf_get_record bp_ops \<lparr>rid_page = 5, rid_slot = 0\<rparr> (opened_file, new_rec_pool) = Some (Inr None, (opened_file, new_rec_pool))"
  by (rule get_record_of_freed_page [of 0])
    (use new_rec_pool_ok(1) in \<open>auto simp: rec_file_ok_def pool_ready_def opened_file_def new_rec_pool_def\<close>)

text \<open>Once the first data page of a file has been given back, a file handler that has just been
  opened cannot insert any more: the error of loading page 1 is returned, although every other page
  and a new page are available.\<close>

theorem insert_after_first_page_freed:
  assumes "rec_file_ok b fid f s" "\<not> ph_pool (rf_handler f)" "2 \<le> file_count s fid"
    and "file_view s fid 1 = None" "0 < rs"
  shows "rf_insert_record bp_ops src rs (f, s) = Some (Inl BUFFERPOOL_INVALID_PAGE_NUM, (f, s))"
proof -
  have "dbr.rf_off fid b f s"
    using assms(1,2) unfolding rec_file_ok_idle dbr.rf_idle_def dbr.rf_on_def dbr.holds_def by blast
  then show ?thesis using assms by (intro dbr.rf_insert_page_1_freed)
qed

definition gap_pool :: "rec_page pool" where
  "gap_pool = built_pool 4 \<lparr>page_count = 2, allocated_pages = 1\<rparr> (byte_map 1) [zero_rec_page] zero_rec_page"

lemma gap_wf: "hdr_wf \<lparr>page_count = 2, allocated_pages = 1\<rparr> (byte_map 1) (Suc (length [zero_rec_page]))"
proof -
  have "{i :: nat. i < 2 \<and> i = 0} = {0}" by auto
  then show ?thesis using byte_map_wf [of 1 2] by (simp add: bit_1_iff numeral_2_eq_2)
qed

theorem insert_after_first_page_freed_witness:
  "rf_insert_record bp_ops (replicate 16 7) 16 (opened_file, gap_pool) =
    Some (Inl BUFFERPOOL_INVALID_PAGE_NUM, (opened_file, gap_pool))"
proof (rule insert_after_first_page_freed)
  note v = built_view [OF gap_wf, of 4 zero_rec_page, folded gap_pool_def]
  have "client_ok rec_good 0 gap_pool"
    unfolding gap_pool_def using built_client [OF gap_wf] zero_rec_good by simp
  then show "rec_file_ok (\<lambda>_. 0) 0 opened_file gap_pool"
    using v by (simp add: rec_file_ok_def pool_ready_def opened_file_def rf_new_def rph_new_def gap_pool_def built_cap)
  show "file_view gap_pool 0 1 = None" "2 \<le> file_count gap_pool 0"
    using v bit_at_byte_map [of 1 1] by (simp_all add: max_pages_def BP_PAGE_DATA_SIZE_def BP_PAGE_SIZE_def BP_FILE_SUB_HDR_SIZE_def bit_1_iff)
qed (simp_all add: opened_file_def rf_new_def rph_new_def)

text \<open>The search for a page with a free slot does not look at every page: in a file of five data
  pages, starting from page 1, pages 1, 2, 4 and 5 are visited. When these are full, the search fails
  whatever page 3 holds, and \<^verbatim>\<open>insert_record\<close> allocates a new page.\<close>

theorem search_page_skips_page_3:
  assumes "rec_file_ok b fid f s" "ph_pool (rf_handler f)"
    and "\<forall>c \<in> {1, 2, 4, 5}. \<exists>d. file_view s fid c = Some d \<and> page_is_full d"
  shows "\<exists>f' s'. search_page bp_ops fid 6 6 0 1 (f, s) = Some (Inr False, (f', s'))"
proof -
  obtain c where c: "dbr.rf_on fid b f s c"
    using assms(1,2) unfolding rec_file_ok_idle dbr.rf_idle_def dbr.rf_off_def by blast
  have "probes 6 6 0 1 = [1, 2, 4, 1, 5, 4]" by (simp add: numeral_eq_Suc)
  then show ?thesis
    using dbr.search_page_full [OF _ c, of 6 6 0 1] assms(3) by auto
qed

definition full_pool :: "rec_page pool" where
  "full_pool = built_pool 4 \<lparr>page_count = 6, allocated_pages = 6\<rparr> (byte_map 63) (replicate 5 zero_rec_page) zero_rec_page"

lemma full_bits: "bit (63 :: byte) i \<longleftrightarrow> i < 6"
proof -
  have m: "(63 :: byte) = mask 6" by (simp add: mask_eq_exp_minus_1)
  show ?thesis unfolding m bit_mask_iff by auto
qed

lemma full_wf: "hdr_wf \<lparr>page_count = 6, allocated_pages = 6\<rparr> (byte_map 63) (Suc (length (replicate 5 zero_rec_page)))"
proof -
  have b: "bit (63 :: byte) 0" unfolding full_bits by simp
  have c: "{i. i < 6 \<and> bit (63 :: byte) i} = {..<6}" unfolding full_bits by auto
  show ?thesis using byte_map_wf [OF b, of 6, unfolded c] by simp
qed

theorem search_page_skips_page_3_witness:
  "\<exists>cur f s f' s'. start_page bp_ops 0 6 (opened_file, full_pool) = Some (Inr cur, (f, s)) \<and>
    search_page bp_ops 0 6 6 0 1 (f, s) = Some (Inr False, (f', s'))"
proof -
  note v = built_view [OF full_wf, of 4 zero_rec_page, folded full_pool_def]
  have "client_ok rec_good 0 full_pool"
    unfolding full_pool_def using built_client [OF full_wf] zero_rec_good by simp
  then have o: "rec_file_ok (\<lambda>_. 0) 0 opened_file full_pool"
    using v by (simp add: rec_file_ok_def pool_ready_def opened_file_def rf_new_def rph_new_def full_pool_def built_cap)
  have m: "8 \<le> max_pages" by (simp add: max_pages_def BP_PAGE_DATA_SIZE_def BP_PAGE_SIZE_def BP_FILE_SUB_HDR_SIZE_def)
  have pages: "file_view full_pool 0 p = Some zero_rec_page" if "0 < p" "p < 6" for p
  proof -
    have "bit_at (byte_map 63) (nat p)" using bit_at_byte_map [of "nat p" 63, unfolded full_bits] that m by simp
    then show ?thesis using v(1) that by (simp add: nth_replicate)
  qed
  have cnt: "file_count full_pool 0 = 6" using v(3) by simp
  obtain cur f s where st: "start_page bp_ops 0 (file_count full_pool 0) (opened_file, full_pool) = Some (Inr cur, (f, s))"
      "dbr.same 0 full_pool s"
      "(\<exists>c. dbr.rf_on 0 (\<lambda>_. 0) f s c) \<or> dbr.rf_off 0 (\<lambda>_. 0) f s \<and> file_count full_pool 0 < 2 \<and> cur = 0"
    by (rule dbr.start_page_run [OF o [unfolded rec_file_ok_idle]]) (use pages cnt in \<open>auto simp: dense_def\<close>)
  then have on: "\<exists>c. dbr.rf_on 0 (\<lambda>_. 0) f s c" using cnt by auto
  then have f: "rec_file_ok (\<lambda>_. 0) 0 f s" "ph_pool (rf_handler f)"
    unfolding rec_file_ok_idle dbr.rf_idle_def by (auto simp: dbr.rf_on_def dbr.holds_def)
  have "\<forall>c \<in> {1, 2, 4, 5}. \<exists>d. file_view s 0 c = Some d \<and> page_is_full d"
    using st(2) pages by (auto simp: dbr.same_def page_is_full_def zero_rec_page_def)
  from search_page_skips_page_3 [OF f this] show ?thesis using st(1) cnt by auto
qed

end
