(* ===== verification/Result_Codes.thy ===== *)
theory Result_Codes
  imports Prelude
begin

text \<open>
  The numbers behind the result codes (\<^verbatim>\<open>rc.h\<close>) and their names
  (\<^verbatim>\<open>strrc\<close> in \<^verbatim>\<open>rc.cpp\<close>). An enumeration without explicit values is the
  list of its enumerators; a code of a part of the system is the code of the part with the number
  inside the part shifted left by eight bits.
\<close>

unbundle bit_operations_syntax

section \<open>Enumerations\<close>

fun enum_from :: "int \<Rightarrow> string list \<Rightarrow> (string \<times> int) list" where
  "enum_from k [] = []"
| "enum_from k (n # ns) = (n, k) # enum_from (k + 1) ns"

definition RCBufferPool :: "(string \<times> int) list" where
  "RCBufferPool = enum_from 1
    [''BP_EXIST'', ''BP_FILEERR'', ''BP_INVALIDNAME'', ''BP_WINDOWS'', ''BP_CLOSED'', ''BP_OPEN'',
     ''BP_NOBUF'', ''BP_EOF'', ''BP_INVALIDPAGENUM'', ''BP_NOTINBUF'', ''BP_PAGE_PINNED'',
     ''BP_OPEN_TOO_MANY_FILES'', ''BP_ILLEGAL_FILE_ID'']"

definition RCRecord :: "(string \<times> int) list" where
  "RCRecord = enum_from 1
    [''RD_CLOSED'', ''RD_OPENNED'', ''RD_INVALIDRECSIZE'', ''RD_INVALIDRID'', ''RD_NO_MORE_RECINMEM'',
     ''RD_OPEN'', ''RD_NO_MORE_IDXINMEM'', ''RD_INVALID_KEY'', ''RD_DUPLICATE_KEY'', ''RD_NOMEM'',
     ''RD_SCANCLOSED'', ''RD_SCANOPENNED'', ''RD_EOF'', ''RD_NOT_EXIST'']"

definition RCSchema :: "(string \<times> int) list" where
  "RCSchema = enum_from 1
    [''DB_EXIST'', ''DB_NOT_EXIST'', ''DB_NOT_OPENED'', ''TABLE_NOT_EXIST'', ''TABLE_EXIST'',
     ''TABLE_NAME_ILLEGAL'', ''FIELD_NOT_EXIST'', ''FIELD_EXIST'', ''FIELD_NAME_ILLEGAL'', ''FIELD_MISSING'',
     ''FIELD_REDUNDAN'', ''FIELD_TYPE_MISMATCH'', ''INDEX_NAME_REPEAT'', ''INDEX_EXIST'',
     ''INDEX_NOT_EXIST'', ''INDEX_NAME_ILLEGAL'']"

definition RCIOError :: "(string \<times> int) list" where
  "RCIOError = enum_from 1
    [''READ'', ''SHORT_READ'', ''WRITE'', ''FSYNC'', ''DIR_FSYNC'', ''TRUNCATE'', ''FSTAT'', ''IO_DELETE'',
     ''BLOCKED'', ''ACCESS'', ''CHECKRESERVEDLOCK'', ''CLOSE'', ''DIR_CLOSE'', ''SHMOPEN'', ''SHMSIZE'',
     ''SHMLOCK'', ''SHMMAP'', ''SEEK'', ''DELETE_NOENT'', ''MMAP'', ''GETTEMPPATH'', ''IO_CONVPATH'',
     ''VNODE'', ''BEGIN_ATOMIC'', ''COMMIT_ATOMIC'', ''ROLLBACK_ATOMIC'', ''DATA'', ''CORRUPTFS'',
     ''OPEN_TOO_MANY_FILES'']"

definition RCLock :: "(string \<times> int) list" where
  "RCLock = enum_from 1
    [''LOCK'', ''UNLOCK'', ''SHAREDCACHE'', ''LVIRT'', ''NEED_WAIT'', ''RESOURCE_DELETED'']"

definition RCBusy :: "(string \<times> int) list" where
  "RCBusy = enum_from 1
    [''BRECOVERY'', ''SNAPSHOT'', ''TIMEOUT'']"

definition RCCantOpen :: "(string \<times> int) list" where
  "RCCantOpen = enum_from 1
    [''NOTEMPDIR'', ''ISDIR'', ''FULLPATH'', ''CO_CONVPATH'', ''DIRTYWAL'', ''SYMLINK'']"

definition RCReadonly :: "(string \<times> int) list" where
  "RCReadonly = enum_from 1
    [''RO_RECOVERY'', ''CANTLOCK'', ''RO_ROLLBACK'', ''DBMOVED'', ''CANTINIT'', ''DIRECTORY'']"

definition RCAbort :: "(string \<times> int) list" where
  "RCAbort = enum_from 1
    [''AROLLBACK'']"

definition RCContraint :: "(string \<times> int) list" where
  "RCContraint = enum_from 1
    [''CHECK'', ''COMMITHOOK'', ''FOREIGNKEY'', ''FUNCTION'', ''NOTNULL'', ''PRIMARYKEY'', ''TRIGGER'',
     ''UNIQUE'', ''CVIRT'', ''ROWID'', ''PINNED'']"

definition RCNotice :: "(string \<times> int) list" where
  "RCNotice = enum_from 1
    [''RECOVER_WAL'', ''RECOVER_ROLLBACK'', ''AUTOINDEX'']"

definition RCAuth :: "(string \<times> int) list" where
  "RCAuth = enum_from 1
    [''USER'']"

definition RC_parts :: "(string \<times> int) list" where
  "RC_parts = enum_from 0
    [''SUCCESS'', ''GENERIC_ERROR'', ''INVALID_ARGUMENT'', ''SQL_SYNTAX'', ''BUFFERPOOL'', ''RECORD'',
     ''INTERNAL'', ''PERM'', ''ABORT'', ''BUSY'', ''LOCKED'', ''NOMEM'', ''READONLY'', ''INTERRUPT'',
     ''IOERR'', ''CORRUPT'', ''NOTFOUND'', ''FULL'', ''CANTOPEN'', ''PROTOCOL'', ''EMPTY'', ''SCHEMA'',
     ''TOOBIG'', ''CONSTRAINT'', ''MISMATCH'', ''MISUSE'', ''NOLFS'', ''AUTH'', ''FORMAT'', ''RANGE'',
     ''NOTADB''] @
    [(''NOTICE'', 100)]"

definition code_of :: "(string \<times> int) list \<Rightarrow> string \<Rightarrow> int" where
  "code_of e n = (case map_of e n of None \<Rightarrow> 0 | Some v \<Rightarrow> v)"

text \<open>\<^verbatim>\<open>PART_X = (PART | (RCPart::X << 8))\<close>, for the enumerators of a part in order.\<close>

definition part_codes :: "int \<Rightarrow> (string \<times> int) list \<Rightarrow> string list \<Rightarrow> (string \<times> int) list" where
  "part_codes part e names = zip names (map (\<lambda>(x, v). part OR push_bit 8 v) e)"

definition BUFFERPOOL_codes :: "(string \<times> int) list" where
  "BUFFERPOOL_codes = part_codes (code_of RC_parts ''BUFFERPOOL'') RCBufferPool
    [''BUFFERPOOL_EXIST'', ''BUFFERPOOL_FILEERR'', ''BUFFERPOOL_INVALIDNAME'', ''BUFFERPOOL_WINDOWS'',
     ''BUFFERPOOL_CLOSED'', ''BUFFERPOOL_OPEN'', ''BUFFERPOOL_NOBUF'', ''BUFFERPOOL_EOF'',
     ''BUFFERPOOL_INVALID_PAGE_NUM'', ''BUFFERPOOL_NOTINBUF'', ''BUFFERPOOL_PAGE_PINNED'',
     ''BUFFERPOOL_OPEN_TOO_MANY_FILES'', ''BUFFERPOOL_ILLEGAL_FILE_ID'']"

definition RECORD_codes :: "(string \<times> int) list" where
  "RECORD_codes = part_codes (code_of RC_parts ''RECORD'') RCRecord
    [''RECORD_CLOSED'', ''RECORD_OPENNED'', ''RECORD_INVALIDRECSIZE'', ''RECORD_INVALIDRID'',
     ''RECORD_NOMORERECINMEM'', ''RECORD_OPEN'', ''RECORD_NO_MORE_IDX_IN_MEM'', ''RECORD_INVALID_KEY'',
     ''RECORD_DUPLICATE_KEY'', ''RECORD_NOMEM'', ''RECORD_SCANCLOSED'', ''RECORD_SCANOPENNED'',
     ''RECORD_EOF'', ''RECORD_RECORD_NOT_EXIST'']"

definition SCHEMA_codes :: "(string \<times> int) list" where
  "SCHEMA_codes = part_codes (code_of RC_parts ''SCHEMA'') RCSchema
    [''SCHEMA_DB_EXIST'', ''SCHEMA_DB_NOT_EXIST'', ''SCHEMA_DB_NOT_OPENED'', ''SCHEMA_TABLE_NOT_EXIST'',
     ''SCHEMA_TABLE_EXIST'', ''SCHEMA_TABLE_NAME_ILLEGAL'', ''SCHEMA_FIELD_NOT_EXIST'',
     ''SCHEMA_FIELD_EXIST'', ''SCHEMA_FIELD_NAME_ILLEGAL'', ''SCHEMA_FIELD_MISSING'',
     ''SCHEMA_FIELD_REDUNDAN'', ''SCHEMA_FIELD_TYPE_MISMATCH'', ''SCHEMA_INDEX_NAME_REPEAT'',
     ''SCHEMA_INDEX_EXIST'', ''SCHEMA_INDEX_NOT_EXIST'', ''SCHEMA_INDEX_NAME_ILLEGAL'']"

definition IOERR_codes :: "(string \<times> int) list" where
  "IOERR_codes = part_codes (code_of RC_parts ''IOERR'') RCIOError
    [''IOERR_READ'', ''IOERR_SHORT_READ'', ''IOERR_WRITE'', ''IOERR_FSYNC'', ''IOERR_DIR_FSYNC'',
     ''IOERR_TRUNCATE'', ''IOERR_FSTAT'', ''IOERR_DELETE'', ''IOERR_BLOCKED'', ''IOERR_ACCESS'',
     ''IOERR_CHECKRESERVEDLOCK'', ''IOERR_CLOSE'', ''IOERR_DIR_CLOSE'', ''IOERR_SHMOPEN'', ''IOERR_SHMSIZE'',
     ''IOERR_SHMLOCK'', ''IOERR_SHMMAP'', ''IOERR_SEEK'', ''IOERR_DELETE_NOENT'', ''IOERR_MMAP'',
     ''IOERR_GETTEMPPATH'', ''IOERR_CONVPATH'', ''IOERR_VNODE'', ''IOERR_BEGIN_ATOMIC'',
     ''IOERR_COMMIT_ATOMIC'', ''IOERR_ROLLBACK_ATOMIC'', ''IOERR_DATA'', ''IOERR_CORRUPTFS'',
     ''IOERR_OPEN_TOO_MANY_FILES'']"

definition LOCKED_codes :: "(string \<times> int) list" where
  "LOCKED_codes = part_codes (code_of RC_parts ''LOCKED'') RCLock
    [''LOCKED_LOCK'', ''LOCKED_UNLOCK'', ''LOCKED_SHAREDCACHE'', ''LOCKED_VIRT'', ''LOCKED_NEED_WAIT'',
     ''LOCKED_RESOURCE_DELETED'']"

definition BUSY_codes :: "(string \<times> int) list" where
  "BUSY_codes = part_codes (code_of RC_parts ''BUSY'') RCBusy
    [''BUSY_RECOVERY'', ''BUSY_SNAPSHOT'', ''BUSY_TIMEOUT'']"

definition CANTOPEN_codes :: "(string \<times> int) list" where
  "CANTOPEN_codes = part_codes (code_of RC_parts ''CANTOPEN'') RCCantOpen
    [''CANTOPEN_NOTEMPDIR'', ''CANTOPEN_ISDIR'', ''CANTOPEN_FULLPATH'', ''CANTOPEN_CONVPATH'',
     ''CANTOPEN_DIRTYWAL'', ''CANTOPEN_SYMLINK'']"

definition READONLY_codes :: "(string \<times> int) list" where
  "READONLY_codes = part_codes (code_of RC_parts ''READONLY'') RCReadonly
    [''READONLY_RECOVERY'', ''READONLY_CANTLOCK'', ''READONLY_ROLLBACK'', ''READONLY_DBMOVED'',
     ''READONLY_CANTINIT'', ''READONLY_DIRECTORY'']"

definition ABORT_codes :: "(string \<times> int) list" where
  "ABORT_codes = part_codes (code_of RC_parts ''ABORT'') RCAbort
    [''ABORT_ROLLBACK'']"

definition CONSTRAINT_codes :: "(string \<times> int) list" where
  "CONSTRAINT_codes = part_codes (code_of RC_parts ''CONSTRAINT'') RCContraint
    [''CONSTRAINT_CHECK'', ''CONSTRAINT_COMMITHOOK'', ''CONSTRAINT_FOREIGNKEY'', ''CONSTRAINT_FUNCTION'',
     ''CONSTRAINT_NOTNULL'', ''CONSTRAINT_PRIMARYKEY'', ''CONSTRAINT_TRIGGER'', ''CONSTRAINT_UNIQUE'',
     ''CONSTRAINT_VIRT'', ''CONSTRAINT_ROWID'', ''CONSTRAINT_PINNED'']"

definition NOTICE_codes :: "(string \<times> int) list" where
  "NOTICE_codes = part_codes (code_of RC_parts ''NOTICE'') RCNotice
    [''NOTICE_RECOVER_WAL'', ''NOTICE_RECOVER_ROLLBACK'', ''NOTICE_AUTOINDEX'']"

definition AUTH_codes :: "(string \<times> int) list" where
  "AUTH_codes = part_codes (code_of RC_parts ''AUTH'') RCAuth
    [''AUTH_USER'']"

text \<open>The enumeration \<^verbatim>\<open>RC\<close>.\<close>

definition RC_enum :: "(string \<times> int) list" where
  "RC_enum = RC_parts @ BUFFERPOOL_codes @ RECORD_codes @ SCHEMA_codes @ IOERR_codes @ LOCKED_codes @ BUSY_codes @
    CANTOPEN_codes @ READONLY_codes @ ABORT_codes @ CONSTRAINT_codes @ NOTICE_codes @ AUTH_codes"

text \<open>The cases of \<^verbatim>\<open>strrc\<close>, in the order of the switch.\<close>

definition strrc_cases :: "string list" where
  "strrc_cases =
    [''SUCCESS'', ''GENERIC_ERROR'', ''INVALID_ARGUMENT'', ''SQL_SYNTAX'', ''BUFFERPOOL'', ''RECORD'',
     ''INTERNAL'', ''PERM'', ''ABORT'', ''BUSY'', ''LOCKED'', ''NOMEM'', ''READONLY'', ''INTERRUPT'',
     ''IOERR'', ''CORRUPT'', ''NOTFOUND'', ''FULL'', ''CANTOPEN'', ''PROTOCOL'', ''EMPTY'', ''SCHEMA'',
     ''TOOBIG'', ''CONSTRAINT'', ''MISMATCH'', ''MISUSE'', ''NOLFS'', ''AUTH'', ''FORMAT'', ''RANGE'',
     ''NOTADB'', ''NOTICE'', ''BUFFERPOOL_EXIST'', ''BUFFERPOOL_FILEERR'', ''BUFFERPOOL_INVALIDNAME'',
     ''BUFFERPOOL_WINDOWS'', ''BUFFERPOOL_CLOSED'', ''BUFFERPOOL_OPEN'', ''BUFFERPOOL_NOBUF'',
     ''BUFFERPOOL_EOF'', ''BUFFERPOOL_INVALID_PAGE_NUM'', ''BUFFERPOOL_NOTINBUF'',
     ''BUFFERPOOL_PAGE_PINNED'', ''BUFFERPOOL_OPEN_TOO_MANY_FILES'', ''BUFFERPOOL_ILLEGAL_FILE_ID'',
     ''RECORD_CLOSED'', ''RECORD_OPENNED'', ''RECORD_INVALIDRECSIZE'', ''RECORD_INVALIDRID'',
     ''RECORD_NOMORERECINMEM'', ''RECORD_OPEN'', ''RECORD_NO_MORE_IDX_IN_MEM'', ''RECORD_INVALID_KEY'',
     ''RECORD_DUPLICATE_KEY'', ''RECORD_NOMEM'', ''RECORD_SCANCLOSED'', ''RECORD_SCANOPENNED'',
     ''RECORD_EOF'', ''RECORD_RECORD_NOT_EXIST'', ''SCHEMA_DB_EXIST'', ''SCHEMA_DB_NOT_EXIST'',
     ''SCHEMA_DB_NOT_OPENED'', ''SCHEMA_TABLE_NOT_EXIST'', ''SCHEMA_TABLE_EXIST'',
     ''SCHEMA_TABLE_NAME_ILLEGAL'', ''SCHEMA_FIELD_NOT_EXIST'', ''SCHEMA_FIELD_EXIST'',
     ''SCHEMA_FIELD_NAME_ILLEGAL'', ''SCHEMA_FIELD_MISSING'', ''SCHEMA_FIELD_REDUNDAN'',
     ''SCHEMA_FIELD_TYPE_MISMATCH'', ''SCHEMA_INDEX_NAME_REPEAT'', ''SCHEMA_INDEX_EXIST'',
     ''SCHEMA_INDEX_NOT_EXIST'', ''SCHEMA_INDEX_NAME_ILLEGAL'', ''IOERR_READ'', ''IOERR_SHORT_READ'',
     ''IOERR_WRITE'', ''IOERR_FSYNC'', ''IOERR_DIR_FSYNC'', ''IOERR_TRUNCATE'', ''IOERR_FSTAT'',
     ''IOERR_DELETE'', ''IOERR_BLOCKED'', ''IOERR_ACCESS'', ''IOERR_CHECKRESERVEDLOCK'', ''IOERR_CLOSE'',
     ''IOERR_DIR_CLOSE'', ''IOERR_SHMOPEN'', ''IOERR_SHMSIZE'', ''IOERR_SHMLOCK'', ''IOERR_SHMMAP'',
     ''IOERR_SEEK'', ''IOERR_DELETE_NOENT'', ''IOERR_MMAP'', ''IOERR_GETTEMPPATH'', ''IOERR_CONVPATH'',
     ''IOERR_VNODE'', ''IOERR_BEGIN_ATOMIC'', ''IOERR_COMMIT_ATOMIC'', ''IOERR_ROLLBACK_ATOMIC'',
     ''IOERR_DATA'', ''IOERR_CORRUPTFS'', ''IOERR_OPEN_TOO_MANY_FILES'', ''LOCKED_LOCK'', ''LOCKED_UNLOCK'',
     ''LOCKED_SHAREDCACHE'', ''LOCKED_VIRT'', ''LOCKED_NEED_WAIT'', ''LOCKED_RESOURCE_DELETED'',
     ''BUSY_RECOVERY'', ''BUSY_SNAPSHOT'', ''BUSY_TIMEOUT'', ''CANTOPEN_NOTEMPDIR'', ''CANTOPEN_ISDIR'',
     ''CANTOPEN_FULLPATH'', ''CANTOPEN_CONVPATH'', ''CANTOPEN_DIRTYWAL'', ''CANTOPEN_SYMLINK'',
     ''READONLY_RECOVERY'', ''READONLY_CANTLOCK'', ''READONLY_ROLLBACK'', ''READONLY_DBMOVED'',
     ''READONLY_CANTINIT'', ''READONLY_DIRECTORY'', ''ABORT_ROLLBACK'', ''CONSTRAINT_CHECK'',
     ''CONSTRAINT_COMMITHOOK'', ''CONSTRAINT_FOREIGNKEY'', ''CONSTRAINT_FUNCTION'', ''CONSTRAINT_NOTNULL'',
     ''CONSTRAINT_PRIMARYKEY'', ''CONSTRAINT_TRIGGER'', ''CONSTRAINT_UNIQUE'', ''CONSTRAINT_VIRT'',
     ''CONSTRAINT_ROWID'', ''CONSTRAINT_PINNED'', ''NOTICE_RECOVER_WAL'', ''NOTICE_RECOVER_ROLLBACK'',
     ''NOTICE_AUTOINDEX'', ''AUTH_USER'']"

definition strrc :: "int \<Rightarrow> string" where
  "strrc rc = (case find (\<lambda>n. code_of RC_enum n = rc) strrc_cases of None \<Rightarrow> ''UNKNOWN'' | Some n \<Rightarrow> n)"

section \<open>Every code has its own number and its name\<close>


lemma part_values:
  "code_of RC_parts ''BUFFERPOOL'' = 4"
  "code_of RC_parts ''RECORD'' = 5"
  "code_of RC_parts ''SCHEMA'' = 21"
  "code_of RC_parts ''IOERR'' = 14"
  "code_of RC_parts ''LOCKED'' = 10"
  "code_of RC_parts ''BUSY'' = 9"
  "code_of RC_parts ''CANTOPEN'' = 18"
  "code_of RC_parts ''READONLY'' = 12"
  "code_of RC_parts ''ABORT'' = 8"
  "code_of RC_parts ''CONSTRAINT'' = 23"
  "code_of RC_parts ''NOTICE'' = 100"
  "code_of RC_parts ''AUTH'' = 27"
  by (simp_all add: code_of_def RC_parts_def enum_from.simps)

lemma BUFFERPOOL_eq: "BUFFERPOOL_codes =
  [(''BUFFERPOOL_EXIST'', 260), (''BUFFERPOOL_FILEERR'', 516), (''BUFFERPOOL_INVALIDNAME'', 772),
   (''BUFFERPOOL_WINDOWS'', 1028), (''BUFFERPOOL_CLOSED'', 1284), (''BUFFERPOOL_OPEN'', 1540),
   (''BUFFERPOOL_NOBUF'', 1796), (''BUFFERPOOL_EOF'', 2052), (''BUFFERPOOL_INVALID_PAGE_NUM'', 2308),
   (''BUFFERPOOL_NOTINBUF'', 2564), (''BUFFERPOOL_PAGE_PINNED'', 2820),
   (''BUFFERPOOL_OPEN_TOO_MANY_FILES'', 3076), (''BUFFERPOOL_ILLEGAL_FILE_ID'', 3332)]"
  by (simp add: BUFFERPOOL_codes_def part_codes_def part_values RCBufferPool_def enum_from.simps)

lemma RECORD_eq: "RECORD_codes =
  [(''RECORD_CLOSED'', 261), (''RECORD_OPENNED'', 517), (''RECORD_INVALIDRECSIZE'', 773),
   (''RECORD_INVALIDRID'', 1029), (''RECORD_NOMORERECINMEM'', 1285), (''RECORD_OPEN'', 1541),
   (''RECORD_NO_MORE_IDX_IN_MEM'', 1797), (''RECORD_INVALID_KEY'', 2053), (''RECORD_DUPLICATE_KEY'', 2309),
   (''RECORD_NOMEM'', 2565), (''RECORD_SCANCLOSED'', 2821), (''RECORD_SCANOPENNED'', 3077),
   (''RECORD_EOF'', 3333), (''RECORD_RECORD_NOT_EXIST'', 3589)]"
  by (simp add: RECORD_codes_def part_codes_def part_values RCRecord_def enum_from.simps)

lemma SCHEMA_eq: "SCHEMA_codes =
  [(''SCHEMA_DB_EXIST'', 277), (''SCHEMA_DB_NOT_EXIST'', 533), (''SCHEMA_DB_NOT_OPENED'', 789),
   (''SCHEMA_TABLE_NOT_EXIST'', 1045), (''SCHEMA_TABLE_EXIST'', 1301), (''SCHEMA_TABLE_NAME_ILLEGAL'', 1557),
   (''SCHEMA_FIELD_NOT_EXIST'', 1813), (''SCHEMA_FIELD_EXIST'', 2069), (''SCHEMA_FIELD_NAME_ILLEGAL'', 2325),
   (''SCHEMA_FIELD_MISSING'', 2581), (''SCHEMA_FIELD_REDUNDAN'', 2837),
   (''SCHEMA_FIELD_TYPE_MISMATCH'', 3093), (''SCHEMA_INDEX_NAME_REPEAT'', 3349),
   (''SCHEMA_INDEX_EXIST'', 3605), (''SCHEMA_INDEX_NOT_EXIST'', 3861), (''SCHEMA_INDEX_NAME_ILLEGAL'', 4117)]"
  by (simp add: SCHEMA_codes_def part_codes_def part_values RCSchema_def enum_from.simps)

lemma IOERR_eq: "IOERR_codes =
  [(''IOERR_READ'', 270), (''IOERR_SHORT_READ'', 526), (''IOERR_WRITE'', 782), (''IOERR_FSYNC'', 1038),
   (''IOERR_DIR_FSYNC'', 1294), (''IOERR_TRUNCATE'', 1550), (''IOERR_FSTAT'', 1806),
   (''IOERR_DELETE'', 2062), (''IOERR_BLOCKED'', 2318), (''IOERR_ACCESS'', 2574),
   (''IOERR_CHECKRESERVEDLOCK'', 2830), (''IOERR_CLOSE'', 3086), (''IOERR_DIR_CLOSE'', 3342),
   (''IOERR_SHMOPEN'', 3598), (''IOERR_SHMSIZE'', 3854), (''IOERR_SHMLOCK'', 4110), (''IOERR_SHMMAP'', 4366),
   (''IOERR_SEEK'', 4622), (''IOERR_DELETE_NOENT'', 4878), (''IOERR_MMAP'', 5134),
   (''IOERR_GETTEMPPATH'', 5390), (''IOERR_CONVPATH'', 5646), (''IOERR_VNODE'', 5902),
   (''IOERR_BEGIN_ATOMIC'', 6158), (''IOERR_COMMIT_ATOMIC'', 6414), (''IOERR_ROLLBACK_ATOMIC'', 6670),
   (''IOERR_DATA'', 6926), (''IOERR_CORRUPTFS'', 7182), (''IOERR_OPEN_TOO_MANY_FILES'', 7438)]"
  by (simp add: IOERR_codes_def part_codes_def part_values RCIOError_def enum_from.simps)

lemma LOCKED_eq: "LOCKED_codes =
  [(''LOCKED_LOCK'', 266), (''LOCKED_UNLOCK'', 522), (''LOCKED_SHAREDCACHE'', 778), (''LOCKED_VIRT'', 1034),
   (''LOCKED_NEED_WAIT'', 1290), (''LOCKED_RESOURCE_DELETED'', 1546)]"
  by (simp add: LOCKED_codes_def part_codes_def part_values RCLock_def enum_from.simps)

lemma BUSY_eq: "BUSY_codes =
  [(''BUSY_RECOVERY'', 265), (''BUSY_SNAPSHOT'', 521), (''BUSY_TIMEOUT'', 777)]"
  by (simp add: BUSY_codes_def part_codes_def part_values RCBusy_def enum_from.simps)

lemma CANTOPEN_eq: "CANTOPEN_codes =
  [(''CANTOPEN_NOTEMPDIR'', 274), (''CANTOPEN_ISDIR'', 530), (''CANTOPEN_FULLPATH'', 786),
   (''CANTOPEN_CONVPATH'', 1042), (''CANTOPEN_DIRTYWAL'', 1298), (''CANTOPEN_SYMLINK'', 1554)]"
  by (simp add: CANTOPEN_codes_def part_codes_def part_values RCCantOpen_def enum_from.simps)

lemma READONLY_eq: "READONLY_codes =
  [(''READONLY_RECOVERY'', 268), (''READONLY_CANTLOCK'', 524), (''READONLY_ROLLBACK'', 780),
   (''READONLY_DBMOVED'', 1036), (''READONLY_CANTINIT'', 1292), (''READONLY_DIRECTORY'', 1548)]"
  by (simp add: READONLY_codes_def part_codes_def part_values RCReadonly_def enum_from.simps)

lemma ABORT_eq: "ABORT_codes =
  [(''ABORT_ROLLBACK'', 264)]"
  by (simp add: ABORT_codes_def part_codes_def part_values RCAbort_def enum_from.simps)

lemma CONSTRAINT_eq: "CONSTRAINT_codes =
  [(''CONSTRAINT_CHECK'', 279), (''CONSTRAINT_COMMITHOOK'', 535), (''CONSTRAINT_FOREIGNKEY'', 791),
   (''CONSTRAINT_FUNCTION'', 1047), (''CONSTRAINT_NOTNULL'', 1303), (''CONSTRAINT_PRIMARYKEY'', 1559),
   (''CONSTRAINT_TRIGGER'', 1815), (''CONSTRAINT_UNIQUE'', 2071), (''CONSTRAINT_VIRT'', 2327),
   (''CONSTRAINT_ROWID'', 2583), (''CONSTRAINT_PINNED'', 2839)]"
  by (simp add: CONSTRAINT_codes_def part_codes_def part_values RCContraint_def enum_from.simps)

lemma NOTICE_eq: "NOTICE_codes =
  [(''NOTICE_RECOVER_WAL'', 356), (''NOTICE_RECOVER_ROLLBACK'', 612), (''NOTICE_AUTOINDEX'', 868)]"
  by (simp add: NOTICE_codes_def part_codes_def part_values RCNotice_def enum_from.simps)

lemma AUTH_eq: "AUTH_codes =
  [(''AUTH_USER'', 283)]"
  by (simp add: AUTH_codes_def part_codes_def part_values RCAuth_def enum_from.simps)

lemma RC_parts_eq: "RC_parts =
  [(''SUCCESS'', 0), (''GENERIC_ERROR'', 1), (''INVALID_ARGUMENT'', 2), (''SQL_SYNTAX'', 3),
   (''BUFFERPOOL'', 4), (''RECORD'', 5), (''INTERNAL'', 6), (''PERM'', 7), (''ABORT'', 8), (''BUSY'', 9),
   (''LOCKED'', 10), (''NOMEM'', 11), (''READONLY'', 12), (''INTERRUPT'', 13), (''IOERR'', 14),
   (''CORRUPT'', 15), (''NOTFOUND'', 16), (''FULL'', 17), (''CANTOPEN'', 18), (''PROTOCOL'', 19),
   (''EMPTY'', 20), (''SCHEMA'', 21), (''TOOBIG'', 22), (''CONSTRAINT'', 23), (''MISMATCH'', 24),
   (''MISUSE'', 25), (''NOLFS'', 26), (''AUTH'', 27), (''FORMAT'', 28), (''RANGE'', 29), (''NOTADB'', 30),
   (''NOTICE'', 100)]"
  by (simp add: RC_parts_def enum_from.simps)

lemmas RC_enum_eq = RC_enum_def [unfolded RC_parts_eq BUFFERPOOL_eq RECORD_eq SCHEMA_eq IOERR_eq LOCKED_eq BUSY_eq CANTOPEN_eq READONLY_eq ABORT_eq CONSTRAINT_eq NOTICE_eq AUTH_eq]

lemma RC_enum_names: "map fst RC_enum = strrc_cases"
  by (simp add: RC_enum_eq strrc_cases_def)

lemma RC_enum_distinct: "distinct (map snd RC_enum)" "distinct (map fst RC_enum)"
  by (simp_all add: RC_enum_eq)


lemma code_of_enum: "(n, v) \<in> set RC_enum \<Longrightarrow> code_of RC_enum n = v"
  using RC_enum_distinct(2) by (simp add: code_of_def)

lemma find_unique:
  assumes "x \<in> set xs" "P x" "\<And>y. y \<in> set xs \<Longrightarrow> P y \<Longrightarrow> y = x"
  shows "find P xs = Some x"
  using assms
proof (induction xs)
  case (Cons a xs)
  show ?case
  proof (cases "a = x")
    case False
    then have "\<not> P a" using Cons.prems(3) [of a] by auto
    moreover have "find P xs = Some x"
      using Cons.prems False by (intro Cons.IH) simp_all
    ultimately show ?thesis by simp
  qed (use Cons.prems(2) in simp)
qed simp

text \<open>No two result codes have the same number, and \<^verbatim>\<open>strrc\<close> gives for the number of
  every code the name of that code; a number that is no code is reported as \<^verbatim>\<open>UNKNOWN\<close>.\<close>

theorem strrc_names_every_code:
  "distinct (map snd RC_enum) \<and> map (\<lambda>(n, v). strrc v) RC_enum = map fst RC_enum \<and>
   (strrc rc = ''UNKNOWN'' \<or> (strrc rc, rc) \<in> set RC_enum)"
proof (intro conjI)
  show "distinct (map snd RC_enum)" by (rule RC_enum_distinct)
  have name: "strrc v = n" if m: "(n, v) \<in> set RC_enum" for n v
  proof -
    have "find (\<lambda>n. code_of RC_enum n = v) strrc_cases = Some n"
    proof (rule find_unique)
      show "n \<in> set strrc_cases" using m unfolding RC_enum_names [symmetric] by force
      show "code_of RC_enum n = v" using m by (rule code_of_enum)
      fix k assume "k \<in> set strrc_cases" and k: "code_of RC_enum k = v"
      then obtain w where w: "(k, w) \<in> set RC_enum" unfolding RC_enum_names [symmetric] by auto
      then have "(k, v) \<in> set RC_enum" using k code_of_enum by simp
      moreover have "inj_on snd (set RC_enum)" using RC_enum_distinct(1) unfolding distinct_map by (rule conjunct2)
      ultimately show "k = n" using m inj_onD [of snd "set RC_enum" "(k, v)" "(n, v)"] by simp
    qed
    then show ?thesis by (simp add: strrc_def)
  qed
  then show "map (\<lambda>(n, v). strrc v) RC_enum = map fst RC_enum" by auto
  show "strrc rc = ''UNKNOWN'' \<or> (strrc rc, rc) \<in> set RC_enum"
  proof (cases "find (\<lambda>n. code_of RC_enum n = rc) strrc_cases")
    case (Some n)
    have "n \<in> set strrc_cases" "code_of RC_enum n = rc" using find_SomeD [OF Some] by auto
    then have "(n, rc) \<in> set RC_enum" using code_of_enum unfolding RC_enum_names [symmetric] by auto
    then show ?thesis using Some by (simp add: strrc_def)
  qed (simp add: strrc_def)
qed

end
