(* ===== verification/Parse_Types.thy ===== *)
theory Parse_Types
  imports Prelude
begin

text \<open>
  The enumerations of \<^verbatim>\<open>sql/parser/parse_defs.h\<close> that the storage layer and the executor
  share.
\<close>

datatype AttrType = UNDEFINED | CHARS | INTS | DATE | FLOATS | TEXTS | NULLS

datatype CompOp =
    EQUAL_TO | LESS_EQUAL | NOT_EQUAL | LESS_THAN | GREAT_EQUAL | GREAT_THAN
  | NO_OP | IS_OP | IS_NOT_OP | COND_IN | NOT_IN

text \<open>The six operators that compare two numbers; the others compare nothing.\<close>

definition op_rel :: "CompOp \<Rightarrow> int \<Rightarrow> int \<Rightarrow> bool" where
  "op_rel opr a b = (case opr of
      EQUAL_TO \<Rightarrow> a = b | LESS_EQUAL \<Rightarrow> a \<le> b | NOT_EQUAL \<Rightarrow> a \<noteq> b
    | LESS_THAN \<Rightarrow> a < b | GREAT_EQUAL \<Rightarrow> a \<ge> b | GREAT_THAN \<Rightarrow> a > b | _ \<Rightarrow> False)"

end
