(* ===== verification/Key_Compare.thy ===== *)
theory Key_Compare
  imports Record_Manager Parse_Types "HOL-Library.List_Lexorder" "HOL-Library.Product_Lexorder"
begin

text \<open>
  Comparing index keys (\<^verbatim>\<open>CmpRid\<close>, \<^verbatim>\<open>CompareKey\<close>, \<^verbatim>\<open>CmpKey\<close> and
  \<^verbatim>\<open>float_compare\<close> of \<^verbatim>\<open>storage/common/bplus_tree.cpp\<close>). A key is the bytes of the
  indexed attributes followed by the eight bytes of a record identifier; the comparison reads them
  back as little endian integers, single precision floats and character arrays.
\<close>

section \<open>Reading values out of bytes\<close>

definition le_word :: "byte list \<Rightarrow> 32 word" where
  "le_word bs = word_of_int (foldr (\<lambda>b n. uint b + 256 * n) bs 0)"

definition read_int :: "byte list \<Rightarrow> nat \<Rightarrow> int" where
  "read_int mem off = sint (le_word (segment mem off 4))"

definition read_uint :: "byte list \<Rightarrow> nat \<Rightarrow> int" where
  "read_uint mem off = uint (le_word (segment mem off 4))"

definition int_bytes :: "int \<Rightarrow> byte list" where
  "int_bytes x = map (\<lambda>i. word_of_int (x div 256 ^ i)) [0..<4]"

definition rid_bytes :: "RID \<Rightarrow> byte list" where
  "rid_bytes rid = int_bytes (rid_page rid) @ int_bytes (rid_slot rid)"

definition read_rid :: "byte list \<Rightarrow> nat \<Rightarrow> RID" where
  "read_rid mem off = \<lparr>rid_page = read_int mem off, rid_slot = read_int mem (off + 4)\<rparr>"

subsection \<open>Single precision floats\<close>

text \<open>A finite float is a multiple of \<^verbatim>\<open>2^-149\<close>, here the integer multiplier.\<close>

datatype flt = Fin int | Inf bool | NaN

definition float_of :: "int \<Rightarrow> flt" where
  "float_of w = (let neg = 2 ^ 31 \<le> w; e = w div 2 ^ 23 mod 256; m = w mod 2 ^ 23;
       sg = (\<lambda>n :: int. if neg then - n else n)
     in if e = 255 then (if m = 0 then Inf neg else NaN)
        else if e = 0 then Fin (sg m)
        else Fin (sg ((2 ^ 23 + m) * 2 ^ nat (e - 1))))"

text \<open>Rounding to 24 significant bits, ties to even. \<^verbatim>\<open>round_by k n\<close> rounds \<^verbatim>\<open>n\<close> to a
  multiple of \<^verbatim>\<open>2^k\<close>.\<close>

definition round_by :: "nat \<Rightarrow> int \<Rightarrow> int" where
  "round_by k n = (let q = n div 2 ^ k; r = n mod 2 ^ k in
     if 2 * r < 2 ^ k \<or> 2 * r = 2 ^ k \<and> even q then q * 2 ^ k else (q + 1) * 2 ^ k)"

function excess_bits :: "int \<Rightarrow> nat" where
  "excess_bits n = (if n < 2 ^ 24 then 0 else Suc (excess_bits (n div 2)))"
  by pat_completeness auto
termination by (relation "measure nat") auto

declare excess_bits.simps [simp del]

definition flt_round :: "int \<Rightarrow> flt" where
  "flt_round n = (let a = round_by (excess_bits \<bar>n\<bar>) \<bar>n\<bar> in
     if a \<ge> 2 ^ 277 then Inf (n < 0) else Fin (if n < 0 then - a else a))"

fun flt_sub :: "flt \<Rightarrow> flt \<Rightarrow> flt" where
  "flt_sub (Fin a) (Fin b) = flt_round (a - b)"
| "flt_sub (Fin a) (Inf s) = Inf (\<not> s)"
| "flt_sub (Inf s) (Fin b) = Inf s"
| "flt_sub (Inf s) (Inf t) = (if s = t then NaN else Inf s)"
| "flt_sub _ _ = NaN"

text \<open>\<^verbatim>\<open>result < 1e-6 && result > -1e-6\<close>: the constant is not a multiple of
  \<^verbatim>\<open>2^-149\<close>, and no float lies between it and its double precision value.\<close>

definition float_compare :: "flt \<Rightarrow> flt \<Rightarrow> int" where
  "float_compare f1 f2 = (case flt_sub f1 f2 of
      Fin n \<Rightarrow> if \<bar>n\<bar> * 10 ^ 6 < 2 ^ 149 then 0 else if n > 0 then 1 else - 1
    | Inf neg \<Rightarrow> if neg then - 1 else 1
    | NaN \<Rightarrow> - 1)"

text \<open>The order of floats, false with a NaN.\<close>

fun flt_less :: "flt \<Rightarrow> flt \<Rightarrow> bool" where
  "flt_less (Fin a) (Fin b) = (a < b)"
| "flt_less (Fin a) (Inf s) = (\<not> s)"
| "flt_less (Inf s) (Fin b) = s"
| "flt_less (Inf s) (Inf t) = (s \<and> \<not> t)"
| "flt_less _ _ = False"

definition flt_equal :: "flt \<Rightarrow> flt \<Rightarrow> bool" where
  "flt_equal f1 f2 \<longleftrightarrow> f1 = f2 \<and> f1 \<noteq> NaN"

subsection \<open>Character arrays\<close>

fun strncmp :: "byte list \<Rightarrow> byte list \<Rightarrow> nat \<Rightarrow> int" where
  "strncmp (a # as) (b # bs) (Suc n) =
    (if a \<noteq> b then uint a - uint b else if a = 0 then 0 else strncmp as bs n)"
| "strncmp _ _ _ = 0"

section \<open>Comparing\<close>

definition CmpRid :: "RID \<Rightarrow> RID \<Rightarrow> int" where
  "CmpRid rid1 rid2 =
    (if rid_page rid1 > rid_page rid2 then 1
     else if rid_page rid1 < rid_page rid2 then - 1
     else if rid_slot rid1 > rid_slot rid2 then 1
     else if rid_slot rid1 < rid_slot rid2 then - 1
     else 0)"

text \<open>One attribute. After \<^verbatim>\<open>DATE\<close> the switch runs into its default, which only writes to
  the log, as it does for a type without a case.\<close>

definition compare_attr :: "AttrType \<Rightarrow> nat \<Rightarrow> byte list \<Rightarrow> byte list \<Rightarrow> nat \<Rightarrow> int" where
  "compare_attr t len pdata pkey off = (case t of
      INTS \<Rightarrow> (let i1 = read_int pdata off; i2 = read_int pkey off in if i1 > i2 then 1 else if i1 < i2 then - 1 else 0)
    | FLOATS \<Rightarrow> float_compare (float_of (read_uint pdata off)) (float_of (read_uint pkey off))
    | CHARS \<Rightarrow> strncmp (drop off pdata) (drop off pkey) len
    | DATE \<Rightarrow> (let d1 = read_uint pdata off; d2 = read_uint pkey off in if d1 > d2 then 1 else if d1 < d2 then - 1 else 0)
    | _ \<Rightarrow> 0)"

fun CompareKey :: "(AttrType \<times> nat) list \<Rightarrow> byte list \<Rightarrow> byte list \<Rightarrow> nat \<Rightarrow> int" where
  "CompareKey [] pdata pkey off = 0"
| "CompareKey ((t, len) # as) pdata pkey off =
    (let c = compare_attr t len pdata pkey off in if c \<noteq> 0 then c else CompareKey as pdata pkey (off + len))"

definition attrs_length :: "(AttrType \<times> nat) list \<Rightarrow> nat" where
  "attrs_length as = sum_list (map snd as)"

definition CmpKey :: "(AttrType \<times> nat) list \<Rightarrow> byte list \<Rightarrow> byte list \<Rightarrow> int" where
  "CmpKey as pdata pkey =
    (let result = CompareKey as pdata pkey 0 in
     if result \<noteq> 0 then result
     else CmpRid (read_rid pdata (attrs_length as)) (read_rid pkey (attrs_length as)))"

section \<open>The order behind the comparison\<close>

text \<open>What a comparison of two keys looks at, as a value of a linear order: the integers of integer
  and date attributes, the characters of a string up to its end, then the record identifier.\<close>

definition attr_norm :: "AttrType \<Rightarrow> nat \<Rightarrow> byte list \<Rightarrow> nat \<Rightarrow> int list" where
  "attr_norm t len key off = (case t of
      INTS \<Rightarrow> [read_int key off]
    | DATE \<Rightarrow> [read_uint key off]
    | CHARS \<Rightarrow> map uint (takeWhile (\<lambda>b. b \<noteq> 0) (take len (drop off key)))
    | _ \<Rightarrow> [])"

fun attrs_norm :: "(AttrType \<times> nat) list \<Rightarrow> byte list \<Rightarrow> nat \<Rightarrow> int list list" where
  "attrs_norm [] key off = []"
| "attrs_norm ((t, len) # as) key off = attr_norm t len key off # attrs_norm as key (off + len)"

definition key_norm :: "(AttrType \<times> nat) list \<Rightarrow> byte list \<Rightarrow> int list list \<times> int \<times> int" where
  "key_norm as key = (attrs_norm as key 0,
     rid_page (read_rid key (attrs_length as)), rid_slot (read_rid key (attrs_length as)))"

text \<open>Attributes whose comparison is an order: no floats, which are equal within a tolerance.\<close>

definition ordered_attrs :: "(AttrType \<times> nat) list \<Rightarrow> bool" where
  "ordered_attrs as \<longleftrightarrow> (\<forall>(t, len) \<in> set as. t \<noteq> FLOATS)"

lemma strncmp_order:
  assumes "length xs = length ys"
  shows "strncmp xs ys n < 0 \<longleftrightarrow> map uint (takeWhile (\<lambda>b. b \<noteq> 0) (take n xs)) < map uint (takeWhile (\<lambda>b. b \<noteq> 0) (take n ys))"
    "strncmp xs ys n = 0 \<longleftrightarrow> map uint (takeWhile (\<lambda>b. b \<noteq> 0) (take n xs)) = map uint (takeWhile (\<lambda>b. b \<noteq> 0) (take n ys))"
proof -
  have nonneg: "0 < uint (b :: byte) \<longleftrightarrow> uint b \<noteq> 0" for b
    using uint_ge_0 [of b] by linarith
  show "strncmp xs ys n < 0 \<longleftrightarrow> map uint (takeWhile (\<lambda>b. b \<noteq> 0) (take n xs)) < map uint (takeWhile (\<lambda>b. b \<noteq> 0) (take n ys))"
    using assms
    by (induction xs ys n rule: strncmp.induct) (auto simp: word_uint_eq_iff nonneg)
  show "strncmp xs ys n = 0 \<longleftrightarrow> map uint (takeWhile (\<lambda>b. b \<noteq> 0) (take n xs)) = map uint (takeWhile (\<lambda>b. b \<noteq> 0) (take n ys))"
    using assms
    by (induction xs ys n rule: strncmp.induct) (auto simp: word_uint_eq_iff)
qed

lemma compare_attr_order:
  assumes "length k1 = length k2" "t \<noteq> FLOATS"
  shows "compare_attr t len k1 k2 off < 0 \<longleftrightarrow> attr_norm t len k1 off < attr_norm t len k2 off"
    "compare_attr t len k1 k2 off = 0 \<longleftrightarrow> attr_norm t len k1 off = attr_norm t len k2 off"
  using strncmp_order [of "drop off k1" "drop off k2" len] assms
  by (cases t; simp add: compare_attr_def attr_norm_def Let_def)+

lemma CompareKey_sign:
  assumes "length k1 = length k2" "ordered_attrs as"
  shows "(CompareKey as k1 k2 off < 0 \<longleftrightarrow> attrs_norm as k1 off < attrs_norm as k2 off) \<and>
    (CompareKey as k1 k2 off = 0 \<longleftrightarrow> attrs_norm as k1 off = attrs_norm as k2 off)"
  using assms(2)
proof (induction "as" arbitrary: off)
  case (Cons a "as")
  obtain t len where a: "a = (t, len)" by fastforce
  have t: "t \<noteq> FLOATS" and rest: "ordered_attrs as" using Cons.prems a by (auto simp: ordered_attrs_def)
  show ?case
    using compare_attr_order [OF assms(1) t, of len off] Cons.IH [OF rest, of "off + len"] by (auto simp: a Let_def)
qed simp

lemmas CompareKey_order = CompareKey_sign [THEN conjunct1] CompareKey_sign [THEN conjunct2]

text \<open>A comparison that agrees with a linear order on keys of the same length.\<close>

locale key_order =
  fixes cmp :: "'k \<Rightarrow> 'k \<Rightarrow> int" and norm :: "'k \<Rightarrow> 'o :: linorder" and proper :: "'k \<Rightarrow> bool"
  assumes cmp_less: "proper k1 \<Longrightarrow> proper k2 \<Longrightarrow> cmp k1 k2 < 0 \<longleftrightarrow> norm k1 < norm k2"
    and cmp_equal: "proper k1 \<Longrightarrow> proper k2 \<Longrightarrow> cmp k1 k2 = 0 \<longleftrightarrow> norm k1 = norm k2"
begin

lemma cmp_greater: "proper k1 \<Longrightarrow> proper k2 \<Longrightarrow> cmp k1 k2 > 0 \<longleftrightarrow> norm k1 > norm k2"
  using cmp_less [of k1 k2] cmp_equal [of k1 k2] by (metis less_irrefl not_less_iff_gr_or_eq)

lemma cmp_antisym: "proper k1 \<Longrightarrow> proper k2 \<Longrightarrow> cmp k1 k2 < 0 \<longleftrightarrow> cmp k2 k1 > 0"
  by (simp add: cmp_less cmp_greater)

lemma cmp_trans: "proper k1 \<Longrightarrow> proper k2 \<Longrightarrow> proper k3 \<Longrightarrow> cmp k1 k2 < 0 \<Longrightarrow> cmp k2 k3 \<le> 0 \<Longrightarrow> cmp k1 k3 < 0"
  using cmp_less [of k1 k2] cmp_less [of k2 k3] cmp_equal [of k2 k3] cmp_less [of k1 k3]
  by (auto simp: order_le_less intro: less_trans)

end

lemma CmpKey_order:
  assumes "length k1 = length k2" "ordered_attrs as"
  shows "CmpKey as k1 k2 < 0 \<longleftrightarrow> key_norm as k1 < key_norm as k2"
    "CmpKey as k1 k2 = 0 \<longleftrightarrow> key_norm as k1 = key_norm as k2"
  using CompareKey_order [OF assms, of 0]
  by (auto simp: CmpKey_def key_norm_def CmpRid_def Let_def)

interpretation kc: key_order "CmpKey as" "key_norm as" "\<lambda>k. length k = n \<and> ordered_attrs as"
  for "as" :: "(AttrType \<times> nat) list" and n :: nat
  by unfold_locales (auto simp: CmpKey_order)

end
