(* ===== verification/Bplus_Node.thy ===== *)
theory Bplus_Node
  imports Key_Compare
begin

text \<open>
  The nodes of the B+ tree (\<^verbatim>\<open>storage/common/bplus_tree.h\<close>) and what the operations of
  \<^verbatim>\<open>bplus_tree.cpp\<close> do to the nodes they have in memory. A page of an index file is the
  file header, which only page 1 uses, and one node; \<^verbatim>\<open>get_index_node\<close> places
  \<^verbatim>\<open>order\<close> keys and \<^verbatim>\<open>order\<close> record identifiers behind it, here two lists. The
  identifier with index \<^verbatim>\<open>order - 1\<close> of a leaf is the page of the next leaf; an inner node
  keeps its children in the page numbers of the identifiers.

  A copy that would leave these arrays, or read an entry of a temporary array that has not been
  written, has no defined result, \<^verbatim>\<open>None\<close>. Counts and lengths, which the code keeps in
  \<^verbatim>\<open>int\<close> and never lets become negative, are natural numbers.
\<close>

section \<open>Data\<close>

record IndexFileHeader =
  attr_num :: nat
  attr_lengths :: "nat list"
  key_length :: nat
  attr_whole_length :: nat
  attr_types :: "AttrType list"
  root_page :: int
  node_num :: int
  order :: nat

record IndexNode =
  is_leaf :: bool
  key_num :: nat
  parent :: int
  keys :: "byte list list"
  rids :: "RID list"

record ix_page =
  ix_header :: IndexFileHeader
  ix_node :: IndexNode

definition header_attrs :: "IndexFileHeader \<Rightarrow> (AttrType \<times> nat) list" where
  "header_attrs fh = zip (take (attr_num fh) (attr_types fh)) (take (attr_num fh) (attr_lengths fh))"

text \<open>Sizes of the two structures, and the number of entries that fit into a page.\<close>

definition sizeof_IndexFileHeader :: nat where
  "sizeof_IndexFileHeader = 4 + 20 * 4 + 4 + 4 + 20 * 4 + 4 + 4 + 4"

definition sizeof_IndexNode :: nat where
  "sizeof_IndexNode = 4 + 4 + 4 + 4 + 8 + 8"

definition sizeof_RID :: nat where
  "sizeof_RID = 8"

definition index_order :: "nat \<Rightarrow> nat" where
  "index_order whole = (4092 - sizeof_IndexFileHeader - sizeof_IndexNode) div (whole + 2 * sizeof_RID)"

text \<open>The keys and the record identifiers lie behind the node and inside the page, one area after
  the other.\<close>

lemma index_order_fits:
  "sizeof_IndexFileHeader + sizeof_IndexNode + index_order whole * (sizeof_RID + whole) + index_order whole * sizeof_RID \<le> 4092"
proof -
  have "index_order whole * (whole + 2 * sizeof_RID) \<le> 4092 - sizeof_IndexFileHeader - sizeof_IndexNode"
    unfolding index_order_def by (rule div_times_less_eq_dividend)
  then show ?thesis
    by (simp add: sizeof_IndexFileHeader_def sizeof_IndexNode_def algebra_simps)
qed

section \<open>Copy loops\<close>

text \<open>\<^verbatim>\<open>for (i = n; i > pos; i--) xs[i] = xs[i - 1]\<close>\<close>

definition shift_up :: "'a list \<Rightarrow> nat \<Rightarrow> nat \<Rightarrow> 'a list" where
  "shift_up xs pos n = foldl (\<lambda>xs i. xs[i := xs ! (i - 1)]) xs (rev [Suc pos..<Suc n])"

text \<open>\<^verbatim>\<open>for (i = pos; i < n; i++) xs[i] = xs[i + 1]\<close>\<close>

definition shift_down :: "'a list \<Rightarrow> nat \<Rightarrow> nat \<Rightarrow> 'a list" where
  "shift_down xs pos n = foldl (\<lambda>xs i. xs[i := xs ! (i + 1)]) xs [pos..<n]"

text \<open>\<^verbatim>\<open>for (k = 0; k < n; k++) dst[d + k] = src[s + k]\<close>\<close>

definition copy_range :: "'a list \<Rightarrow> nat \<Rightarrow> 'a list \<Rightarrow> nat \<Rightarrow> nat \<Rightarrow> 'a list" where
  "copy_range dst d src s n = foldl (\<lambda>dst k. dst[d + k := src ! (s + k)]) dst [0..<n]"

text \<open>\<^verbatim>\<open>for (i = 0, j = 0; i < n; i++, j++) { if (j == pos) j++; tmp[j] = src[i]; }\<close>\<close>

definition gap_copy :: "'a list \<Rightarrow> 'a list \<Rightarrow> nat \<Rightarrow> nat \<Rightarrow> 'a list" where
  "gap_copy tmp src n pos = foldl (\<lambda>tmp i. tmp[(if i < pos then i else Suc i) := src ! i]) tmp [0..<n]"

lemma length_shift [simp]:
  "length (shift_up xs pos n) = length xs"
  "length (shift_down xs pos n) = length xs"
  "length (copy_range xs d src s n) = length xs"
  "length (gap_copy xs src n pos) = length xs"
proof -
  have "length (foldl (\<lambda>xs i. xs[f i := g xs i]) xs is) = length xs" for f and g :: "'a list \<Rightarrow> nat \<Rightarrow> 'a" and "is"
    by (induction "is" arbitrary: xs) auto
  then show "length (shift_up xs pos n) = length xs" "length (shift_down xs pos n) = length xs"
    "length (copy_range xs d src s n) = length xs" "length (gap_copy xs src n pos) = length xs"
    by (auto simp: shift_up_def shift_down_def copy_range_def gap_copy_def)
qed

lemma shift_up_nth:
  assumes "n < length xs" "i < length xs"
  shows "shift_up xs pos n ! i = (if pos < i \<and> i \<le> n then xs ! (i - 1) else xs ! i)"
  using assms
proof (induction n arbitrary: xs)
  case 0
  then show ?case by (simp add: shift_up_def)
next
  case (Suc n)
  show ?case
  proof (cases "pos < Suc n")
    case True
    then have "shift_up xs pos (Suc n) = shift_up (xs[Suc n := xs ! n]) pos n"
      by (simp add: shift_up_def)
    then show ?thesis using Suc True by (auto simp: nth_list_update)
  next
    case False
    then show ?thesis by (auto simp: shift_up_def)
  qed
qed

lemma shift_down_nth:
  assumes "n < length xs" "i < length xs"
  shows "shift_down xs pos n ! i = (if pos \<le> i \<and> i < n then xs ! Suc i else xs ! i)"
  using assms
proof (induction n)
  case 0
  then show ?case by (simp add: shift_down_def)
next
  case (Suc n)
  show ?case
  proof (cases "pos \<le> n")
    case True
    then have "shift_down xs pos (Suc n) = (shift_down xs pos n)[n := shift_down xs pos n ! Suc n]"
      by (simp add: shift_down_def)
    moreover have "shift_down xs pos n ! Suc n = xs ! Suc n"
      using Suc.prems
    proof -
      have "shift_down xs pos m ! Suc n = xs ! Suc n" if "m \<le> n" for m
        using that
      proof (induction m)
        case (Suc m)
        then show ?case by (cases "pos \<le> m") (auto simp: shift_down_def)
      qed (simp add: shift_down_def)
      then show ?thesis by simp
    qed
    ultimately show ?thesis using Suc True by (auto simp: nth_list_update less_Suc_eq)
  next
    case False
    then show ?thesis by (auto simp: shift_down_def)
  qed
qed

lemma copy_range_nth:
  assumes "d + n \<le> length dst" "i < length dst"
  shows "copy_range dst d src s n ! i = (if d \<le> i \<and> i < d + n then src ! (s + (i - d)) else dst ! i)"
  using assms
proof (induction n)
  case (Suc n)
  have "copy_range dst d src s (Suc n) = (copy_range dst d src s n)[d + n := src ! (s + n)]"
    by (simp add: copy_range_def)
  then show ?case using Suc by (auto simp: nth_list_update)
qed (auto simp: copy_range_def)

lemma gap_copy_nth:
  assumes "n < length tmp" "i < length tmp" "pos \<le> n"
  shows "gap_copy tmp src n pos ! i =
    (if i < pos then src ! i else if pos < i \<and> i \<le> n then src ! (i - 1) else tmp ! i)"
proof -
  have "gap_copy tmp src m pos ! i =
    (if i < pos \<and> i < m then src ! i else if pos < i \<and> i \<le> m then src ! (i - 1) else tmp ! i)" if "m \<le> n" for m
    using that
  proof (induction m)
    case (Suc m)
    have "gap_copy tmp src (Suc m) pos = (gap_copy tmp src m pos)[(if m < pos then m else Suc m) := src ! m]"
      by (simp add: gap_copy_def)
    then show ?case using Suc assms by (auto simp: nth_list_update)
  qed (auto simp: gap_copy_def)
  from this [of n] show ?thesis using assms by auto
qed

section \<open>Searching a node\<close>

text \<open>The first key that is greater: the child of an inner node to go to, the place of a new key.\<close>

fun child_index :: "('k \<Rightarrow> 'k \<Rightarrow> int) \<Rightarrow> 'k \<Rightarrow> 'k list \<Rightarrow> nat" where
  "child_index cmp pkey [] = 0"
| "child_index cmp pkey (k # ks) = (if cmp pkey k < 0 then 0 else Suc (child_index cmp pkey ks))"

text \<open>The same search where an equal key is an error.\<close>

fun leaf_pos :: "('k \<Rightarrow> 'k \<Rightarrow> int) \<Rightarrow> 'k \<Rightarrow> 'k list \<Rightarrow> RC + nat" where
  "leaf_pos cmp pkey [] = Inr 0"
| "leaf_pos cmp pkey (k # ks) =
    (let tmp = cmp pkey k in
     if tmp = 0 then Inl RECORD_DUPLICATE_KEY
     else if tmp < 0 then Inr 0
     else case leaf_pos cmp pkey ks of Inl rc \<Rightarrow> Inl rc | Inr i \<Rightarrow> Inr (Suc i))"

text \<open>The first equal key, or the number of keys.\<close>

fun key_index :: "('k \<Rightarrow> 'k \<Rightarrow> int) \<Rightarrow> 'k \<Rightarrow> 'k list \<Rightarrow> nat" where
  "key_index cmp pkey [] = 0"
| "key_index cmp pkey (k # ks) = (if cmp pkey k = 0 then 0 else Suc (key_index cmp pkey ks))"

text \<open>The first identifier with the given page number, or the number of identifiers.\<close>

fun rid_index :: "int \<Rightarrow> RID list \<Rightarrow> nat" where
  "rid_index p [] = 0"
| "rid_index p (r # rs) = (if rid_page r = p then 0 else Suc (rid_index p rs))"

section \<open>Changing a node\<close>

definition page_rid :: "int \<Rightarrow> RID" where
  "page_rid p = \<lparr>rid_page = p, rid_slot = - 1\<rparr>"

text \<open>\<^verbatim>\<open>insert_into_leaf\<close>\<close>

definition leaf_insert ::
    "(byte list \<Rightarrow> byte list \<Rightarrow> int) \<Rightarrow> byte list \<Rightarrow> RID \<Rightarrow> IndexNode \<Rightarrow> (RC + IndexNode) option" where
  "leaf_insert cmp pkey rid nd =
    (let n = key_num nd in
     if length (keys nd) < n then None
     else case leaf_pos cmp pkey (take n (keys nd)) of
         Inl rc \<Rightarrow> Some (Inl rc)
       | Inr pos \<Rightarrow>
           if n < length (keys nd) \<and> n < length (rids nd)
           then Some (Inr (nd\<lparr>keys := (shift_up (keys nd) pos n)[pos := pkey],
                              rids := (shift_up (rids nd) pos n)[pos := rid], key_num := n + 1\<rparr>))
           else None)"

text \<open>\<^verbatim>\<open>insert_into_leaf_after_split\<close>: the leaf, the new leaf and the first key of the new
  leaf. The temporary arrays have \<^verbatim>\<open>order\<close> and \<^verbatim>\<open>order + 1\<close> entries.\<close>

definition leaf_split ::
    "(byte list \<Rightarrow> byte list \<Rightarrow> int) \<Rightarrow> nat \<Rightarrow> byte list \<Rightarrow> RID \<Rightarrow> int \<Rightarrow> IndexNode \<Rightarrow> IndexNode \<Rightarrow>
     (IndexNode \<times> IndexNode \<times> byte list) option" where
  "leaf_split cmp ord pkey rid right_page leaf new_node =
    (let n = key_num leaf in
     if n + 1 = ord \<and> length (keys leaf) = ord \<and> length (rids leaf) = ord \<and>
        length (keys new_node) = ord \<and> length (rids new_node) = ord
     then let insert_pos = child_index cmp pkey (take n (keys leaf));
         temp_keys = (gap_copy (replicate ord []) (keys leaf) n insert_pos)[insert_pos := pkey];
         temp_pointers = (gap_copy (replicate (ord + 1) (page_rid 0)) (rids leaf) n insert_pos)[insert_pos := rid];
         split = ord div 2;
         leaf1 = leaf\<lparr>keys := copy_range (keys leaf) 0 temp_keys 0 split,
                      rids := copy_range (rids leaf) 0 temp_pointers 0 split, key_num := split\<rparr>;
         new1 = new_node\<lparr>keys := copy_range (keys new_node) 0 temp_keys split (ord - split),
                         rids := copy_range (rids new_node) 0 temp_pointers split (ord - split),
                         key_num := key_num new_node + (ord - split)\<rparr>;
         new2 = new1\<lparr>rids := (rids new1)[ord - 1 := rids leaf1 ! (ord - 1)]\<rparr>;
         leaf2 = leaf1\<lparr>rids := (rids leaf1)[ord - 1 := page_rid right_page]\<rparr>
       in Some (leaf2, new2, keys new2 ! 0)
     else None)"

text \<open>\<^verbatim>\<open>insert_intern_node\<close>\<close>

definition intern_insert :: "int \<Rightarrow> int \<Rightarrow> byte list \<Rightarrow> IndexNode \<Rightarrow> IndexNode option" where
  "intern_insert left_page right_page pkey nd =
    (let n = key_num nd; insert_pos = rid_index left_page (take (n + 1) (rids nd)) in
     if n + 1 < length (rids nd) \<and> n < length (keys nd) \<and>
        insert_pos + 1 < length (rids nd) \<and> insert_pos < length (keys nd)
     then Some (nd\<lparr>rids := (shift_up (rids nd) (insert_pos + 1) (n + 1))[insert_pos + 1 := page_rid right_page],
                   keys := (shift_up (keys nd) insert_pos n)[insert_pos := pkey], key_num := n + 1\<rparr>)
     else None)"

text \<open>\<^verbatim>\<open>insert_intern_node_after_split\<close>: the node, the new node and the key between them.\<close>

definition intern_split ::
    "nat \<Rightarrow> int \<Rightarrow> int \<Rightarrow> byte list \<Rightarrow> IndexNode \<Rightarrow> IndexNode \<Rightarrow> (IndexNode \<times> IndexNode \<times> byte list) option" where
  "intern_split ord left_page right_page pkey inter_node new_node =
    (let n = key_num inter_node; insert_pos = rid_index left_page (take (n + 1) (rids inter_node)) in
     if n + 1 = ord \<and> insert_pos \<le> n \<and> length (keys inter_node) = ord \<and> length (rids inter_node) = ord \<and>
        length (keys new_node) = ord \<and> length (rids new_node) = ord
     then let
         temp_pointers = (gap_copy (replicate (ord + 1) (page_rid 0)) (rids inter_node) (n + 1) (insert_pos + 1))
           [insert_pos + 1 := page_rid right_page];
         temp_keys = (gap_copy (replicate ord []) (keys inter_node) n insert_pos)[insert_pos := pkey];
         split = (ord + 1) div 2;
         inter1 = inter_node\<lparr>keys := copy_range (keys inter_node) 0 temp_keys 0 (split - 1),
                             rids := (copy_range (rids inter_node) 0 temp_pointers 0 (split - 1))
                               [split - 1 := temp_pointers ! (split - 1)],
                             key_num := split - 1\<rparr>;
         new1 = new_node\<lparr>keys := copy_range (keys new_node) 0 temp_keys split (ord - split),
                         rids := (copy_range (rids new_node) 0 temp_pointers split (ord - split))
                           [ord - split := temp_pointers ! ord],
                         key_num := key_num new_node + (ord - split)\<rparr>
       in Some (inter1, new1, temp_keys ! (split - 1))
     else None)"

text \<open>\<^verbatim>\<open>insert_into_new_root\<close>\<close>

definition new_root_node :: "int \<Rightarrow> byte list \<Rightarrow> int \<Rightarrow> IndexNode \<Rightarrow> IndexNode option" where
  "new_root_node left_page pkey right_page nd =
    (if 0 < length (keys nd) \<and> 1 < length (rids nd)
     then Some (nd\<lparr>is_leaf := False, key_num := 1, parent := - 1, keys := (keys nd)[0 := pkey],
                   rids := (rids nd)[0 := page_rid left_page, 1 := page_rid right_page]\<rparr>)
     else None)"

text \<open>\<^verbatim>\<open>delete_entry_from_node\<close>\<close>

definition node_delete ::
    "(byte list \<Rightarrow> byte list \<Rightarrow> int) \<Rightarrow> byte list \<Rightarrow> IndexNode \<Rightarrow> (RC + IndexNode) option" where
  "node_delete cmp pkey nd =
    (let n = key_num nd in
     if length (keys nd) < n then None
     else let delete_index = key_index cmp pkey (take n (keys nd)) in
       if delete_index \<ge> n then Some (Inl RECORD_INVALID_KEY)
       else if is_leaf nd \<and> n \<le> length (rids nd)
       then Some (Inr (nd\<lparr>keys := shift_down (keys nd) delete_index (n - 1),
                          rids := shift_down (rids nd) delete_index (n - 1), key_num := n - 1\<rparr>))
       else if \<not> is_leaf nd \<and> n < length (rids nd)
       then Some (Inr (nd\<lparr>keys := shift_down (keys nd) delete_index (n - 1),
                          rids := shift_down (rids nd) (delete_index + 1) n, key_num := n - 1\<rparr>))
       else None)"

text \<open>\<^verbatim>\<open>coalesce_node\<close>: the left node with the entries of the right one behind its own, and
  the index of the first identifier taken over. An inner node takes the key of the parent between
  them.\<close>

definition coalesce :: "nat \<Rightarrow> byte list \<Rightarrow> IndexNode \<Rightarrow> IndexNode \<Rightarrow> (IndexNode \<times> nat) option" where
  "coalesce ord sep left right =
    (let nl = key_num left; nr = key_num right in
     if is_leaf left
     then if nl + nr \<le> length (keys left) \<and> nl + nr \<le> length (rids left) \<and> ord - 1 < length (rids left) \<and>
             nr \<le> length (keys right) \<and> nr \<le> length (rids right) \<and> ord - 1 < length (rids right)
       then Some (left\<lparr>keys := copy_range (keys left) nl (keys right) 0 nr,
           rids := (copy_range (rids left) nl (rids right) 0 nr)[ord - 1 := rids right ! (ord - 1)],
           key_num := nl + nr\<rparr>, nl)
       else None
     else let start = nl + 1 in
       if start + nr \<le> length (keys left) \<and> start + nr < length (rids left) \<and>
          nr \<le> length (keys right) \<and> nr < length (rids right)
       then Some (left\<lparr>keys := copy_range ((keys left)[nl := sep]) start (keys right) 0 nr,
           rids := (copy_range (rids left) start (rids right) 0 nr)[start + nr := rids right ! nr],
           key_num := start + nr\<rparr>, start)
       else None)"

text \<open>\<^verbatim>\<open>redistribute_nodes\<close> for two leaves: the leaves and the new key of the parent. When an
  entry moves to the right, its record identifier is not copied.\<close>

definition redistribute_leaves :: "nat \<Rightarrow> IndexNode \<Rightarrow> IndexNode \<Rightarrow> (IndexNode \<times> IndexNode \<times> byte list) option" where
  "redistribute_leaves ord left right =
    (let nl = key_num left; nr = key_num right in
     if nl < ord div 2
     then if nl < length (keys left) \<and> nl < length (rids left) \<and> 0 < nr \<and> nr \<le> length (keys right) \<and> nr \<le> length (rids right)
       then let right1 = right\<lparr>keys := shift_down (keys right) 0 (nr - 1), rids := shift_down (rids right) 0 (nr - 1), key_num := nr - 1\<rparr>
         in Some (left\<lparr>keys := (keys left)[nl := keys right ! 0], rids := (rids left)[nl := rids right ! 0], key_num := nl + 1\<rparr>,
              right1, keys right1 ! 0)
       else None
     else if nr < length (keys right) \<and> nr < length (rids right) \<and> 0 < nl \<and> nl \<le> length (keys left)
       then let right1 = right\<lparr>keys := (shift_up (keys right) 0 nr)[0 := keys left ! (nl - 1)],
                               rids := shift_up (rids right) 0 nr, key_num := nr + 1\<rparr>
         in Some (left\<lparr>key_num := nl - 1\<rparr>, right1, keys right1 ! 0)
       else None)"

text \<open>\<^verbatim>\<open>redistribute_nodes\<close> for two inner nodes: the nodes, the new key of the parent, the page
  of the child that moves, and whether it moves to the left node. The loops leave the last child of
  the right node where it is.\<close>

definition redistribute_inner ::
    "nat \<Rightarrow> byte list \<Rightarrow> IndexNode \<Rightarrow> IndexNode \<Rightarrow> (IndexNode \<times> IndexNode \<times> byte list \<times> int \<times> bool) option" where
  "redistribute_inner ord sep left right =
    (let nl = key_num left; nr = key_num right in
     if nl < (ord + 1) div 2 - 1
     then if nl < length (keys left) \<and> nl + 1 < length (rids left) \<and> 0 < nr \<and> nr \<le> length (keys right) \<and> nr \<le> length (rids right)
       then let left1 = left\<lparr>keys := (keys left)[nl := sep], rids := (rids left)[nl + 1 := rids right ! 0], key_num := nl + 1\<rparr>
         in Some (left1,
              right\<lparr>keys := shift_down (keys right) 0 (nr - 1), rids := shift_down (rids right) 0 (nr - 1), key_num := nr - 1\<rparr>,
              keys right ! 0, rid_page (rids left1 ! (nl + 1)), True)
       else None
     else if nr < length (keys right) \<and> nr < length (rids right) \<and> 0 < nl \<and> nl \<le> length (keys left) \<and> nl < length (rids left)
       then let right1 = right\<lparr>keys := (shift_up (keys right) 0 nr)[0 := sep],
                               rids := (shift_up (rids right) 0 nr)[0 := rids left ! nl], key_num := nr + 1\<rparr>
         in Some (left\<lparr>key_num := nl - 1\<rparr>, right1, keys left ! (nl - 1), rid_page (rids right1 ! 0), False)
       else None)"

end
