(* ===== verification/Bplus_Tree.thy ===== *)
theory Bplus_Tree
  imports Bplus_Node
begin

text \<open>
  The operations of \<^verbatim>\<open>BplusTreeHandler\<close> (\<^verbatim>\<open>storage/common/bplus_tree.cpp\<close>) over
  the operations of the buffer pool. The handler object is the first component of the state, the pool
  the second. A node is read when the code obtains the pointer to it and written back as a whole
  where the code has finished changing it, before the next operation of the pool that can fail.

  \<^verbatim>\<open>malloc\<close> does not fail in the model. Walks along the tree, which the code bounds by nothing
  but the shape of the tree, take a bound on the number of their steps, \<^verbatim>\<open>tree_fuel\<close>: a walk
  that does not meet a page twice is shorter, since a file has fewer pages.
\<close>

section \<open>State\<close>

record bt_handler =
  bt_pool :: bool
  bt_file_id :: int
  header_dirty :: bool
  file_header :: IndexFileHeader

definition empty_header :: IndexFileHeader where
  "empty_header = \<lparr>attr_num = 0, attr_lengths = [], key_length = 0, attr_whole_length = 0, attr_types = [],
     root_page = 0, node_num = 0, order = 0\<rparr>"

definition bt_new :: bt_handler where
  "bt_new = \<lparr>bt_pool = False, bt_file_id = - 1, header_dirty = False, file_header = empty_header\<rparr>"

definition tree_fuel :: nat where
  "tree_fuel = 2 ^ 15"

type_synonym ('s, 'a) tree_op = "(bt_handler \<times> 's, 'a) M"

text \<open>The file to use; without an open file \<^verbatim>\<open>disk_buffer_pool_\<close> is a null pointer.\<close>

definition get_fid :: "('s, int) tree_op" where
  "get_fid = bindE (gets fst) (\<lambda>h. if bt_pool h then ret (bt_file_id h) else undef)"

definition get_header :: "('s, IndexFileHeader) tree_op" where
  "get_header = gets (\<lambda>(h, _). file_header h)"

definition handler_cmp :: "IndexFileHeader \<Rightarrow> byte list \<Rightarrow> byte list \<Rightarrow> int" where
  "handler_cmp fh = CmpKey (header_attrs fh)"

section \<open>Getting at a node\<close>

text \<open>\<^verbatim>\<open>get_this_page\<close>, \<^verbatim>\<open>get_data\<close>, \<^verbatim>\<open>get_index_node\<close>\<close>

definition fetch :: "('s, ix_page) pool_ops \<Rightarrow> int \<Rightarrow> ('s, BPPageHandle \<times> IndexNode) tree_op" where
  "fetch ops p = bindE get_fid (\<lambda>fid.
     bindE (pool_op (op_get_this_page ops fid p)) (\<lambda>ph.
     bindE (pool_op (op_get_data ops ph)) (\<lambda>d. ret (ph, ix_node d))))"

text \<open>\<^verbatim>\<open>allocate_page\<close>, \<^verbatim>\<open>get_data\<close>, \<^verbatim>\<open>get_page_num\<close>\<close>

definition fetch_new :: "('s, ix_page) pool_ops \<Rightarrow> ('s, BPPageHandle \<times> IndexNode \<times> int) tree_op" where
  "fetch_new ops = bindE get_fid (\<lambda>fid.
     bindE (pool_op (op_allocate_page ops fid)) (\<lambda>ph.
     bindE (pool_op (op_get_data ops ph)) (\<lambda>d.
     bindE (pool_op (op_get_page_num ops ph)) (\<lambda>pn. ret (ph, ix_node d, pn)))))"

text \<open>Writing a node through a pointer into its page.\<close>

definition store :: "('s, ix_page) pool_ops \<Rightarrow> BPPageHandle \<Rightarrow> IndexNode \<Rightarrow> ('s, unit) tree_op" where
  "store ops ph nd = bindE (pool_op (op_peek_data ops ph)) (\<lambda>d. pool_op (op_put_data ops ph (d\<lparr>ix_node := nd\<rparr>)))"

definition unpin :: "('s, ix_page) pool_ops \<Rightarrow> BPPageHandle \<Rightarrow> ('s, unit) tree_op" where
  "unpin ops ph = bindE (pool_op (op_unpin_page ops ph)) (\<lambda>_. ret ())"

text \<open>\<^verbatim>\<open>mark_dirty\<close>, \<^verbatim>\<open>unpin_page\<close>\<close>

definition finish :: "('s, ix_page) pool_ops \<Rightarrow> BPPageHandle \<Rightarrow> ('s, unit) tree_op" where
  "finish ops ph = bindE (pool_op (op_mark_dirty ops ph)) (\<lambda>_. unpin ops ph)"

text \<open>The five steps that give a node another parent.\<close>

definition set_parent :: "('s, ix_page) pool_ops \<Rightarrow> int \<Rightarrow> int \<Rightarrow> ('s, unit) tree_op" where
  "set_parent ops child p = bindE (fetch ops child) (\<lambda>(ph, nd).
     bindE (store ops ph (nd\<lparr>parent := p\<rparr>)) (\<lambda>_. finish ops ph))"

fun set_parents :: "('s, ix_page) pool_ops \<Rightarrow> RID list \<Rightarrow> int \<Rightarrow> ('s, unit) tree_op" where
  "set_parents ops [] p = ret ()"
| "set_parents ops (r # rs) p = bindE (set_parent ops (rid_page r) p) (\<lambda>_. set_parents ops rs p)"

section \<open>Files\<close>

definition bt_sync :: "('s, ix_page) pool_ops \<Rightarrow> ('s, unit) tree_op" where
  "bt_sync ops = bindE get_fid (\<lambda>fid. pool_op (op_flush_all_pages ops fid))"

text \<open>The header that \<^verbatim>\<open>create\<close> writes into the first page.\<close>

definition created_header :: "AttrType list \<Rightarrow> nat list \<Rightarrow> int \<Rightarrow> IndexFileHeader" where
  "created_header types lengths pn =
    (let whole = sum_list lengths in
     \<lparr>attr_num = length types, attr_lengths = lengths, key_length = sizeof_RID + whole,
      attr_whole_length = whole, attr_types = types, root_page = pn, node_num = 1, order = index_order whole\<rparr>)"

definition bt_create :: "('s, ix_page) pool_ops \<Rightarrow> string \<Rightarrow> AttrType list \<Rightarrow> nat list \<Rightarrow> ('s, unit) tree_op" where
  "bt_create ops name types lengths = bindE (pool_op (op_create_file ops name)) (\<lambda>_.
     bindE (pool_op (op_open_file ops name)) (\<lambda>fid.
     bindE (pool_op (op_allocate_page ops fid)) (\<lambda>ph.
     bindE (pool_op (op_get_data ops ph)) (\<lambda>d.
     bindE (pool_op (op_get_page_num ops ph)) (\<lambda>pn.
     let fh = created_header types lengths pn in
     bindE (pool_op (op_put_data ops ph (d\<lparr>ix_header := fh,
         ix_node := (ix_node d)\<lparr>is_leaf := True, key_num := 0, parent := - 1\<rparr>\<rparr>))) (\<lambda>_.
     bindE (finish ops ph) (\<lambda>_.
     upd_handler (\<lambda>h. h\<lparr>bt_pool := True, bt_file_id := fid, file_header := fh, header_dirty := False\<rparr>))))))))"

definition bt_open :: "('s, ix_page) pool_ops \<Rightarrow> string \<Rightarrow> ('s, unit) tree_op" where
  "bt_open ops name = bindE (gets fst) (\<lambda>h.
     if bt_pool h then fail RECORD_OPENNED
     else bindE (pool_op (op_open_file ops name)) (\<lambda>fid.
       bindE (pool_op (op_get_this_page ops fid 1)) (\<lambda>ph.
       bindE (pool_op (op_get_data ops ph)) (\<lambda>d.
       bindE (upd_handler (\<lambda>h. h\<lparr>file_header := ix_header d, header_dirty := False, bt_pool := True, bt_file_id := fid\<rparr>)) (\<lambda>_.
       unpin ops ph)))))"

definition bt_close :: "('s, ix_page) pool_ops \<Rightarrow> ('s, unit) tree_op" where
  "bt_close ops = bindE (gets fst) (\<lambda>h.
     if \<not> bt_pool h then undef
     else bindE (ignoring (bt_sync ops)) (\<lambda>_.
       bindE (ignoring (pool_op (op_close_file ops (bt_file_id h)))) (\<lambda>_.
       upd_handler (\<lambda>h. h\<lparr>bt_file_id := - 1, bt_pool := False\<rparr>))))"

section \<open>Looking up\<close>

text \<open>The loop of \<^verbatim>\<open>find_leaf\<close>. The child pointer is read after the page has been unpinned.\<close>

fun find_leaf_loop :: "('s, ix_page) pool_ops \<Rightarrow> IndexFileHeader \<Rightarrow> byte list \<Rightarrow> nat \<Rightarrow> BPPageHandle \<Rightarrow> IndexNode \<Rightarrow> ('s, int) tree_op" where
  "find_leaf_loop ops fh pkey 0 ph nd = undef"
| "find_leaf_loop ops fh pkey (Suc n) ph nd =
    (if is_leaf nd
     then bindE (pool_op (op_get_page_num ops ph)) (\<lambda>pn. bindE (unpin ops ph) (\<lambda>_. ret pn))
     else if key_num nd \<le> length (keys nd) \<and> key_num nd < length (rids nd)
     then let i = child_index (handler_cmp fh) pkey (take (key_num nd) (keys nd)) in
       bindE (unpin ops ph) (\<lambda>_.
       bindE (fetch ops (rid_page (rids nd ! i))) (\<lambda>(ph', nd').
       find_leaf_loop ops fh pkey n ph' nd'))
     else undef)"

definition find_leaf :: "('s, ix_page) pool_ops \<Rightarrow> byte list \<Rightarrow> ('s, int) tree_op" where
  "find_leaf ops pkey = bindE get_header (\<lambda>fh.
     bindE (fetch ops (root_page fh)) (\<lambda>(ph, nd). find_leaf_loop ops fh pkey tree_fuel ph nd))"

text \<open>The key that is searched for: the attribute values and the record identifier.\<close>

definition make_key :: "IndexFileHeader \<Rightarrow> byte list \<Rightarrow> RID \<Rightarrow> byte list option" where
  "make_key fh pkey rid =
    (if attr_whole_length fh \<le> length pkey then Some (take (attr_whole_length fh) pkey @ rid_bytes rid) else None)"

text \<open>\<^verbatim>\<open>get_entry\<close> leaves the page of the leaf pinned.\<close>

definition get_entry :: "('s, ix_page) pool_ops \<Rightarrow> byte list \<Rightarrow> RID \<Rightarrow> ('s, RID) tree_op" where
  "get_entry ops pkey rid = bindE get_header (\<lambda>fh.
     bindE (lift_opt (make_key fh pkey rid)) (\<lambda>key.
     bindE (find_leaf ops key) (\<lambda>leaf_page.
     bindE (fetch ops leaf_page) (\<lambda>(ph, leaf).
     if length (keys leaf) < key_num leaf \<or> length (rids leaf) < key_num leaf then undef
     else let i = key_index (handler_cmp fh) key (take (key_num leaf) (keys leaf)) in
       if i < key_num leaf then ret (rids leaf ! i) else fail RECORD_INVALID_KEY))))"

text \<open>\<^verbatim>\<open>get_first_leaf_page\<close>\<close>

fun first_leaf_loop :: "('s, ix_page) pool_ops \<Rightarrow> nat \<Rightarrow> BPPageHandle \<Rightarrow> IndexNode \<Rightarrow> ('s, int) tree_op" where
  "first_leaf_loop ops 0 ph nd = undef"
| "first_leaf_loop ops (Suc n) ph nd =
    (if is_leaf nd
     then bindE (pool_op (op_get_page_num ops ph)) (\<lambda>pn. bindE (unpin ops ph) (\<lambda>_. ret pn))
     else if rids nd = [] then undef
     else bindE (unpin ops ph) (\<lambda>_.
       bindE (fetch ops (rid_page (rids nd ! 0))) (\<lambda>(ph', nd'). first_leaf_loop ops n ph' nd')))"

definition get_first_leaf_page :: "('s, ix_page) pool_ops \<Rightarrow> ('s, int) tree_op" where
  "get_first_leaf_page ops = bindE get_header (\<lambda>fh.
     bindE (fetch ops (root_page fh)) (\<lambda>(ph, nd). first_leaf_loop ops tree_fuel ph nd))"

section \<open>Inserting\<close>

definition insert_into_leaf :: "('s, ix_page) pool_ops \<Rightarrow> int \<Rightarrow> byte list \<Rightarrow> RID \<Rightarrow> ('s, unit) tree_op" where
  "insert_into_leaf ops leaf_page pkey rid = bindE get_header (\<lambda>fh.
     bindE (fetch ops leaf_page) (\<lambda>(ph, nd).
     bindE (lift_opt (leaf_insert (handler_cmp fh) pkey rid nd)) (\<lambda>r. case r of
        Inl rc \<Rightarrow> fail rc
      | Inr nd' \<Rightarrow> bindE (store ops ph nd') (\<lambda>_. finish ops ph))))"

definition insert_intern_node :: "('s, ix_page) pool_ops \<Rightarrow> int \<Rightarrow> int \<Rightarrow> int \<Rightarrow> byte list \<Rightarrow> ('s, unit) tree_op" where
  "insert_intern_node ops parent_page left_page right_page pkey =
     bindE (fetch ops parent_page) (\<lambda>(ph, nd).
     bindE (lift_opt (intern_insert left_page right_page pkey nd)) (\<lambda>nd'.
     bindE (store ops ph nd') (\<lambda>_. finish ops ph)))"

definition insert_into_new_root :: "('s, ix_page) pool_ops \<Rightarrow> int \<Rightarrow> byte list \<Rightarrow> int \<Rightarrow> ('s, unit) tree_op" where
  "insert_into_new_root ops left_page pkey right_page =
     bindE (fetch_new ops) (\<lambda>(ph, nd, root).
     bindE (lift_opt (new_root_node left_page pkey right_page nd)) (\<lambda>nd'.
     bindE (store ops ph nd') (\<lambda>_.
     bindE (finish ops ph) (\<lambda>_.
     bindE (set_parent ops left_page root) (\<lambda>_.
     bindE (set_parent ops right_page root) (\<lambda>_.
     upd_handler (\<lambda>h. h\<lparr>file_header := (file_header h)\<lparr>root_page := root\<rparr>, header_dirty := True\<rparr>)))))))"

text \<open>\<^verbatim>\<open>insert_intern_node_after_split\<close> without its last call, giving the arguments of that
  call: the parent of the node, the new key and the new page.\<close>

definition split_intern_node :: "('s, ix_page) pool_ops \<Rightarrow> int \<Rightarrow> int \<Rightarrow> int \<Rightarrow> byte list \<Rightarrow> ('s, int \<times> byte list \<times> int) tree_op" where
  "split_intern_node ops inter_page left_page right_page pkey = bindE get_header (\<lambda>fh.
     bindE (fetch ops inter_page) (\<lambda>(ph1, inter_node).
     bindE (fetch_new ops) (\<lambda>(ph2, nd, page2).
     let new_node = nd\<lparr>key_num := 0, is_leaf := False, parent := parent inter_node\<rparr> in
     bindE (lift_opt (intern_split (order fh) left_page right_page pkey inter_node new_node)) (\<lambda>(inter', new', new_key).
     bindE (store ops ph1 inter') (\<lambda>_.
     bindE (store ops ph2 new') (\<lambda>_.
     bindE (set_parents ops (take (key_num new' + 1) (rids new')) page2) (\<lambda>_.
     bindE (finish ops ph1) (\<lambda>_.
     bindE (finish ops ph2) (\<lambda>_. ret (parent inter_node, new_key, page2))))))))))"

text \<open>\<^verbatim>\<open>insert_into_parent\<close>, with \<^verbatim>\<open>insert_intern_node_after_split\<close> calling it again.\<close>

fun insert_into_parent :: "('s, ix_page) pool_ops \<Rightarrow> nat \<Rightarrow> int \<Rightarrow> int \<Rightarrow> byte list \<Rightarrow> int \<Rightarrow> ('s, unit) tree_op" where
  "insert_into_parent ops 0 parent_page left_page pkey right_page = undef"
| "insert_into_parent ops (Suc n) parent_page left_page pkey right_page =
    (if parent_page = - 1 then insert_into_new_root ops left_page pkey right_page
     else bindE get_header (\<lambda>fh.
       bindE (fetch ops parent_page) (\<lambda>(ph, nd).
       bindE (unpin ops ph) (\<lambda>_.
       if key_num nd + 1 < order fh then insert_intern_node ops parent_page left_page right_page pkey
       else bindE (split_intern_node ops parent_page left_page right_page pkey) (\<lambda>(parent_page', new_key, page2).
         insert_into_parent ops n parent_page' parent_page new_key page2)))))"

definition insert_intern_node_after_split :: "('s, ix_page) pool_ops \<Rightarrow> nat \<Rightarrow> int \<Rightarrow> int \<Rightarrow> int \<Rightarrow> byte list \<Rightarrow> ('s, unit) tree_op" where
  "insert_intern_node_after_split ops n inter_page left_page right_page pkey =
     bindE (split_intern_node ops inter_page left_page right_page pkey) (\<lambda>(parent_page, new_key, page2).
       insert_into_parent ops n parent_page inter_page new_key page2)"

definition insert_into_leaf_after_split :: "('s, ix_page) pool_ops \<Rightarrow> int \<Rightarrow> byte list \<Rightarrow> RID \<Rightarrow> ('s, unit) tree_op" where
  "insert_into_leaf_after_split ops leaf_page pkey rid = bindE get_header (\<lambda>fh.
     bindE (fetch ops leaf_page) (\<lambda>(ph1, leaf).
     bindE (fetch_new ops) (\<lambda>(ph2, nd, page2).
     let new_node = nd\<lparr>key_num := 0, is_leaf := True, parent := parent leaf\<rparr> in
     bindE (lift_opt (leaf_split (handler_cmp fh) (order fh) pkey rid page2 leaf new_node)) (\<lambda>(leaf', new', new_key).
     bindE (store ops ph1 leaf') (\<lambda>_.
     bindE (store ops ph2 new') (\<lambda>_.
     bindE (finish ops ph1) (\<lambda>_.
     bindE (finish ops ph2) (\<lambda>_.
     insert_into_parent ops tree_fuel (parent leaf) leaf_page new_key page2))))))))"

text \<open>\<^verbatim>\<open>insert_entry\<close> returns success whatever \<^verbatim>\<open>insert_into_leaf_after_split\<close>
  returns.\<close>

definition insert_entry :: "('s, ix_page) pool_ops \<Rightarrow> byte list \<Rightarrow> RID \<Rightarrow> ('s, unit) tree_op" where
  "insert_entry ops pkey rid = bindE (gets fst) (\<lambda>h.
     if \<not> bt_pool h then fail RECORD_CLOSED
     else bindE get_header (\<lambda>fh.
       bindE (lift_opt (make_key fh pkey rid)) (\<lambda>key.
       bindE (find_leaf ops key) (\<lambda>leaf_page.
       bindE (fetch ops leaf_page) (\<lambda>(ph, leaf).
       bindE (unpin ops ph) (\<lambda>_.
       if key_num leaf + 1 < order fh then insert_into_leaf ops leaf_page key rid
       else ignoring (insert_into_leaf_after_split ops leaf_page key rid)))))))"

section \<open>Deleting\<close>

text \<open>\<^verbatim>\<open>delete_entry_from_node\<close> leaves the page pinned when it does not find the key.\<close>

definition delete_entry_from_node :: "('s, ix_page) pool_ops \<Rightarrow> int \<Rightarrow> byte list \<Rightarrow> ('s, unit) tree_op" where
  "delete_entry_from_node ops node_page pkey = bindE get_header (\<lambda>fh.
     bindE (fetch ops node_page) (\<lambda>(ph, nd).
     bindE (lift_opt (node_delete (handler_cmp fh) pkey nd)) (\<lambda>r. case r of
        Inl rc \<Rightarrow> fail rc
      | Inr nd' \<Rightarrow> bindE (store ops ph nd') (\<lambda>_. finish ops ph))))"

text \<open>The key of the parent between a node and its right neighbour: the index is that of the left
  node among the first \<^verbatim>\<open>key_num\<close> children, or \<^verbatim>\<open>key_num\<close>.\<close>

definition separator_index :: "int \<Rightarrow> IndexNode \<Rightarrow> nat option" where
  "separator_index left_page par =
    (if length (rids par) < key_num par then None
     else let k = rid_index left_page (take (key_num par) (rids par)) in
       if k < length (keys par) then Some k else None)"

text \<open>\<^verbatim>\<open>coalesce_node\<close> without its last call, giving the arguments of that call: the page of the
  parent and the key to delete from it.\<close>

definition merge_nodes :: "('s, ix_page) pool_ops \<Rightarrow> int \<Rightarrow> int \<Rightarrow> ('s, int \<times> byte list) tree_op" where
  "merge_nodes ops left_page right_page = bindE get_header (\<lambda>fh.
     bindE (fetch ops left_page) (\<lambda>(phl, left).
     bindE (fetch ops right_page) (\<lambda>(phr, right).
     bindE (fetch ops (parent left)) (\<lambda>(php, par).
     bindE (lift_opt (separator_index left_page par)) (\<lambda>k.
     bindE (lift_opt (coalesce (order fh) (keys par ! k) left right)) (\<lambda>(left', start).
     bindE (store ops phl left') (\<lambda>_.
     bindE (if is_leaf left then ret ()
            else set_parents ops (drop start (take (key_num left' + 1) (rids left'))) left_page) (\<lambda>_.
     bindE (finish ops phl) (\<lambda>_.
     bindE (unpin ops phr) (\<lambda>_.
     bindE get_fid (\<lambda>fid.
     bindE (pool_op (op_dispose_page ops fid right_page)) (\<lambda>_.
     bindE (unpin ops php) (\<lambda>_. ret (parent left, keys par ! k))))))))))))))"

definition redistribute_nodes :: "('s, ix_page) pool_ops \<Rightarrow> int \<Rightarrow> int \<Rightarrow> ('s, unit) tree_op" where
  "redistribute_nodes ops left_page right_page = bindE get_header (\<lambda>fh.
     bindE (fetch ops left_page) (\<lambda>(phl, left).
     bindE (fetch ops right_page) (\<lambda>(phr, right).
     bindE (fetch ops (parent left)) (\<lambda>(php, par).
     bindE (lift_opt (separator_index left_page par)) (\<lambda>k.
     bindE (if is_leaf left
       then bindE (lift_opt (redistribute_leaves (order fh) left right)) (\<lambda>(left', right', sep).
         bindE (store ops phl left') (\<lambda>_.
         bindE (store ops phr right') (\<lambda>_.
         store ops php (par\<lparr>keys := (keys par)[k := sep]\<rparr>))))
       else bindE (lift_opt (redistribute_inner (order fh) (keys par ! k) left right)) (\<lambda>(left', right', sep, child, to_left).
         bindE (store ops phl left') (\<lambda>_.
         bindE (store ops phr right') (\<lambda>_.
         bindE (store ops php (par\<lparr>keys := (keys par)[k := sep]\<rparr>)) (\<lambda>_.
         set_parent ops child (if to_left then left_page else right_page)))))) (\<lambda>_.
     bindE (finish ops phl) (\<lambda>_.
     bindE (finish ops phr) (\<lambda>_.
     finish ops php))))))))"

text \<open>What is left to do after an entry has been deleted from a node.\<close>

datatype fixup = Redistribute int int | Coalesce int int

text \<open>The root: an inner node without keys is replaced by its only child.\<close>

definition shrink_root :: "('s, ix_page) pool_ops \<Rightarrow> int \<Rightarrow> BPPageHandle \<Rightarrow> IndexNode \<Rightarrow> ('s, unit) tree_op" where
  "shrink_root ops pgno ph nd =
    (if key_num nd = 0 \<and> \<not> is_leaf nd
     then if rids nd = [] then undef
       else bindE (set_parent ops (rid_page (rids nd ! 0)) (- 1)) (\<lambda>_.
         bindE (upd_handler (\<lambda>h. h\<lparr>file_header := (file_header h)\<lparr>root_page := rid_page (rids nd ! 0)\<rparr>, header_dirty := True\<rparr>)) (\<lambda>_.
         bindE (unpin ops ph) (\<lambda>_.
         bindE get_fid (\<lambda>fid. pool_op (op_dispose_page ops fid pgno)))))
     else unpin ops ph)"

definition min_keys :: "nat \<Rightarrow> IndexNode \<Rightarrow> nat" where
  "min_keys ord nd = (if is_leaf nd then ord div 2 else (ord + 1) div 2 - 1)"

text \<open>The neighbour of a node that has become too small, and what to do with the two.\<close>

definition neighbour :: "int \<Rightarrow> IndexNode \<Rightarrow> (int \<times> bool) option" where
  "neighbour pgno par =
    (if length (rids par) \<le> key_num par then None
     else let i = rid_index pgno (take (key_num par + 1) (rids par)) in
       if i = 0 then (if 1 < length (rids par) then Some (rid_page (rids par ! 1), True) else None)
       else Some (rid_page (rids par ! (i - 1)), False))"

definition choose_fixup :: "('s, ix_page) pool_ops \<Rightarrow> IndexFileHeader \<Rightarrow> int \<Rightarrow> BPPageHandle \<Rightarrow> IndexNode \<Rightarrow> ('s, fixup) tree_op" where
  "choose_fixup ops fh pgno ph nd =
     bindE (fetch ops (parent nd)) (\<lambda>(php, par).
     bindE (lift_opt (neighbour pgno par)) (\<lambda>(other, is_right).
     bindE (fetch ops other) (\<lambda>(pho, other_node).
     bindE (unpin ops ph) (\<lambda>_.
     bindE (unpin ops php) (\<lambda>_.
     bindE (unpin ops pho) (\<lambda>_.
     let (l, r) = (if is_right then (pgno, other) else (other, pgno)) in
     ret (if key_num other_node > min_keys (order fh) nd then Redistribute l r else Coalesce l r)))))))"

fun delete_entry_internal :: "('s, ix_page) pool_ops \<Rightarrow> nat \<Rightarrow> int \<Rightarrow> byte list \<Rightarrow> ('s, unit) tree_op" where
  "delete_entry_internal ops 0 pgno pkey = undef"
| "delete_entry_internal ops (Suc n) pgno pkey =
     bindE (delete_entry_from_node ops pgno pkey) (\<lambda>_.
     bindE get_header (\<lambda>fh.
     bindE (fetch ops pgno) (\<lambda>(ph, nd).
     if parent nd = - 1 then shrink_root ops pgno ph nd
     else if key_num nd \<ge> min_keys (order fh) nd then unpin ops ph
     else bindE (choose_fixup ops fh pgno ph nd) (\<lambda>todo. case todo of
         Redistribute l r \<Rightarrow> redistribute_nodes ops l r
       | Coalesce l r \<Rightarrow> bindE (merge_nodes ops l r) (\<lambda>(parent_page, key).
           delete_entry_internal ops n parent_page key)))))"

definition coalesce_node :: "('s, ix_page) pool_ops \<Rightarrow> nat \<Rightarrow> int \<Rightarrow> int \<Rightarrow> ('s, unit) tree_op" where
  "coalesce_node ops n left_page right_page = bindE (merge_nodes ops left_page right_page) (\<lambda>(parent_page, key).
     delete_entry_internal ops n parent_page key)"

definition delete_entry :: "('s, ix_page) pool_ops \<Rightarrow> byte list \<Rightarrow> RID \<Rightarrow> ('s, unit) tree_op" where
  "delete_entry ops attrs rid = bindE get_header (\<lambda>fh.
     bindE (lift_opt (make_key fh attrs rid)) (\<lambda>pkey.
     bindE (find_leaf ops pkey) (\<lambda>leaf_page.
     delete_entry_internal ops tree_fuel leaf_page pkey)))"

end
