(* ===== verification/Bplus_Shape.thy ===== *)
theory Bplus_Shape
  imports Bplus_Tree
begin

text \<open>
  What the node operations of \<^verbatim>\<open>Bplus_Node\<close> do in terms of the lists of keys, record
  identifiers and children a node stands for.
\<close>

section \<open>Lists\<close>

definition insert_at :: "nat \<Rightarrow> 'a \<Rightarrow> 'a list \<Rightarrow> 'a list" where
  "insert_at i x xs = take i xs @ x # drop i xs"

lemma length_insert_at [simp]: "length (insert_at i x xs) = Suc (length xs)"
  by (simp add: insert_at_def)

lemma nth_insert_at:
  "pos \<le> length xs \<Longrightarrow> i \<le> length xs \<Longrightarrow>
   insert_at pos x xs ! i = (if i < pos then xs ! i else if i = pos then x else xs ! (i - 1))"
  by (auto simp: insert_at_def nth_append min_def nth_Cons' not_less le_less intro!: arg_cong [of _ _ "nth xs"])

lemma map_insert_at: "map f (insert_at i x xs) = insert_at i (f x) (map f xs)"
  by (simp add: insert_at_def take_map drop_map)

lemma set_insert_at: "set (insert_at i x xs) = insert x (set xs)"
proof -
  have "set (take i xs) \<union> set (drop i xs) = set xs" by (metis append_take_drop_id set_append)
  then show ?thesis by (auto simp: insert_at_def)
qed

lemma insert_at_append: "insert_at (length xs) x (xs @ ys) = xs @ x # ys"
  by (simp add: insert_at_def)

lemma shift_up_insert:
  assumes "pos \<le> n" "n < length xs"
  shows "take (Suc n) ((shift_up xs pos n)[pos := x]) = insert_at pos x (take n xs)"
  by (rule nth_equalityI) (use assms in \<open>auto simp: nth_insert_at shift_up_nth nth_list_update\<close>)

lemma shift_up_insert_nth:
  assumes "n < i" "i < length xs" "pos \<le> n"
  shows "(shift_up xs pos n)[pos := x] ! i = xs ! i"
  using assms by (simp add: shift_up_nth nth_list_update)

lemma gap_copy_insert:
  assumes "pos \<le> n" "n < length tmp" "n \<le> length src"
  shows "take (Suc n) ((gap_copy tmp src n pos)[pos := x]) = insert_at pos x (take n src)"
  by (rule nth_equalityI) (use assms in \<open>auto simp: nth_insert_at gap_copy_nth nth_list_update\<close>)

lemma gap_copy_insert_all:
  assumes "pos \<le> n" "length tmp = Suc n" "n \<le> length src"
  shows "(gap_copy tmp src n pos)[pos := x] = insert_at pos x (take n src)"
  using gap_copy_insert [of pos n tmp src x] assms by simp

lemma copy_range_eq:
  assumes "d + n \<le> length dst" "s + n \<le> length src"
  shows "copy_range dst d src s n = take d dst @ take n (drop s src) @ drop (d + n) dst"
  by (rule nth_equalityI) (use assms in \<open>auto simp: copy_range_nth nth_append min_def intro!: arg_cong [of _ _ "nth dst"]\<close>)

lemma shift_down_delete:
  assumes "pos < n" "n \<le> length xs"
  shows "take (n - 1) (shift_down xs pos (n - 1)) = take pos xs @ drop (Suc pos) (take n xs)"
  by (rule nth_equalityI) (use assms in \<open>auto simp: shift_down_nth nth_append min_def split: if_splits\<close>)

lemma child_index_le: "child_index cmp k ks \<le> length ks"
  by (induction ks) auto

section \<open>What a node stands for\<close>

definition node_size_ok :: "nat \<Rightarrow> IndexNode \<Rightarrow> bool" where
  "node_size_ok ord nd \<longleftrightarrow> length (keys nd) = ord \<and> length (rids nd) = ord"

definition leaf_node :: "nat \<Rightarrow> int \<Rightarrow> (byte list \<times> RID) list \<Rightarrow> int \<Rightarrow> IndexNode \<Rightarrow> bool" where
  "leaf_node ord par es nxt nd \<longleftrightarrow> node_size_ok ord nd \<and> is_leaf nd \<and> parent nd = par \<and>
     key_num nd = length es \<and> length es < ord \<and> take (length es) (keys nd) = map fst es \<and>
     take (length es) (rids nd) = map snd es \<and> rid_page (rids nd ! (ord - 1)) = nxt"

definition inner_node :: "nat \<Rightarrow> int \<Rightarrow> int list \<Rightarrow> byte list list \<Rightarrow> IndexNode \<Rightarrow> bool" where
  "inner_node ord par ps ks nd \<longleftrightarrow> node_size_ok ord nd \<and> \<not> is_leaf nd \<and> parent nd = par \<and>
     key_num nd = length ks \<and> length ks < ord \<and> length ps = Suc (length ks) \<and>
     take (length ks) (keys nd) = ks \<and> map rid_page (take (Suc (length ks)) (rids nd)) = ps"

lemma leaf_node_parent: "leaf_node ord par es nxt nd \<Longrightarrow> leaf_node ord par' es nxt (nd\<lparr>parent := par'\<rparr>)"
  by (simp add: leaf_node_def node_size_ok_def)

lemma inner_node_parent: "inner_node ord par ps ks nd \<Longrightarrow> inner_node ord par' ps ks (nd\<lparr>parent := par'\<rparr>)"
  by (simp add: inner_node_def node_size_ok_def)

section \<open>Leaves\<close>

text \<open>The position \<^verbatim>\<open>leaf_pos\<close> finds is the one of \<^verbatim>\<open>child_index\<close>, when no key is
  equal.\<close>

lemma leaf_pos_child_index:
  assumes "\<forall>k \<in> set ks. cmp key k \<noteq> 0"
  shows "leaf_pos cmp key ks = Inr (child_index cmp key ks)"
  using assms by (induction ks) auto

lemma leaf_pos_duplicate:
  assumes "k \<in> set ks" "cmp key k = 0" "sorted_wrt (\<lambda>a b. cmp key a < 0 \<longrightarrow> cmp key b < 0) ks"
  shows "leaf_pos cmp key ks = Inl RECORD_DUPLICATE_KEY"
  using assms(1,3)
proof (induction ks)
  case (Cons a ks)
  show ?case
  proof (cases "cmp key a = 0")
    case False
    then have k: "k \<in> set ks" using Cons.prems(1) assms(2) by auto
    have "\<not> cmp key a < 0" using Cons.prems(2) k assms(2) by force
    moreover have "leaf_pos cmp key ks = Inl RECORD_DUPLICATE_KEY" using Cons.IH k Cons.prems(2) by simp
    ultimately show ?thesis using False by (simp add: Let_def)
  qed simp
qed simp

lemma leaf_insert_node:
  assumes nd: "leaf_node ord par es nxt nd" and room: "length es + 1 < ord"
    and new: "\<forall>k \<in> set (map fst es). cmp key k \<noteq> 0"
  defines "pos \<equiv> child_index cmp key (map fst es)"
  shows "\<exists>nd'. leaf_insert cmp key rid nd = Some (Inr nd') \<and> leaf_node ord par (insert_at pos (key, rid) es) nxt nd'"
proof -
  let ?n = "length es"
  have l: "length (keys nd) = ord" "length (rids nd) = ord" "key_num nd = ?n" "take ?n (keys nd) = map fst es"
    "take ?n (rids nd) = map snd es" "is_leaf nd" "parent nd = par" "rid_page (rids nd ! (ord - 1)) = nxt"
    using nd by (auto simp: leaf_node_def node_size_ok_def)
  have pos: "pos \<le> ?n" using child_index_le [of cmp key "map fst es"] by (simp add: pos_def)
  have p: "leaf_pos cmp key (take ?n (keys nd)) = Inr pos"
    unfolding l pos_def using new by (intro leaf_pos_child_index)
  let ?nd = "nd\<lparr>keys := (shift_up (keys nd) pos ?n)[pos := key], rids := (shift_up (rids nd) pos ?n)[pos := rid], key_num := ?n + 1\<rparr>"
  have "leaf_insert cmp key rid nd = Some (Inr ?nd)"
    unfolding leaf_insert_def Let_def l(3) p using l room by simp
  moreover have "leaf_node ord par (insert_at pos (key, rid) es) nxt ?nd"
    using l room pos shift_up_insert [of pos ?n "keys nd" key] shift_up_insert [of pos ?n "rids nd" rid]
      shift_up_insert_nth [of ?n "ord - 1" "rids nd" pos rid]
    by (simp add: leaf_node_def node_size_ok_def map_insert_at)
  ultimately show ?thesis by blast
qed

lemma take_drop_prefix: "s + m \<le> n \<Longrightarrow> take m (drop s (take n xs)) = take m (drop s xs)"
  by (simp add: drop_take min_def)

lemma copy_prefix:
  assumes "n \<le> length dst" "s + n \<le> length src" "take m src = ys" "s + n \<le> m"
  shows "take n (copy_range dst 0 src s n) = take n (drop s ys)"
    "n \<le> i \<Longrightarrow> i < length dst \<Longrightarrow> copy_range dst 0 src s n ! i = dst ! i"
proof -
  show "take n (copy_range dst 0 src s n) = take n (drop s ys)"
    using assms take_drop_prefix [of s n m src] by (simp add: copy_range_eq)
  show "n \<le> i \<Longrightarrow> i < length dst \<Longrightarrow> copy_range dst 0 src s n ! i = dst ! i"
    using assms by (simp add: copy_range_nth)
qed

lemma leaf_split_node:
  fixes cmp :: "byte list \<Rightarrow> byte list \<Rightarrow> int" and key :: "byte list" and rid :: RID
  assumes nd: "leaf_node ord par es nxt nd" and full: "length es + 1 = ord" and two: "2 \<le> ord"
    and new: "node_size_ok ord new" "is_leaf new" "parent new = par" "key_num new = 0"
  defines "es' \<equiv> insert_at (child_index cmp key (map fst es)) (key, rid) es"
  shows "\<exists>l r. leaf_split cmp ord key rid right nd new = Some (l, r, fst (es' ! (ord div 2))) \<and>
    leaf_node ord par (take (ord div 2) es') right l \<and> leaf_node ord par (drop (ord div 2) es') nxt r"
proof -
  let ?n = "length es" and ?split = "ord div 2"
  define pos where "pos = child_index cmp key (map fst es)"
  have l: "length (keys nd) = ord" "length (rids nd) = ord" "key_num nd = ?n" "take ?n (keys nd) = map fst es"
    "take ?n (rids nd) = map snd es" "is_leaf nd" "parent nd = par" "rid_page (rids nd ! (ord - 1)) = nxt"
    using nd by (auto simp: leaf_node_def node_size_ok_def)
  have r: "length (keys new) = ord" "length (rids new) = ord" using new by (auto simp: node_size_ok_def)
  have pos: "pos \<le> ?n" using child_index_le [of cmp key "map fst es"] by (simp add: pos_def)
  have len: "length es' = ord" using full by (simp add: es'_def)
  have split: "?split < ord" "0 < ?split" "ord - ?split < ord" "?split + (ord - ?split) = ord" using two by auto
  define tk where "tk = (gap_copy (replicate ord []) (keys nd) ?n pos)[pos := key]"
  define tp where "tp = (gap_copy (replicate (ord + 1) (page_rid 0)) (rids nd) ?n pos)[pos := rid]"
  have tk: "take ord tk = map fst es'" "length tk = ord"
    using gap_copy_insert [of pos ?n "replicate ord []" "keys nd" key] l full pos
    by (simp_all add: tk_def es'_def map_insert_at pos_def)
  have tp: "take ord tp = map snd es'" "length tp = ord + 1"
    using gap_copy_insert [of pos ?n "replicate (ord + 1) (page_rid 0)" "rids nd" rid] l full pos
    by (simp_all add: tp_def es'_def map_insert_at pos_def)
  define lf where "lf = nd\<lparr>keys := copy_range (keys nd) 0 tk 0 ?split, key_num := ?split,
     rids := (copy_range (rids nd) 0 tp 0 ?split)[ord - 1 := page_rid right]\<rparr>"
  define nw where "nw = new\<lparr>keys := copy_range (keys new) 0 tk ?split (ord - ?split), key_num := ord - ?split,
     rids := (copy_range (rids new) 0 tp ?split (ord - ?split))[ord - 1 := copy_range (rids nd) 0 tp 0 ?split ! (ord - 1)]\<rparr>"
  have "leaf_split cmp ord key rid right nd new = Some (lf, nw, keys nw ! 0)"
    unfolding leaf_split_def Let_def l(3,4) pos_def [symmetric] tk_def [symmetric] tp_def [symmetric]
    using l r full new(4) by (simp add: lf_def nw_def)
  moreover have "keys nw ! 0 = fst (es' ! ?split)"
  proof -
    have "keys nw ! 0 = tk ! ?split" using r split by (simp add: nw_def copy_range_nth)
    also have "\<dots> = map fst es' ! ?split" using tk split by (metis nth_take)
    finally show ?thesis using len split by simp
  qed
  moreover have "leaf_node ord par (take ?split es') right lf"
    using l len split copy_prefix(1) [OF _ _ tk(1), of ?split "keys nd" 0] copy_prefix(1) [OF _ _ tp(1), of ?split "rids nd" 0] tk tp
    by (simp add: leaf_node_def node_size_ok_def lf_def take_map page_rid_def)
  moreover have "leaf_node ord par (drop ?split es') nxt nw"
    using l r len split new copy_prefix(1) [OF _ _ tk(1), of "ord - ?split" "keys new" ?split]
      copy_prefix(1) [OF _ _ tp(1), of "ord - ?split" "rids new" ?split] tk tp copy_prefix(2) [OF _ _ tp(1), of ?split "rids nd" 0 "ord - 1"]
    by (simp add: leaf_node_def node_size_ok_def nw_def drop_map)
  ultimately show ?thesis by auto
qed

section \<open>Inner nodes\<close>

lemma rid_index_map:
  assumes "map rid_page rs = ps1 @ p # ps2" "p \<notin> set ps1"
  shows "rid_index p rs = length ps1"
  using assms
proof (induction ps1 arbitrary: rs)
  case Nil
  then show ?case by (cases rs) auto
next
  case (Cons a ps1)
  then show ?case by (cases rs) auto
qed

lemma insert_at_pages: "insert_at (Suc (length ps1)) q (ps1 @ p # ps2) = ps1 @ p # q # ps2"
  by (simp add: insert_at_def)

lemma intern_insert_node:
  assumes nd: "inner_node ord par (ps1 @ left # ps2) ks nd" and left: "left \<notin> set ps1" and room: "length ks + 1 < ord"
  shows "\<exists>nd'. intern_insert left right key nd = Some nd' \<and>
    inner_node ord par (ps1 @ left # right # ps2) (insert_at (length ps1) key ks) nd'"
proof -
  let ?n = "length ks" and ?pos = "length ps1"
  have l: "length (keys nd) = ord" "length (rids nd) = ord" "key_num nd = ?n" "take ?n (keys nd) = ks"
    "map rid_page (take (Suc ?n) (rids nd)) = ps1 @ left # ps2" "\<not> is_leaf nd" "parent nd = par"
    "length ps1 + length ps2 = ?n"
    using nd by (auto simp: inner_node_def node_size_ok_def)
  have p: "rid_index left (take (Suc ?n) (rids nd)) = ?pos" by (rule rid_index_map [OF l(5) left])
  let ?nd = "nd\<lparr>rids := (shift_up (rids nd) (?pos + 1) (?n + 1))[?pos + 1 := page_rid right],
      keys := (shift_up (keys nd) ?pos ?n)[?pos := key], key_num := ?n + 1\<rparr>"
  have "intern_insert left right key nd = Some ?nd"
    unfolding intern_insert_def Let_def using l room p by simp
  moreover have "inner_node ord par (ps1 @ left # right # ps2) (insert_at ?pos key ks) ?nd"
  proof -
    have "take (Suc ?n) ((shift_up (keys nd) ?pos ?n)[?pos := key]) = insert_at ?pos key ks"
      using shift_up_insert [of ?pos ?n "keys nd" key] l room by simp
    moreover have "take (Suc (Suc ?n)) ((shift_up (rids nd) (Suc ?pos) (Suc ?n))[Suc ?pos := page_rid right]) =
        insert_at (Suc ?pos) (page_rid right) (take (Suc ?n) (rids nd))"
      using shift_up_insert [of "Suc ?pos" "Suc ?n" "rids nd" "page_rid right"] l room by simp
    then have "map rid_page (take (Suc (Suc ?n)) ((shift_up (rids nd) (Suc ?pos) (Suc ?n))[Suc ?pos := page_rid right])) =
        ps1 @ left # right # ps2"
      using l(5) by (simp only: map_insert_at) (simp add: insert_at_pages page_rid_def)
    ultimately show ?thesis using l room by (simp add: inner_node_def node_size_ok_def)
  qed
  ultimately show ?thesis by blast
qed

lemma intern_split_node:
  fixes key :: "byte list" and right :: int
  assumes nd: "inner_node ord par (ps1 @ left # ps2) ks nd" and left: "left \<notin> set ps1" and full: "length ks + 1 = ord"
    and new: "node_size_ok ord new" "\<not> is_leaf new" "parent new = par" "key_num new = 0"
  defines "ps' \<equiv> ps1 @ left # right # ps2" and "ks' \<equiv> insert_at (length ps1) key ks" and "split \<equiv> (ord + 1) div 2"
  shows "\<exists>l r. intern_split ord left right key nd new = Some (l, r, ks' ! (split - 1)) \<and>
    inner_node ord par (take split ps') (take (split - 1) ks') l \<and> inner_node ord par (drop split ps') (drop split ks') r"
proof -
  let ?n = "length ks" and ?pos = "length ps1"
  have l: "length (keys nd) = ord" "length (rids nd) = ord" "key_num nd = ?n" "take ?n (keys nd) = ks"
    "map rid_page (take (Suc ?n) (rids nd)) = ps1 @ left # ps2" "\<not> is_leaf nd" "parent nd = par"
    "length ps1 + length ps2 = ?n"
    using nd by (auto simp: inner_node_def node_size_ok_def)
  have r: "length (keys new) = ord" "length (rids new) = ord" using new by (auto simp: node_size_ok_def)
  have p: "rid_index left (take (Suc ?n) (rids nd)) = ?pos" by (rule rid_index_map [OF l(5) left])
  have split: "split \<le> ord" "0 < split" "split - 1 < ord" "ord - split < ord" using full by (auto simp: split_def)
  have len: "length ps' = ord + 1" "length ks' = ord" using l full by (auto simp: ps'_def ks'_def)
  define tk where "tk = (gap_copy (replicate ord []) (keys nd) ?n ?pos)[?pos := key]"
  define tp where "tp = (gap_copy (replicate (ord + 1) (page_rid 0)) (rids nd) (?n + 1) (?pos + 1))[?pos + 1 := page_rid right]"
  have tk: "tk = ks'"
    using gap_copy_insert_all [of ?pos ?n "replicate ord []" "keys nd" key] l full by (simp add: tk_def ks'_def)
  have "tp = insert_at (Suc ?pos) (page_rid right) (take (Suc ?n) (rids nd))"
    using gap_copy_insert_all [of "Suc ?pos" "Suc ?n" "replicate (ord + 1) (page_rid 0)" "rids nd" "page_rid right"] l full
    by (simp add: tp_def)
  then have tp: "map rid_page tp = ps'" "length tp = ord + 1"
    using l full by (simp_all add: map_insert_at ps'_def insert_at_pages page_rid_def)
  define lf where "lf = nd\<lparr>keys := copy_range (keys nd) 0 tk 0 (split - 1), key_num := split - 1,
     rids := (copy_range (rids nd) 0 tp 0 (split - 1))[split - 1 := tp ! (split - 1)]\<rparr>"
  define nw where "nw = new\<lparr>keys := copy_range (keys new) 0 tk split (ord - split), key_num := ord - split,
     rids := (copy_range (rids new) 0 tp split (ord - split))[ord - split := tp ! ord]\<rparr>"
  have "intern_split ord left right key nd new = Some (lf, nw, ks' ! (split - 1))"
    unfolding intern_split_def Let_def split_def [symmetric] using l r full new(4) p
    by (simp add: lf_def nw_def tk [symmetric] tk_def tp_def)
  moreover have "take split (rids lf) = take split tp"
    by (rule nth_equalityI) (use l split tp in \<open>auto simp: lf_def copy_range_nth nth_list_update\<close>)
  then have "inner_node ord par (take split ps') (take (split - 1) ks') lf"
    using l len split tk copy_prefix(1) [of "split - 1" "keys nd" 0 ks' ord ks'] tp(2) tp(1) [symmetric]
    by (simp add: inner_node_def node_size_ok_def lf_def take_map)
  moreover have "take (Suc (ord - split)) (rids nw) = drop split tp"
    by (rule nth_equalityI) (use r split tp in \<open>auto simp: nw_def copy_range_nth nth_list_update not_less le_Suc_eq\<close>)
  then have "inner_node ord par (drop split ps') (drop split ks') nw"
    using r len split new tk copy_prefix(1) [of "ord - split" "keys new" split ks' ord ks'] tp(2) tp(1) [symmetric]
    by (simp add: inner_node_def node_size_ok_def nw_def drop_map Suc_diff_le)
  ultimately show ?thesis by blast
qed

lemma new_root_inner:
  assumes "node_size_ok ord nd" "2 \<le> ord"
  shows "\<exists>nd'. new_root_node left key right nd = Some nd' \<and> inner_node ord (- 1) [left, right] [key] nd'"
proof -
  have l: "length (keys nd) = ord" "length (rids nd) = ord" using assms by (auto simp: node_size_ok_def)
  obtain k ks where k: "keys nd = k # ks" using l assms(2) by (cases "keys nd") auto
  obtain r1 r2 rs where r: "rids nd = r1 # r2 # rs" using l assms(2) by (cases "rids nd"; cases "tl (rids nd)") auto
  show ?thesis using assms l k r by (auto simp: new_root_node_def inner_node_def node_size_ok_def page_rid_def)
qed

end
