(* ===== verification/Bplus_Abs.thy ===== *)
theory Bplus_Abs
  imports Bplus_Shape
begin

text \<open>
  The tree that the pages of an index file stand for. \<^verbatim>\<open>Nd p [(k0, t0), (k1, t1), ...]\<close> is an
  inner node on page \<^verbatim>\<open>p\<close> with the children \<^verbatim>\<open>t0, t1, ...\<close> and the keys
  \<^verbatim>\<open>k1, ...\<close> between them; \<^verbatim>\<open>k0\<close> is not stored. A tree is read from left to right as
  its \<^emph>\<open>marks\<close>, the separating keys and the keys of the entries: all splits and new nodes leave
  this list as it is. A position in a tree is a context, the nodes above it from the inside out.
\<close>

datatype tree = Lf (page_of: int) "(byte list \<times> RID) list" int | Nd (page_of: int) "(byte list \<times> tree) list"

datatype mark = Sep "byte list" | Ent "byte list"

fun pages :: "tree \<Rightarrow> int list" where
  "pages (Lf p es nxt) = [p]"
| "pages (Nd p xs) = p # concat (map (\<lambda>x. pages (snd x)) xs)"

fun leaves :: "tree \<Rightarrow> (int \<times> (byte list \<times> RID) list \<times> int) list" where
  "leaves (Lf p es nxt) = [(p, es, nxt)]"
| "leaves (Nd p xs) = concat (map (\<lambda>x. leaves (snd x)) xs)"

fun marks :: "tree \<Rightarrow> mark list" where
  "marks (Lf p es nxt) = map (\<lambda>e. Ent (fst e)) es"
| "marks (Nd p xs) = tl (concat (map (\<lambda>x. Sep (fst x) # marks (snd x)) xs))"

abbreviation "kmarks xs \<equiv> concat (map (\<lambda>x. Sep (fst x) # marks (snd x)) xs)"
abbreviation "kpages xs \<equiv> concat (map (\<lambda>x. pages (snd x)) xs)"
abbreviation "kleaves xs \<equiv> concat (map (\<lambda>x. leaves (snd x)) xs)"

text \<open>The entries of a tree.\<close>

definition entries :: "tree \<Rightarrow> (byte list \<times> RID) list" where
  "entries t = concat (map (\<lambda>(p, es, nxt). es) (leaves t))"

fun tree_at :: "(int \<Rightarrow> ix_page option) \<Rightarrow> nat \<Rightarrow> int \<Rightarrow> tree \<Rightarrow> bool" where
  "tree_at V ord par (Lf p es nxt) \<longleftrightarrow> (\<exists>d. V p = Some d \<and> leaf_node ord par es nxt (ix_node d))"
| "tree_at V ord par (Nd p xs) \<longleftrightarrow>
    (\<exists>d. V p = Some d \<and> inner_node ord par (map (\<lambda>x. page_of (snd x)) xs) (map fst (tl xs)) (ix_node d)) \<and>
    (\<forall>x \<in> set xs. tree_at V ord p (snd x))"

lemma page_of_in [simp]: "page_of t \<in> set (pages t)"
  by (cases t) auto

lemma tree_at_cong:
  assumes "\<And>p. p \<in> set (pages t) \<Longrightarrow> V' p = V p"
  shows "tree_at V' ord par t = tree_at V ord par t"
  using assms
proof (induction t arbitrary: par)
  case (Nd p xs)
  have "tree_at V' ord p (snd x) = tree_at V ord p (snd x)" if "x \<in> set xs" for x
    using that Nd.prems by (intro Nd.IH [of x]) (auto intro: snds.intros)
  then show ?case using Nd.prems by auto
qed simp

lemma tree_at_view: "tree_at V ord par t \<Longrightarrow> p \<in> set (pages t) \<Longrightarrow> V p \<noteq> None"
proof (induction t arbitrary: par)
  case (Nd q xs)
  then show ?case by (auto intro: snds.intros)
qed auto

text \<open>Number of inner nodes above the deepest leaf.\<close>

fun height :: "tree \<Rightarrow> nat" where
  "height (Lf p es nxt) = 0"
| "height (Nd p xs) = Suc (fold max (map (\<lambda>x. height (snd x)) xs) 0)"

lemma fold_max_ge: "x \<in> set xs \<Longrightarrow> x \<le> fold max xs (a :: nat)"
proof (induction xs arbitrary: a)
  case (Cons y xs)
  have "b \<le> fold max xs b" for b :: nat
    by (induction xs arbitrary: b) (auto intro: order_trans [OF max.cobounded2])
  then have "y \<le> fold max xs (max y a)" by (meson max.cobounded1 order_trans)
  then show ?case using Cons by auto
qed simp

section \<open>Contexts\<close>

type_synonym frame = "int \<times> (byte list \<times> tree) list \<times> byte list \<times> (byte list \<times> tree) list"

fun plug :: "tree \<Rightarrow> frame list \<Rightarrow> tree" where
  "plug t [] = t"
| "plug t ((p, b, k, a) # c) = plug (Nd p (b @ (k, t) # a)) c"

fun ctx_page :: "frame list \<Rightarrow> int" where
  "ctx_page [] = - 1"
| "ctx_page ((p, b, k, a) # c) = p"

fun ctx_pages :: "frame list \<Rightarrow> int list" where
  "ctx_pages [] = []"
| "ctx_pages ((p, b, k, a) # c) = p # kpages b @ kpages a @ ctx_pages c"

fun marks_before :: "frame list \<Rightarrow> mark list" where
  "marks_before [] = []"
| "marks_before ((p, b, k, a) # c) = marks_before c @ tl (kmarks b @ [Sep k])"

fun marks_after :: "frame list \<Rightarrow> mark list" where
  "marks_after [] = []"
| "marks_after ((p, b, k, a) # c) = kmarks a @ marks_after c"

fun leaves_before :: "frame list \<Rightarrow> (int \<times> (byte list \<times> RID) list \<times> int) list" where
  "leaves_before [] = []"
| "leaves_before ((p, b, k, a) # c) = leaves_before c @ kleaves b"

fun leaves_after :: "frame list \<Rightarrow> (int \<times> (byte list \<times> RID) list \<times> int) list" where
  "leaves_after [] = []"
| "leaves_after ((p, b, k, a) # c) = kleaves a @ leaves_after c"

fun ctx_at :: "(int \<Rightarrow> ix_page option) \<Rightarrow> nat \<Rightarrow> int \<Rightarrow> frame list \<Rightarrow> bool" where
  "ctx_at V ord hole [] \<longleftrightarrow> True"
| "ctx_at V ord hole ((p, b, k, a) # c) \<longleftrightarrow>
    (\<exists>d. V p = Some d \<and> inner_node ord (ctx_page c)
       (map (\<lambda>x. page_of (snd x)) b @ hole # map (\<lambda>x. page_of (snd x)) a) (tl (map fst b @ k # map fst a)) (ix_node d)) \<and>
    (\<forall>x \<in> set b \<union> set a. tree_at V ord p (snd x)) \<and> ctx_at V ord p c"

lemma tree_at_plug:
  "tree_at V ord (- 1) (plug t c) \<longleftrightarrow> tree_at V ord (ctx_page c) t \<and> ctx_at V ord (page_of t) c"
  by (induction t c rule: plug.induct) (auto simp: map_tl)

lemma marks_plug: "marks (plug t c) = marks_before c @ marks t @ marks_after c"
proof (induction t c rule: plug.induct)
  case (2 t p b k a c)
  then show ?case by (cases b) auto
qed simp

lemma leaves_plug: "leaves (plug t c) = leaves_before c @ leaves t @ leaves_after c"
  by (induction t c rule: plug.induct) auto

lemma mset_pages_plug: "mset (pages (plug t c)) = mset (pages t) + mset (ctx_pages c)"
  by (induction t c rule: plug.induct) auto

lemma length_ctx_pages: "length c \<le> length (ctx_pages c)"
  by (induction c rule: ctx_pages.induct) auto

lemma length_pages_plug: "length (pages (plug t c)) = length (pages t) + length (ctx_pages c)"
  using mset_pages_plug [of t c] by (metis size_mset size_union)

lemma height_plug: "length c + height t \<le> height (plug t c)"
proof (induction t c rule: plug.induct)
  case (2 t p b k a c)
  have "height t \<le> fold max (map (\<lambda>x. height (snd x)) (b @ (k, t) # a)) 0" by (rule fold_max_ge) simp
  then show ?case using 2 by simp
qed simp

lemma distinct_mset_eq: "mset xs = mset ys \<Longrightarrow> distinct xs = distinct ys"
  by (metis mset_eq_imp_distinct_iff)

lemma distinct_plug: "distinct (pages (plug t c)) \<longleftrightarrow> distinct (pages t @ ctx_pages c)"
  by (rule distinct_mset_eq) (simp add: mset_pages_plug)

lemma set_pages_plug: "set (pages (plug t c)) = set (pages t) \<union> set (ctx_pages c)"
  using mset_pages_plug [of t c] by (metis set_mset_mset set_mset_union)

lemma ctx_at_cong:
  assumes "\<And>p. p \<in> set (ctx_pages c) \<Longrightarrow> V' p = V p"
  shows "ctx_at V' ord hole c = ctx_at V ord hole c"
  using assms
proof (induction c arbitrary: hole)
  case (Cons f c)
  obtain p b k a where f: "f = (p, b, k, a)" by (metis surj_pair)
  have "tree_at V' ord p (snd x) = tree_at V ord p (snd x)" if "x \<in> set b \<union> set a" for x
    by (rule tree_at_cong) (use that Cons.prems in \<open>auto simp: f\<close>)
  moreover have "ctx_at V' ord p c = ctx_at V ord p c" by (rule Cons.IH) (use Cons.prems in \<open>simp add: f\<close>)
  moreover have "V' p = V p" using Cons.prems by (simp add: f)
  ultimately show ?case by (simp add: f)
qed simp

text \<open>The keys of the entries are marks.\<close>

lemma leaves_marks_tree: "(p, es, nxt) \<in> set (leaves t) \<Longrightarrow> (k, rid) \<in> set es \<Longrightarrow> Ent k \<in> set (marks t)"
proof (induction t)
  case (Nd q xs)
  then obtain x where x: "x \<in> set xs" "(p, es, nxt) \<in> set (leaves (snd x))" by auto
  then have e: "Ent k \<in> set (marks (snd x))" by (intro Nd.IH [of x]) (use Nd.prems in \<open>auto intro: snds.intros\<close>)
  then show ?case using x by (cases xs) auto
qed force

lemma leaves_marks_list:
  assumes "(p, es, nxt) \<in> set (kleaves xs)" "(k, rid) \<in> set es"
  shows "Ent k \<in> set (kmarks xs)" "Ent k \<in> set (tl (kmarks xs @ ys))"
proof -
  obtain x where x: "x \<in> set xs" "Ent k \<in> set (marks (snd x))" using assms leaves_marks_tree by fastforce
  then show "Ent k \<in> set (kmarks xs)" by auto
  show "Ent k \<in> set (tl (kmarks xs @ ys))" using x by (cases xs) auto
qed

lemma leaves_marks:
  "(p, es, nxt) \<in> set (leaves_before c) \<Longrightarrow> (k, rid) \<in> set es \<Longrightarrow> Ent k \<in> set (marks_before c)"
  "(p, es, nxt) \<in> set (leaves_after c) \<Longrightarrow> (k, rid) \<in> set es \<Longrightarrow> Ent k \<in> set (marks_after c)"
proof -
  show "(p, es, nxt) \<in> set (leaves_before c) \<Longrightarrow> (k, rid) \<in> set es \<Longrightarrow> Ent k \<in> set (marks_before c)"
  proof (induction c rule: leaves_before.induct)
    case (2 q b k' a c)
    then show ?case using leaves_marks_list(2) [of p es nxt b k rid "[Sep k']"] by auto
  qed simp
  show "(p, es, nxt) \<in> set (leaves_after c) \<Longrightarrow> (k, rid) \<in> set es \<Longrightarrow> Ent k \<in> set (marks_after c)"
  proof (induction c rule: leaves_after.induct)
    case (2 q b k' a c)
    then show ?case using leaves_marks_list(1) [of p es nxt a k rid] by auto
  qed simp
qed

section \<open>Order\<close>

fun mark_less :: "(byte list \<Rightarrow> 'o :: linorder) \<Rightarrow> mark \<Rightarrow> mark \<Rightarrow> bool" where
  "mark_less norm (Sep a) (Ent b) \<longleftrightarrow> norm a \<le> norm b"
| "mark_less norm (Sep a) (Sep b) \<longleftrightarrow> norm a < norm b"
| "mark_less norm (Ent a) (Sep b) \<longleftrightarrow> norm a < norm b"
| "mark_less norm (Ent a) (Ent b) \<longleftrightarrow> norm a < norm b"

lemma mark_less_trans: "mark_less norm a b \<Longrightarrow> mark_less norm b c \<Longrightarrow> mark_less norm a c"
  by (cases a; cases b; cases c) auto

fun mark_key :: "mark \<Rightarrow> byte list" where
  "mark_key (Sep k) = k"
| "mark_key (Ent k) = k"

text \<open>The context of the leaf for a key: the key is between the marks on both sides.\<close>

definition ctx_for :: "(byte list \<Rightarrow> 'o :: linorder) \<Rightarrow> byte list \<Rightarrow> frame list \<Rightarrow> bool" where
  "ctx_for norm key c \<longleftrightarrow> (\<forall>m \<in> set (marks_before c). mark_less norm m (Ent key)) \<and>
     (\<forall>m \<in> set (marks_after c). mark_less norm (Ent key) m)"

lemma child_index_props:
  "j < child_index cmp key ks \<Longrightarrow> \<not> cmp key (ks ! j) < 0"
  "child_index cmp key ks < length ks \<Longrightarrow> cmp key (ks ! child_index cmp key ks) < 0"
proof -
  show "j < child_index cmp key ks \<Longrightarrow> \<not> cmp key (ks ! j) < 0"
    by (induction ks arbitrary: j) (auto simp: less_Suc_eq_0_disj split: if_splits)
  show "child_index cmp key ks < length ks \<Longrightarrow> cmp key (ks ! child_index cmp key ks) < 0"
    by (induction ks) auto
qed

locale tree_order = key_order cmp norm proper
  for cmp :: "byte list \<Rightarrow> byte list \<Rightarrow> int" and norm :: "byte list \<Rightarrow> 'o :: linorder" and proper :: "byte list \<Rightarrow> bool"
begin

text \<open>The child that \<^verbatim>\<open>find_leaf\<close> goes to.\<close>

lemma child_choice:
  assumes "xs \<noteq> []" "proper key" "\<forall>k \<in> set (map fst (tl xs)). proper k"
  obtains b k t a where "xs = b @ (k, t) # a" "length b = child_index cmp key (map fst (tl xs))"
    "b \<noteq> [] \<longrightarrow> norm k \<le> norm key" "a \<noteq> [] \<longrightarrow> norm key < norm (fst (hd a))"
proof -
  let ?ks = "map fst (tl xs)"
  define i where "i = child_index cmp key ?ks"
  have len: "length ?ks = length xs - 1" "0 < length xs" using assms(1) by auto
  have i: "i < length xs" using child_index_le [of cmp key ?ks] len unfolding i_def by linarith
  have ks: "?ks ! j = fst (xs ! Suc j)" if "Suc j < length xs" for j using that by (simp add: nth_tl)
  have "xs = take i xs @ (fst (xs ! i), snd (xs ! i)) # drop (Suc i) xs"
    using id_take_nth_drop [OF i] by (simp only: prod.collapse)
  moreover have "norm (fst (xs ! i)) \<le> norm key" if "take i xs \<noteq> []"
  proof -
    have "i \<noteq> 0" using that by (intro notI) simp
    then obtain j where j: "i = Suc j" using not0_implies_Suc by blast
    have "\<not> cmp key (?ks ! j) < 0" using child_index_props(1) [of j cmp key ?ks] j by (simp add: i_def)
    moreover have "?ks ! j \<in> set ?ks" by (rule nth_mem) (use i j len in linarith)
    then have "proper (?ks ! j)" using assms(3) by blast
    ultimately show ?thesis using cmp_less [OF assms(2), of "?ks ! j"] ks [of j] i j by (simp add: not_less)
  qed
  moreover have "norm key < norm (fst (hd (drop (Suc i) xs)))" if "drop (Suc i) xs \<noteq> []"
  proof -
    have j: "Suc i < length xs" using that by simp
    have l: "i < length ?ks" using j len by linarith
    then have "cmp key (?ks ! i) < 0" using child_index_props(2) [of cmp key ?ks] unfolding i_def by blast
    moreover have "proper (?ks ! i)" using assms(3) nth_mem [OF l] by blast
    ultimately show ?thesis using cmp_less [OF assms(2), of "?ks ! i"] ks [OF j] j by (simp add: hd_drop_conv_nth)
  qed
  ultimately show ?thesis using i by (intro that [of "take i xs" "fst (xs ! i)" "snd (xs ! i)" "drop (Suc i) xs"]) (auto simp: i_def [symmetric])
qed

lemma ctx_for_step:
  assumes "sorted_wrt (mark_less norm) (marks (plug (Nd p (b @ (k, t) # a)) c))" "ctx_for norm key c"
    and k: "b \<noteq> [] \<longrightarrow> norm k \<le> norm key" and a: "a \<noteq> [] \<longrightarrow> norm key < norm (fst (hd a))"
  shows "ctx_for norm key ((p, b, k, a) # c)"
proof -
  have s: "sorted_wrt (mark_less norm) (marks_before ((p, b, k, a) # c) @ marks t @ kmarks a @ marks_after c)"
    using assms(1) marks_plug [of t "(p, b, k, a) # c"] by simp
  have "mark_less norm m (Ent key)" if m: "m \<in> set (tl (kmarks b @ [Sep k]))" for m
  proof (cases b)
    case (Cons x b')
    then have e: "tl (kmarks b @ [Sep k]) = tl (kmarks b) @ [Sep k]" by simp
    have "sorted_wrt (mark_less norm) (tl (kmarks b) @ [Sep k])"
      using s Cons by (simp add: sorted_wrt_append)
    then have "m = Sep k \<or> mark_less norm m (Sep k)" using m unfolding e by (auto simp: sorted_wrt_append)
    then show ?thesis using k Cons mark_less_trans [of norm m "Sep k" "Ent key"] by auto
  qed (use m in simp)
  moreover have "mark_less norm (Ent key) m" if m: "m \<in> set (kmarks a)" for m
  proof (cases a)
    case (Cons x a')
    have "sorted_wrt (mark_less norm) (kmarks a)" using s by (simp add: sorted_wrt_append)
    then have "m = Sep (fst x) \<or> mark_less norm (Sep (fst x)) m" using m Cons by auto
    then show ?thesis using a Cons mark_less_trans [of norm "Ent key" "Sep (fst x)" m] by auto
  qed (use m in simp)
  ultimately show ?thesis using assms(2) by (auto simp: ctx_for_def)
qed

text \<open>The place of a new key among the keys of a leaf.\<close>

lemma sorted_insert:
  assumes "sorted_wrt (\<lambda>a b. norm a < norm b) ks" "proper key" "\<forall>k \<in> set ks. proper k \<and> norm k \<noteq> norm key"
  defines "pos \<equiv> child_index cmp key ks"
  shows "\<forall>k \<in> set (take pos ks). norm k < norm key" "\<forall>k \<in> set (drop pos ks). norm key < norm k"
proof -
  have pos: "pos \<le> length ks" by (simp add: pos_def child_index_le)
  show "\<forall>k \<in> set (take pos ks). norm k < norm key"
  proof
    fix k assume "k \<in> set (take pos ks)"
    then obtain j where j: "j < pos" "j < length ks" "k = ks ! j" by (auto simp: in_set_conv_nth)
    have "\<not> cmp key k < 0" using child_index_props(1) [of j cmp key ks] j by (simp add: pos_def)
    moreover have k: "k \<in> set ks" using j by simp
    ultimately have "norm k \<le> norm key" using cmp_less [of key k] assms(2,3) by (simp add: not_less)
    then show "norm k < norm key" using k assms(3) by (simp add: order.strict_iff_order)
  qed
  show "\<forall>k \<in> set (drop pos ks). norm key < norm k"
  proof
    fix k assume k: "k \<in> set (drop pos ks)"
    then have l: "pos < length ks" by (cases "pos < length ks") auto
    then have "cmp key (ks ! pos) < 0" using child_index_props(2) [of cmp key ks] by (simp add: pos_def)
    then have "norm key < norm (ks ! pos)" using cmp_less [of key "ks ! pos"] assms(2,3) l by simp
    moreover have d: "drop pos ks = ks ! pos # drop (Suc pos) ks" using l by (simp add: Cons_nth_drop_Suc)
    have "sorted_wrt (\<lambda>a b. norm a < norm b) (drop pos ks)" using assms(1) by (rule sorted_wrt_drop)
    then have "k = ks ! pos \<or> norm (ks ! pos) < norm k" using k unfolding d by auto
    ultimately show "norm key < norm k" by auto
  qed
qed

lemma marks_insert:
  fixes rid :: RID
  assumes "sorted_wrt (mark_less norm) (marks (plug (Lf p es nxt) c))" "ctx_for norm key c" "proper key"
    and "\<forall>k \<in> set (map fst es). proper k \<and> norm k \<noteq> norm key"
  defines "es' \<equiv> insert_at (child_index cmp key (map fst es)) (key, rid) es"
  shows "sorted_wrt (mark_less norm) (marks_before c @ map (\<lambda>e. Ent (fst e)) es' @ marks_after c)"
proof -
  let ?pos = "child_index cmp key (map fst es)"
  have s: "sorted_wrt (mark_less norm) (marks_before c @ map (\<lambda>e. Ent (fst e)) es @ marks_after c)"
    using assms(1) by (simp add: marks_plug)
  then have "sorted_wrt (\<lambda>a b. norm a < norm b) (map fst es)"
    by (simp add: sorted_wrt_append sorted_wrt_map)
  note ins = sorted_insert [OF this assms(3,4)]
  have es: "es = take ?pos es @ drop ?pos es" by simp
  have s': "sorted_wrt (mark_less norm) (marks_before c @ map (\<lambda>e. Ent (fst e)) (take ?pos es) @ map (\<lambda>e. Ent (fst e)) (drop ?pos es) @ marks_after c)"
    using s by (subst (asm) es) (simp del: append_take_drop_id)
  have "\<forall>e \<in> set (take ?pos es). norm (fst e) < norm key" "\<forall>e \<in> set (drop ?pos es). norm key < norm (fst e)"
    using ins by (auto simp: take_map drop_map)
  then show ?thesis
    using s' assms(2) unfolding es'_def insert_at_def by (auto simp: sorted_wrt_append ctx_for_def)
qed

end

interpretation kt: tree_order "CmpKey as" "key_norm as" "\<lambda>k. length k = n \<and> ordered_attrs as"
  for "as" :: "(AttrType \<times> nat) list" and n :: nat
  by unfold_locales

end
