(* ===== verification/Bplus_Run.thy ===== *)
theory Bplus_Run
  imports Bplus_Abs
begin

text \<open>
  Runs of the B+ tree operations over any pool that keeps the contract \<^verbatim>\<open>page_pool\<close>: the
  steps on one page, and the search for a leaf.
\<close>

definition ix_good :: "nat \<Rightarrow> ix_page \<Rightarrow> bool" where
  "ix_good ord d \<longleftrightarrow> node_size_ok ord (ix_node d)"

text \<open>Giving pages another parent.\<close>

definition reparent :: "int list \<Rightarrow> int \<Rightarrow> (int \<Rightarrow> ix_page option) \<Rightarrow> int \<Rightarrow> ix_page option" where
  "reparent ps par V = (\<lambda>q. if q \<in> set ps then map_option (\<lambda>d. d\<lparr>ix_node := (ix_node d)\<lparr>parent := par\<rparr>\<rparr>) (V q) else V q)"

lemma reparent_Nil [simp]: "reparent [] par V = V"
  by (simp add: reparent_def)

lemma reparent_Cons:
  assumes "V q = Some d"
  shows "reparent ps par (V(q \<mapsto> d\<lparr>ix_node := (ix_node d)\<lparr>parent := par\<rparr>\<rparr>)) = reparent (q # ps) par V"
  using assms by (auto simp: reparent_def)

lemma reparent_other: "q \<notin> set ps \<Longrightarrow> reparent ps par V q = V q"
  by (simp add: reparent_def)

lemma tree_at_reparent:
  assumes "tree_at V ord q t" "distinct (pages t)" "page_of t \<in> set ps" "set ps \<inter> set (tl (pages t)) = {}"
  shows "tree_at (reparent ps par V) ord par t"
proof (cases t)
  case (Lf p es nxt)
  then show ?thesis using assms leaf_node_parent by (auto simp: reparent_def)
next
  case (Nd p xs)
  have "tree_at (reparent ps par V) ord p (snd x) = tree_at V ord p (snd x)" if "x \<in> set xs" for x
    by (rule tree_at_cong, rule reparent_other) (use that assms Nd in auto)
  then show ?thesis using assms Nd inner_node_parent by (auto simp: reparent_def)
qed

lemma card_pin:
  fixes f :: "int \<Rightarrow> nat"
  assumes "finite {q. 0 < f q}"
  shows "finite {q. 0 < (f(p := n)) q}" "card {q. 0 < (f(p := n)) q} \<le> Suc (card {q. 0 < f q})"
proof -
  have sub: "{q. 0 < (f(p := n)) q} \<subseteq> insert p {q. 0 < f q}" by auto
  show "finite {q. 0 < (f(p := n)) q}" by (rule finite_subset [OF sub]) (use assms in simp)
  have "card {q. 0 < (f(p := n)) q} \<le> card (insert p {q. 0 < f q})" by (rule card_mono [OF _ sub]) (use assms in simp)
  also have "\<dots> \<le> Suc (card {q. 0 < f q})" using assms by (simp add: card_insert_if)
  finally show "card {q. 0 < (f(p := n)) q} \<le> Suc (card {q. 0 < f q})" .
qed

text \<open>At least \<^verbatim>\<open>n\<close> more pages can be pinned.\<close>

definition free_pins :: "(int \<Rightarrow> nat) \<Rightarrow> nat \<Rightarrow> nat \<Rightarrow> bool" where
  "free_pins P c n \<longleftrightarrow> card {q. 0 < P q} + n \<le> c \<and> (\<forall>q. P q + n < 2 ^ 32)"

lemma free_pins_less: "free_pins P c n \<Longrightarrow> m \<le> n \<Longrightarrow> free_pins P c m"
  unfolding free_pins_def by (meson add_le_cancel_left le_trans le_less_trans)

text \<open>Every leaf has the page of the next leaf, the last one page 0.\<close>

definition linked :: "(int \<times> (byte list \<times> RID) list \<times> int) list \<Rightarrow> bool" where
  "linked ls \<longleftrightarrow> map (\<lambda>(p, es, nxt). nxt) ls = tl (map fst ls) @ [0]"

locale index_pool =
  page_pool ops fid ok view pins held stable cap count limit "ix_good ord" + tree_order cmp norm proper
  for ops :: "('s, ix_page) pool_ops" and fid ok view pins held stable cap count limit
    and ord :: nat and cmp and norm :: "byte list \<Rightarrow> 'o :: linorder" and proper +
  assumes order_two: "2 \<le> ord" and limit_fuel: "limit \<le> int tree_fuel"
begin

definition tree_handler :: "bt_handler \<Rightarrow> bool" where
  "tree_handler h \<longleftrightarrow> bt_pool h \<and> bt_file_id h = fid \<and> handler_cmp (file_header h) = cmp \<and> order (file_header h) = ord"

definition keeps :: "'s \<Rightarrow> 's \<Rightarrow> bool" where
  "keeps s s' \<longleftrightarrow> cap s' = cap s \<and> (\<forall>h q. held s h q \<longrightarrow> held s' h q) \<and> (\<forall>q. stable s q \<longrightarrow> stable s' q)"

definition free_frames :: "'s \<Rightarrow> nat \<Rightarrow> bool" where
  "free_frames s n \<longleftrightarrow> free_pins (pins s) (cap s) n"

lemma keeps_refl: "keeps s s"
  by (simp add: keeps_def)

lemma keeps_trans: "keeps s1 s2 \<Longrightarrow> keeps s2 s3 \<Longrightarrow> keeps s1 s3"
  by (simp add: keeps_def)

lemma free_frames_pin:
  assumes "ok s" "free_frames s (Suc n)" "pins s' = (pins s)(p := Suc (pins s p))" "cap s' = cap s"
  shows "free_frames s' n"
proof -
  have "pins s q + Suc n < 2 ^ 32" for q using assms(2) by (simp add: free_frames_def free_pins_def)
  then have "pins s' q + n < 2 ^ 32" for q
    unfolding assms(3) using Suc_lessD [of "pins s q + n" "2 ^ 32"] by (cases "q = p") (simp_all only: fun_upd_same fun_upd_other add_Suc add_Suc_right not_False_eq_True)
  then show ?thesis
    using assms card_pin(2) [OF finite_pins [OF assms(1)], of p "Suc (pins s p)"] by (simp add: free_frames_def free_pins_def)
qed

lemma get_fid_run [run]: "tree_handler h \<Longrightarrow> get_fid (h, s) = Some (Inr fid, (h, s))"
  by (simp add: get_fid_def tree_handler_def run)

lemma get_header_run [run]: "get_header (h, s) = Some (Inr (file_header h), (h, s))"
  by (simp add: get_header_def run)

lemma pool_op_ok [run]: "m s = Some (r, s') \<Longrightarrow> pool_op m (h, s) = Some (r, (h, s'))"
  by (simp add: pool_op_def)

lemma fetch_run:
  assumes "tree_handler h" "ok s" "view s p = Some d" "0 < pins s p \<or> card {q. 0 < pins s q} < cap s" "pins s p < 2 ^ 32 - 1"
  shows "\<exists>ph s'. fetch ops p (h, s) = Some (Inr (ph, ix_node d), (h, s')) \<and> ok s' \<and> view s' = view s \<and>
    pins s' = (pins s)(p := Suc (pins s p)) \<and> held s' ph p \<and> count s' = count s \<and> keeps s s'"
proof -
  obtain ph s' where g: "op_get_this_page ops fid p s = Some (Inr ph, s')" "ok s'" "view s' = view s"
      "pins s' = (pins s)(p := Suc (pins s p))" "held s' ph p" "cap s' = cap s" "count s' = count s"
      "\<forall>h' q. held s h' q \<longrightarrow> held s' h' q" "\<forall>q. stable s q \<longrightarrow> stable s' q"
    using get_ok [OF assms(2-5)] by blast
  have "op_get_data ops ph s' = Some (Inr d, s')" using data_ok [OF g(2,5)] g(3) assms(3) by simp
  then have "fetch ops p (h, s) = Some (Inr (ph, ix_node d), (h, s'))"
    using assms(1) g(1) by (simp add: fetch_def run)
  then show ?thesis using g by (auto simp: keeps_def)
qed

lemma fetch_free:
  assumes "tree_handler h" "ok s" "view s p = Some d" "free_frames s (Suc n)"
  shows "\<exists>ph s'. fetch ops p (h, s) = Some (Inr (ph, ix_node d), (h, s')) \<and> ok s' \<and> view s' = view s \<and>
    pins s' = (pins s)(p := Suc (pins s p)) \<and> held s' ph p \<and> count s' = count s \<and> keeps s s' \<and> free_frames s' n"
proof -
  have "pins s p + Suc n < 2 ^ 32" "card {q. 0 < pins s q} + Suc n \<le> cap s"
    using assms(4) by (simp_all add: free_frames_def free_pins_def)
  then have "pins s p < 2 ^ 32 - 1" "card {q. 0 < pins s q} < cap s" by linarith+
  then obtain ph s' where "fetch ops p (h, s) = Some (Inr (ph, ix_node d), (h, s'))" "ok s'" "view s' = view s"
      "pins s' = (pins s)(p := Suc (pins s p))" "held s' ph p" "count s' = count s" "keeps s s'"
    using fetch_run [OF assms(1-3)] by blast
  then show ?thesis using free_frames_pin [OF assms(2,4)] by (auto simp: keeps_def)
qed

lemma fetch_new_run:
  assumes "tree_handler h" "ok s" "free_frames s (Suc n)" "count s < limit"
  shows "\<exists>ph p d s'. fetch_new ops (h, s) = Some (Inr (ph, ix_node d, p), (h, s')) \<and> ok s' \<and> 0 < p \<and>
    view s p = None \<and> pins s p = 0 \<and> view s' = (view s)(p \<mapsto> d) \<and> pins s' = (pins s)(p := Suc (pins s p)) \<and>
    held s' ph p \<and> p \<le> count s \<and> count s' = max (count s) (p + 1) \<and> keeps s s' \<and> free_frames s' n \<and>
    node_size_ok ord (ix_node d)"
proof -
  have "card {q. 0 < pins s q} < cap s" using assms(3) by (simp add: free_frames_def free_pins_def)
  then obtain ph p d s' where g: "op_allocate_page ops fid s = Some (Inr ph, s')" "ok s'" "0 < p" "view s p = None"
      "pins s p = 0" "view s' = (view s)(p \<mapsto> d)" "pins s' = (pins s)(p := 1)" "held s' ph p" "cap s' = cap s"
      "p \<le> count s" "count s' = max (count s) (p + 1)" "\<forall>h' q. held s h' q \<longrightarrow> held s' h' q"
      "\<forall>q. stable s q \<longrightarrow> stable s' q"
    using alloc_ok [OF assms(2,4)] by blast
  have "op_get_data ops ph s' = Some (Inr d, s')" "op_get_page_num ops ph s' = Some (Inr p, s')"
    using data_ok [OF g(2,8), of d] num_ok [OF g(2,8)] g(6) by simp_all
  then have "fetch_new ops (h, s) = Some (Inr (ph, ix_node d, p), (h, s'))"
    using assms(1) g(1) by (simp add: fetch_new_def run)
  moreover have "node_size_ok ord (ix_node d)" using view_good [OF g(2), of p d] g(6) by (simp add: ix_good_def)
  moreover have "free_frames s' n" by (rule free_frames_pin [OF assms(2,3), of _ p]) (use g in simp_all)
  ultimately show ?thesis using g by (auto simp: keeps_def)
qed

lemma store_run:
  assumes "ok s" "held s ph p" "view s p = Some d" "node_size_ok ord nd"
  shows "\<exists>s'. store ops ph nd (h, s) = Some (Inr (), (h, s')) \<and> ok s' \<and>
    view s' = (view s)(p \<mapsto> d\<lparr>ix_node := nd\<rparr>) \<and> pins s' = pins s \<and> count s' = count s \<and> cap s' = cap s \<and>
    held s' = held s \<and> (\<forall>q. q \<noteq> p \<longrightarrow> stable s q \<longrightarrow> stable s' q)"
proof -
  have "op_peek_data ops ph s = Some (Inr d, s)" using peek_ok [OF assms(1,2)] data_ok [OF assms(1-3)] by simp
  moreover obtain s' where "op_put_data ops ph (d\<lparr>ix_node := nd\<rparr>) s = Some (Inr (), s')" "ok s'"
      "view s' = (view s)(p \<mapsto> d\<lparr>ix_node := nd\<rparr>)" "pins s' = pins s" "count s' = count s" "cap s' = cap s"
      "held s' = held s" "\<forall>q. q \<noteq> p \<longrightarrow> stable s q \<longrightarrow> stable s' q"
    using put_ok [OF assms(1,2), of "d\<lparr>ix_node := nd\<rparr>"] assms(3,4) by (auto simp: ix_good_def)
  ultimately show ?thesis by (auto simp: store_def run)
qed

lemma unpin_run:
  assumes "ok s" "held s ph p" "stable s p"
  shows "\<exists>s'. unpin ops ph (h, s) = Some (Inr (), (h, s')) \<and> ok s' \<and> view s' = view s \<and>
    pins s' = (pins s)(p := pins s p - 1) \<and> count s' = count s \<and> cap s' = cap s \<and>
    (\<forall>h' q. held s h' q \<longrightarrow> q \<noteq> p \<or> 1 < pins s p \<longrightarrow> held s' h' q) \<and> (\<forall>q. stable s q \<longrightarrow> stable s' q)"
proof -
  obtain s' where "op_unpin_page ops ph s = Some (Inr (ph\<lparr>is_open := False\<rparr>), s')" "ok s'" "view s' = view s"
      "pins s' = (pins s)(p := pins s p - 1)" "cap s' = cap s" "count s' = count s"
      "\<forall>h' q. held s h' q \<longrightarrow> q \<noteq> p \<or> 1 < pins s p \<longrightarrow> held s' h' q" "\<forall>q. stable s q \<longrightarrow> stable s' q"
    using unpin_ok [OF assms] by blast
  then show ?thesis by (auto simp: unpin_def run)
qed

lemma finish_run:
  assumes "ok s" "held s ph p"
  shows "\<exists>s'. finish ops ph (h, s) = Some (Inr (), (h, s')) \<and> ok s' \<and> view s' = view s \<and>
    pins s' = (pins s)(p := pins s p - 1) \<and> count s' = count s \<and> cap s' = cap s \<and>
    (\<forall>h' q. held s h' q \<longrightarrow> q \<noteq> p \<or> 1 < pins s p \<longrightarrow> held s' h' q) \<and> stable s' p \<and> (\<forall>q. stable s q \<longrightarrow> stable s' q)"
proof -
  obtain s1 where d: "op_mark_dirty ops ph s = Some (Inr (), s1)" "ok s1" "view s1 = view s" "pins s1 = pins s"
      "cap s1 = cap s" "count s1 = count s" "held s1 = held s" "stable s1 p" "\<forall>q. stable s q \<longrightarrow> stable s1 q"
    using dirty_ok [OF assms] by blast
  obtain s2 where "unpin ops ph (h, s1) = Some (Inr (), (h, s2))" "ok s2" "view s2 = view s1"
      "pins s2 = (pins s1)(p := pins s1 p - 1)" "count s2 = count s1" "cap s2 = cap s1"
      "\<forall>h' q. held s1 h' q \<longrightarrow> q \<noteq> p \<or> 1 < pins s1 p \<longrightarrow> held s2 h' q" "\<forall>q. stable s1 q \<longrightarrow> stable s2 q"
    using unpin_run [OF d(2) _ d(8), of ph h] assms(2) d(7) by auto
  then show ?thesis using d by (auto simp: finish_def run)
qed

text \<open>Changing one page: whatever is done between the fetch and the store, when it comes down to
  storing \<^verbatim>\<open>nd\<close>.\<close>

lemma edit_run:
  assumes "tree_handler h" "ok s" "view s p = Some d" "free_frames s (Suc n)" "node_size_ok ord nd"
    and k: "\<And>ph s1. k (ph, ix_node d) (h, s1) = bindE (store ops ph nd) (\<lambda>_. finish ops ph) (h, s1)"
  shows "\<exists>s'. bindE (fetch ops p) k (h, s) = Some (Inr (), (h, s')) \<and> ok s' \<and>
    view s' = (view s)(p \<mapsto> d\<lparr>ix_node := nd\<rparr>) \<and> pins s' = pins s \<and> count s' = count s \<and> keeps s s'"
proof -
  obtain ph s1 where 1: "fetch ops p (h, s) = Some (Inr (ph, ix_node d), (h, s1))" "ok s1" "view s1 = view s"
      "pins s1 = (pins s)(p := Suc (pins s p))" "held s1 ph p" "count s1 = count s" "keeps s s1"
    using fetch_free [OF assms(1-4)] by blast
  obtain s2 where 2: "store ops ph nd (h, s1) = Some (Inr (), (h, s2))" "ok s2" "view s2 = (view s1)(p \<mapsto> d\<lparr>ix_node := nd\<rparr>)"
      "pins s2 = pins s1" "count s2 = count s1" "cap s2 = cap s1" "held s2 = held s1"
      "\<forall>q. q \<noteq> p \<longrightarrow> stable s1 q \<longrightarrow> stable s2 q"
    using store_run [OF 1(2,5) _ assms(5), of d h] 1(3) assms(3) by auto
  obtain s3 where 3: "finish ops ph (h, s2) = Some (Inr (), (h, s3))" "ok s3" "view s3 = view s2"
      "pins s3 = (pins s2)(p := pins s2 p - 1)" "count s3 = count s2" "cap s3 = cap s2"
      "\<forall>h' q. held s2 h' q \<longrightarrow> q \<noteq> p \<or> 1 < pins s2 p \<longrightarrow> held s3 h' q" "stable s3 p" "\<forall>q. stable s2 q \<longrightarrow> stable s3 q"
    using finish_run [OF 2(2), of ph p h] 2(7) 1(5) by auto
  have "bindE (fetch ops p) k (h, s) = Some (Inr (), (h, s3))" using 1(1) 2(1) 3(1) by (simp add: run k)
  moreover have "pins s3 = pins s" using 1 2 3 by auto
  moreover have "keeps s s3"
  proof -
    have "held s3 h' q" if "held s h' q" for h' q
    proof -
      have "held s2 h' q" using that 1(7) 2(7) by (simp add: keeps_def)
      moreover have "q \<noteq> p \<or> 1 < pins s2 p" using held_pins [OF assms(2) that] 1(4) 2(4) by auto
      ultimately show ?thesis using 3(7) by blast
    qed
    moreover have "stable s3 q" if "stable s q" for q
      using that 1(7) 2(8) 3(8,9) by (cases "q = p") (auto simp: keeps_def)
    ultimately show ?thesis using 1(7) 2(6) 3(6) by (simp add: keeps_def)
  qed
  ultimately show ?thesis using 1(3,6) 2(3,5) 3(2,3,5) by auto
qed

lemma set_parent_run:
  assumes "tree_handler h" "ok s" "view s p = Some d" "free_frames s (Suc n)"
  shows "\<exists>s'. set_parent ops p par (h, s) = Some (Inr (), (h, s')) \<and> ok s' \<and>
    view s' = reparent [p] par (view s) \<and> pins s' = pins s \<and> count s' = count s \<and> keeps s s'"
proof -
  have "node_size_ok ord ((ix_node d)\<lparr>parent := par\<rparr>)"
    using view_good [OF assms(2,3)] by (simp add: ix_good_def node_size_ok_def)
  from edit_run [OF assms this] show ?thesis
    unfolding set_parent_def using reparent_Cons [of "view s" p d "[]" par] assms(3) by simp
qed

lemma set_parents_run:
  assumes "tree_handler h" "ok s" "\<forall>r \<in> set rs. view s (rid_page r) \<noteq> None" "free_frames s (Suc n)"
  shows "\<exists>s'. set_parents ops rs par (h, s) = Some (Inr (), (h, s')) \<and> ok s' \<and>
    view s' = reparent (map rid_page rs) par (view s) \<and> pins s' = pins s \<and> count s' = count s \<and> keeps s s'"
  using assms
proof (induction rs arbitrary: s)
  case Nil
  then show ?case by (auto simp: run keeps_refl)
next
  case (Cons r rs)
  obtain d where d: "view s (rid_page r) = Some d" using Cons.prems(3) by auto
  obtain s1 where 1: "set_parent ops (rid_page r) par (h, s) = Some (Inr (), (h, s1))" "ok s1"
      "view s1 = reparent [rid_page r] par (view s)" "pins s1 = pins s" "count s1 = count s" "keeps s s1"
    using set_parent_run [OF Cons.prems(1,2) d Cons.prems(4)] by blast
  have "\<forall>r \<in> set rs. view s1 (rid_page r) \<noteq> None" using Cons.prems(3) 1(3) by (auto simp: reparent_def)
  moreover have "free_frames s1 (Suc n)" using Cons.prems(4) 1(4,6) by (simp add: free_frames_def keeps_def)
  ultimately obtain s2 where 2: "set_parents ops rs par (h, s1) = Some (Inr (), (h, s2))" "ok s2"
      "view s2 = reparent (map rid_page rs) par (view s1)" "pins s2 = pins s1" "count s2 = count s1" "keeps s1 s2"
    using Cons.IH [OF Cons.prems(1) 1(2)] by blast
  have "view s2 = reparent (map rid_page (r # rs)) par (view s)"
    unfolding 2(3) 1(3) by (auto simp: reparent_def fun_eq_iff map_option.compositionality comp_def)
  then show ?case using 1 2 keeps_trans by (auto simp: run)
qed

section \<open>Searching\<close>

definition idle :: "'s \<Rightarrow> bool" where
  "idle s \<longleftrightarrow> ok s \<and> (\<forall>q. stable s q) \<and> free_frames s 3"

definition tree_inv :: "'s \<Rightarrow> tree \<Rightarrow> bool" where
  "tree_inv s t \<longleftrightarrow> tree_at (view s) ord (- 1) t \<and> distinct (pages t) \<and> sorted_wrt (mark_less norm) (marks t) \<and>
     (\<forall>m \<in> set (marks t). proper (mark_key m)) \<and> linked (leaves t)"

text \<open>A tree has no more pages than the file.\<close>

lemma pages_bound:
  assumes "ok s" "tree_at (view s) ord par t" "distinct (pages t)" "count s \<le> limit"
  shows "length (pages t) \<le> tree_fuel"
proof -
  have "set (pages t) \<subseteq> {1..<count s}" using view_range [OF assms(1)] tree_at_view [OF assms(2)] by fastforce
  then have "card (set (pages t)) \<le> card {1..<count s}" by (rule card_mono [OF finite_atLeastLessThan_int])
  then have "length (pages t) \<le> nat (count s - 1)" using assms(3) by (simp add: distinct_card)
  then show ?thesis using assms(4) limit_fuel by linarith
qed

lemma inner_child:
  assumes "inner_node ord par (map (\<lambda>x. page_of (snd x)) (b @ (k, t) # a)) (map fst (tl (b @ (k, t) # a))) nd"
  shows "rid_page (rids nd ! length b) = page_of t" "length b < length (rids nd)"
proof -
  let ?xs = "b @ (k, t) # a"
  have m: "map rid_page (take (length ?xs) (rids nd)) = map (\<lambda>x. page_of (snd x)) ?xs" and l: "length ?xs \<le> length (rids nd)"
    using assms by (auto simp: inner_node_def node_size_ok_def)
  show "length b < length (rids nd)" using l by simp
  have "map rid_page (take (length ?xs) (rids nd)) ! length b = page_of t" unfolding m by (simp add: nth_append)
  then show "rid_page (rids nd ! length b) = page_of t" using l by simp
qed

lemma find_leaf_loop_run:
  assumes "tree_handler h" "ok s" "tree_at (view s) ord par t" "held s ph (page_of t)" "view s (page_of t) = Some d"
    and "\<forall>q. stable s q" "pins s = P(page_of t := Suc (P (page_of t)))" "free_pins P (cap s) 1"
    and "sorted_wrt (mark_less norm) (marks (plug t c))" "ctx_for norm key c" "proper key"
    and "\<forall>m \<in> set (marks (plug t c)). proper (mark_key m)" "length (pages t) \<le> n"
  shows "\<exists>p es nxt c' s'. find_leaf_loop ops (file_header h) key n ph (ix_node d) (h, s) = Some (Inr p, (h, s')) \<and>
    plug t c = plug (Lf p es nxt) c' \<and> ctx_for norm key c' \<and> ok s' \<and> view s' = view s \<and> pins s' = P \<and>
    count s' = count s \<and> cap s' = cap s \<and> (\<forall>q. stable s' q)"
  using assms(2-10,12,13)
proof (induction t arbitrary: n c ph d s par)
  case (Lf p es nxt)
  obtain m where n: "n = Suc m" using Lf.prems(11) by (cases n) auto
  obtain s' where u: "unpin ops ph (h, s) = Some (Inr (), (h, s'))" "ok s'" "view s' = view s"
      "pins s' = (pins s)(p := pins s p - 1)" "count s' = count s" "cap s' = cap s" "\<forall>q. stable s q \<longrightarrow> stable s' q"
    using unpin_run [OF Lf.prems(1), of ph p h] Lf.prems(3,5) by auto
  have "is_leaf (ix_node d)" using Lf.prems(2,4) by (auto simp: leaf_node_def)
  then have "find_leaf_loop ops (file_header h) key n ph (ix_node d) (h, s) = Some (Inr p, (h, s'))"
    using num_ok [OF Lf.prems(1,3)] u(1) by (simp add: n run)
  moreover have "pins s' = P" using u(4) Lf.prems(6) by auto
  ultimately show ?case using u Lf.prems(5,9) by blast
next
  case (Nd p xs)
  obtain m where n: "n = Suc m" using Nd.prems(11) by (cases n) auto
  let ?nd = "ix_node d" and ?ks = "map fst (tl xs)"
  have inner: "inner_node ord par (map (\<lambda>x. page_of (snd x)) xs) ?ks ?nd"
    and kids: "\<forall>x \<in> set xs. tree_at (view s) ord p (snd x)" using Nd.prems(2,4) by auto
  have xs: "xs \<noteq> []" using inner by (auto simp: inner_node_def)
  have "\<forall>k \<in> set ?ks. proper k"
  proof
    fix k assume "k \<in> set ?ks"
    then have "Sep k \<in> set (marks (Nd p xs))" using xs by (cases xs) auto
    then have "Sep k \<in> set (marks (plug (Nd p xs) c))" by (simp only: marks_plug set_append Un_iff simp_thms)
    then have "proper (mark_key (Sep k))" using Nd.prems(10) by blast
    then show "proper k" by simp
  qed
  then obtain b k t a where x: "xs = b @ (k, t) # a" "length b = child_index cmp key ?ks"
      and ba: "b \<noteq> [] \<longrightarrow> norm k \<le> norm key" "a \<noteq> [] \<longrightarrow> norm key < norm (fst (hd a))"
    using child_choice [OF xs assms(11)] by blast
  let ?c = "(p, b, k, a) # c"
  have plug: "plug (Nd p xs) c = plug t ?c" by (simp add: x)
  obtain s1 where u: "unpin ops ph (h, s) = Some (Inr (), (h, s1))" "ok s1" "view s1 = view s"
      "pins s1 = (pins s)(p := pins s p - 1)" "count s1 = count s" "cap s1 = cap s" "\<forall>q. stable s q \<longrightarrow> stable s1 q"
    using unpin_run [OF Nd.prems(1), of ph p h] Nd.prems(3,5) by auto
  have P: "pins s1 = P" using u(4) Nd.prems(6) by auto
  have t: "tree_at (view s1) ord p t" using kids x u(3) by simp
  obtain d' where d': "view s1 (page_of t) = Some d'" using tree_at_view [OF t page_of_in] by auto
  have "free_frames s1 (Suc 0)" using Nd.prems(7) P u(6) by (simp add: free_frames_def)
  then obtain ph' s2 where f: "fetch ops (page_of t) (h, s1) = Some (Inr (ph', ix_node d'), (h, s2))" "ok s2" "view s2 = view s1"
      "pins s2 = (pins s1)(page_of t := Suc (pins s1 (page_of t)))" "held s2 ph' (page_of t)" "count s2 = count s1" "keeps s1 s2"
    using fetch_free [OF assms(1) u(2) d'] by blast
  have nd: "\<not> is_leaf ?nd" "key_num ?nd \<le> length (keys ?nd)" "key_num ?nd < length (rids ?nd)"
      "take (key_num ?nd) (keys ?nd) = ?ks"
    using inner by (auto simp: inner_node_def node_size_ok_def)
  have child: "rid_page (rids ?nd ! child_index cmp key ?ks) = page_of t"
    using inner_child(1) [of par b k t a ?nd] inner x by simp
  have step: "find_leaf_loop ops (file_header h) key n ph ?nd (h, s) = find_leaf_loop ops (file_header h) key m ph' (ix_node d') (h, s2)"
    using assms(1) u(1) f(1) nd child by (simp add: n run Let_def tree_handler_def)
  have mem: "(k, t) \<in> set xs" "t \<in> Basic_BNFs.snds (k, t)" by (simp_all add: x)
  have "\<exists>p es nxt c' s'. find_leaf_loop ops (file_header h) key m ph' (ix_node d') (h, s2) = Some (Inr p, (h, s')) \<and>
    plug t ?c = plug (Lf p es nxt) c' \<and> ctx_for norm key c' \<and> ok s' \<and> view s' = view s2 \<and> pins s' = P \<and>
    count s' = count s2 \<and> cap s' = cap s2 \<and> (\<forall>q. stable s' q)"
  proof (rule Nd.IH [OF mem, of s2 p])
    show "\<forall>q. stable s2 q" using Nd.prems(5) u(7) f(7) by (simp add: keeps_def)
    show "ctx_for norm key ?c" by (rule ctx_for_step) (use Nd.prems(8,9) ba x in auto)
    show "length (pages t) \<le> m" using Nd.prems(11) n by (auto simp: x)
  qed (use f u t d' P Nd.prems(7,8,10) plug in \<open>auto simp: keeps_def\<close>)
  then show ?case using step f(3,6,7) u(3,5,6) plug by (auto simp: keeps_def)
qed

definition same :: "'s \<Rightarrow> 's \<Rightarrow> bool" where
  "same s s' \<longleftrightarrow> view s' = view s \<and> pins s' = pins s \<and> cap s' = cap s \<and> count s' = count s"

lemma free_frames_less: "free_frames s n \<Longrightarrow> m \<le> n \<Longrightarrow> free_frames s m"
  using free_pins_less by (auto simp: free_frames_def)

text \<open>Leaves of a plugged tree.\<close>

lemma plug_leaf:
  assumes "tree_inv s (plug (Lf p es nxt) c)"
  shows "\<exists>d. view s p = Some d \<and> leaf_node ord (ctx_page c) es nxt (ix_node d)"
    "\<forall>k \<in> set (map fst es). proper k"
    "sorted_wrt (\<lambda>a b. norm a < norm b) (map fst es)"
proof -
  show "\<exists>d. view s p = Some d \<and> leaf_node ord (ctx_page c) es nxt (ix_node d)"
    using assms by (auto simp: tree_inv_def tree_at_plug)
  show "\<forall>k \<in> set (map fst es). proper k"
    using assms by (force simp: tree_inv_def marks_plug)
  show "sorted_wrt (\<lambda>a b. norm a < norm b) (map fst es)"
    using assms by (simp add: tree_inv_def marks_plug sorted_wrt_append sorted_wrt_map)
qed

lemma find_leaf_run:
  assumes "tree_handler h" "idle s" "tree_inv s t" "root_page (file_header h) = page_of t" "count s \<le> limit" "proper key"
  shows "\<exists>p es nxt c s'. find_leaf ops key (h, s) = Some (Inr p, (h, s')) \<and> t = plug (Lf p es nxt) c \<and>
    ctx_for norm key c \<and> idle s' \<and> same s s'"
proof -
  have i: "ok s" "\<forall>q. stable s q" "free_frames s 3" using assms(2) by (auto simp: idle_def)
  have t: "tree_at (view s) ord (- 1) t" "distinct (pages t)" "sorted_wrt (mark_less norm) (marks t)"
      "\<forall>m \<in> set (marks t). proper (mark_key m)"
    using assms(3) by (auto simp: tree_inv_def)
  obtain d where d: "view s (page_of t) = Some d" using tree_at_view [OF t(1) page_of_in] by auto
  obtain ph s1 where f: "fetch ops (page_of t) (h, s) = Some (Inr (ph, ix_node d), (h, s1))" "ok s1" "view s1 = view s"
      "pins s1 = (pins s)(page_of t := Suc (pins s (page_of t)))" "held s1 ph (page_of t)" "count s1 = count s" "keeps s s1"
    using fetch_free [OF assms(1) i(1) d free_frames_less [OF i(3), of "Suc 0"]] by auto
  have "\<exists>p es nxt c' s'. find_leaf_loop ops (file_header h) key tree_fuel ph (ix_node d) (h, s1) = Some (Inr p, (h, s')) \<and>
    plug t [] = plug (Lf p es nxt) c' \<and> ctx_for norm key c' \<and> ok s' \<and> view s' = view s1 \<and> pins s' = pins s \<and>
    count s' = count s1 \<and> cap s' = cap s1 \<and> (\<forall>q. stable s' q)"
  proof (rule find_leaf_loop_run [OF assms(1) f(2), of "- 1"])
    show "free_pins (pins s) (cap s1) 1"
      using free_frames_less [OF i(3), of 1] f(7) by (simp add: free_frames_def keeps_def)
    show "ctx_for norm key []" by (simp add: ctx_for_def)
    show "length (pages t) \<le> tree_fuel" by (rule pages_bound [OF i(1) t(1,2) assms(5)])
  qed (use f i t d assms(6) in \<open>auto simp: keeps_def\<close>)
  then obtain p es nxt c s' where r: "find_leaf_loop ops (file_header h) key tree_fuel ph (ix_node d) (h, s1) = Some (Inr p, (h, s'))"
      "t = plug (Lf p es nxt) c" "ctx_for norm key c" "ok s'" "view s' = view s1" "pins s' = pins s"
      "count s' = count s1" "cap s' = cap s1" "\<forall>q. stable s' q" by auto
  have "find_leaf ops key (h, s) = Some (Inr p, (h, s'))"
    using f(1) r(1) assms(4) by (simp add: find_leaf_def run)
  moreover have "same s s'" using f r by (simp add: same_def keeps_def)
  moreover from this have "idle s'" using i(3) r by (simp add: idle_def same_def free_frames_def)
  ultimately show ?thesis using r(2,3) by blast
qed

text \<open>The entries with a given key are in the leaf that the search ends in.\<close>

lemma entries_in_leaf:
  assumes "tree_inv s (plug (Lf p es nxt) c)" "ctx_for norm key c" "(k, rid) \<in> set (entries (plug (Lf p es nxt) c))" "norm k = norm key"
  shows "(k, rid) \<in> set es"
proof (rule ccontr)
  assume "(k, rid) \<notin> set es"
  then obtain ps es' nxt' where "(ps, es', nxt') \<in> set (leaves_before c) \<union> set (leaves_after c)" "(k, rid) \<in> set es'"
    using assms(3) by (auto simp: entries_def leaves_plug)
  then have "Ent k \<in> set (marks_before c) \<union> set (marks_after c)" using leaves_marks(1,2) by blast
  then show False using assms(2,4) by (auto simp: ctx_for_def)
qed

end

end
