(* ===== verification/Bplus_Insert.thy ===== *)
theory Bplus_Insert
  imports Bplus_Run
begin

text \<open>
  Runs of the insertion into a B+ tree: a new root, the split of an inner node, the walk of
  \<^verbatim>\<open>insert_into_parent\<close> up the tree, and \<^verbatim>\<open>insert_entry\<close> with and without the split
  of a leaf.
\<close>

context index_pool
begin

lemma tree_at_new:
  assumes "tree_at V ord par t" "V p = None"
  shows "tree_at (V(p \<mapsto> d)) ord par t" "p \<notin> set (pages t)"
proof -
  show p: "p \<notin> set (pages t)" using tree_at_view [OF assms(1), of p] assms(2) by auto
  show "tree_at (V(p \<mapsto> d)) ord par t" using assms(1) by (subst tree_at_cong [of t _ V]) (use p in auto)
qed

lemma tree_at_same:
  assumes "tree_at V ord par t" "\<And>q. q \<in> set (pages t) \<Longrightarrow> V' q = V q"
  shows "tree_at V' ord par t"
  using assms tree_at_cong by blast

lemma distinct_tl_page: "distinct (pages t) \<Longrightarrow> page_of t \<notin> set (tl (pages t))"
  by (cases t) auto

lemma tl_pages: "set (tl (pages t)) \<subseteq> set (pages t)"
  by (cases t) auto

text \<open>The handler after the tree has got the root \<^verbatim>\<open>t\<close>.\<close>

definition grown :: "bt_handler \<Rightarrow> 's \<Rightarrow> bt_handler \<Rightarrow> 's \<Rightarrow> tree \<Rightarrow> bool" where
  "grown h s h' s' t \<longleftrightarrow> tree_handler h' \<and> idle s' \<and> pins s' = pins s \<and> cap s' = cap s \<and> count s' \<le> limit \<and>
     tree_at (view s') ord (- 1) t \<and> distinct (pages t) \<and>
     file_header h' = (file_header h)\<lparr>root_page := page_of t\<rparr>"

lemma idle_from:
  assumes "idle s" "ok s'" "keeps s s'" "pins s' = pins s"
  shows "idle s'"
  using assms by (auto simp: idle_def keeps_def free_frames_def)

lemma tree_handler_root:
  "tree_handler h \<Longrightarrow> tree_handler (h\<lparr>file_header := (file_header h)\<lparr>root_page := p\<rparr>, header_dirty := True\<rparr>)"
  by (simp add: tree_handler_def handler_cmp_def header_attrs_def)

lemma new_root_run:
  assumes h: "tree_handler h" and i: "idle s" and l: "tree_at (view s) ord (- 1) l" and r: "tree_at (view s) ord (- 1) r"
    and dist: "distinct (pages l @ pages r)" and room: "count s < limit"
  shows "\<exists>p h' s'. insert_into_new_root ops (page_of l) key (page_of r) (h, s) = Some (Inr (), (h', s')) \<and>
    grown h s h' s' (Nd p [(key, l), (key, r)])"
proof -
  have s: "ok s" "free_frames s 3" using i by (auto simp: idle_def)
  obtain ph p d s1 where 1: "fetch_new ops (h, s) = Some (Inr (ph, ix_node d, p), (h, s1))" "ok s1" "0 < p" "view s p = None"
      "pins s p = 0" "view s1 = (view s)(p \<mapsto> d)" "pins s1 = (pins s)(p := Suc (pins s p))" "held s1 ph p"
      "p \<le> count s" "count s1 = max (count s) (p + 1)" "keeps s s1" "node_size_ok ord (ix_node d)"
    using fetch_new_run [OF h s(1) _ room, of 2] s(2) by (auto simp: eval_nat_numeral)
  obtain nd where nd: "new_root_node (page_of l) key (page_of r) (ix_node d) = Some nd"
      "inner_node ord (- 1) [page_of l, page_of r] [key] nd"
    using new_root_inner [OF 1(12) order_two] by blast
  have "node_size_ok ord nd" using nd(2) by (simp add: inner_node_def)
  then obtain s2 where 2: "store ops ph nd (h, s1) = Some (Inr (), (h, s2))" "ok s2" "view s2 = (view s1)(p \<mapsto> d\<lparr>ix_node := nd\<rparr>)"
      "pins s2 = pins s1" "count s2 = count s1" "cap s2 = cap s1" "held s2 = held s1" "\<forall>q. q \<noteq> p \<longrightarrow> stable s1 q \<longrightarrow> stable s2 q"
    using store_run [OF 1(2,8), of d nd h] 1(6) by auto
  obtain s3 where 3: "finish ops ph (h, s2) = Some (Inr (), (h, s3))" "ok s3" "view s3 = view s2"
      "pins s3 = (pins s2)(p := pins s2 p - 1)" "count s3 = count s2" "cap s3 = cap s2" "stable s3 p" "\<forall>q. stable s2 q \<longrightarrow> stable s3 q"
    using finish_run [OF 2(2), of ph p h] 2(7) 1(8) by auto
  have stable: "\<forall>q. stable s3 q" using i 1(11) 2(8) 3(7,8) by (metis idle_def keeps_def)
  have same3: "pins s3 = pins s" "cap s3 = cap s" using 1 2 3 by (auto simp: keeps_def)
  have V3: "view s3 = (view s)(p \<mapsto> d\<lparr>ix_node := nd\<rparr>)" using 1 2 3 by simp
  have free3: "free_frames s3 (Suc 2)" using s(2) same3 by (simp add: free_frames_def eval_nat_numeral)
  note l3 = tree_at_new(1) [OF l 1(4), of "d\<lparr>ix_node := nd\<rparr>"] tree_at_new(2) [OF l 1(4)]
    and r3 = tree_at_new(1) [OF r 1(4), of "d\<lparr>ix_node := nd\<rparr>"] tree_at_new(2) [OF r 1(4)]
  obtain dl where dl: "view s3 (page_of l) = Some dl" using tree_at_view [OF l3(1) page_of_in] V3 by auto
  obtain s4 where 4: "set_parent ops (page_of l) p (h, s3) = Some (Inr (), (h, s4))" "ok s4"
      "view s4 = reparent [page_of l] p (view s3)" "pins s4 = pins s3" "count s4 = count s3" "keeps s3 s4"
    using set_parent_run [OF h 3(2) dl free3] by blast
  have "set (pages l) \<inter> set (pages r) = {}" using dist by simp
  then have lr: "page_of l \<notin> set (pages r)" "page_of r \<notin> set (pages l)" using page_of_in by blast+
  have r4: "tree_at (view s4) ord (- 1) r"
    unfolding 4(3) V3 by (rule tree_at_same [OF r3(1)]) (use lr in \<open>auto simp: reparent_def\<close>)
  have l4: "tree_at (view s4) ord p l"
    unfolding 4(3) V3 by (rule tree_at_reparent [OF l3(1)]) (use dist distinct_tl_page in auto)
  obtain dr where dr: "view s4 (page_of r) = Some dr" using tree_at_view [OF r4 page_of_in] by auto
  have "free_frames s4 (Suc 2)" using free3 4(4,6) by (simp add: free_frames_def keeps_def)
  then obtain s5 where 5: "set_parent ops (page_of r) p (h, s4) = Some (Inr (), (h, s5))" "ok s5"
      "view s5 = reparent [page_of r] p (view s4)" "pins s5 = pins s4" "count s5 = count s4" "keeps s4 s5"
    using set_parent_run [OF h 4(2) dr] by blast
  have l5: "tree_at (view s5) ord p l"
    unfolding 5(3) by (rule tree_at_same [OF l4]) (use lr in \<open>auto simp: reparent_def\<close>)
  have r5: "tree_at (view s5) ord p r"
    unfolding 5(3) by (rule tree_at_reparent [OF r4]) (use dist distinct_tl_page in auto)
  let ?h = "h\<lparr>file_header := (file_header h)\<lparr>root_page := p\<rparr>, header_dirty := True\<rparr>"
  have "insert_into_new_root ops (page_of l) key (page_of r) (h, s) = Some (Inr (), (?h, s5))"
    using 1(1) nd(1) 2(1) 3(1) 4(1) 5(1) by (simp add: insert_into_new_root_def upd_handler_def run)
  moreover have "grown h s ?h s5 (Nd p [(key, l), (key, r)])"
  proof -
    have "view s5 p = Some (d\<lparr>ix_node := nd\<rparr>)"
      using 4(3) 5(3) V3 l3(2) r3(2) page_of_in by (auto simp: reparent_def simp del: page_of_in)
    then have "tree_at (view s5) ord (- 1) (Nd p [(key, l), (key, r)])" using nd(2) l5 r5 by simp
    moreover have "idle s5"
      using stable 4 5 s(2) same3 by (auto simp: idle_def keeps_def free_frames_def)
    moreover have "count s5 \<le> limit" using 1(9,10) room 2 3 4 5 by auto
    ultimately show ?thesis
      using tree_handler_root [OF h] same3 4 5 dist l3(2) r3(2) by (auto simp: grown_def keeps_def)
  qed
  ultimately show ?thesis by blast
qed

lemma page_not_child:
  assumes "set (pages l) \<inter> set (kpages b) = {}"
  shows "page_of l \<notin> set (map (\<lambda>x. page_of (snd x)) b)"
proof -
  have "set (map (\<lambda>x. page_of (snd x)) b) \<subseteq> set (kpages b)" by auto
  then show ?thesis using assms page_of_in [of l] by blast
qed

text \<open>The children of one node have different pages.\<close>

lemma kpages_page:
  fixes xs :: "(byte list \<times> tree) list"
  assumes "distinct (kpages xs)" "x \<in> set xs" "y \<in> set xs" "page_of (snd y) \<in> set (pages (snd x))"
  shows "page_of (snd y) = page_of (snd x)"
  using assms
proof (induction xs)
  case (Cons z xs)
  have sub: "set (pages (snd w)) \<subseteq> set (kpages xs)" if "w \<in> set xs" for w using that by auto
  have disj: "set (pages (snd z)) \<inter> set (kpages xs) = {}" using Cons.prems(1) by auto
  consider "x = z" "y = z" | "x = z" "y \<in> set xs" | "x \<in> set xs" "y = z" | "x \<in> set xs" "y \<in> set xs"
    using Cons.prems(2,3) by auto
  then show ?case
  proof cases
    case 2
    then show ?thesis using sub [of y] disj Cons.prems(4) page_of_in [of "snd y"] by blast
  next
    case 3
    then show ?thesis using sub [of x] disj Cons.prems(4) page_of_in [of "snd y"] by blast
  next
    case 4
    then show ?thesis using Cons.IH Cons.prems by auto
  qed simp
qed simp

lemma kpages_tl:
  fixes xs :: "(byte list \<times> tree) list"
  assumes "distinct (kpages xs)" "x \<in> set xs" "set ps \<subseteq> (\<lambda>y. page_of (snd y)) ` set xs"
  shows "set ps \<inter> set (tl (pages (snd x))) = {}"
proof -
  have "distinct (pages (snd x))" using assms(1,2) by (auto simp: distinct_concat_iff)
  then have "page_of (snd x) \<notin> set (tl (pages (snd x)))" by (rule distinct_tl_page)
  then show ?thesis using kpages_page [OF assms(1,2)] tl_pages [of "snd x"] assms(3) by fastforce
qed

lemma insert_at_tl: "insert_at (length bs) key (tl (bs @ k # as)) = tl (bs @ k # key # as)"
  by (cases bs) (auto simp: insert_at_def)

text \<open>The two halves of an inner node over the pages after the split.\<close>

lemma split_halves:
  fixes d d2 :: ix_page
  assumes kids: "\<forall>x \<in> set xs. tree_at V ord p (snd x)" and dist: "distinct (p # kpages xs)" and new: "V p2 = None"
    and left: "inner_node ord par (map (\<lambda>x. page_of (snd x)) (take n xs)) (map fst (tl (take n xs))) ndl"
    and right: "inner_node ord par (map (\<lambda>x. page_of (snd x)) (drop n xs)) (map fst (tl (drop n xs))) ndr"
    and p: "V p \<noteq> None"
  defines "V' \<equiv> reparent (map (\<lambda>x. page_of (snd x)) (drop n xs)) p2 (V(p2 \<mapsto> d2, p \<mapsto> d\<lparr>ix_node := ndl\<rparr>, p2 \<mapsto> d2\<lparr>ix_node := ndr\<rparr>))"
  shows "tree_at V' ord par (Nd p (take n xs))" "tree_at V' ord par (Nd p2 (drop n xs))"
proof -
  let ?V = "V(p2 \<mapsto> d2, p \<mapsto> d\<lparr>ix_node := ndl\<rparr>, p2 \<mapsto> d2\<lparr>ix_node := ndr\<rparr>)" and ?ps = "map (\<lambda>x. page_of (snd x)) (drop n xs)"
  have pp: "p \<noteq> p2" using new p by auto
  have fresh: "p2 \<notin> set (pages (snd x))" if "x \<in> set xs" for x using tree_at_new(2) kids new that by blast
  have notp: "p \<notin> set (pages (snd x))" if "x \<in> set xs" for x using dist that by auto
  have V: "tree_at ?V ord p (snd x)" if "x \<in> set xs" for x
    by (rule tree_at_same [of V]) (use kids fresh [OF that] notp [OF that] that in auto)
  have mem: "x \<in> set (take n xs) \<Longrightarrow> x \<in> set xs" "x \<in> set (drop n xs) \<Longrightarrow> x \<in> set xs" for x
    by (auto dest: in_set_takeD in_set_dropD)
  have "p \<notin> set ?ps" "p2 \<notin> set ?ps" using notp fresh mem(2) page_of_in by (auto simp del: page_of_in) metis+
  then have VP: "V' p = Some (d\<lparr>ix_node := ndl\<rparr>)" "V' p2 = Some (d2\<lparr>ix_node := ndr\<rparr>)"
    using pp by (auto simp: V'_def reparent_other)
  have "distinct (kpages (take n xs) @ kpages (drop n xs))"
    using dist by (metis append_take_drop_id concat_append distinct.simps(2) map_append)
  then have disj: "set (kpages (take n xs)) \<inter> set (kpages (drop n xs)) = {}" by simp
  have "tree_at V' ord p (snd x)" if x: "x \<in> set (take n xs)" for x
  proof (rule tree_at_same [OF V [OF mem(1) [OF x]]])
    fix q assume "q \<in> set (pages (snd x))"
    then have "q \<in> set (kpages (take n xs))" using x by auto
    then have "q \<notin> set ?ps" using disj page_of_in by (auto simp del: page_of_in)
    then show "V' q = ?V q" by (simp add: V'_def reparent_other)
  qed
  then show "tree_at V' ord par (Nd p (take n xs))" using VP left by auto
  have "tree_at V' ord p2 (snd x)" if x: "x \<in> set (drop n xs)" for x
    unfolding V'_def
  proof (rule tree_at_reparent [OF V [OF mem(2) [OF x]]])
    show "distinct (pages (snd x))" using dist mem(2) [OF x] by (auto simp: distinct_concat_iff)
    show "page_of (snd x) \<in> set ?ps" using x by auto
    show "set ?ps \<inter> set (tl (pages (snd x))) = {}"
      by (rule kpages_tl [of xs]) (use dist mem(2) x in auto)
  qed
  then show "tree_at V' ord par (Nd p2 (drop n xs))" using VP right by auto
qed

text \<open>Two pages are held, changed and given back; \<^verbatim>\<open>s0\<close> is the state before.\<close>

lemma finish_two:
  assumes i: "idle s0" and s: "ok s" "held s ph1 p1" "held s ph2 p2" "p1 \<noteq> p2" "cap s = cap s0"
    and pins: "pins s = (pins s0)(p1 := Suc (pins s0 p1), p2 := Suc (pins s0 p2))"
    and stable: "\<forall>q. q \<noteq> p1 \<longrightarrow> q \<noteq> p2 \<longrightarrow> stable s q"
  shows "\<exists>s'. bindE (finish ops ph1) (\<lambda>_. bindE (finish ops ph2) k) (h, s) = k () (h, s') \<and> idle s' \<and>
    view s' = view s \<and> pins s' = pins s0 \<and> cap s' = cap s0 \<and> count s' = count s"
proof -
  obtain s1 where 1: "finish ops ph1 (h, s) = Some (Inr (), (h, s1))" "ok s1" "view s1 = view s"
      "pins s1 = (pins s)(p1 := pins s p1 - 1)" "count s1 = count s" "cap s1 = cap s"
      "\<forall>h' q. held s h' q \<longrightarrow> q \<noteq> p1 \<or> 1 < pins s p1 \<longrightarrow> held s1 h' q" "stable s1 p1" "\<forall>q. stable s q \<longrightarrow> stable s1 q"
    using finish_run [OF s(1,2), of h] by blast
  have "held s1 ph2 p2" using 1(7) s(3,4) by auto
  then obtain s2 where 2: "finish ops ph2 (h, s1) = Some (Inr (), (h, s2))" "ok s2" "view s2 = view s1"
      "pins s2 = (pins s1)(p2 := pins s1 p2 - 1)" "count s2 = count s1" "cap s2 = cap s1"
      "stable s2 p2" "\<forall>q. stable s1 q \<longrightarrow> stable s2 q"
    using finish_run [OF 1(2), of ph2 p2 h] by blast
  have "pins s2 = pins s0" using 1(4) 2(4) pins s(4) by auto
  moreover have "\<forall>q. stable s2 q" using stable 1(8,9) 2(7,8) by metis
  ultimately have "idle s2" using i 2 1 s(5) by (simp add: idle_def free_frames_def)
  then show ?thesis using 1 2 s(5) \<open>pins s2 = pins s0\<close> by (auto simp: run)
qed

lemma split_intern_run:
  fixes key :: "byte list" and l r :: tree and k :: "byte list"
  assumes h: "tree_handler h" and i: "idle s" and room: "count s < limit"
    and d: "view s p = Some d" and nd: "inner_node ord par (map (\<lambda>x. page_of (snd x)) b @ page_of l # map (\<lambda>x. page_of (snd x)) a)
      (tl (map fst b @ k # map fst a)) (ix_node d)" and full: "length b + length a + 1 = ord"
  defines "xs \<equiv> b @ (k, l) # (key, r) # a" and "n \<equiv> (ord + 1) div 2"
  assumes kids: "\<forall>x \<in> set xs. tree_at (view s) ord p (snd x)" and dist: "distinct (p # kpages xs)"
  shows "\<exists>p2 s'. split_intern_node ops p (page_of l) (page_of r) key (h, s) = Some (Inr (par, fst (xs ! n), p2), (h, s')) \<and>
    idle s' \<and> pins s' = pins s \<and> cap s' = cap s \<and> view s p2 = None \<and> p2 \<le> count s \<and> count s' = max (count s) (p2 + 1) \<and>
    tree_at (view s') ord par (Nd p (take n xs)) \<and> tree_at (view s') ord par (Nd p2 (drop n xs)) \<and>
    (\<forall>q. q \<notin> set (p # p2 # kpages xs) \<longrightarrow> view s' q = view s q)"
proof -
  have s: "ok s" "free_frames s (Suc (Suc (Suc 0)))" using i by (auto simp: idle_def eval_nat_numeral)
  obtain ph1 s1 where 1: "fetch ops p (h, s) = Some (Inr (ph1, ix_node d), (h, s1))" "ok s1" "view s1 = view s"
      "pins s1 = (pins s)(p := Suc (pins s p))" "held s1 ph1 p" "count s1 = count s" "keeps s s1" "free_frames s1 (Suc (Suc 0))"
    using fetch_free [OF h s(1) d s(2)] by blast
  have "count s1 < limit" using room 1(6) by simp
  then obtain ph2 p2 d2 s2 where 2: "fetch_new ops (h, s1) = Some (Inr (ph2, ix_node d2, p2), (h, s2))" "ok s2" "0 < p2" "view s1 p2 = None"
      "pins s1 p2 = 0" "view s2 = (view s1)(p2 \<mapsto> d2)" "pins s2 = (pins s1)(p2 := Suc (pins s1 p2))" "held s2 ph2 p2"
      "p2 \<le> count s1" "count s2 = max (count s1) (p2 + 1)" "keeps s1 s2" "free_frames s2 (Suc 0)" "node_size_ok ord (ix_node d2)"
    using fetch_new_run [OF h 1(2,8)] by blast
  have pp: "p \<noteq> p2" using 2(4) 1(3) d by auto
  let ?pg = "\<lambda>x :: byte list \<times> tree. page_of (snd x)"
  let ?new = "(ix_node d2)\<lparr>key_num := 0, is_leaf := False, parent := par\<rparr>"
  have notin: "page_of l \<notin> set (map ?pg b)"
    by (rule page_not_child) (use dist in \<open>auto simp: xs_def\<close>)
  have par: "parent (ix_node d) = par" using nd by (simp add: inner_node_def)
  have ks: "insert_at (length (map ?pg b)) key (tl (map fst b @ k # map fst a)) = map fst (tl xs)"
    using insert_at_tl [of "map fst b" key k "map fst a"] by (simp add: xs_def map_tl)
  have ps: "map ?pg b @ page_of l # page_of r # map ?pg a = map ?pg xs" by (simp add: xs_def)
  have "length (tl (map fst b @ k # map fst a)) + 1 = ord" using full by simp
  moreover have "node_size_ok ord ?new" "\<not> is_leaf ?new" "parent ?new = par" "key_num ?new = 0"
    using 2(13) by (simp_all add: node_size_ok_def)
  ultimately obtain ndl ndr where sp: "intern_split ord (page_of l) (page_of r) key (ix_node d) ?new = Some (ndl, ndr, map fst (tl xs) ! (n - 1))"
      "inner_node ord par (take n (map ?pg xs)) (take (n - 1) (map fst (tl xs))) ndl"
      "inner_node ord par (drop n (map ?pg xs)) (drop n (map fst (tl xs))) ndr"
    using intern_split_node [OF nd notin, where key = key and right = "page_of r" and new = ?new] unfolding n_def [symmetric] ks ps by blast
  have n: "0 < n" "n < length xs" using full by (auto simp: n_def xs_def)
  have new_key: "map fst (tl xs) ! (n - 1) = fst (xs ! n)" using n by (simp add: nth_tl)
  have left: "inner_node ord par (map ?pg (take n xs)) (map fst (tl (take n xs))) ndl"
  proof -
    have "map fst (tl (take n xs)) = take (n - 1) (map fst (tl xs))" by (simp add: take_map tl_take)
    then show ?thesis using sp(2) by (simp only: take_map)
  qed
  have right: "inner_node ord par (map ?pg (drop n xs)) (map fst (tl (drop n xs))) ndr"
  proof -
    have "map fst (tl (drop n xs)) = drop n (map fst (tl xs))" by (simp add: drop_map tl_drop)
    then show ?thesis using sp(3) by (simp only: drop_map)
  qed
  have "view s2 p = Some d" using 2(6) 1(3) d pp by simp
  moreover have held2: "held s2 ph1 p" using 1(5) 2(11) by (simp add: keeps_def)
  moreover have sz: "node_size_ok ord ndl" "node_size_ok ord ndr" using left right by (simp_all add: inner_node_def)
  ultimately obtain s3 where 3: "store ops ph1 ndl (h, s2) = Some (Inr (), (h, s3))" "ok s3" "view s3 = (view s2)(p \<mapsto> d\<lparr>ix_node := ndl\<rparr>)"
      "pins s3 = pins s2" "count s3 = count s2" "cap s3 = cap s2" "held s3 = held s2" "\<forall>q. q \<noteq> p \<longrightarrow> stable s2 q \<longrightarrow> stable s3 q"
    using store_run [OF 2(2), of ph1 p d ndl h] by blast
  have "view s3 p2 = Some d2" "held s3 ph2 p2" using 3(3,7) 2(6,8) pp by simp_all
  then obtain s4 where 4: "store ops ph2 ndr (h, s3) = Some (Inr (), (h, s4))" "ok s4" "view s4 = (view s3)(p2 \<mapsto> d2\<lparr>ix_node := ndr\<rparr>)"
      "pins s4 = pins s3" "count s4 = count s3" "cap s4 = cap s3" "held s4 = held s3" "\<forall>q. q \<noteq> p2 \<longrightarrow> stable s3 q \<longrightarrow> stable s4 q"
    using store_run [OF 3(2) _ _ sz(2), of ph2 p2 d2 h] by blast
  let ?rs = "take (key_num ndr + 1) (rids ndr)"
  have rs: "map rid_page ?rs = map ?pg (drop n xs)" using right by (simp add: inner_node_def)
  have V4: "view s4 = (view s)(p2 \<mapsto> d2, p \<mapsto> d\<lparr>ix_node := ndl\<rparr>, p2 \<mapsto> d2\<lparr>ix_node := ndr\<rparr>)" using 4(3) 3(3) 2(6) 1(3) by simp
  have "view s4 q \<noteq> None" if q: "q \<in> set (map rid_page ?rs)" for q
  proof -
    obtain x where x: "x \<in> set xs" "q = ?pg x" using q unfolding rs by (auto dest: in_set_dropD)
    then have "view s q \<noteq> None" using kids tree_at_view [of "view s" ord p "snd x" q] by simp
    then show ?thesis by (simp add: V4)
  qed
  then have vrs: "\<forall>r \<in> set ?rs. view s4 (rid_page r) \<noteq> None" by simp
  have "free_frames s4 (Suc 0)" using 2(12) 3(4,6) 4(4,6) by (simp add: free_frames_def)
  then obtain s5 where 5: "set_parents ops ?rs p2 (h, s4) = Some (Inr (), (h, s5))" "ok s5"
      "view s5 = reparent (map rid_page ?rs) p2 (view s4)" "pins s5 = pins s4" "count s5 = count s4" "keeps s4 s5"
    using set_parents_run [OF h 4(2) vrs] by blast
  have held5: "held s5 ph1 p" "held s5 ph2 p2" using held2 2(8) 3(7) 4(7) 5(6) by (simp_all add: keeps_def)
  have st5: "\<forall>q. q \<noteq> p \<longrightarrow> q \<noteq> p2 \<longrightarrow> stable s5 q"
    using i 1(7) 2(11) 3(8) 4(8) 5(6) by (simp add: idle_def keeps_def)
  have pins5: "pins s5 = (pins s)(p := Suc (pins s p), p2 := Suc (pins s p2))"
    using 1(4) 2(7) 3(4) 4(4) 5(4) pp by auto
  have cap5: "cap s5 = cap s" using 1(7) 2(11) 3(6) 4(6) 5(6) by (simp add: keeps_def)
  obtain s' where 6: "bindE (finish ops ph1) (\<lambda>_. bindE (finish ops ph2) (\<lambda>_. ret (par, fst (xs ! n), p2))) (h, s5) =
      ret (par, fst (xs ! n), p2) (h, s')" "idle s'" "view s' = view s5" "pins s' = pins s" "cap s' = cap s" "count s' = count s5"
    using finish_two [OF i 5(2) held5 pp cap5 pins5 st5, of "\<lambda>_. ret (par, fst (xs ! n), p2)" h] by blast
  have "split_intern_node ops p (page_of l) (page_of r) key (h, s) = Some (Inr (par, fst (xs ! n), p2), (h, s'))"
    using h 1(1) 2(1) sp(1) 3(1) 4(1) 5(1) 6(1) par new_key
    by (simp add: split_intern_node_def tree_handler_def get_header_run run)
  moreover have V': "view s' = reparent (map ?pg (drop n xs)) p2 ((view s)(p2 \<mapsto> d2, p \<mapsto> d\<lparr>ix_node := ndl\<rparr>, p2 \<mapsto> d2\<lparr>ix_node := ndr\<rparr>))"
    using 6(3) 5(3) rs V4 by simp
  have new: "view s p2 = None" using 2(4) 1(3) by simp
  have "view s p \<noteq> None" using d by simp
  note halves = split_halves [OF kids dist new left right this, of d2 d]
  moreover have "view s' q = view s q" if "q \<notin> set (p # p2 # kpages xs)" for q
  proof -
    have "set (map ?pg (drop n xs)) \<subseteq> set (kpages xs)" by (auto dest: in_set_dropD)
    then have "q \<notin> set (map ?pg (drop n xs))" using that by auto
    then show ?thesis using that by (simp add: V' reparent_other)
  qed
  ultimately show ?thesis
    using 6 new 1(6) 2(9,10) 3(5) 4(5) 5(5) by (intro exI [of _ p2] exI [of _ s']) (simp add: V')
qed

section \<open>Up the tree\<close>

lemma ctx_at_view: "ctx_at V ord hole c \<Longrightarrow> q \<in> set (ctx_pages c) \<Longrightarrow> V q \<noteq> None"
proof (induction c arbitrary: hole)
  case (Cons f c)
  obtain p b k a where f: "f = (p, b, k, a)" by (metis surj_pair)
  consider "q = p" | x where "x \<in> set b \<union> set a" "q \<in> set (pages (snd x))" | "q \<in> set (ctx_pages c)"
    using Cons.prems(2) unfolding f by auto
  then show ?case
  proof cases
    case 1
    then show ?thesis using Cons.prems(1) unfolding f by auto
  next
    case 2
    then have "tree_at V ord p (snd x)" using Cons.prems(1) unfolding f by simp
    then show ?thesis using 2 tree_at_view by blast
  next
    case 3
    then show ?thesis using Cons.IH [of p] Cons.prems(1) unfolding f by simp
  qed
qed simp

lemma page_of_plug: "page_of t = page_of t' \<Longrightarrow> page_of (plug t c) = page_of (plug t' c)"
proof (induction c arbitrary: t t')
  case (Cons f c)
  obtain p b k a where f: "f = (p, b, k, a)" by (metis surj_pair)
  show ?case unfolding f plug.simps by (rule Cons.IH) simp
qed simp

lemma marks_split:
  assumes "0 < n" "n < length xs"
  shows "marks (Nd p (take n xs)) @ Sep (fst (xs ! n)) # marks (Nd p2 (drop n xs)) = tl (kmarks xs)"
proof -
  have "kmarks xs = kmarks (take n xs) @ kmarks (drop n xs)" by (metis append_take_drop_id concat_append map_append)
  moreover have "drop n xs = xs ! n # drop (Suc n) xs" using assms(2) by (simp add: Cons_nth_drop_Suc)
  moreover have "kmarks (take n xs) \<noteq> []" using assms by (cases xs; cases n) auto
  ultimately show ?thesis by simp
qed

lemma peek_run:
  assumes "tree_handler h" "idle s" "view s p = Some d"
  shows "\<exists>ph s1 s2. fetch ops p (h, s) = Some (Inr (ph, ix_node d), (h, s1)) \<and> unpin ops ph (h, s1) = Some (Inr (), (h, s2)) \<and>
    idle s2 \<and> same s s2"
proof -
  have i: "ok s" "\<forall>q. stable s q" "free_frames s (Suc 2)" using assms(2) by (auto simp: idle_def eval_nat_numeral)
  obtain ph s1 where 1: "fetch ops p (h, s) = Some (Inr (ph, ix_node d), (h, s1))" "ok s1" "view s1 = view s"
      "pins s1 = (pins s)(p := Suc (pins s p))" "held s1 ph p" "count s1 = count s" "keeps s s1"
    using fetch_free [OF assms(1) i(1) assms(3) i(3)] by blast
  have st: "\<forall>q. stable s1 q" using i(2) 1(7) by (simp add: keeps_def)
  then obtain s2 where 2: "unpin ops ph (h, s1) = Some (Inr (), (h, s2))" "ok s2" "view s2 = view s1"
      "pins s2 = (pins s1)(p := pins s1 p - 1)" "count s2 = count s1" "cap s2 = cap s1" "\<forall>q. stable s1 q \<longrightarrow> stable s2 q"
    using unpin_run [OF 1(2,5), of h] by blast
  have "same s s2" using 1 2 by (auto simp: same_def keeps_def)
  moreover from this have "idle s2" using assms(2) 2 st by (simp add: idle_def same_def free_frames_def)
  ultimately show ?thesis using 1(1) 2(1) by blast
qed

lemma insert_intern_run:
  assumes h: "tree_handler h" and i: "idle s" and ctx: "ctx_at (view s) ord (page_of l) ((p, b, k, a) # c)"
    and l: "tree_at (view s) ord p l" and r: "tree_at (view s) ord p r" and room: "length b + length a + 1 < ord"
    and dist: "distinct (pages l @ pages r @ ctx_pages ((p, b, k, a) # c))"
  shows "\<exists>s'. insert_intern_node ops p (page_of l) (page_of r) key (h, s) = Some (Inr (), (h, s')) \<and> idle s' \<and>
    pins s' = pins s \<and> cap s' = cap s \<and> count s' = count s \<and>
    tree_at (view s') ord (- 1) (plug (Nd p (b @ (k, l) # (key, r) # a)) c)"
proof -
  let ?pg = "\<lambda>x :: byte list \<times> tree. page_of (snd x)" and ?xs = "b @ (k, l) # (key, r) # a"
  obtain d where d: "view s p = Some d" "inner_node ord (ctx_page c) (map ?pg b @ page_of l # map ?pg a) (tl (map fst b @ k # map fst a)) (ix_node d)"
    using ctx by auto
  have s: "ok s" "free_frames s (Suc 2)" using i by (auto simp: idle_def eval_nat_numeral)
  have notin: "page_of l \<notin> set (map ?pg b)"
    by (rule page_not_child) (use dist in auto)
  have len: "length (tl (map fst b @ k # map fst a)) + 1 < ord" using room by simp
  obtain nd where nd: "intern_insert (page_of l) (page_of r) key (ix_node d) = Some nd"
      "inner_node ord (ctx_page c) (map ?pg b @ page_of l # page_of r # map ?pg a)
        (insert_at (length (map ?pg b)) key (tl (map fst b @ k # map fst a))) nd"
    using intern_insert_node [OF d(2) notin len] by blast
  have "node_size_ok ord nd" using nd(2) by (simp add: inner_node_def)
  then obtain s' where e: "insert_intern_node ops p (page_of l) (page_of r) key (h, s) = Some (Inr (), (h, s'))" "ok s'"
      "view s' = (view s)(p \<mapsto> d\<lparr>ix_node := nd\<rparr>)" "pins s' = pins s" "count s' = count s" "keeps s s'"
    using edit_run [OF h s(1) d(1) s(2), of nd
        "\<lambda>(ph, nd). bindE (lift_opt (intern_insert (page_of l) (page_of r) key nd)) (\<lambda>nd'. bindE (store ops ph nd') (\<lambda>_. finish ops ph))"]
    unfolding insert_intern_node_def by (auto simp: nd(1) run)
  have "inner_node ord (ctx_page c) (map ?pg ?xs) (map fst (tl ?xs)) nd"
    using nd(2) insert_at_tl [of "map fst b" key k "map fst a"] by (simp add: map_tl)
  moreover have "tree_at (view s') ord p (snd x)" if x: "x \<in> set ?xs" for x
  proof (rule tree_at_same [of "view s"])
    show "tree_at (view s) ord p (snd x)" using x l r ctx by auto
    fix q assume "q \<in> set (pages (snd x))"
    then have "q \<noteq> p" using x dist by auto
    then show "view s' q = view s q" by (simp add: e(3))
  qed
  ultimately have "tree_at (view s') ord (ctx_page c) (Nd p ?xs)" by (simp add: e(3))
  moreover have "ctx_at (view s') ord p c"
  proof (subst ctx_at_cong [of c _ "view s"])
    show "view s' q = view s q" if "q \<in> set (ctx_pages c)" for q using that dist by (auto simp: e(3))
  qed (use ctx in simp)
  ultimately have "tree_at (view s') ord (- 1) (plug (Nd p ?xs) c)" by (simp add: tree_at_plug)
  then show ?thesis using e idle_from [OF i e(2,6,4)] by (auto simp: keeps_def)
qed

lemma split_ctx_run:
  fixes key :: "byte list"
  assumes h: "tree_handler h" and i: "idle s" and ctx: "ctx_at (view s) ord (page_of l) ((p, b, k, a) # c)"
    and l: "tree_at (view s) ord p l" and r: "tree_at (view s) ord p r" and full: "length b + length a + 1 = ord"
    and dist: "distinct (pages l @ pages r @ ctx_pages ((p, b, k, a) # c))" and room: "count s < limit"
  defines "xs \<equiv> b @ (k, l) # (key, r) # a" and "n \<equiv> (ord + 1) div 2"
  shows "\<exists>p2 s'. split_intern_node ops p (page_of l) (page_of r) key (h, s) = Some (Inr (ctx_page c, fst (xs ! n), p2), (h, s')) \<and>
    idle s' \<and> pins s' = pins s \<and> cap s' = cap s \<and> count s' \<le> count s + 1 \<and>
    tree_at (view s') ord (ctx_page c) (Nd p (take n xs)) \<and> tree_at (view s') ord (ctx_page c) (Nd p2 (drop n xs)) \<and>
    ctx_at (view s') ord p c \<and> distinct (pages (Nd p (take n xs)) @ pages (Nd p2 (drop n xs)) @ ctx_pages c)"
proof -
  obtain d where d: "view s p = Some d" "inner_node ord (ctx_page c) (map (\<lambda>x. page_of (snd x)) b @ page_of l # map (\<lambda>x. page_of (snd x)) a)
      (tl (map fst b @ k # map fst a)) (ix_node d)" using ctx by auto
  have kids: "\<forall>x \<in> set xs. tree_at (view s) ord p (snd x)" using ctx l r by (auto simp: xs_def)
  have xs: "distinct (p # kpages xs @ ctx_pages c)" using dist by (auto simp: xs_def)
  then have dxs: "distinct (p # kpages xs)" by simp
  obtain p2 s' where sp: "split_intern_node ops p (page_of l) (page_of r) key (h, s) = Some (Inr (ctx_page c, fst (xs ! n), p2), (h, s'))"
      "idle s'" "pins s' = pins s" "cap s' = cap s" "view s p2 = None" "p2 \<le> count s" "count s' = max (count s) (p2 + 1)"
      "tree_at (view s') ord (ctx_page c) (Nd p (take n xs))" "tree_at (view s') ord (ctx_page c) (Nd p2 (drop n xs))"
      "\<forall>q. q \<notin> set (p # p2 # kpages xs) \<longrightarrow> view s' q = view s q"
    using split_intern_run [OF h i room d full kids [unfolded xs_def] dxs [unfolded xs_def]] unfolding xs_def [symmetric] n_def [symmetric] by blast
  have ctxc: "ctx_at (view s) ord p c" using ctx by simp
  then have p2: "p2 \<notin> set (ctx_pages c)" using ctx_at_view sp(5) by blast
  have "ctx_at (view s') ord p c"
  proof (subst ctx_at_cong [of c _ "view s"])
    fix q assume "q \<in> set (ctx_pages c)"
    then have "q \<notin> set (p # p2 # kpages xs)" using xs p2 by (auto simp del: set_concat)
    then show "view s' q = view s q" using sp(10) by blast
  qed (rule ctxc)
  moreover have "distinct (pages (Nd p (take n xs)) @ pages (Nd p2 (drop n xs)) @ ctx_pages c)"
  proof -
    have "p2 \<notin> set (kpages xs)" using kids tree_at_view sp(5) by fastforce
    moreover have "kpages xs = kpages (take n xs) @ kpages (drop n xs)" by (metis append_take_drop_id concat_append map_append)
    moreover have "p2 \<noteq> p" using d(1) sp(5) by auto
    ultimately show ?thesis using xs p2 by (auto simp del: set_concat)
  qed
  ultimately show ?thesis using sp by auto
qed

lemma insert_into_parent_run:
  assumes "tree_handler h" "idle s" "ctx_at (view s) ord (page_of l) c" "tree_at (view s) ord (ctx_page c) l"
    "tree_at (view s) ord (ctx_page c) r" "distinct (pages l @ pages r @ ctx_pages c)" "length c < n"
    "count s + int (length c) < limit" "root_page (file_header h) = page_of (plug l c)"
  shows "\<exists>h' s' t'. insert_into_parent ops n (ctx_page c) (page_of l) key (page_of r) (h, s) = Some (Inr (), (h', s')) \<and>
    grown h s h' s' t' \<and> marks t' = marks_before c @ marks l @ Sep key # marks r @ marks_after c \<and>
    leaves t' = leaves_before c @ leaves l @ leaves r @ leaves_after c"
  using assms
proof (induction c arbitrary: n l r key s)
  case Nil
  obtain m where n: "n = Suc m" using Nil.prems(7) by (cases n) auto
  obtain p h' s' where "insert_into_new_root ops (page_of l) key (page_of r) (h, s) = Some (Inr (), (h', s'))"
      "grown h s h' s' (Nd p [(key, l), (key, r)])"
    using new_root_run [OF Nil.prems(1,2), of l r key] Nil.prems(4,5,6,8) by auto
  then show ?case by (intro exI [of _ h'] exI [of _ s'] exI [of _ "Nd p [(key, l), (key, r)]"]) (simp add: n)
next
  case (Cons f c)
  obtain m where n: "n = Suc m" using Cons.prems(7) by (cases n) auto
  obtain p b k a where f: "f = (p, b, k, a)" by (metis surj_pair)
  let ?xs = "b @ (k, l) # (key, r) # a" and ?n = "(ord + 1) div 2"
  obtain d where d: "view s p = Some d" and nd: "inner_node ord (ctx_page c) (map (\<lambda>x. page_of (snd x)) b @ page_of l # map (\<lambda>x. page_of (snd x)) a)
      (tl (map fst b @ k # map fst a)) (ix_node d)" using Cons.prems(3) by (auto simp: f)
  have "ok s" using Cons.prems(2) by (simp add: idle_def)
  then have p: "p \<noteq> - 1" using view_range [of s p] d by auto
  obtain ph s1 s2 where u: "fetch ops p (h, s) = Some (Inr (ph, ix_node d), (h, s1))" "unpin ops ph (h, s1) = Some (Inr (), (h, s2))"
      "idle s2" "same s s2"
    using peek_run [OF Cons.prems(1,2) d] by blast
  have V: "view s2 = view s" "count s2 = count s" "pins s2 = pins s" "cap s2 = cap s" using u(4) by (simp_all add: same_def)
  have num: "key_num (ix_node d) = length b + length a" "length b + length a < ord" using nd by (auto simp: inner_node_def)
  have ord: "order (file_header h) = ord" using Cons.prems(1) by (simp add: tree_handler_def)
  have ctx2: "ctx_at (view s2) ord (page_of l) ((p, b, k, a) # c)" "tree_at (view s2) ord p l" "tree_at (view s2) ord p r"
      "distinct (pages l @ pages r @ ctx_pages ((p, b, k, a) # c))"
    using Cons.prems(3-6) by (simp_all add: f V(1))
  have marks: "marks_before c @ tl (kmarks ?xs) @ marks_after c =
      marks_before (f # c) @ marks l @ Sep key # marks r @ marks_after (f # c)"
    unfolding f by (cases b) auto
  have leaves: "kleaves ?xs = kleaves b @ leaves l @ leaves r @ kleaves a" by simp
  show ?case
  proof (cases "key_num (ix_node d) + 1 < ord")
    case True
    then obtain s' where e: "insert_intern_node ops p (page_of l) (page_of r) key (h, s2) = Some (Inr (), (h, s'))" "idle s'"
        "pins s' = pins s2" "cap s' = cap s2" "count s' = count s2" "tree_at (view s') ord (- 1) (plug (Nd p ?xs) c)"
      using insert_intern_run [OF Cons.prems(1) u(3) ctx2(1-3) _ ctx2(4)] num(1) by auto
    have "insert_into_parent ops n (ctx_page (f # c)) (page_of l) key (page_of r) (h, s) = Some (Inr (), (h, s'))"
      using u(1,2) e(1) p True ord by (simp add: n f run get_header_run)
    moreover have "grown h s h s' (plug (Nd p ?xs) c)"
    proof -
      have "distinct (pages (plug (Nd p ?xs) c))" using ctx2(4) by (auto simp: distinct_plug)
      moreover have "page_of (plug (Nd p ?xs) c) = root_page (file_header h)"
        using Cons.prems(9) page_of_plug [of "Nd p ?xs" "Nd p (b @ (k, l) # a)" c] by (simp add: f)
      ultimately show ?thesis using Cons.prems(1,8) e V by (simp add: grown_def)
    qed
    ultimately show ?thesis
      using marks by (intro exI [of _ h] exI [of _ s'] exI [of _ "plug (Nd p ?xs) c"]) (simp add: marks_plug leaves_plug f)
  next
    case False
    then have full: "length b + length a + 1 = ord" using num by auto
    have "count s2 < limit" using Cons.prems(8) V(2) by simp
    then obtain p2 s3 where sp: "split_intern_node ops p (page_of l) (page_of r) key (h, s2) = Some (Inr (ctx_page c, fst (?xs ! ?n), p2), (h, s3))"
        "idle s3" "pins s3 = pins s2" "cap s3 = cap s2" "count s3 \<le> count s2 + 1"
        "tree_at (view s3) ord (ctx_page c) (Nd p (take ?n ?xs))" "tree_at (view s3) ord (ctx_page c) (Nd p2 (drop ?n ?xs))"
        "ctx_at (view s3) ord p c" "distinct (pages (Nd p (take ?n ?xs)) @ pages (Nd p2 (drop ?n ?xs)) @ ctx_pages c)"
      using split_ctx_run [OF Cons.prems(1) u(3) ctx2(1-3) full ctx2(4), where key = key] by blast
    have "root_page (file_header h) = page_of (plug (Nd p (take ?n ?xs)) c)"
      using Cons.prems(9) page_of_plug [of "Nd p (take ?n ?xs)" "Nd p (b @ (k, l) # a)" c] by (simp add: f)
    moreover have "count s3 + int (length c) < limit" using Cons.prems(8) sp(5) V(2) by simp
    ultimately obtain h' s' t' where ih: "insert_into_parent ops m (ctx_page c) p (fst (?xs ! ?n)) p2 (h, s3) = Some (Inr (), (h', s'))"
        "grown h s3 h' s' t'" "marks t' = marks_before c @ marks (Nd p (take ?n ?xs)) @ Sep (fst (?xs ! ?n)) # marks (Nd p2 (drop ?n ?xs)) @ marks_after c"
        "leaves t' = leaves_before c @ leaves (Nd p (take ?n ?xs)) @ leaves (Nd p2 (drop ?n ?xs)) @ leaves_after c"
      using Cons.IH [OF Cons.prems(1) sp(2) _ sp(6,7,9), of m "fst (?xs ! ?n)"] sp(8) Cons.prems(7) n by (auto simp del: marks.simps leaves.simps)
    have "0 < ?n" "?n < length ?xs" using full by auto
    note ms = marks_split [OF this, of p p2]
    have "marks t' = marks_before c @ tl (kmarks ?xs) @ marks_after c"
      unfolding ih(3) ms [symmetric] by (simp only: append_assoc append_Cons)
    moreover have "leaves t' = leaves_before c @ kleaves ?xs @ leaves_after c"
      unfolding ih(4) by (simp only: leaves.simps concat_append [symmetric] map_append [symmetric] append_take_drop_id append_assoc [symmetric])
    moreover have "insert_into_parent ops n (ctx_page (f # c)) (page_of l) key (page_of r) (h, s) = Some (Inr (), (h', s'))"
      using u(1,2) sp(1) ih(1) p False ord by (simp add: n f run get_header_run)
    moreover have "grown h s h' s' t'" using ih(2) sp(3,4) V by (simp add: grown_def)
    ultimately show ?thesis using marks leaves by (intro exI [of _ h'] exI [of _ s'] exI [of _ t']) (simp add: f)
  qed
qed

section \<open>Leaves\<close>

lemma leaf_split_run:
  fixes key :: "byte list" and rid :: RID
  assumes h: "tree_handler h" and i: "idle s" and room: "count s < limit"
    and leaf: "tree_at (view s) ord (ctx_page c) (Lf p es nxt)" and ctx: "ctx_at (view s) ord p c" and dist: "distinct (p # ctx_pages c)"
    and full: "length es + 1 = ord"
  defines "es' \<equiv> insert_at (child_index cmp key (map fst es)) (key, rid) es" and "n \<equiv> ord div 2"
  shows "\<exists>p2 s'. insert_into_leaf_after_split ops p key rid (h, s) = insert_into_parent ops tree_fuel (ctx_page c) p (fst (es' ! n)) p2 (h, s') \<and>
    idle s' \<and> pins s' = pins s \<and> cap s' = cap s \<and> count s' \<le> count s + 1 \<and>
    tree_at (view s') ord (ctx_page c) (Lf p (take n es') p2) \<and> tree_at (view s') ord (ctx_page c) (Lf p2 (drop n es') nxt) \<and>
    ctx_at (view s') ord p c \<and> distinct (p # p2 # ctx_pages c)"
proof -
  obtain d where d: "view s p = Some d" and nd: "leaf_node ord (ctx_page c) es nxt (ix_node d)" using leaf by auto
  have s: "ok s" "free_frames s (Suc (Suc (Suc 0)))" using i by (auto simp: idle_def eval_nat_numeral)
  obtain ph1 s1 where 1: "fetch ops p (h, s) = Some (Inr (ph1, ix_node d), (h, s1))" "ok s1" "view s1 = view s"
      "pins s1 = (pins s)(p := Suc (pins s p))" "held s1 ph1 p" "count s1 = count s" "keeps s s1" "free_frames s1 (Suc (Suc 0))"
    using fetch_free [OF h s(1) d s(2)] by blast
  have "count s1 < limit" using room 1(6) by simp
  then obtain ph2 p2 d2 s2 where 2: "fetch_new ops (h, s1) = Some (Inr (ph2, ix_node d2, p2), (h, s2))" "ok s2" "0 < p2" "view s1 p2 = None"
      "pins s1 p2 = 0" "view s2 = (view s1)(p2 \<mapsto> d2)" "pins s2 = (pins s1)(p2 := Suc (pins s1 p2))" "held s2 ph2 p2"
      "p2 \<le> count s1" "count s2 = max (count s1) (p2 + 1)" "keeps s1 s2" "node_size_ok ord (ix_node d2)"
    using fetch_new_run [OF h 1(2,8)] by blast
  have pp: "p \<noteq> p2" using 2(4) 1(3) d by auto
  have p2: "view s p2 = None" using 2(4) 1(3) by simp
  let ?new = "(ix_node d2)\<lparr>key_num := 0, is_leaf := True, parent := ctx_page c\<rparr>"
  have par: "parent (ix_node d) = ctx_page c" using nd by (simp add: leaf_node_def)
  have "node_size_ok ord ?new" "is_leaf ?new" "parent ?new = ctx_page c" "key_num ?new = 0"
    using 2(12) by (simp_all add: node_size_ok_def)
  then obtain ndl ndr where sp: "leaf_split cmp ord key rid p2 (ix_node d) ?new = Some (ndl, ndr, fst (es' ! n))"
      "leaf_node ord (ctx_page c) (take n es') p2 ndl" "leaf_node ord (ctx_page c) (drop n es') nxt ndr"
    using leaf_split_node [OF nd full order_two, of ?new cmp key rid p2] unfolding es'_def [symmetric] n_def [symmetric] by blast
  have sz: "node_size_ok ord ndl" "node_size_ok ord ndr" using sp by (simp_all add: leaf_node_def)
  have held2: "held s2 ph1 p" using 1(5) 2(11) by (simp add: keeps_def)
  have "view s2 p = Some d" using 2(6) 1(3) d pp by simp
  then obtain s3 where 3: "store ops ph1 ndl (h, s2) = Some (Inr (), (h, s3))" "ok s3" "view s3 = (view s2)(p \<mapsto> d\<lparr>ix_node := ndl\<rparr>)"
      "pins s3 = pins s2" "count s3 = count s2" "cap s3 = cap s2" "held s3 = held s2" "\<forall>q. q \<noteq> p \<longrightarrow> stable s2 q \<longrightarrow> stable s3 q"
    using store_run [OF 2(2) held2, of d ndl h] sz by blast
  have "view s3 p2 = Some d2" "held s3 ph2 p2" using 3(3,7) 2(6,8) pp by simp_all
  then obtain s4 where 4: "store ops ph2 ndr (h, s3) = Some (Inr (), (h, s4))" "ok s4" "view s4 = (view s3)(p2 \<mapsto> d2\<lparr>ix_node := ndr\<rparr>)"
      "pins s4 = pins s3" "count s4 = count s3" "cap s4 = cap s3" "held s4 = held s3" "\<forall>q. q \<noteq> p2 \<longrightarrow> stable s3 q \<longrightarrow> stable s4 q"
    using store_run [OF 3(2) _ _ sz(2), of ph2 p2 d2 h] by blast
  have held4: "held s4 ph1 p" "held s4 ph2 p2" using held2 2(8) 3(7) 4(7) by simp_all
  have st4: "\<forall>q. q \<noteq> p \<longrightarrow> q \<noteq> p2 \<longrightarrow> stable s4 q" using i 1(7) 2(11) 3(8) 4(8) by (simp add: idle_def keeps_def)
  have pins4: "pins s4 = (pins s)(p := Suc (pins s p), p2 := Suc (pins s p2))" using 1(4) 2(7) 3(4) 4(4) pp by auto
  have cap4: "cap s4 = cap s" using 1(7) 2(11) 3(6) 4(6) by (simp add: keeps_def)
  let ?k = "\<lambda>_. insert_into_parent ops tree_fuel (ctx_page c) p (fst (es' ! n)) p2"
  obtain s' where 5: "bindE (finish ops ph1) (\<lambda>_. bindE (finish ops ph2) ?k) (h, s4) = ?k () (h, s')" "idle s'" "view s' = view s4"
      "pins s' = pins s" "cap s' = cap s" "count s' = count s4"
    using finish_two [OF i 4(2) held4 pp cap4 pins4 st4, of ?k h] by blast
  have "insert_into_leaf_after_split ops p key rid (h, s) = ?k () (h, s')"
    using h 1(1) 2(1) sp(1) 3(1) 4(1) 5(1) par by (simp add: insert_into_leaf_after_split_def tree_handler_def get_header_run run)
  moreover have V: "view s' = (view s)(p2 \<mapsto> d2\<lparr>ix_node := ndr\<rparr>, p \<mapsto> d\<lparr>ix_node := ndl\<rparr>)"
    using 5(3) 4(3) 3(3) 2(6) 1(3) pp by (auto simp: fun_eq_iff)
  have notin: "p2 \<notin> set (ctx_pages c)" using ctx_at_view [OF ctx] p2 by blast
  have "ctx_at (view s') ord p c"
  proof (subst ctx_at_cong [of c _ "view s"])
    show "view s' q = view s q" if "q \<in> set (ctx_pages c)" for q using that dist notin by (auto simp: V)
  qed (rule ctx)
  moreover have "tree_at (view s') ord (ctx_page c) (Lf p (take n es') p2)" "tree_at (view s') ord (ctx_page c) (Lf p2 (drop n es') nxt)"
    using sp(2,3) pp by (simp_all add: V)
  moreover have "count s' \<le> count s + 1" using 5(6) 1(6) 2(9,10) 3(5) 4(5) by simp
  moreover have "distinct (p # p2 # ctx_pages c)" using notin pp dist by simp
  ultimately show ?thesis using 5(2,4,5) by blast
qed

text \<open>A separator in front of an entry that is not the first of its leaf.\<close>

lemma sorted_separator:
  assumes "sorted_wrt (mark_less norm) (A @ map (\<lambda>e. Ent (fst e)) es @ B)" "0 < n" "n < length es"
  shows "sorted_wrt (mark_less norm) (A @ map (\<lambda>e. Ent (fst e)) (take n es) @ Sep (fst (es ! n)) # map (\<lambda>e. Ent (fst e)) (drop n es) @ B)"
proof -
  let ?E = "map (\<lambda>e. Ent (fst e))" and ?k = "fst (es ! n)"
  have d: "drop n es = es ! n # drop (Suc n) es" using assms(3) by (simp add: Cons_nth_drop_Suc)
  have t: "take n es = es ! 0 # drop 1 (take n es)" using assms(2,3) by (cases es; cases n) auto
  have s: "sorted_wrt (mark_less norm) (A @ ?E (take n es) @ Ent ?k # ?E (drop (Suc n) es) @ B)"
    using assms(1) by (subst (asm) append_take_drop_id [of n es, symmetric]) (simp only: map_append d list.map append_assoc append_Cons)
  have "mark_less norm m (Sep ?k)" if m: "m \<in> set A \<union> set (?E (take n es))" for m
  proof (cases m)
    case (Sep a)
    then have "m \<in> set A" using m by auto
    moreover have e: "Ent (fst (es ! 0)) \<in> set (?E (take n es))" by (subst t) simp
    ultimately have "mark_less norm m (Ent (fst (es ! 0)))" "mark_less norm (Ent (fst (es ! 0))) (Ent ?k)"
      using s by (auto simp: sorted_wrt_append)
    then show ?thesis by (simp add: Sep)
  next
    case (Ent a)
    then show ?thesis using s m by (auto simp: sorted_wrt_append)
  qed
  moreover have "mark_less norm (Sep ?k) m" if "m \<in> set (?E (drop (Suc n) es)) \<union> set B" for m
  proof -
    have "mark_less norm (Ent ?k) m" using s that by (auto simp: sorted_wrt_append)
    then show ?thesis by (cases m) auto
  qed
  ultimately show ?thesis using s unfolding d by (auto simp: sorted_wrt_append)
qed

lemma linked_split:
  assumes "linked (A @ (p, es, nxt) # B)"
  shows "linked (A @ (p, es1, p2) # (p2, es2, nxt) # B)"
proof (cases A)
  case (Cons a A')
  let ?n = "map (\<lambda>(p, es, nxt). nxt) :: (int \<times> (byte list \<times> RID) list \<times> int) list \<Rightarrow> int list"
  have "?n A @ nxt # ?n B = (map fst A' @ [p]) @ map fst B @ [0]" using assms by (simp add: linked_def Cons)
  then have "?n A = map fst A' @ [p]" "nxt # ?n B = map fst B @ [0]"
    by (subst (asm) append_eq_append_conv; simp add: Cons)+
  then show ?thesis by (simp add: linked_def Cons)
qed (use assms in \<open>simp add: linked_def\<close>)

text \<open>What \<^verbatim>\<open>insert_entry\<close> does to the tree: the handler, the pool and the tree afterwards.\<close>

definition inserted :: "bt_handler \<Rightarrow> 's \<Rightarrow> tree \<Rightarrow> byte list \<Rightarrow> RID \<Rightarrow> bt_handler \<Rightarrow> 's \<Rightarrow> tree \<Rightarrow> bool" where
  "inserted h s t key rid h' s' t' \<longleftrightarrow> tree_handler h' \<and> idle s' \<and> pins s' = pins s \<and> cap s' = cap s \<and> count s' \<le> limit \<and>
     file_header h' = (file_header h)\<lparr>root_page := page_of t'\<rparr> \<and> tree_inv s' t' \<and>
     set (entries t') = insert (key, rid) (set (entries t))"

lemma insert_leaf_run:
  assumes h: "tree_handler h" and i: "idle s" and t: "tree_inv s (plug (Lf p es nxt) c)" and for_key: "ctx_for norm key c"
    and root: "root_page (file_header h) = page_of (plug (Lf p es nxt) c)" and count: "count s \<le> limit"
    and key: "proper key" and new: "\<forall>k \<in> set (map fst es). norm k \<noteq> norm key" and room: "length es + 1 < ord"
  shows "\<exists>s' t'. insert_into_leaf ops p key rid (h, s) = Some (Inr (), (h, s')) \<and>
    inserted h s (plug (Lf p es nxt) c) key rid h s' t'"
proof -
  let ?es = "insert_at (child_index cmp key (map fst es)) (key, rid) es"
  note leaf = plug_leaf [OF t]
  obtain d where d: "view s p = Some d" "leaf_node ord (ctx_page c) es nxt (ix_node d)" using leaf(1) by blast
  have ne: "\<forall>k \<in> set (map fst es). cmp key k \<noteq> 0" using new leaf(2) cmp_equal [OF key] by auto
  obtain nd where nd: "leaf_insert cmp key rid (ix_node d) = Some (Inr nd)" "leaf_node ord (ctx_page c) ?es nxt nd"
    using leaf_insert_node [OF d(2) room, of cmp key rid] ne by blast
  have s: "ok s" "free_frames s (Suc 2)" using i by (auto simp: idle_def eval_nat_numeral)
  have "node_size_ok ord nd" using nd(2) by (simp add: leaf_node_def)
  then obtain s' where e: "insert_into_leaf ops p key rid (h, s) = Some (Inr (), (h, s'))" "ok s'"
      "view s' = (view s)(p \<mapsto> d\<lparr>ix_node := nd\<rparr>)" "pins s' = pins s" "count s' = count s" "keeps s s'"
    using edit_run [OF h s(1) d(1) s(2), of nd "\<lambda>(ph, nd). bindE (lift_opt (leaf_insert cmp key rid nd)) (\<lambda>r. case r of
        Inl rc \<Rightarrow> fail rc | Inr nd' \<Rightarrow> bindE (store ops ph nd') (\<lambda>_. finish ops ph))"] h
    unfolding insert_into_leaf_def by (auto simp: nd(1) run get_header_run tree_handler_def)
  let ?t = "plug (Lf p ?es nxt) c"
  have "tree_at (view s') ord (- 1) ?t"
  proof -
    have "ctx_at (view s') ord p c"
    proof (subst ctx_at_cong [of c _ "view s"])
      show "view s' q = view s q" if "q \<in> set (ctx_pages c)" for q
        using that t by (auto simp: e(3) tree_inv_def distinct_plug)
    qed (use t in \<open>simp add: tree_inv_def tree_at_plug\<close>)
    then show ?thesis using nd(2) by (simp add: tree_at_plug e(3))
  qed
  moreover have "distinct (pages ?t)" using t by (simp add: tree_inv_def distinct_plug)
  moreover have "sorted_wrt (mark_less norm) (marks ?t)"
    using marks_insert [of p es nxt c key rid] t for_key key new leaf(2) by (simp add: tree_inv_def marks_plug)
  moreover have "\<forall>m \<in> set (marks ?t). proper (mark_key m)"
    using t key by (fastforce simp: tree_inv_def marks_plug insert_at_def dest: in_set_takeD in_set_dropD)
  moreover have "linked (leaves ?t)" using t by (simp add: tree_inv_def leaves_plug linked_def)
  ultimately have "tree_inv s' ?t" by (simp add: tree_inv_def)
  moreover have "set (entries ?t) = insert (key, rid) (set (entries (plug (Lf p es nxt) c)))"
    using set_insert_at [of _ "(key, rid)" es] by (auto simp: entries_def leaves_plug)
  moreover have "file_header h = (file_header h)\<lparr>root_page := page_of ?t\<rparr>"
    using root page_of_plug [of "Lf p ?es nxt" "Lf p es nxt" c] by simp
  ultimately show ?thesis
    using e h idle_from [OF i e(2,6,4)] count by (intro exI [of _ s'] exI [of _ ?t]) (simp add: inserted_def keeps_def)
qed

lemma insert_split_run:
  assumes h: "tree_handler h" and i: "idle s" and t: "tree_inv s (plug (Lf p es nxt) c)" and for_key: "ctx_for norm key c"
    and root: "root_page (file_header h) = page_of (plug (Lf p es nxt) c)"
    and count: "count s + int (height (plug (Lf p es nxt) c)) + 1 < limit"
    and key: "proper key" and new: "\<forall>k \<in> set (map fst es). norm k \<noteq> norm key" and full: "length es + 1 = ord"
  shows "\<exists>h' s' t'. insert_into_leaf_after_split ops p key rid (h, s) = Some (Inr (), (h', s')) \<and>
    inserted h s (plug (Lf p es nxt) c) key rid h' s' t'"
proof -
  let ?es = "insert_at (child_index cmp key (map fst es)) (key, rid) es" and ?n = "ord div 2"
  have tr: "tree_at (view s) ord (ctx_page c) (Lf p es nxt)" "ctx_at (view s) ord p c" "distinct (p # ctx_pages c)"
    using t by (auto simp: tree_inv_def tree_at_plug distinct_plug)
  have c: "length c \<le> height (plug (Lf p es nxt) c)" using height_plug [of c "Lf p es nxt"] by simp
  then have room: "count s < limit" "count s + int (length c) + 1 < limit" using count by linarith+
  obtain p2 s1 where sp: "insert_into_leaf_after_split ops p key rid (h, s) =
        insert_into_parent ops tree_fuel (ctx_page c) p (fst (?es ! ?n)) p2 (h, s1)"
      "idle s1" "pins s1 = pins s" "cap s1 = cap s" "count s1 \<le> count s + 1"
      "tree_at (view s1) ord (ctx_page c) (Lf p (take ?n ?es) p2)" "tree_at (view s1) ord (ctx_page c) (Lf p2 (drop ?n ?es) nxt)"
      "ctx_at (view s1) ord p c" "distinct (p # p2 # ctx_pages c)"
    using leaf_split_run [OF h i room(1) tr full, of key rid] by blast
  let ?l = "Lf p (take ?n ?es) p2" and ?r = "Lf p2 (drop ?n ?es) nxt"
  have "length (pages (plug (Lf p es nxt) c)) \<le> tree_fuel"
    by (rule pages_bound) (use i t room in \<open>auto simp: idle_def tree_inv_def\<close>)
  then have "length c < tree_fuel" using length_ctx_pages [of c] by (simp add: length_pages_plug)
  moreover have "count s1 + int (length c) < limit" using sp(5) room(2) by linarith
  moreover have "root_page (file_header h) = page_of (plug ?l c)" using root page_of_plug [of ?l "Lf p es nxt" c] by simp
  ultimately obtain h' s' t' where u: "insert_into_parent ops tree_fuel (ctx_page c) p (fst (?es ! ?n)) p2 (h, s1) = Some (Inr (), (h', s'))"
      "grown h s1 h' s' t'" "marks t' = marks_before c @ marks ?l @ Sep (fst (?es ! ?n)) # marks ?r @ marks_after c"
      "leaves t' = leaves_before c @ leaves ?l @ leaves ?r @ leaves_after c"
    using insert_into_parent_run [OF h sp(2) _ sp(6,7), of tree_fuel "fst (?es ! ?n)"] sp(8,9) by auto
  have n: "0 < ?n" "?n < length ?es" using full order_two by auto
  have "sorted_wrt (mark_less norm) (marks_before c @ map (\<lambda>e. Ent (fst e)) ?es @ marks_after c)"
    using marks_insert [of p es nxt c key rid] t for_key key new plug_leaf(2) [OF t] by (simp add: tree_inv_def)
  then have "sorted_wrt (mark_less norm) (marks t')" unfolding u(3) using sorted_separator [OF _ n] by simp
  moreover have "\<forall>m \<in> set (marks t'). proper (mark_key m)"
  proof -
    have old: "\<forall>m \<in> set (marks_before c) \<union> (\<lambda>e. Ent (fst e)) ` set es \<union> set (marks_after c). proper (mark_key m)"
      using t by (auto simp: tree_inv_def marks_plug)
    have "set ?es = insert (key, rid) (set es)" by (rule set_insert_at)
    then have "\<forall>e \<in> set ?es. proper (fst e)" using plug_leaf(2) [OF t] key by auto
    moreover have "?es ! ?n \<in> set ?es" using n(2) by (rule nth_mem)
    moreover have "set (take ?n ?es) \<subseteq> set ?es" "set (drop ?n ?es) \<subseteq> set ?es" by (rule set_take_subset, rule set_drop_subset)
    ultimately have "\<forall>e \<in> set (take ?n ?es) \<union> set (drop ?n ?es). proper (fst e)" "proper (fst (?es ! ?n))" by blast+
    then show ?thesis unfolding u(3) using old by (simp add: ball_Un)
  qed
  moreover have "linked (leaves t')"
    unfolding u(4) using linked_split [of "leaves_before c" p es nxt "leaves_after c"] t by (simp add: tree_inv_def leaves_plug)
  ultimately have "tree_inv s' t'" using u(2) by (simp add: tree_inv_def grown_def)
  moreover have "set (entries t') = insert (key, rid) (set (entries (plug (Lf p es nxt) c)))"
  proof -
    have "set (take ?n ?es) \<union> set (drop ?n ?es) = insert (key, rid) (set es)"
      by (metis append_take_drop_id set_append set_insert_at)
    then show ?thesis unfolding entries_def u(4) leaves_plug by auto
  qed
  ultimately show ?thesis using sp(1,3,4) u(1,2) by (auto simp: inserted_def grown_def)
qed

section \<open>insert_entry and get_entry\<close>

lemma insert_entry_run:
  assumes h: "tree_handler h" and i: "idle s" and t: "tree_inv s t" and root: "root_page (file_header h) = page_of t"
    and count: "count s + int (height t) + 1 < limit" and mk: "make_key (file_header h) pkey rid = Some key" and key: "proper key"
    and new: "\<forall>(k, r) \<in> set (entries t). norm k \<noteq> norm key"
  shows "\<exists>h' s' t'. insert_entry ops pkey rid (h, s) = Some (Inr (), (h', s')) \<and> inserted h s t key rid h' s' t'"
proof -
  have le: "count s \<le> limit" using count by linarith
  obtain p es nxt c s1 where f: "find_leaf ops key (h, s) = Some (Inr p, (h, s1))" "t = plug (Lf p es nxt) c"
      "ctx_for norm key c" "idle s1" "same s s1"
    using find_leaf_run [OF h i t root le key] by blast
  have t1: "tree_inv s1 (plug (Lf p es nxt) c)" using t f(2,5) by (simp add: tree_inv_def same_def)
  obtain d where d: "view s1 p = Some d" "leaf_node ord (ctx_page c) es nxt (ix_node d)" using plug_leaf(1) [OF t1] by blast
  have num: "key_num (ix_node d) = length es" "length es < ord" using d(2) by (auto simp: leaf_node_def)
  obtain ph s2 s3 where u: "fetch ops p (h, s1) = Some (Inr (ph, ix_node d), (h, s2))" "unpin ops ph (h, s2) = Some (Inr (), (h, s3))"
      "idle s3" "same s1 s3"
    using peek_run [OF h f(4) d(1)] by blast
  have t3: "tree_inv s3 (plug (Lf p es nxt) c)" using t1 u(4) by (simp add: tree_inv_def same_def)
  have same: "pins s3 = pins s" "cap s3 = cap s" "count s3 = count s" using f(5) u(4) by (simp_all add: same_def)
  have ne: "\<forall>k \<in> set (map fst es). norm k \<noteq> norm key" using new by (auto simp: f(2) entries_def leaves_plug)
  have ho: "bt_pool h" "order (file_header h) = ord" using h by (auto simp: tree_handler_def)
  note root3 = root [unfolded f(2)]
  have eq: "insert_entry ops pkey rid (h, s) =
      (if length es + 1 < ord then insert_into_leaf ops p key rid else ignoring (insert_into_leaf_after_split ops p key rid)) (h, s3)"
    using f(1) u(1,2) mk ho num by (simp add: insert_entry_def run get_header_run)
  show ?thesis
  proof (cases "length es + 1 < ord")
    case True
    have "count s3 \<le> limit" using le same by simp
    then obtain s' t' where "insert_into_leaf ops p key rid (h, s3) = Some (Inr (), (h, s'))" "inserted h s3 t key rid h s' t'"
      using insert_leaf_run [OF h u(3) t3 f(3) root3 _ key ne True] f(2) by blast
    then show ?thesis using eq True same by (auto simp: inserted_def)
  next
    case False
    then have full: "length es + 1 = ord" using num by simp
    have "count s3 + int (height (plug (Lf p es nxt) c)) + 1 < limit" using count same f(2) by simp
    then obtain h' s' t' where "insert_into_leaf_after_split ops p key rid (h, s3) = Some (Inr (), (h', s'))" "inserted h s3 t key rid h' s' t'"
      using insert_split_run [OF h u(3) t3 f(3) root3 _ key ne full] f(2) by blast
    then show ?thesis using eq False same by (auto simp: inserted_def ignoring_def run)
  qed
qed

text \<open>\<^verbatim>\<open>get_entry\<close> finds an entry with the key, and leaves the page of its leaf pinned.\<close>

lemma key_index_found:
  assumes "(k, r) \<in> set es" "norm k = norm key" "proper key" "\<forall>k \<in> set (map fst es). proper k"
    and "sorted_wrt (\<lambda>a b. norm a < norm b) (map fst es)"
  shows "key_index cmp key (map fst es) < length es" "es ! key_index cmp key (map fst es) = (k, r)"
proof -
  have "key_index cmp key (map fst es) < length es \<and> es ! key_index cmp key (map fst es) = (k, r)"
    using assms(1,4,5)
  proof (induction es)
    case (Cons e es)
    show ?case
    proof (cases "e = (k, r)")
      case True
      then show ?thesis using cmp_equal [of key k] assms(2,3) Cons.prems(2) by simp
    next
      case False
      then have m: "(k, r) \<in> set es" using Cons.prems(1) by simp
      then have "norm (fst e) < norm k" using Cons.prems(3) by force
      then have "cmp key (fst e) \<noteq> 0" using cmp_equal [of key "fst e"] assms(2,3) Cons.prems(2) by simp
      then show ?thesis using Cons m by simp
    qed
  qed simp
  then show "key_index cmp key (map fst es) < length es" "es ! key_index cmp key (map fst es) = (k, r)" by simp_all
qed

lemma key_index_absent:
  assumes "\<forall>k \<in> set ks. cmp key k \<noteq> 0"
  shows "key_index cmp key ks = length ks"
  using assms by (induction ks) auto

lemma get_entry_run:
  assumes h: "tree_handler h" and i: "idle s" and t: "tree_inv s t" and root: "root_page (file_header h) = page_of t"
    and count: "count s \<le> limit" and mk: "make_key (file_header h) pkey rid = Some key" and key: "proper key"
  shows "\<exists>s'. get_entry ops pkey rid (h, s) =
      Some (case find (\<lambda>(k, r). norm k = norm key) (entries t) of None \<Rightarrow> Inl RECORD_INVALID_KEY | Some (k, r) \<Rightarrow> Inr r, (h, s')) \<and>
    ok s' \<and> view s' = view s"
proof -
  obtain p es nxt c s1 where f: "find_leaf ops key (h, s) = Some (Inr p, (h, s1))" "t = plug (Lf p es nxt) c"
      "ctx_for norm key c" "idle s1" "same s s1"
    using find_leaf_run [OF h i t root count key] by blast
  have t1: "tree_inv s1 (plug (Lf p es nxt) c)" using t f(2,5) by (simp add: tree_inv_def same_def)
  note leaf = plug_leaf [OF t1]
  obtain d where d: "view s1 p = Some d" "leaf_node ord (ctx_page c) es nxt (ix_node d)" using leaf(1) by blast
  have i1: "ok s1" "free_frames s1 (Suc 2)" using f(4) by (auto simp: idle_def eval_nat_numeral)
  obtain ph s2 where g: "fetch ops p (h, s1) = Some (Inr (ph, ix_node d), (h, s2))" "ok s2" "view s2 = view s1"
    using fetch_free [OF h i1(1) d(1) i1(2)] by blast
  have nd: "key_num (ix_node d) = length es" "take (length es) (keys (ix_node d)) = map fst es"
      "take (length es) (rids (ix_node d)) = map snd es" "length es \<le> length (keys (ix_node d))" "length es \<le> length (rids (ix_node d))"
    using d(2) by (auto simp: leaf_node_def node_size_ok_def)
  let ?i = "key_index cmp key (map fst es)"
  have eq: "get_entry ops pkey rid (h, s) =
      (if ?i < length es then ret (rids (ix_node d) ! ?i) else fail RECORD_INVALID_KEY) (h, s2)"
    using f(1) g(1) mk h nd by (simp add: get_entry_def run get_header_run tree_handler_def Let_def)
  show ?thesis
  proof (cases "find (\<lambda>(k, r). norm k = norm key) (entries t)")
    case None
    then have "\<forall>k \<in> set (map fst es). norm key \<noteq> norm k" by (force simp: find_None_iff f(2) entries_def leaves_plug)
    then have "\<forall>k \<in> set (map fst es). cmp key k \<noteq> 0" using cmp_equal [OF key] leaf(2) by blast
    then have "?i = length es" using key_index_absent [of "map fst es" key] by simp
    then show ?thesis using eq None g f(5) by (auto simp: run same_def)
  next
    case (Some e)
    obtain k r where e: "e = (k, r)" by fastforce
    have m: "(k, r) \<in> set (entries t)" "norm k = norm key" using Some e by (auto simp: find_Some_iff in_set_conv_nth)
    have "(k, r) \<in> set es" using entries_in_leaf [OF t1 f(3)] m f(2) by simp
    note ki = key_index_found [OF this m(2) key leaf(2,3)]
    have "rids (ix_node d) ! ?i = map snd es ! ?i" using nd(3) ki(1) by (metis nth_take)
    then have "rids (ix_node d) ! ?i = r" using ki by simp
    then show ?thesis using eq Some e ki(1) g f(5) by (auto simp: run same_def)
  qed
qed

end

end
