(* ===== verification/Bplus_Delete.thy ===== *)
theory Bplus_Delete
  imports Bplus_Insert
begin

text \<open>
  Deletion from a B+ tree: what the operations on one or two nodes do to the entries of leaves, and
  runs of \<^verbatim>\<open>delete_entry\<close> that end in the leaf.
\<close>

section \<open>Nodes\<close>

definition remove_at :: "nat \<Rightarrow> 'a list \<Rightarrow> 'a list" where
  "remove_at i xs = take i xs @ drop (Suc i) xs"

lemma map_remove_at: "map f (remove_at i xs) = remove_at i (map f xs)"
  by (simp add: remove_at_def take_map drop_map)

lemma length_remove_at: "i < length xs \<Longrightarrow> length (remove_at i xs) = length xs - 1"
  by (simp add: remove_at_def)

lemma shift_down_remove:
  assumes "pos < n" "n \<le> length xs"
  shows "take (n - 1) (shift_down xs pos (n - 1)) = remove_at pos (take n xs)"
  unfolding shift_down_delete [OF assms] remove_at_def using assms(1) by simp

lemma leaf_delete_node:
  assumes nd: "leaf_node ord par es nxt nd" and i: "i < length es" "key_index cmp key (map fst es) = i"
  shows "\<exists>nd'. node_delete cmp key nd = Some (Inr nd') \<and> leaf_node ord par (remove_at i es) nxt nd'"
proof -
  let ?n = "length es"
  have l: "length (keys nd) = ord" "length (rids nd) = ord" "key_num nd = ?n" "take ?n (keys nd) = map fst es" "?n < ord"
    "take ?n (rids nd) = map snd es" "is_leaf nd" "parent nd = par" "rid_page (rids nd ! (ord - 1)) = nxt"
    using nd by (auto simp: leaf_node_def node_size_ok_def)
  let ?nd = "nd\<lparr>keys := shift_down (keys nd) i (?n - 1), rids := shift_down (rids nd) i (?n - 1), key_num := ?n - 1\<rparr>"
  have "node_delete cmp key nd = Some (Inr ?nd)" using l i by (simp add: node_delete_def Let_def)
  moreover have "take (?n - 1) (shift_down (keys nd) i (?n - 1)) = map fst (remove_at i es)"
    "take (?n - 1) (shift_down (rids nd) i (?n - 1)) = map snd (remove_at i es)"
    using shift_down_remove [of i ?n "keys nd"] shift_down_remove [of i ?n "rids nd"] l(1,2,4-6) i(1) by (simp_all add: map_remove_at)
  moreover have "shift_down (rids nd) i (?n - 1) ! (ord - 1) = rids nd ! (ord - 1)" using l(2,5) by (auto simp: shift_down_nth)
  ultimately show ?thesis
    using l i by (auto simp: leaf_node_def node_size_ok_def length_remove_at)
qed

lemma leaf_nodeD:
  assumes "leaf_node ord par es nxt nd"
  shows "length (keys nd) = ord" "length (rids nd) = ord" "key_num nd = length es" "take (length es) (keys nd) = map fst es" "length es < ord"
    "take (length es) (rids nd) = map snd es" "is_leaf nd" "parent nd = par" "rid_page (rids nd ! (ord - 1)) = nxt"
  using assms by (auto simp: leaf_node_def node_size_ok_def)

text \<open>Merging two leaves.\<close>

lemma coalesce_leaves:
  assumes l: "leaf_node ord par e1 n1 left" and r: "leaf_node ord par' e2 n2 right" and fit: "length e1 + length e2 < ord"
  shows "\<exists>nd. coalesce ord sep left right = Some (nd, length e1) \<and> leaf_node ord par (e1 @ e2) n2 nd"
proof -
  note l = leaf_nodeD [OF l] and r = leaf_nodeD [OF r]
  let ?nl = "length e1" and ?nr = "length e2"
  let ?nd = "left\<lparr>keys := copy_range (keys left) ?nl (keys right) 0 ?nr,
           rids := (copy_range (rids left) ?nl (rids right) 0 ?nr)[ord - 1 := rids right ! (ord - 1)], key_num := ?nl + ?nr\<rparr>"
  have "coalesce ord sep left right = Some (?nd, ?nl)" using l r fit by (simp add: coalesce_def Let_def)
  moreover have "take (?nl + ?nr) (copy_range (keys left) ?nl (keys right) 0 ?nr) = map fst (e1 @ e2)"
    using l r fit copy_range_eq [of ?nl ?nr "keys left" 0 "keys right"] by simp
  moreover have "take (?nl + ?nr) (copy_range (rids left) ?nl (rids right) 0 ?nr) = map snd (e1 @ e2)"
    using l r fit copy_range_eq [of ?nl ?nr "rids left" 0 "rids right"] by simp
  ultimately show ?thesis using l r fit by (simp add: leaf_node_def node_size_ok_def)
qed

text \<open>Moving an entry from one leaf to the other.\<close>

lemma redistribute_to_left:
  assumes l: "leaf_node ord par e1 n1 left" and r: "leaf_node ord par' (e # e2) n2 right" and small: "length e1 < ord div 2"
  shows "\<exists>left' right' sep. redistribute_leaves ord left right = Some (left', right', sep) \<and>
    leaf_node ord par (e1 @ [e]) n1 left' \<and> leaf_node ord par' e2 n2 right' \<and> (e2 \<noteq> [] \<longrightarrow> sep = fst (hd e2))"
proof -
  note l = leaf_nodeD [OF l] and r = leaf_nodeD [OF r]
  let ?nl = "length e1" and ?nr = "length e2"
  have h: "keys right ! 0 = fst e" "rids right ! 0 = snd e"
    using arg_cong [OF r(4), of "\<lambda>xs. xs ! 0"] arg_cong [OF r(6), of "\<lambda>xs. xs ! 0"] by simp_all
  let ?left = "left\<lparr>keys := (keys left)[?nl := fst e], rids := (rids left)[?nl := snd e], key_num := ?nl + 1\<rparr>"
  let ?right = "right\<lparr>keys := shift_down (keys right) 0 ?nr, rids := shift_down (rids right) 0 ?nr, key_num := ?nr\<rparr>"
  have "redistribute_leaves ord left right = Some (?left, ?right, keys ?right ! 0)"
    using l r small h by (simp add: redistribute_leaves_def Let_def)
  moreover have "leaf_node ord par (e1 @ [e]) n1 ?left"
    using l small by (auto simp: leaf_node_def node_size_ok_def take_Suc_conv_app_nth nth_list_update)
  moreover have ks: "take ?nr (shift_down (keys right) 0 ?nr) = map fst e2" and rs: "take ?nr (shift_down (rids right) 0 ?nr) = map snd e2"
    using shift_down_remove [of 0 "Suc ?nr" "keys right"] shift_down_remove [of 0 "Suc ?nr" "rids right"] r by (simp_all add: remove_at_def)
  have "shift_down (rids right) 0 ?nr ! (ord - 1) = rids right ! (ord - 1)" using r(2,5) by (auto simp: shift_down_nth)
  then have "leaf_node ord par' e2 n2 ?right" using r ks rs by (simp add: leaf_node_def node_size_ok_def)
  moreover have "keys ?right ! 0 = fst (hd e2)" if "e2 \<noteq> []"
    using arg_cong [OF ks, of "\<lambda>xs. xs ! 0"] that by (cases e2) simp_all
  ultimately show ?thesis by blast
qed

lemma redistribute_to_right:
  assumes l: "leaf_node ord par (e1 @ [(k, rid)]) n1 left" and r: "leaf_node ord par' ((k0, rid0) # e2) n2 right"
    and large: "ord div 2 \<le> length e1 + 1" and fit: "length e2 + 2 < ord"
  shows "\<exists>left' right'. redistribute_leaves ord left right = Some (left', right', k) \<and>
    leaf_node ord par e1 n1 left' \<and> leaf_node ord par' ((k, rid0) # (k0, rid0) # e2) n2 right'"
proof -
  note l = leaf_nodeD [OF l] and r = leaf_nodeD [OF r]
  let ?nl = "length e1" and ?nr = "Suc (length e2)"
  have last: "keys left ! ?nl = k"
    using arg_cong [OF l(4), of "\<lambda>xs. xs ! ?nl"] by (simp add: nth_append)
  have h: "rids right ! 0 = rid0" using arg_cong [OF r(6), of "\<lambda>xs. xs ! 0"] by simp
  let ?right = "right\<lparr>keys := (shift_up (keys right) 0 ?nr)[0 := k], rids := shift_up (rids right) 0 ?nr, key_num := ?nr + 1\<rparr>"
  have "0 < length (shift_up (keys right) 0 ?nr)" using r by simp
  then have "redistribute_leaves ord left right = Some (left\<lparr>key_num := ?nl\<rparr>, ?right, k)"
    using l r large fit last by (simp add: redistribute_leaves_def Let_def)
  moreover have "leaf_node ord par e1 n1 (left\<lparr>key_num := ?nl\<rparr>)"
  proof -
    have "take ?nl (take (Suc ?nl) (keys left)) = map fst e1" "take ?nl (take (Suc ?nl) (rids left)) = map snd e1"
      using l(4,6) by simp_all
    then show ?thesis using l by (simp add: leaf_node_def node_size_ok_def min_def)
  qed
  moreover have "shift_up (rids right) 0 ?nr = (shift_up (rids right) 0 ?nr)[0 := rid0]"
    using r h by (intro nth_equalityI) (auto simp: shift_up_nth nth_list_update)
  then have "take (Suc ?nr) (shift_up (rids right) 0 ?nr) = insert_at 0 rid0 (take ?nr (rids right))"
    using shift_up_insert [of 0 ?nr "rids right" rid0] r fit by simp
  then have "leaf_node ord par' ((k, rid0) # (k0, rid0) # e2) n2 ?right"
    using r fit shift_up_insert [of 0 ?nr "keys right" k]
    by (auto simp: leaf_node_def node_size_ok_def insert_at_def shift_up_nth)
  ultimately show ?thesis by blast
qed

section \<open>Runs\<close>

lemma set_remove_at_distinct:
  assumes "distinct xs" "i < length xs"
  shows "set (remove_at i xs) = set xs - {xs ! i}"
proof -
  have "xs = take i xs @ xs ! i # drop (Suc i) xs" by (rule id_take_nth_drop [OF assms(2)])
  then have "distinct (take i xs @ xs ! i # drop (Suc i) xs)" "set xs = set (take i xs @ xs ! i # drop (Suc i) xs)"
    using assms(1) by metis+
  then show ?thesis by (auto simp: remove_at_def)
qed

lemma set_remove_at: "set (remove_at i xs) \<subseteq> set xs"
  by (auto simp: remove_at_def dest: in_set_takeD in_set_dropD)

lemma sorted_less_distinct: "sorted_wrt (\<lambda>a b. (f a :: 'o :: linorder) < f b) xs \<Longrightarrow> distinct xs"
  by (induction xs) auto

lemma sorted_wrt_remove_at:
  assumes "sorted_wrt P (a @ xs @ b)"
  shows "sorted_wrt P (a @ remove_at i xs @ b)"
proof (cases "i < length xs")
  case True
  define u x v where "u = take i xs" "x = xs ! i" "v = drop (Suc i) xs"
  have "xs = u @ x # v" using id_take_nth_drop [OF True] by (simp add: u_x_v_def)
  moreover have "remove_at i xs = u @ v" by (simp add: remove_at_def u_x_v_def)
  ultimately show ?thesis using assms by (simp add: sorted_wrt_append)
next
  case False
  then show ?thesis using assms by (simp add: remove_at_def)
qed

text \<open>No two entries of a tree have the same key.\<close>

lemma marks_entries: "filter (\<lambda>m. \<exists>k. m = Ent k) (marks t) = map (\<lambda>e. Ent (fst e)) (entries t)"
proof (induction t)
  case (Lf p es nxt)
  then show ?case by (simp add: entries_def filter_map comp_def)
next
  case (Nd p xs)
  have "filter (\<lambda>m. \<exists>k. m = Ent k) (kmarks ys) = map (\<lambda>e. Ent (fst e)) (concat (map (\<lambda>x. entries (snd x)) ys))"
    if "set ys \<subseteq> set xs" for ys
    using that
  proof (induction ys)
    case (Cons y ys)
    have "filter (\<lambda>m. \<exists>k. m = Ent k) (marks (snd y)) = map (\<lambda>e. Ent (fst e)) (entries (snd y))"
      by (rule Nd.IH [of y]) (use Cons.prems in \<open>auto intro: snds.intros\<close>)
    then show ?case using Cons by simp
  qed simp
  moreover have "filter (\<lambda>m. \<exists>k. m = Ent k) (tl (kmarks xs)) = filter (\<lambda>m. \<exists>k. m = Ent k) (kmarks xs)" by (cases xs) simp_all
  moreover have "entries (Nd p xs) = concat (map (\<lambda>x. entries (snd x)) xs)"
    by (simp add: entries_def map_concat comp_def) (induction xs; simp)
  ultimately show ?case by simp
qed

lemma entries_unique:
  assumes "sorted_wrt (mark_less norm) (marks t)" "(k, r) \<in> set (entries t)" "(k', r') \<in> set (entries t)" "norm k = norm k'"
  shows "(k', r') = (k, r)"
proof -
  have "sorted_wrt (mark_less norm) (filter (\<lambda>m. \<exists>k. m = Ent k) (marks t))" by (rule sorted_wrt_filter [OF assms(1)])
  then have s: "sorted_wrt (\<lambda>a b. norm (fst a) < norm (fst b)) (entries t)" by (simp add: marks_entries sorted_wrt_map)
  obtain i j where ij: "i < length (entries t)" "j < length (entries t)" "entries t ! i = (k, r)" "entries t ! j = (k', r')"
    using assms(2,3) by (metis in_set_conv_nth)
  have "i = j"
  proof (rule ccontr)
    assume "i \<noteq> j"
    then consider "i < j" | "j < i" by linarith
    then show False
      using sorted_wrt_nth_less [OF s, of i j] sorted_wrt_nth_less [OF s, of j i] ij assms(4) by cases auto
  qed
  then show ?thesis using ij by simp
qed

context index_pool
begin

definition deleted :: "bt_handler \<Rightarrow> 's \<Rightarrow> tree \<Rightarrow> byte list \<times> RID \<Rightarrow> 's \<Rightarrow> tree \<Rightarrow> bool" where
  "deleted h s t e s' t' \<longleftrightarrow> idle s' \<and> pins s' = pins s \<and> cap s' = cap s \<and> count s' = count s \<and>
     page_of t' = page_of t \<and> tree_inv s' t' \<and> set (entries t') = set (entries t) - {e}"

lemma entries_remove_at:
  assumes t: "tree_inv s (plug (Lf p es nxt) c)" and k: "ctx_for norm key c" "norm (fst (es ! i)) = norm key" "i < length es"
  shows "set (entries (plug (Lf p (remove_at i es) nxt) c)) = set (entries (plug (Lf p es nxt) c)) - {es ! i}"
proof -
  have "sorted_wrt (\<lambda>a b. norm a < norm b) (map fst es)" by (rule plug_leaf(3) [OF t])
  then have "distinct (map fst es)" by (rule sorted_less_distinct)
  then have "set (remove_at i es) = set es - {es ! i}" by (intro set_remove_at_distinct k(3)) (simp add: distinct_map)
  moreover have "es ! i \<notin> set es'" if "(q, es', n) \<in> set (leaves_before c) \<union> set (leaves_after c)" for q es' n
  proof
    assume m: "es ! i \<in> set es'"
    obtain k' r where e: "es ! i = (k', r)" by fastforce
    have "Ent k' \<in> set (marks_before c) \<union> set (marks_after c)"
      using that m leaves_marks(1,2) [of q es' n c k' r] e by auto
    then show False using k(1,2) e by (auto simp: ctx_for_def)
  qed
  then have "es ! i \<notin> set (concat (map (\<lambda>(p, es, n). es) (leaves_before c @ leaves_after c)))" by auto
  ultimately show ?thesis by (auto simp: entries_def leaves_plug)
qed

lemma delete_leaf_run:
  assumes h: "tree_handler h" and i: "idle s" and t: "tree_inv s (plug (Lf p es nxt) c)" and for_key: "ctx_for norm key c"
    and key: "proper key" and e: "e \<in> set es" "norm (fst e) = norm key"
  shows "\<exists>s' es'. delete_entry_from_node ops p key (h, s) = Some (Inr (), (h, s')) \<and> length es' = length es - 1 \<and>
    deleted h s (plug (Lf p es nxt) c) e s' (plug (Lf p es' nxt) c)"
proof -
  note leaf = plug_leaf [OF t]
  let ?i = "key_index cmp key (map fst es)"
  let ?es = "remove_at ?i es"
  obtain d where d: "view s p = Some d" "leaf_node ord (ctx_page c) es nxt (ix_node d)" using leaf(1) by blast
  have ki: "?i < length es" "es ! ?i = e"
    using key_index_found [of "fst e" "snd e" es key] e key leaf(2,3) by simp_all
  obtain nd where nd: "node_delete cmp key (ix_node d) = Some (Inr nd)" "leaf_node ord (ctx_page c) ?es nxt nd"
    using leaf_delete_node [OF d(2) ki(1) refl] by blast
  have s: "ok s" "free_frames s (Suc 2)" using i by (auto simp: idle_def eval_nat_numeral)
  have "node_size_ok ord nd" using nd(2) by (simp add: leaf_node_def)
  then obtain s' where r: "delete_entry_from_node ops p key (h, s) = Some (Inr (), (h, s'))" "ok s'"
      "view s' = (view s)(p \<mapsto> d\<lparr>ix_node := nd\<rparr>)" "pins s' = pins s" "count s' = count s" "keeps s s'"
    using edit_run [OF h s(1) d(1) s(2), of nd "\<lambda>(ph, nd). bindE (lift_opt (node_delete cmp key nd)) (\<lambda>r. case r of
        Inl rc \<Rightarrow> fail rc | Inr nd' \<Rightarrow> bindE (store ops ph nd') (\<lambda>_. finish ops ph))"] h
    unfolding delete_entry_from_node_def by (auto simp: nd(1) run get_header_run tree_handler_def)
  let ?t = "plug (Lf p ?es nxt) c"
  have "ctx_at (view s') ord p c"
  proof (subst ctx_at_cong [of c _ "view s"])
    show "view s' q = view s q" if "q \<in> set (ctx_pages c)" for q
      using that t by (auto simp: r(3) tree_inv_def distinct_plug)
  qed (use t in \<open>simp add: tree_inv_def tree_at_plug\<close>)
  then have "tree_at (view s') ord (- 1) ?t" using nd(2) by (simp add: tree_at_plug r(3))
  moreover have "sorted_wrt (mark_less norm) (marks ?t)"
    using t sorted_wrt_remove_at [of "mark_less norm" "marks_before c" "map (\<lambda>e. Ent (fst e)) es" "marks_after c" ?i]
    by (simp add: tree_inv_def marks_plug map_remove_at)
  moreover have "\<forall>m \<in> set (marks ?t). proper (mark_key m)"
    using t set_remove_at [of ?i es] by (auto simp: tree_inv_def marks_plug)
  ultimately have "tree_inv s' ?t" using t by (simp add: tree_inv_def distinct_plug leaves_plug linked_def)
  moreover have "set (entries ?t) = set (entries (plug (Lf p es nxt) c)) - {e}"
    using entries_remove_at [OF t for_key _ ki(1)] ki(2) e(2) by simp
  moreover have "page_of ?t = page_of (plug (Lf p es nxt) c)" using page_of_plug [of "Lf p ?es nxt" "Lf p es nxt" c] by simp
  moreover have "idle s'" by (rule idle_from [OF i r(2,6,4)])
  ultimately have "deleted h s (plug (Lf p es nxt) c) e s' ?t" using r(4-6) by (simp add: deleted_def keeps_def)
  then show ?thesis using r(1) length_remove_at [OF ki(1)] by blast
qed

text \<open>A key that is in a leaf which stays large enough, or in a root that is a leaf.\<close>

lemma delete_entry_run:
  assumes h: "tree_handler h" and i: "idle s" and t: "tree_inv s t" and root: "root_page (file_header h) = page_of t"
    and count: "count s \<le> limit" and mk: "make_key (file_header h) pkey rid = Some key" and key: "proper key"
    and e: "e \<in> set (entries t)" "norm (fst e) = norm key"
    and large: "\<forall>(p, es, nxt) \<in> set (leaves t). e \<in> set es \<longrightarrow> ord div 2 < length es \<or> t = Lf p es nxt"
  shows "\<exists>s' t'. delete_entry ops pkey rid (h, s) = Some (Inr (), (h, s')) \<and> deleted h s t e s' t'"
proof -
  obtain p es nxt c s1 where f: "find_leaf ops key (h, s) = Some (Inr p, (h, s1))" "t = plug (Lf p es nxt) c"
      "ctx_for norm key c" "idle s1" "same s s1"
    using find_leaf_run [OF h i t root count key] by blast
  have t1: "tree_inv s1 (plug (Lf p es nxt) c)" using t f(2,5) by (simp add: tree_inv_def same_def)
  have es: "e \<in> set es" using entries_in_leaf [OF t1 f(3), of "fst e" "snd e"] e f(2) by simp
  obtain s2 es' where d: "delete_entry_from_node ops p key (h, s1) = Some (Inr (), (h, s2))" "length es' = length es - 1"
      "deleted h s1 (plug (Lf p es nxt) c) e s2 (plug (Lf p es' nxt) c)"
    using delete_leaf_run [OF h f(4) t1 f(3) key es e(2)] by blast
  have d2: "idle s2" "tree_inv s2 (plug (Lf p es' nxt) c)" using d(3) by (auto simp: deleted_def)
  obtain dt where dt: "view s2 p = Some dt" "leaf_node ord (ctx_page c) es' nxt (ix_node dt)" using plug_leaf(1) [OF d2(2)] by blast
  have i2: "ok s2" "free_frames s2 (Suc 2)" "\<forall>q. stable s2 q" using d2(1) by (auto simp: idle_def eval_nat_numeral)
  obtain ph s3 where g: "fetch ops p (h, s2) = Some (Inr (ph, ix_node dt), (h, s3))" "ok s3" "view s3 = view s2"
      "pins s3 = (pins s2)(p := Suc (pins s2 p))" "held s3 ph p" "count s3 = count s2" "keeps s2 s3"
    using fetch_free [OF h i2(1) dt(1) i2(2)] by blast
  obtain s4 where u: "unpin ops ph (h, s3) = Some (Inr (), (h, s4))" "ok s4" "view s4 = view s3"
      "pins s4 = (pins s3)(p := pins s3 p - 1)" "count s4 = count s3" "cap s4 = cap s3" "\<forall>q. stable s3 q \<longrightarrow> stable s4 q"
    using unpin_run [OF g(2,5), of h] g(7) i2(3) by (auto simp: keeps_def)
  have P: "pins s4 = pins s2" "cap s4 = cap s2" using g(4,7) u(4,6) by (auto simp: keeps_def)
  have nd: "is_leaf (ix_node dt)" "key_num (ix_node dt) = length es'" "parent (ix_node dt) = ctx_page c"
    using dt(2) by (auto simp: leaf_node_def)
  have enough: "ctx_page c = - 1 \<or> ord div 2 \<le> length es'"
  proof -
    have "(p, es, nxt) \<in> set (leaves t)" by (simp add: f(2) leaves_plug)
    then consider "ord div 2 < length es" | "t = Lf p es nxt" using large es by fastforce
    then show ?thesis
    proof cases
      case 2
      then have "length (pages (plug (Lf p es nxt) c)) = 1" using f(2) by simp
      then have "c = []" using length_pages_plug [of "Lf p es nxt" c] length_ctx_pages [of c] by (cases c) auto
      then show ?thesis by simp
    qed (use d(2) in linarith)
  qed
  have fuel: "tree_fuel = Suc (tree_fuel - 1)" by (simp add: tree_fuel_def)
  have ho: "order (file_header h) = ord" using h by (simp add: tree_handler_def)
  have "delete_entry_internal ops tree_fuel p key (h, s1) = Some (Inr (), (h, s4))"
    using d(1) g(1) u(1) nd enough
    by (subst fuel) (auto simp: run get_header_run shrink_root_def min_keys_def ho)
  then have "delete_entry ops pkey rid (h, s) = Some (Inr (), (h, s4))"
    using f(1) mk by (simp add: delete_entry_def run get_header_run)
  moreover have "deleted h s t e s4 (plug (Lf p es' nxt) c)"
    using d(3) f(2,5) P u g i2 by (auto simp: deleted_def same_def idle_def tree_inv_def free_frames_def keeps_def)
  ultimately show ?thesis by blast
qed

end

end
