(* ===== verification/Bplus_Scan.thy ===== *)
theory Bplus_Scan
  imports Bplus_Tree
begin

text \<open>
  Scanning a B+ tree (\<^verbatim>\<open>find_first_index_satisfied\<close> and \<^verbatim>\<open>BplusTreeScanner\<close> of
  \<^verbatim>\<open>storage/common/bplus_tree.cpp\<close>) and the two functions that print one. The scanner is
  the first component of the state, its handler and the pool the second.
\<close>

section \<open>Where a scan starts\<close>

fun first_match :: "CompOp \<Rightarrow> (AttrType \<times> nat) list \<Rightarrow> byte list \<Rightarrow> byte list list \<Rightarrow> nat option" where
  "first_match compop as key [] = None"
| "first_match compop as key (k # ks) =
    (let tmp = CompareKey as k key 0 in
     if (compop = EQUAL_TO \<or> compop = GREAT_EQUAL) \<and> tmp \<ge> 0 then Some 0
     else if compop = GREAT_THAN \<and> tmp > 0 then Some 0
     else map_option Suc (first_match compop as key ks))"

text \<open>The loop along the leaves keeps the page of every leaf it leaves pinned; after the last leaf
  it unpins that one.\<close>

fun first_index_loop :: "('s, ix_page) pool_ops \<Rightarrow> IndexFileHeader \<Rightarrow> CompOp \<Rightarrow> byte list \<Rightarrow> nat \<Rightarrow> BPPageHandle option \<Rightarrow> int \<Rightarrow> ('s, int \<times> int) tree_op" where
  "first_index_loop ops fh compop key 0 ph p = undef"
| "first_index_loop ops fh compop key (Suc n) ph p =
    (if p > 0
     then bindE (fetch ops p) (\<lambda>(ph', nd).
       if length (keys nd) < key_num nd \<or> length (rids nd) < order fh \<or> order fh = 0 then undef
       else case first_match compop (header_attrs fh) key (take (key_num nd) (keys nd)) of
           Some i \<Rightarrow> bindE (pool_op (op_get_page_num ops ph')) (\<lambda>pn. bindE (unpin ops ph') (\<lambda>_. ret (pn, int i)))
         | None \<Rightarrow> first_index_loop ops fh compop key n (Some ph') (rid_page (rids nd ! (order fh - 1))))
     else case ph of None \<Rightarrow> undef | Some ph' \<Rightarrow> bindE (unpin ops ph') (\<lambda>_. fail RECORD_EOF))"

definition find_first_index_satisfied :: "('s, ix_page) pool_ops \<Rightarrow> CompOp \<Rightarrow> byte list \<Rightarrow> ('s, int \<times> int) tree_op" where
  "find_first_index_satisfied ops compop key =
    (if compop = LESS_THAN \<or> compop = LESS_EQUAL \<or> compop = NOT_EQUAL
     then bindE (get_first_leaf_page ops) (\<lambda>pn. ret (pn, 0))
     else bindE get_header (\<lambda>fh.
       bindE (lift_opt (make_key fh key (page_rid (- 1)))) (\<lambda>pkey.
       bindE (find_leaf ops pkey) (\<lambda>leaf_page.
       first_index_loop ops fh compop key tree_fuel None leaf_page))))"

section \<open>Which keys a scan returns\<close>

definition flt_rel :: "CompOp \<Rightarrow> flt \<Rightarrow> flt \<Rightarrow> bool" where
  "flt_rel opr f1 f2 = (case opr of
      EQUAL_TO \<Rightarrow> float_compare f1 f2 = 0 | NOT_EQUAL \<Rightarrow> float_compare f1 f2 \<noteq> 0
    | LESS_THAN \<Rightarrow> flt_less f1 f2 | GREAT_THAN \<Rightarrow> flt_less f2 f1
    | LESS_EQUAL \<Rightarrow> flt_less f1 f2 \<or> flt_equal f1 f2 | GREAT_EQUAL \<Rightarrow> flt_less f2 f1 \<or> flt_equal f1 f2 | _ \<Rightarrow> False)"

text \<open>One attribute. For \<^verbatim>\<open>EQUAL_TO\<close> the case of \<^verbatim>\<open>CHARS\<close> runs into that of
  \<^verbatim>\<open>DATE\<close>, which overwrites the result with a comparison of \<^verbatim>\<open>d1\<close> and \<^verbatim>\<open>d2\<close>;
  \<^verbatim>\<open>ds\<close> is their value when an attribute before this one was a date, and nothing when they
  are not initialised.\<close>

definition attr_satisfied :: "CompOp \<Rightarrow> AttrType \<Rightarrow> nat \<Rightarrow> byte list \<Rightarrow> byte list \<Rightarrow> nat \<Rightarrow> (int \<times> int) option \<Rightarrow> bool option" where
  "attr_satisfied opr t len pkey val off ds = (case t of
      INTS \<Rightarrow> Some (op_rel opr (read_int pkey off) (read_int val off))
    | FLOATS \<Rightarrow> Some (flt_rel opr (float_of (read_uint pkey off)) (float_of (read_uint val off)))
    | CHARS \<Rightarrow> if opr = EQUAL_TO then map_option (\<lambda>(d1, d2). d1 = d2) ds
               else Some (op_rel opr (strncmp (drop off pkey) (drop off val) len) 0)
    | DATE \<Rightarrow> Some (op_rel opr (read_uint pkey off) (read_uint val off))
    | _ \<Rightarrow> Some False)"

fun satisfy_attrs :: "CompOp \<Rightarrow> (AttrType \<times> nat) list \<Rightarrow> byte list \<Rightarrow> byte list \<Rightarrow> nat \<Rightarrow> (int \<times> int) option \<Rightarrow> bool option" where
  "satisfy_attrs opr [] pkey val off ds = Some False"
| "satisfy_attrs opr ((t, len) # as) pkey val off ds =
    (let ds' = (if t = DATE then Some (read_uint pkey off, read_uint val off) else ds) in
     case attr_satisfied opr t len pkey val off ds' of
       None \<Rightarrow> None
     | Some flag \<Rightarrow> if flag then Some True else satisfy_attrs opr as pkey val (off + len) ds')"

definition satisfy_condition :: "CompOp \<Rightarrow> (AttrType \<times> nat) list \<Rightarrow> byte list \<Rightarrow> byte list \<Rightarrow> bool option" where
  "satisfy_condition opr as val pkey = (if opr = NO_OP then Some True else satisfy_attrs opr as pkey val 0 None)"

section \<open>BplusTreeScanner\<close>

record bt_scanner =
  bts_opened :: bool
  comp_op :: CompOp
  bts_value :: "byte list option"
  num_fixed_pages :: int
  page_handles :: "BPPageHandle list"
  next_index_of_page_handle :: nat
  index_in_node :: int
  next_page_num :: int

definition bts_new :: bt_scanner where
  "bts_new = \<lparr>bts_opened = False, comp_op = NO_OP, bts_value = None, num_fixed_pages = - 1, page_handles = [],
     next_index_of_page_handle = 0, index_in_node = - 1, next_page_num = - 1\<rparr>"

type_synonym ('s, 'a) scan_op = "(bt_scanner \<times> bt_handler \<times> 's, 'a) M"

definition scan_header :: "('s, IndexFileHeader) scan_op" where
  "scan_header = pool_op get_header"

text \<open>A \<^verbatim>\<open>value\<close> that is a null pointer stands for zeros.\<close>

definition scan_value :: "IndexFileHeader \<Rightarrow> byte list option \<Rightarrow> byte list option" where
  "scan_value fh val = (case val of
      None \<Rightarrow> Some (replicate (attr_whole_length fh) 0)
    | Some v \<Rightarrow> if attr_whole_length fh \<le> length v then Some (take (attr_whole_length fh) v) else None)"

definition bts_open :: "('s, ix_page) pool_ops \<Rightarrow> CompOp \<Rightarrow> byte list option \<Rightarrow> ('s, unit) scan_op" where
  "bts_open ops opr val = bindE (gets fst) (\<lambda>sc.
     if bts_opened sc then fail RECORD_OPENNED
     else bindE scan_header (\<lambda>fh.
       bindE (lift_opt (scan_value fh val)) (\<lambda>v.
       bindE (upd_handler (\<lambda>sc. sc\<lparr>comp_op := opr, bts_value := Some v\<rparr>)) (\<lambda>_.
       attempt (pool_op (find_first_index_satisfied ops opr v)) (\<lambda>r.
       if (case r of Inl rc \<Rightarrow> rc \<noteq> RECORD_EOF | Inr _ \<Rightarrow> False) then fail (rc_of r)
       else let (p, i) = (case r of Inl rc \<Rightarrow> (- 1, - 1) | Inr x \<Rightarrow> x) in
         upd_handler (\<lambda>sc. sc\<lparr>next_page_num := p, index_in_node := i, num_fixed_pages := 1,
           next_index_of_page_handle := 0, page_handles := [], bts_opened := True\<rparr>))))))"

text \<open>Closing a scan does not unpin the page it holds.\<close>

definition bts_close :: "('s, unit) scan_op" where
  "bts_close = bindE (gets fst) (\<lambda>sc.
     if \<not> bts_opened sc then fail RECORD_SCANCLOSED
     else upd_handler (\<lambda>sc. sc\<lparr>bts_value := None, bts_opened := False\<rparr>))"

fun unpin_all :: "('s, ix_page) pool_ops \<Rightarrow> BPPageHandle list \<Rightarrow> ('s, unit) scan_op" where
  "unpin_all ops [] = ret ()"
| "unpin_all ops (ph # phs) = bindE (pool_op (unpin ops ph)) (\<lambda>_. unpin_all ops phs)"

fun fix_pages :: "('s, ix_page) pool_ops \<Rightarrow> nat \<Rightarrow> ('s, unit) scan_op" where
  "fix_pages ops 0 = ret ()"
| "fix_pages ops (Suc n) = bindE (gets fst) (\<lambda>sc.
     if next_page_num sc \<le> 0 then ret ()
     else bindE (pool_op (fetch ops (next_page_num sc))) (\<lambda>(ph, nd).
       bindE scan_header (\<lambda>fh.
       if length (rids nd) < order fh \<or> order fh = 0 then undef
       else bindE (upd_handler (\<lambda>sc. sc\<lparr>page_handles := page_handles sc @ [ph],
            next_page_num := rid_page (rids nd ! (order fh - 1))\<rparr>)) (\<lambda>_. fix_pages ops n))))"

definition find_idx_pages :: "('s, ix_page) pool_ops \<Rightarrow> ('s, unit) scan_op" where
  "find_idx_pages ops = bindE (gets fst) (\<lambda>sc.
     if \<not> bts_opened sc then fail RECORD_CLOSED
     else bindE (unpin_all ops (page_handles sc)) (\<lambda>_.
       bindE (upd_handler (\<lambda>sc. sc\<lparr>next_index_of_page_handle := 0, page_handles := []\<rparr>)) (\<lambda>_.
       bindE (fix_pages ops (nat (num_fixed_pages sc))) (\<lambda>_.
       bindE (gets fst) (\<lambda>sc. if page_handles sc \<noteq> [] then ret () else fail RECORD_EOF)))))"

text \<open>The first key from a position on that satisfies the condition.\<close>

fun scan_keys :: "(byte list \<Rightarrow> bool option) \<Rightarrow> byte list list \<Rightarrow> nat option option" where
  "scan_keys sat [] = Some None"
| "scan_keys sat (k # ks) = (case sat k of
      None \<Rightarrow> None
    | Some True \<Rightarrow> Some (Some 0)
    | Some False \<Rightarrow> map_option (map_option Suc) (scan_keys sat ks))"

fun scan_pages :: "('s, ix_page) pool_ops \<Rightarrow> nat \<Rightarrow> ('s, RID) scan_op" where
  "scan_pages ops 0 = fail RECORD_NO_MORE_IDX_IN_MEM"
| "scan_pages ops (Suc n) = bindE (gets fst) (\<lambda>sc.
     bindE scan_header (\<lambda>fh.
     bindE (pool_op (pool_op (op_get_data ops (page_handles sc ! next_index_of_page_handle sc)))) (\<lambda>d.
     let nd = ix_node d; i = index_in_node sc in
     if i < 0 \<or> length (keys nd) < key_num nd \<or> length (rids nd) < key_num nd then undef
     else case bts_value sc of
         None \<Rightarrow> undef
       | Some val \<Rightarrow>
           bindE (lift_opt (scan_keys (satisfy_condition (comp_op sc) (header_attrs fh) val)
             (drop (nat i) (take (key_num nd) (keys nd))))) (\<lambda>r. case r of
               Some j \<Rightarrow> bindE (upd_handler (\<lambda>sc. sc\<lparr>index_in_node := i + int j + 1\<rparr>)) (\<lambda>_. ret (rids nd ! (nat i + j)))
             | None \<Rightarrow> bindE (upd_handler (\<lambda>sc. sc\<lparr>index_in_node := 0,
                   next_index_of_page_handle := next_index_of_page_handle sc + 1\<rparr>)) (\<lambda>_. scan_pages ops n)))))"

definition get_next_idx_in_memory :: "('s, ix_page) pool_ops \<Rightarrow> ('s, RID) scan_op" where
  "get_next_idx_in_memory ops = bindE (gets fst) (\<lambda>sc.
     if next_index_of_page_handle sc \<ge> length (page_handles sc) then fail RECORD_NO_MORE_IDX_IN_MEM
     else if next_page_num sc = - 1 \<and> index_in_node sc = - 1 then fail RECORD_EOF
     else scan_pages ops (length (page_handles sc) - next_index_of_page_handle sc))"

definition next_entry :: "('s, ix_page) pool_ops \<Rightarrow> ('s, RID) scan_op" where
  "next_entry ops = bindE (gets fst) (\<lambda>sc.
     if \<not> bts_opened sc then fail RECORD_CLOSED
     else attempt (get_next_idx_in_memory ops) (\<lambda>r. case r of
        Inr rid \<Rightarrow> ret rid
      | Inl rc \<Rightarrow> if rc = RECORD_NO_MORE_IDX_IN_MEM
          then bindE (find_idx_pages ops) (\<lambda>_. get_next_idx_in_memory ops)
          else fail rc))"

end
