(* ===== verification/Bplus_Scan_Run.thy ===== *)
theory Bplus_Scan_Run
  imports Bplus_Run Bplus_Scan
begin

text \<open>
  Runs of the index scanner over any pool that keeps the contract \<^verbatim>\<open>page_pool\<close>: what
  \<^verbatim>\<open>next_entry\<close> returns until its first result other than success, along the leaves of a
  tree.
\<close>

section \<open>Calling next_entry until it fails\<close>

fun scan_entries :: "('s, ix_page) pool_ops \<Rightarrow> nat \<Rightarrow> ('s, RID list \<times> RC) scan_op" where
  "scan_entries ops 0 = undef"
| "scan_entries ops (Suc n) = attempt (next_entry ops) (\<lambda>r. case r of
      Inl rc \<Rightarrow> ret ([], rc)
    | Inr rid \<Rightarrow> bindE (scan_entries ops n) (\<lambda>(rs, rc). ret (rid # rs, rc)))"

text \<open>What comes out for leaves with the given entries: the scan ends at the first leaf without an
  entry that satisfies the condition.\<close>

fun leaf_scan :: "(byte list \<Rightarrow> bool) \<Rightarrow> (byte list \<times> RID) list list \<Rightarrow> RID list \<times> RC" where
  "leaf_scan sat [] = ([], RECORD_EOF)"
| "leaf_scan sat (es # ls) =
    (if filter (\<lambda>e. sat (fst e)) es = [] then ([], RECORD_NO_MORE_IDX_IN_MEM)
     else (map snd (filter (\<lambda>e. sat (fst e)) es) @ fst (leaf_scan sat ls), snd (leaf_scan sat ls)))"

lemma leaf_scan_complete:
  assumes "\<forall>es \<in> set ls. \<exists>e \<in> set es. sat (fst e)"
  shows "leaf_scan sat ls = (map snd (filter (\<lambda>e. sat (fst e)) (concat ls)), RECORD_EOF)"
  using assms by (induction ls) (auto simp: filter_empty_conv)

lemma leaf_scan_gap:
  assumes "\<forall>es \<in> set ls. \<exists>e \<in> set es. sat (fst e)" "\<forall>e \<in> set es. \<not> sat (fst e)"
  shows "leaf_scan sat (ls @ es # ls') = (map snd (filter (\<lambda>e. sat (fst e)) (concat ls)), RECORD_NO_MORE_IDX_IN_MEM)"
  using assms by (induction ls) (auto simp: filter_empty_conv)

lemma scan_keys_cases:
  assumes "\<forall>k \<in> set ks. sat k = Some (g k)"
  obtains "scan_keys sat ks = Some None" "\<forall>k \<in> set ks. \<not> g k"
  | j where "scan_keys sat ks = Some (Some j)" "j < length ks" "g (ks ! j)" "\<forall>k \<in> set (take j ks). \<not> g k"
  using assms
proof (induction ks arbitrary: thesis)
  case (Cons k ks)
  show ?case
  proof (cases "g k")
    case True
    then show ?thesis using Cons.prems(2) [of 0] Cons.prems(3) by simp
  next
    case False
    then have s: "scan_keys sat (k # ks) = map_option (map_option Suc) (scan_keys sat ks)" using Cons.prems(3) by simp
    show ?thesis
    proof (rule Cons.IH)
      assume "scan_keys sat ks = Some None" "\<forall>k \<in> set ks. \<not> g k"
      then show thesis using Cons.prems(1) s False by simp
    next
      fix j assume "scan_keys sat ks = Some (Some j)" "j < length ks" "g (ks ! j)" "\<forall>k \<in> set (take j ks). \<not> g k"
      then show thesis using Cons.prems(2) [of "Suc j"] s False by simp
    qed (use Cons.prems(3) in simp)
  qed
qed simp

lemma filter_first:
  assumes "j < length es" "sat (fst (es ! j))" "\<forall>k \<in> set (take j (map fst es)). \<not> sat k"
  shows "filter (\<lambda>e. sat (fst e)) es = es ! j # filter (\<lambda>e. sat (fst e)) (drop (Suc j) es)"
proof -
  have "es = take j es @ es ! j # drop (Suc j) es" by (rule id_take_nth_drop [OF assms(1)])
  moreover have "filter (\<lambda>e. sat (fst e)) (take j es) = []"
    using assms(3) by (auto simp: filter_empty_conv take_map)
  ultimately show ?thesis using assms(2) by (metis append_Nil filter.simps(2) filter_append)
qed

lemma tree_at_leaves:
  assumes "tree_at V ord par t" "(p, es, nxt) \<in> set (leaves t)"
  shows "\<exists>d par'. V p = Some d \<and> leaf_node ord par' es nxt (ix_node d)"
  using assms
proof (induction t arbitrary: par)
  case (Nd q xs)
  then obtain x where "x \<in> set xs" "(p, es, nxt) \<in> set (leaves (snd x))" "tree_at V ord q (snd x)" by auto
  then show ?case by (intro Nd.IH [of x]) (auto intro: snds.intros)
qed auto

lemma leaves_nonempty: "tree_at V ord par t \<Longrightarrow> leaves t \<noteq> []"
proof (induction t arbitrary: par)
  case (Nd q xs)
  then obtain x where "x \<in> set xs" "tree_at V ord q (snd x)" by (cases xs) (auto simp: inner_node_def)
  then have "leaves (snd x) \<noteq> []" by (intro Nd.IH [of x]) (auto intro: snds.intros)
  then show ?case using \<open>x \<in> set xs\<close> by auto
qed simp

section \<open>Along the leaves\<close>

context index_pool
begin

text \<open>The page that a scan holds.\<close>

definition scan_pin :: "'s \<Rightarrow> (int \<Rightarrow> nat) \<Rightarrow> BPPageHandle list \<Rightarrow> bool" where
  "scan_pin s P phs \<longleftrightarrow> phs = [] \<and> pins s = P \<or> (\<exists>ph p. phs = [ph] \<and> held s ph p \<and> pins s = P(p := Suc (P p)))"

definition scan_ok :: "bt_handler \<Rightarrow> (int \<Rightarrow> nat) \<Rightarrow> bt_scanner \<Rightarrow> 's \<Rightarrow> bool" where
  "scan_ok h P sc s \<longleftrightarrow> ok s \<and> (\<forall>q. stable s q) \<and> free_pins P (cap s) 1 \<and> scan_pin s P (page_handles sc) \<and>
     tree_handler h \<and> bts_opened sc \<and> num_fixed_pages sc = 1"

definition scans_for :: "bt_handler \<Rightarrow> (byte list \<Rightarrow> bool) \<Rightarrow> bt_scanner \<Rightarrow> (byte list \<times> RID) list \<Rightarrow> bool" where
  "scans_for h sat sc es \<longleftrightarrow> (\<exists>val. bts_value sc = Some val \<and>
     (\<forall>k \<in> set (map fst es). satisfy_condition (comp_op sc) (header_attrs (file_header h)) val k = Some (sat k)))"

text \<open>The scan is in a leaf at entry \<^verbatim>\<open>i\<close>.\<close>

definition in_leaf :: "bt_scanner \<Rightarrow> 's \<Rightarrow> (byte list \<times> RID) list \<Rightarrow> int \<Rightarrow> nat \<Rightarrow> bool" where
  "in_leaf sc s es nxt i \<longleftrightarrow> (\<exists>ph p d par. page_handles sc = [ph] \<and> next_index_of_page_handle sc = 0 \<and> held s ph p \<and>
     view s p = Some d \<and> leaf_node ord par es nxt (ix_node d) \<and> next_page_num sc = nxt \<and> index_in_node sc = int i)"

lemma scan_header_run [run]: "scan_header (sc, h, s) = Some (Inr (file_header h), (sc, h, s))"
  by (simp add: scan_header_def get_header_run pool_op_ok run)

lemma unpin_all_run:
  assumes "scan_ok h P sc s"
  shows "\<exists>s'. unpin_all ops (page_handles sc) (sc, h, s) = Some (Inr (), (sc, h, s')) \<and> ok s' \<and> (\<forall>q. stable s' q) \<and>
    view s' = view s \<and> cap s' = cap s \<and> pins s' = P \<and> count s' = count s"
proof (cases "page_handles sc = []")
  case True
  then show ?thesis using assms by (auto simp: scan_ok_def scan_pin_def run)
next
  case False
  then obtain ph p where h: "page_handles sc = [ph]" "held s ph p" "pins s = P(p := Suc (P p))" "ok s" "\<forall>q. stable s q"
    using assms by (auto simp: scan_ok_def scan_pin_def)
  obtain s' where u: "unpin ops ph (h, s) = Some (Inr (), (h, s'))" "ok s'" "view s' = view s"
      "pins s' = (pins s)(p := pins s p - 1)" "count s' = count s" "cap s' = cap s" "\<forall>q. stable s q \<longrightarrow> stable s' q"
    using unpin_run [OF h(4,2), of h] h(5) by blast
  have "pins s' = P" using u(4) h(3) by auto
  then show ?thesis using u h by (auto simp: pool_op_ok run)
qed

text \<open>Searching the leaf that the scan is in.\<close>

lemma in_memory_run:
  assumes sc: "scan_ok h P sc s" "scans_for h sat sc es" "in_leaf sc s es nxt i"
  shows "get_next_idx_in_memory ops (sc, h, s) =
      Some (Inl RECORD_NO_MORE_IDX_IN_MEM, (sc\<lparr>index_in_node := 0, next_index_of_page_handle := 1\<rparr>, h, s)) \<and>
      filter (\<lambda>e. sat (fst e)) (drop i es) = [] \<or>
    (\<exists>j. i \<le> j \<and> j < length es \<and> get_next_idx_in_memory ops (sc, h, s) =
      Some (Inr (snd (es ! j)), (sc\<lparr>index_in_node := int (Suc j)\<rparr>, h, s)) \<and>
      filter (\<lambda>e. sat (fst e)) (drop i es) = es ! j # filter (\<lambda>e. sat (fst e)) (drop (Suc j) es))"
proof -
  obtain val where val: "bts_value sc = Some val"
      "\<forall>k \<in> set (map fst es). satisfy_condition (comp_op sc) (header_attrs (file_header h)) val k = Some (sat k)"
    using sc(2) by (auto simp: scans_for_def)
  obtain ph p d par where l: "page_handles sc = [ph]" "next_index_of_page_handle sc = 0" "held s ph p"
      "view s p = Some d" "leaf_node ord par es nxt (ix_node d)" "next_page_num sc = nxt" "index_in_node sc = int i"
    using sc(3) by (auto simp: in_leaf_def)
  have nd: "key_num (ix_node d) = length es" "take (length es) (keys (ix_node d)) = map fst es"
      "take (length es) (rids (ix_node d)) = map snd es" "length es \<le> length (keys (ix_node d))" "length es \<le> length (rids (ix_node d))"
    using l(5) by (auto simp: leaf_node_def node_size_ok_def)
  have "op_get_data ops ph s = Some (Inr d, s)" using data_ok [OF _ l(3,4)] sc(1) by (simp add: scan_ok_def)
  note mem = this l nd val(1)
  have "\<forall>k \<in> set (map fst (drop i es)). satisfy_condition (comp_op sc) (header_attrs (file_header h)) val k = Some (sat k)"
    using val(2) by (auto dest: in_set_dropD)
  then show ?thesis
  proof (cases rule: scan_keys_cases)
    case 1
    then have "get_next_idx_in_memory ops (sc, h, s) =
      Some (Inl RECORD_NO_MORE_IDX_IN_MEM, (sc\<lparr>index_in_node := 0, next_index_of_page_handle := 1\<rparr>, h, s))"
      using mem by (simp add: get_next_idx_in_memory_def run pool_op_ok drop_map upd_handler_def)
    then show ?thesis using 1(2) by (auto simp: filter_empty_conv)
  next
    case (2 j)
    have j: "i + j < length es" using 2(2) by simp
    have "rids (ix_node d) ! (i + j) = snd (es ! (i + j))" using nd(3) j by (metis nth_map nth_take)
    then have "get_next_idx_in_memory ops (sc, h, s) =
      Some (Inr (snd (es ! (i + j))), (sc\<lparr>index_in_node := int (Suc (i + j))\<rparr>, h, s))"
      using mem 2(1) j by (simp add: get_next_idx_in_memory_def run pool_op_ok drop_map upd_handler_def add.commute add.left_commute)
    moreover have "filter (\<lambda>e. sat (fst e)) (drop i es) = drop i es ! j # filter (\<lambda>e. sat (fst e)) (drop (Suc j) (drop i es))"
      by (rule filter_first) (use 2 in \<open>simp_all add: drop_map take_map\<close>)
    ultimately show ?thesis using j by (intro disjI2 exI [of _ "i + j"]) (simp add: add.commute)
  qed
qed

text \<open>Going on to the next leaf.\<close>

lemma find_idx_pages_end:
  assumes sc: "scan_ok h P sc s" "next_page_num sc \<le> 0"
  shows "\<exists>s'. find_idx_pages ops (sc, h, s) =
      Some (Inl RECORD_EOF, (sc\<lparr>next_index_of_page_handle := 0, page_handles := []\<rparr>, h, s')) \<and>
    ok s' \<and> (\<forall>q. stable s' q) \<and> view s' = view s \<and> pins s' = P"
proof -
  obtain s' where "unpin_all ops (page_handles sc) (sc, h, s) = Some (Inr (), (sc, h, s'))" "ok s'" "\<forall>q. stable s' q"
      "view s' = view s" "pins s' = P"
    using unpin_all_run [OF sc(1)] by blast
  then show ?thesis using sc by (auto simp: find_idx_pages_def run upd_handler_def scan_ok_def)
qed

lemma find_idx_pages_next:
  assumes sc: "scan_ok h P sc s" "0 < next_page_num sc" "index_in_node sc = int i"
    and l: "view s (next_page_num sc) = Some d" "leaf_node ord par es nxt (ix_node d)"
  shows "\<exists>sc' s'. find_idx_pages ops (sc, h, s) = Some (Inr (), (sc', h, s')) \<and> scan_ok h P sc' s' \<and> in_leaf sc' s' es nxt i \<and>
    view s' = view s \<and> comp_op sc' = comp_op sc \<and> bts_value sc' = bts_value sc"
proof -
  obtain s1 where u: "unpin_all ops (page_handles sc) (sc, h, s) = Some (Inr (), (sc, h, s1))" "ok s1" "\<forall>q. stable s1 q"
      "view s1 = view s" "pins s1 = P" "cap s1 = cap s"
    using unpin_all_run [OF sc(1)] by blast
  have h: "tree_handler h" "free_pins P (cap s) 1" "bts_opened sc" "num_fixed_pages sc = 1"
    using sc(1) by (auto simp: scan_ok_def)
  let ?p = "next_page_num sc"
  obtain ph s2 where f: "fetch ops ?p (h, s1) = Some (Inr (ph, ix_node d), (h, s2))" "ok s2" "view s2 = view s1"
      "pins s2 = (pins s1)(?p := Suc (pins s1 ?p))" "held s2 ph ?p" "keeps s1 s2"
    using fetch_free [OF h(1) u(2), of ?p d 0] u(4-6) h(2) l(1) by (auto simp: free_frames_def)
  have nd: "length (rids (ix_node d)) = ord" "0 < ord" "rid_page (rids (ix_node d) ! (ord - 1)) = nxt"
    using l(2) order_two by (auto simp: leaf_node_def node_size_ok_def)
  let ?sc = "sc\<lparr>next_index_of_page_handle := 0, page_handles := [ph], next_page_num := nxt\<rparr>"
  have "find_idx_pages ops (sc, h, s) = Some (Inr (), (?sc, h, s2))"
    using u(1) f(1) h sc(2) nd by (simp add: find_idx_pages_def run upd_handler_def pool_op_ok tree_handler_def)
  moreover have "scan_ok h P ?sc s2"
    using h f u by (auto simp: scan_ok_def scan_pin_def keeps_def)
  moreover have "in_leaf ?sc s2 es nxt i"
    using f(3,5) u(4) l sc(3) by (auto simp: in_leaf_def)
  ultimately show ?thesis using f(3) u(4) by auto
qed

text \<open>A chain of leaves from a page on.\<close>

fun chain :: "(int \<Rightarrow> ix_page option) \<Rightarrow> int \<Rightarrow> (int \<times> (byte list \<times> RID) list \<times> int) list \<Rightarrow> bool" where
  "chain V nxt [] \<longleftrightarrow> nxt \<le> 0"
| "chain V nxt ((p, es, nx) # ls) \<longleftrightarrow> nxt = p \<and> 0 < p \<and> (\<exists>d par. V p = Some d \<and> leaf_node ord par es nx (ix_node d)) \<and> chain V nx ls"

abbreviation leaf_entries :: "(int \<times> (byte list \<times> RID) list \<times> int) list \<Rightarrow> (byte list \<times> RID) list list" where
  "leaf_entries \<equiv> map (\<lambda>l. fst (snd l))"

fun skip_first :: "nat \<Rightarrow> 'a list list \<Rightarrow> 'a list list" where
  "skip_first i [] = []"
| "skip_first i (es # ls) = drop i es # ls"

lemma scans_for_sub:
  assumes "scans_for h sat sc es" "set es' \<subseteq> set es" "comp_op sc' = comp_op sc" "bts_value sc' = bts_value sc"
  shows "scans_for h sat sc' es'"
  using assms unfolding scans_for_def by auto

definition rest_of :: "bt_handler \<Rightarrow> (int \<Rightarrow> nat) \<Rightarrow> (byte list \<Rightarrow> bool) \<Rightarrow> nat \<Rightarrow> bool" where
  "rest_of h P sat n \<longleftrightarrow> (\<forall>sc s es nxt ls i. scan_ok h P sc s \<longrightarrow> in_leaf sc s es nxt i \<longrightarrow> chain (view s) nxt ls \<longrightarrow>
     scans_for h sat sc (es @ concat (leaf_entries ls)) \<longrightarrow> length (drop i es) + length (concat (leaf_entries ls)) < n \<longrightarrow>
     (\<exists>st. scan_entries ops n (sc, h, s) =
       Some (Inr (map snd (filter (\<lambda>e. sat (fst e)) (drop i es)) @ fst (leaf_scan sat (leaf_entries ls)), snd (leaf_scan sat (leaf_entries ls))), st)))"

lemma next_leaf_run:
  assumes IH: "rest_of h P sat n"
    and sc: "scan_ok h P sc s" "index_in_node sc = int i" "chain (view s) (next_page_num sc) ls"
      "scans_for h sat sc (concat (leaf_entries ls))" "length (concat (skip_first i (leaf_entries ls))) \<le> n"
  shows "\<exists>st. attempt (bindE (find_idx_pages ops) (\<lambda>_. get_next_idx_in_memory ops)) (\<lambda>r. case r of
        Inl rc \<Rightarrow> ret ([], rc) | Inr rid \<Rightarrow> bindE (scan_entries ops n) (\<lambda>(rs, rc). ret (rid # rs, rc))) (sc, h, s) =
      Some (Inr (leaf_scan sat (skip_first i (leaf_entries ls))), st)"
proof (cases ls)
  case Nil
  then obtain s' where "find_idx_pages ops (sc, h, s) =
      Some (Inl RECORD_EOF, (sc\<lparr>next_index_of_page_handle := 0, page_handles := []\<rparr>, h, s'))"
    using find_idx_pages_end [OF sc(1)] sc(3) by auto
  then show ?thesis using Nil by (simp add: run)
next
  case (Cons l ls')
  obtain p es nx where l: "l = (p, es, nx)" by (cases l)
  obtain d par where d: "next_page_num sc = p" "0 < p" "view s p = Some d" "leaf_node ord par es nx (ix_node d)" "chain (view s) nx ls'"
    using sc(3) Cons l by auto
  obtain sc' s' where f: "find_idx_pages ops (sc, h, s) = Some (Inr (), (sc', h, s'))" "scan_ok h P sc' s'" "in_leaf sc' s' es nx i"
      "view s' = view s" "comp_op sc' = comp_op sc" "bts_value sc' = bts_value sc"
    using find_idx_pages_next [OF sc(1) _ sc(2), of d par es nx] d(1-4) by auto
  have sat: "scans_for h sat sc' es" "scans_for h sat sc' (es @ concat (leaf_entries ls'))"
    using scans_for_sub [OF sc(4)] f(5,6) Cons l by auto
  consider (none) "get_next_idx_in_memory ops (sc', h, s') =
      Some (Inl RECORD_NO_MORE_IDX_IN_MEM, (sc'\<lparr>index_in_node := 0, next_index_of_page_handle := 1\<rparr>, h, s'))"
      "filter (\<lambda>e. sat (fst e)) (drop i es) = []"
    | (some) j where "i \<le> j" "j < length es" "get_next_idx_in_memory ops (sc', h, s') =
      Some (Inr (snd (es ! j)), (sc'\<lparr>index_in_node := int (Suc j)\<rparr>, h, s'))"
      "filter (\<lambda>e. sat (fst e)) (drop i es) = es ! j # filter (\<lambda>e. sat (fst e)) (drop (Suc j) es)"
    using in_memory_run [OF f(2) sat(1) f(3)] by blast
  then show ?thesis
  proof cases
    case none
    then show ?thesis using f(1) Cons l by (simp add: run)
  next
    case some
    let ?sc = "sc'\<lparr>index_in_node := int (Suc j)\<rparr>"
    have "scan_ok h P ?sc s'" "in_leaf ?sc s' es nx (Suc j)" using f(2,3) by (auto simp: scan_ok_def in_leaf_def)
    moreover have "scans_for h sat ?sc (es @ concat (leaf_entries ls'))" using scans_for_sub [OF sat(2)] by simp
    moreover have "chain (view s') nx ls'" using d(5) f(4) by simp
    moreover have "length (drop (Suc j) es) + length (concat (leaf_entries ls')) < n"
      using sc(5) some(1,2) Cons l by simp
    ultimately obtain st where "scan_entries ops n (?sc, h, s') =
       Some (Inr (map snd (filter (\<lambda>e. sat (fst e)) (drop (Suc j) es)) @ fst (leaf_scan sat (leaf_entries ls')), snd (leaf_scan sat (leaf_entries ls'))), st)"
      using IH unfolding rest_of_def by blast
    then show ?thesis using f(1) some(3,4) Cons l by (intro exI [of _ st]) (simp add: run)
  qed
qed

lemma scan_rest: "rest_of h P sat n"
proof (induction n)
  case 0
  then show ?case by (simp add: rest_of_def)
next
  case (Suc n)
  show ?case unfolding rest_of_def
  proof (intro allI impI)
    fix sc s es nxt ls i
    assume sc: "scan_ok h P sc s" "in_leaf sc s es nxt i" "chain (view s) nxt ls" "scans_for h sat sc (es @ concat (leaf_entries ls))"
      and len: "length (drop i es) + length (concat (leaf_entries ls)) < Suc n"
    have op: "bts_opened sc" using sc(1) by (simp add: scan_ok_def)
    have sat: "scans_for h sat sc es" using scans_for_sub [OF sc(4)] by simp
    let ?r = "Inr (map snd (filter (\<lambda>e. sat (fst e)) (drop i es)) @ fst (leaf_scan sat (leaf_entries ls)), snd (leaf_scan sat (leaf_entries ls)))"
    let ?K = "\<lambda>r. case r of Inl rc \<Rightarrow> ret ([], rc) | Inr rid \<Rightarrow> bindE (scan_entries ops n) (\<lambda>(rs, rc). ret (rid # rs, rc))"
    consider (none) "get_next_idx_in_memory ops (sc, h, s) =
        Some (Inl RECORD_NO_MORE_IDX_IN_MEM, (sc\<lparr>index_in_node := 0, next_index_of_page_handle := 1\<rparr>, h, s))"
        "filter (\<lambda>e. sat (fst e)) (drop i es) = []"
      | (some) j where "i \<le> j" "j < length es" "get_next_idx_in_memory ops (sc, h, s) =
        Some (Inr (snd (es ! j)), (sc\<lparr>index_in_node := int (Suc j)\<rparr>, h, s))"
        "filter (\<lambda>e. sat (fst e)) (drop i es) = es ! j # filter (\<lambda>e. sat (fst e)) (drop (Suc j) es)"
      using in_memory_run [OF sc(1) sat sc(2)] by blast
    then show "\<exists>st. scan_entries ops (Suc n) (sc, h, s) = Some (?r, st)"
    proof cases
      case none
      let ?sc = "sc\<lparr>index_in_node := 0, next_index_of_page_handle := 1\<rparr>"
      have "next_entry ops (sc, h, s) = bindE (find_idx_pages ops) (\<lambda>_. get_next_idx_in_memory ops) (?sc, h, s)"
        using none(1) op by (simp add: next_entry_def run)
      then have "scan_entries ops (Suc n) (sc, h, s) = attempt (bindE (find_idx_pages ops) (\<lambda>_. get_next_idx_in_memory ops)) ?K (?sc, h, s)"
        by (simp add: attempt_def)
      moreover have "skip_first 0 (leaf_entries ls) = leaf_entries ls" by (cases ls) auto
      moreover have "scan_ok h P ?sc s" "chain (view s) (next_page_num ?sc) ls" "scans_for h sat ?sc (concat (leaf_entries ls))"
        using sc scans_for_sub [OF sc(4), of "concat (leaf_entries ls)" ?sc] by (auto simp: scan_ok_def in_leaf_def)
      ultimately show ?thesis
        using next_leaf_run [OF Suc.IH, of ?sc s 0 ls] len none(2) by auto
    next
      case some
      let ?sc = "sc\<lparr>index_in_node := int (Suc j)\<rparr>"
      have "scan_ok h P ?sc s" "in_leaf ?sc s es nxt (Suc j)" using sc(1,2) by (auto simp: scan_ok_def in_leaf_def)
      moreover have "scans_for h sat ?sc (es @ concat (leaf_entries ls))" using scans_for_sub [OF sc(4)] by simp
      moreover have "length (drop (Suc j) es) + length (concat (leaf_entries ls)) < n" using len some(1,2) by simp
      ultimately obtain st where "scan_entries ops n (?sc, h, s) =
         Some (Inr (map snd (filter (\<lambda>e. sat (fst e)) (drop (Suc j) es)) @ fst (leaf_scan sat (leaf_entries ls)), snd (leaf_scan sat (leaf_entries ls))), st)"
        using Suc.IH sc(3) unfolding rest_of_def by blast
      then show ?thesis using some(3,4) op by (intro exI [of _ st]) (simp add: next_entry_def run)
    qed
  qed
qed

section \<open>Opening a scan\<close>

lemma scan_opened_run:
  assumes sc: "scan_ok h P sc s" "index_in_node sc = int i" "chain (view s) (next_page_num sc) ls" "page_handles sc = []"
      "scans_for h sat sc (concat (leaf_entries ls))" "length (concat (skip_first i (leaf_entries ls))) < n"
  shows "\<exists>st. scan_entries ops n (sc, h, s) = Some (Inr (leaf_scan sat (skip_first i (leaf_entries ls))), st)"
proof -
  obtain m where n: "n = Suc m" using sc(6) by (cases n) auto
  have "next_entry ops (sc, h, s) = bindE (find_idx_pages ops) (\<lambda>_. get_next_idx_in_memory ops) (sc, h, s)"
    using sc(1,4) by (simp add: next_entry_def get_next_idx_in_memory_def scan_ok_def run)
  then show ?thesis
    unfolding n using next_leaf_run [OF scan_rest sc(1-3,5), of m] sc(6) n by (simp add: attempt_def)
qed

lemma first_leaf_loop_run:
  assumes "tree_handler h" "ok s" "tree_at (view s) ord par t" "held s ph (page_of t)" "view s (page_of t) = Some d"
    and "\<forall>q. stable s q" "pins s = P(page_of t := Suc (P (page_of t)))" "free_pins P (cap s) 1" "length (pages t) \<le> n"
  shows "\<exists>s'. first_leaf_loop ops n ph (ix_node d) (h, s) = Some (Inr (fst (hd (leaves t))), (h, s')) \<and>
    ok s' \<and> view s' = view s \<and> pins s' = P \<and> count s' = count s \<and> cap s' = cap s \<and> (\<forall>q. stable s' q)"
  using assms(2-)
proof (induction t arbitrary: n ph d s par)
  case (Lf p es nxt)
  obtain m where n: "n = Suc m" using Lf.prems(8) by (cases n) auto
  obtain s' where u: "unpin ops ph (h, s) = Some (Inr (), (h, s'))" "ok s'" "view s' = view s"
      "pins s' = (pins s)(p := pins s p - 1)" "count s' = count s" "cap s' = cap s" "\<forall>q. stable s q \<longrightarrow> stable s' q"
    using unpin_run [OF Lf.prems(1), of ph p h] Lf.prems(3,5) by auto
  have "is_leaf (ix_node d)" using Lf.prems(2,4) by (auto simp: leaf_node_def)
  then have "first_leaf_loop ops n ph (ix_node d) (h, s) = Some (Inr p, (h, s'))"
    using num_ok [OF Lf.prems(1,3)] u(1) by (simp add: n run)
  moreover have "pins s' = P" using u(4) Lf.prems(6) by auto
  ultimately show ?case using u Lf.prems(5) by simp
next
  case (Nd p xs)
  obtain m where n: "n = Suc m" using Nd.prems(8) by (cases n) auto
  have inner: "inner_node ord par (map (\<lambda>x. page_of (snd x)) xs) (map fst (tl xs)) (ix_node d)"
    and kids: "\<forall>x \<in> set xs. tree_at (view s) ord p (snd x)" using Nd.prems(2,4) by auto
  then obtain k t a where xs: "xs = (k, t) # a" by (cases xs) (auto simp: inner_node_def)
  obtain s1 where u: "unpin ops ph (h, s) = Some (Inr (), (h, s1))" "ok s1" "view s1 = view s"
      "pins s1 = (pins s)(p := pins s p - 1)" "count s1 = count s" "cap s1 = cap s" "\<forall>q. stable s q \<longrightarrow> stable s1 q"
    using unpin_run [OF Nd.prems(1), of ph p h] Nd.prems(3,5) by auto
  have P: "pins s1 = P" using u(4) Nd.prems(6) by auto
  have t: "tree_at (view s1) ord p t" using kids xs u(3) by simp
  obtain d' where d': "view s1 (page_of t) = Some d'" using tree_at_view [OF t page_of_in] by auto
  have "free_frames s1 (Suc 0)" using Nd.prems(7) P u(6) by (simp add: free_frames_def)
  then obtain ph' s2 where f: "fetch ops (page_of t) (h, s1) = Some (Inr (ph', ix_node d'), (h, s2))" "ok s2" "view s2 = view s1"
      "pins s2 = (pins s1)(page_of t := Suc (pins s1 (page_of t)))" "held s2 ph' (page_of t)" "count s2 = count s1" "keeps s1 s2"
    using fetch_free [OF assms(1) u(2) d'] by blast
  have nd: "\<not> is_leaf (ix_node d)" "rids (ix_node d) \<noteq> []" "rid_page (rids (ix_node d) ! 0) = page_of t"
    using inner inner_child [of par "[]" k t a "ix_node d"] xs by (auto simp: inner_node_def)
  have step: "first_leaf_loop ops n ph (ix_node d) (h, s) = first_leaf_loop ops m ph' (ix_node d') (h, s2)"
    using u(1) f(1) nd by (simp add: n run)
  have "\<exists>s'. first_leaf_loop ops m ph' (ix_node d') (h, s2) = Some (Inr (fst (hd (leaves t))), (h, s')) \<and>
    ok s' \<and> view s' = view s2 \<and> pins s' = P \<and> count s' = count s2 \<and> cap s' = cap s2 \<and> (\<forall>q. stable s' q)"
  proof (rule Nd.IH [of "(k, t)" t, of s2 p])
    show "\<forall>q. stable s2 q" using Nd.prems(5) u(7) f(7) by (simp add: keeps_def)
    show "length (pages t) \<le> m" using Nd.prems(8) n by (auto simp: xs)
  qed (use f u t d' P Nd.prems(7) xs in \<open>auto simp: keeps_def\<close>)
  moreover have "hd (leaves (Nd p xs)) = hd (leaves t)" using leaves_nonempty [OF t] by (simp add: xs)
  ultimately show ?case using step f(3,6,7) u(3,5,6) by (auto simp: keeps_def)
qed

lemma get_first_leaf_page_run:
  assumes "tree_handler h" "idle s" "tree_inv s t" "root_page (file_header h) = page_of t" "count s \<le> limit"
  shows "\<exists>s'. get_first_leaf_page ops (h, s) = Some (Inr (fst (hd (leaves t))), (h, s')) \<and> idle s' \<and> same s s'"
proof -
  have i: "ok s" "\<forall>q. stable s q" "free_frames s 3" using assms(2) by (auto simp: idle_def)
  have t: "tree_at (view s) ord (- 1) t" "distinct (pages t)" using assms(3) by (auto simp: tree_inv_def)
  obtain d where d: "view s (page_of t) = Some d" using tree_at_view [OF t(1) page_of_in] by auto
  obtain ph s1 where f: "fetch ops (page_of t) (h, s) = Some (Inr (ph, ix_node d), (h, s1))" "ok s1" "view s1 = view s"
      "pins s1 = (pins s)(page_of t := Suc (pins s (page_of t)))" "held s1 ph (page_of t)" "count s1 = count s" "keeps s s1"
    using fetch_free [OF assms(1) i(1) d free_frames_less [OF i(3), of "Suc 0"]] by auto
  have "free_pins (pins s) (cap s1) 1" using free_frames_less [OF i(3), of 1] f(7) by (simp add: free_frames_def keeps_def)
  then obtain s' where "first_leaf_loop ops tree_fuel ph (ix_node d) (h, s1) = Some (Inr (fst (hd (leaves t))), (h, s'))"
      "ok s'" "view s' = view s1" "pins s' = pins s" "count s' = count s1" "cap s' = cap s1" "\<forall>q. stable s' q"
    using first_leaf_loop_run [OF assms(1) f(2), of "- 1" t ph d "pins s" tree_fuel] f i(2) t d
      pages_bound [OF i(1) t assms(5)] by (auto simp: keeps_def)
  then show ?thesis
    using f(1,3,6,7) assms(4) i(3) by (auto simp: get_first_leaf_page_def run get_header_run idle_def same_def keeps_def free_frames_def)
qed

lemma chain_linked:
  assumes "linked ls" "ls \<noteq> []" "\<forall>(p, es, nx) \<in> set ls. 0 < p \<and> (\<exists>d par. V p = Some d \<and> leaf_node ord par es nx (ix_node d))"
  shows "chain V (fst (hd ls)) ls"
  using assms
proof (induction ls)
  case (Cons l ls)
  obtain p es nx where l: "l = (p, es, nx)" by (cases l)
  show ?case
  proof (cases ls)
    case Nil
    then show ?thesis using Cons.prems l by (auto simp: linked_def)
  next
    case (Cons l' ls')
    have "nx = fst l'" "linked ls" using Cons.prems(1) l Cons by (auto simp: linked_def)
    then show ?thesis using Cons.IH Cons.prems(3) l Cons by auto
  qed
qed simp

lemma tree_chain:
  assumes "idle s" "tree_inv s t"
  shows "chain (view s) (fst (hd (leaves t))) (leaves t)"
proof (rule chain_linked)
  have t: "tree_at (view s) ord (- 1) t" "linked (leaves t)" using assms(2) by (auto simp: tree_inv_def)
  show "linked (leaves t)" "leaves t \<noteq> []" using t leaves_nonempty by auto
  show "\<forall>(p, es, nx) \<in> set (leaves t). 0 < p \<and> (\<exists>d par. view s p = Some d \<and> leaf_node ord par es nx (ix_node d))"
    using tree_at_leaves [OF t(1)] view_range assms(1) by (fastforce simp: idle_def)
qed

text \<open>A scan from the first leaf.\<close>

lemma scan_from_first_leaf:
  assumes "tree_handler h" "idle s" "tree_inv s t" "root_page (file_header h) = page_of t" "count s \<le> limit"
    and op: "opr = LESS_THAN \<or> opr = LESS_EQUAL \<or> opr = NOT_EQUAL" and val: "scan_value (file_header h) val = Some v"
    and sat: "\<forall>(k, r) \<in> set (entries t). satisfy_condition opr (header_attrs (file_header h)) v k = Some (sat k)"
    and n: "length (entries t) < n"
  shows "\<exists>sc s' st. bts_open ops opr val (bts_new, h, s) = Some (Inr (), (sc, h, s')) \<and>
    scan_entries ops n (sc, h, s') = Some (Inr (leaf_scan sat (leaf_entries (leaves t))), st)"
proof -
  obtain s' where f: "get_first_leaf_page ops (h, s) = Some (Inr (fst (hd (leaves t))), (h, s'))" "idle s'" "same s s'"
    using get_first_leaf_page_run [OF assms(1-5)] by blast
  let ?sc = "bts_new\<lparr>comp_op := opr, bts_value := Some v, next_page_num := fst (hd (leaves t)), index_in_node := 0, num_fixed_pages := 1,
    next_index_of_page_handle := 0, page_handles := [], bts_opened := True\<rparr>"
  have open_eq: "bts_open ops opr val (bts_new, h, s) = Some (Inr (), (?sc, h, s'))"
    using f(1) op val by (auto simp: bts_open_def find_first_index_satisfied_def run upd_handler_def pool_op_ok bts_new_def)
  have es: "concat (leaf_entries (leaves t)) = entries t"
    unfolding entries_def by (intro arg_cong [of _ _ concat] map_cong) auto
  have "scan_ok h (pins s') ?sc s'"
    using assms(1) f(2) free_pins_less by (auto simp: scan_ok_def scan_pin_def idle_def free_frames_def)
  moreover have "chain (view s') (next_page_num ?sc) (leaves t)"
    using tree_chain [OF assms(2,3)] f(3) by (simp add: same_def)
  moreover have "scans_for h sat ?sc (concat (leaf_entries (leaves t)))"
    unfolding es using sat by (auto simp: scans_for_def)
  moreover have "skip_first 0 (leaf_entries (leaves t)) = leaf_entries (leaves t)" by (cases "leaves t") auto
  ultimately obtain st where "scan_entries ops n (?sc, h, s') = Some (Inr (leaf_scan sat (leaf_entries (leaves t))), st)"
    using scan_opened_run [of h "pins s'" ?sc s' 0 "leaves t" sat n] n es by auto
  then show ?thesis using open_eq by blast
qed

text \<open>A scan for equal keys in a tree of one leaf.\<close>

lemma scan_one_leaf:
  assumes "tree_handler h" "idle s" "tree_inv s (Lf p es nxt)" "root_page (file_header h) = p" "count s \<le> limit"
    and val: "scan_value (file_header h) val = Some v" and mk: "make_key (file_header h) v (page_rid (- 1)) = Some key" "proper key"
    and first: "first_match EQUAL_TO (header_attrs (file_header h)) v (map fst es) = Some i"
    and sat: "\<forall>(k, r) \<in> set es. satisfy_condition EQUAL_TO (header_attrs (file_header h)) v k = Some (sat k)"
    and n: "length es < n"
  shows "\<exists>sc s' st. bts_open ops EQUAL_TO val (bts_new, h, s) = Some (Inr (), (sc, h, s')) \<and>
    scan_entries ops n (sc, h, s') = Some (Inr (leaf_scan sat [drop i es]), st)"
proof -
  obtain p' es' nxt' c s1 where f: "find_leaf ops key (h, s) = Some (Inr p', (h, s1))" "Lf p es nxt = plug (Lf p' es' nxt') c"
      "idle s1" "same s s1"
    using find_leaf_run [OF assms(1-3) _ assms(5) mk(2)] assms(4) by auto
  have "p' = p" using f(2)
  proof (cases c)
    case (Cons x c')
    have "length (pages (plug (Lf p' es' nxt') c)) = 1" using arg_cong [OF f(2) [symmetric], of "\<lambda>t. length (pages t)"] by simp
    then show ?thesis using length_pages_plug [of "Lf p' es' nxt'" c] length_ctx_pages [of c] Cons by simp
  qed simp
  obtain d where d: "view s p = Some d" "leaf_node ord (- 1) es nxt (ix_node d)" using assms(3) by (auto simp: tree_inv_def)
  have i1: "ok s1" "free_frames s1 (Suc 2)" "\<forall>q. stable s1 q" using f(3) by (auto simp: idle_def eval_nat_numeral)
  obtain ph s2 where g: "fetch ops p (h, s1) = Some (Inr (ph, ix_node d), (h, s2))" "ok s2" "view s2 = view s1"
      "pins s2 = (pins s1)(p := Suc (pins s1 p))" "held s2 ph p" "count s2 = count s1" "keeps s1 s2"
    using fetch_free [OF assms(1) i1(1) _ i1(2), of p d] d(1) f(4) by (auto simp: same_def)
  obtain s3 where u: "unpin ops ph (h, s2) = Some (Inr (), (h, s3))" "ok s3" "view s3 = view s2"
      "pins s3 = (pins s2)(p := pins s2 p - 1)" "cap s3 = cap s2" "\<forall>q. stable s2 q \<longrightarrow> stable s3 q"
    using unpin_run [OF g(2,5), of h] g(7) i1(3) by (auto simp: keeps_def)
  have pos: "0 < p" using view_range [of s p] assms(2) d(1) by (auto simp: idle_def)
  have nd: "key_num (ix_node d) = length es" "take (length es) (keys (ix_node d)) = map fst es" "length es \<le> length (keys (ix_node d))"
      "length (rids (ix_node d)) = ord" "0 < ord"
    using d(2) order_two by (auto simp: leaf_node_def node_size_ok_def)
  let ?sc = "bts_new\<lparr>comp_op := EQUAL_TO, bts_value := Some v, next_page_num := p, index_in_node := int i, num_fixed_pages := 1,
    next_index_of_page_handle := 0, page_handles := [], bts_opened := True\<rparr>"
  have fuel: "tree_fuel = Suc (tree_fuel - 1)" by (simp add: tree_fuel_def)
  have "first_index_loop ops (file_header h) EQUAL_TO v tree_fuel None p (h, s1) = Some (Inr (p, int i), (h, s3))"
    using g(1) u(1) nd pos first num_ok [OF g(2,5)] assms(1)
    by (subst fuel) (simp add: run pool_op_ok tree_handler_def)
  then have open_eq: "bts_open ops EQUAL_TO val (bts_new, h, s) = Some (Inr (), (?sc, h, s3))"
    using f(1) val mk(1) \<open>p' = p\<close>
    by (simp add: bts_open_def find_first_index_satisfied_def run get_header_run upd_handler_def pool_op_ok bts_new_def)
  have P: "pins s3 = pins s1" using g(4) u(4) by auto
  have "scan_ok h (pins s3) ?sc s3"
    using assms(1) u g(7) i1 P free_pins_less [of "pins s1" "cap s1" 3 1]
    by (auto simp: scan_ok_def scan_pin_def free_frames_def keeps_def eval_nat_numeral)
  moreover have "chain (view s3) p [(p, es, nxt)]"
    using tree_chain [OF assms(2,3)] u(3) g(3) f(4) by (simp add: same_def)
  moreover have "scans_for h sat ?sc es" using sat by (auto simp: scans_for_def)
  ultimately obtain st where "scan_entries ops n (?sc, h, s3) = Some (Inr (leaf_scan sat [drop i es]), st)"
    using scan_opened_run [of h "pins s3" ?sc s3 i "[(p, es, nxt)]" sat n] less_imp_diff_less [OF n, of i]
    by (auto simp del: leaf_scan.simps)
  then show ?thesis using open_eq by blast
qed

end

end
