(* ===== verification/Bplus_Properties.thy ===== *)
theory Bplus_Properties
  imports Bplus_Delete Bplus_Scan_Run Pool_Fresh
begin

text \<open>
  The B+ tree on the buffer pool: the facts of \<^verbatim>\<open>index_pool\<close> for the pool's own operations and
  the comparison of keys of an index file, and runs that show their hypotheses can hold.
\<close>

section \<open>An index file at rest\<close>

text \<open>The pages of the file \<^verbatim>\<open>fid\<close> hold the tree \<^verbatim>\<open>t\<close>, whose marks are sorted and whose
  leaves are linked; the handler knows its root, and three more pages can be pinned.\<close>

definition index_ok :: "int \<Rightarrow> bt_handler \<Rightarrow> ix_page pool \<Rightarrow> tree \<Rightarrow> bool" where
  "index_ok fid h s t \<longleftrightarrow>
    (let fh = file_header h; norm = key_norm (header_attrs fh) in
     bt_pool h \<and> bt_file_id h = fid \<and> root_page fh = page_of t \<and> 2 \<le> order fh \<and> ordered_attrs (header_attrs fh) \<and>
     key_length fh = attr_whole_length fh + 8 \<and>
     client_ok (ix_good (order fh)) fid s \<and> (\<forall>q. file_stable s fid q) \<and> free_pins (file_pins s fid) (file_cap s fid) 3 \<and>
     file_count s fid \<le> int max_pages \<and>
     tree_at (file_view s fid) (order fh) (- 1) t \<and> distinct (pages t) \<and> sorted_wrt (mark_less norm) (marks t) \<and>
     (\<forall>m \<in> set (marks t). length (mark_key m) = key_length fh) \<and> linked (leaves t))"

lemma max_pages_fuel: "int max_pages \<le> int tree_fuel"
  by (simp add: max_pages_def tree_fuel_def BP_PAGE_DATA_SIZE_def BP_PAGE_SIZE_def BP_FILE_SUB_HDR_SIZE_def)

interpretation dbt: index_pool bp_ops fid "client_ok (ix_good (Suc (Suc m))) fid" "\<lambda>s. file_view s fid" "\<lambda>s. file_pins s fid"
  "\<lambda>s. file_held s fid" "\<lambda>s. file_stable s fid" "\<lambda>s. file_cap s fid" "\<lambda>s. file_count s fid" "int max_pages" "Suc (Suc m)"
  "CmpKey as" "key_norm as" "\<lambda>k. length k = n \<and> ordered_attrs as"
  for fid :: int and m n :: nat and "as" :: "(AttrType \<times> nat) list"
proof (rule index_pool.intro)
  show "page_pool bp_ops fid (client_ok (ix_good (Suc (Suc m))) fid) (\<lambda>s. file_view s fid) (\<lambda>s. file_pins s fid)
      (\<lambda>s. file_held s fid) (\<lambda>s. file_stable s fid) (\<lambda>s. file_cap s fid) (\<lambda>s. file_count s fid) (int max_pages) (ix_good (Suc (Suc m)))"
    by (rule dbp.page_pool_axioms)
  show "tree_order (CmpKey as) (key_norm as) (\<lambda>k. length k = n \<and> ordered_attrs as)" by (rule kt.tree_order_axioms)
  show "index_pool_axioms (int max_pages) (Suc (Suc m))" by unfold_locales (use max_pages_fuel in simp_all)
qed

lemma index_okD:
  assumes "index_ok fid h s t" "order (file_header h) = Suc (Suc m)" "header_attrs (file_header h) = as" "key_length (file_header h) = n"
  shows "dbt.tree_handler fid m as h" "dbt.idle m fid s" "dbt.tree_inv fid m as n s t"
  using assms
  unfolding index_ok_def Let_def dbt.tree_handler_def dbt.idle_def dbt.tree_inv_def dbt.free_frames_def
  by (auto simp: handler_cmp_def)

lemma index_okI:
  assumes "dbt.tree_handler fid m as h" "dbt.idle m fid s" "dbt.tree_inv fid m as n s t" "root_page (file_header h) = page_of t"
    "header_attrs (file_header h) = as" "key_length (file_header h) = n" "n = attr_whole_length (file_header h) + 8"
    "ordered_attrs as" "file_count s fid \<le> int max_pages"
  shows "index_ok fid h s t"
  using assms
  unfolding index_ok_def Let_def dbt.tree_handler_def dbt.idle_def dbt.tree_inv_def dbt.free_frames_def by auto

lemma make_key_length: "make_key fh pkey rid = Some key \<Longrightarrow> length key = attr_whole_length fh + 8"
  by (auto simp: make_key_def rid_bytes_def int_bytes_def split: if_splits)

lemma make_key_root: "make_key (fh\<lparr>root_page := p\<rparr>) pkey rid = make_key fh pkey rid"
  by (simp add: make_key_def)

section \<open>Properties\<close>

lemma insert_then_get_entry:
  assumes ok: "index_ok fid h s t" and room: "file_count s fid + int (height t) + 1 < int max_pages"
    and mk: "make_key (file_header h) pkey rid = Some key"
    and new: "\<forall>(k, r) \<in> set (entries t). key_norm (header_attrs (file_header h)) k \<noteq> key_norm (header_attrs (file_header h)) key"
  shows "\<exists>h' s' t' s''. insert_entry bp_ops pkey rid (h, s) = Some (Inr (), (h', s')) \<and> index_ok fid h' s' t' \<and>
    set (entries t') = insert (key, rid) (set (entries t)) \<and>
    get_entry bp_ops pkey rid (h', s') = Some (Inr rid, (h', s''))"
proof -
  let ?fh = "file_header h" and ?as = "header_attrs (file_header h)"
  have two: "2 \<le> order ?fh" and kl: "key_length ?fh = attr_whole_length ?fh + 8" and oa: "ordered_attrs ?as"
      and root: "root_page ?fh = page_of t"
    using ok by (auto simp: index_ok_def Let_def)
  obtain m where m: "order ?fh = Suc (Suc m)" using two by (metis Suc_le_D numeral_2_eq_2 Suc_le_mono)
  note o = index_okD [OF ok m refl refl]
  have key: "length key = key_length ?fh \<and> ordered_attrs ?as" using make_key_length [OF mk] kl oa by simp
  obtain h' s' t' where ins: "insert_entry bp_ops pkey rid (h, s) = Some (Inr (), (h', s'))"
      "dbt.inserted fid m ?as (key_length ?fh) h s t key rid h' s' t'"
    using dbt.insert_entry_run [OF o root room mk key new] by blast
  have i: "dbt.tree_handler fid m ?as h'" "dbt.idle m fid s'" "dbt.tree_inv fid m ?as (key_length ?fh) s' t'"
      "file_count s' fid \<le> int max_pages" "file_header h' = ?fh\<lparr>root_page := page_of t'\<rparr>"
      "set (entries t') = insert (key, rid) (set (entries t))"
    using ins(2) by (auto simp: dbt.inserted_def)
  have attrs: "header_attrs (file_header h') = ?as" by (simp add: i(5) header_attrs_def)
  have "index_ok fid h' s' t'"
    by (rule index_okI [OF i(1-3)]) (use i attrs kl oa in simp_all)
  moreover have "find (\<lambda>(k, r). key_norm ?as k = key_norm ?as key) (entries t') = Some (key, rid)"
  proof (cases "find (\<lambda>(k, r). key_norm ?as k = key_norm ?as key) (entries t')")
    case None
    then show ?thesis using i(6) by (auto simp: find_None_iff)
  next
    case (Some e)
    obtain k r where e: "e = (k, r)" by fastforce
    have "(k, r) \<in> set (entries t')" "key_norm ?as k = key_norm ?as key"
      using Some e by (auto simp: find_Some_iff in_set_conv_nth)
    then show ?thesis using i(6) new Some e by auto
  qed
  moreover obtain s'' where "get_entry bp_ops pkey rid (h', s') =
      Some (case find (\<lambda>(k, r). key_norm ?as k = key_norm ?as key) (entries t') of None \<Rightarrow> Inl RECORD_INVALID_KEY | Some (k, r) \<Rightarrow> Inr r, (h', s''))"
    using dbt.get_entry_run [OF i(1-3) _ i(4), of pkey rid key] mk key by (auto simp: i(5) make_key_root)
  ultimately show ?thesis using ins(1) i(6) by auto
qed

text \<open>C1. Inserting an index entry: in an index file that holds a B+ tree, with room for the pages that
  splits need, \<^verbatim>\<open>insert_entry\<close> of a new key succeeds, the pages then hold a B+ tree again (its
  nodes, parent pointers, sorted keys and the chain of leaves, whatever nodes were split and even if
  there is a new root), its entries are the old ones and the new one, and \<^verbatim>\<open>get_entry\<close> finds the
  new one. This is over the buffer pool, with the pages it evicts and loads meanwhile.\<close>

theorem insert_entry_then_get_entry:
  assumes "index_ok fid h s t" "file_count s fid + int (height t) + 1 < int max_pages"
    and "make_key (file_header h) pkey rid = Some key"
    and "\<forall>(k, r) \<in> set (entries t). key_norm (header_attrs (file_header h)) k \<noteq> key_norm (header_attrs (file_header h)) key"
  shows "\<exists>h' s' t' s''. insert_entry bp_ops pkey rid (h, s) = Some (Inr (), (h', s')) \<and> index_ok fid h' s' t' \<and>
    set (entries t') = insert (key, rid) (set (entries t)) \<and>
    get_entry bp_ops pkey rid (h', s') = Some (Inr rid, (h', s''))"
  by (rule insert_then_get_entry [OF assms])

text \<open>An index on one integer, with an empty root.\<close>

definition zero_node :: "nat \<Rightarrow> IndexNode" where
  "zero_node ord = \<lparr>is_leaf = False, key_num = 0, parent = 0, keys = replicate ord [], rids = replicate ord \<lparr>rid_page = 0, rid_slot = 0\<rparr>\<rparr>"

definition int_header :: IndexFileHeader where
  "int_header = created_header [INTS] [4] 1"

definition leaf_of :: "(byte list \<times> RID) list \<Rightarrow> ix_page" where
  "leaf_of es = \<lparr>ix_header = int_header, ix_node = \<lparr>is_leaf = True, key_num = length es, parent = - 1,
     keys = map fst es @ replicate (193 - length es) [],
     rids = map snd es @ replicate (193 - length es) \<lparr>rid_page = 0, rid_slot = 0\<rparr>\<rparr>\<rparr>"

definition leaf_pool :: "(byte list \<times> RID) list \<Rightarrow> ix_page pool" where
  "leaf_pool es = built_pool 4 \<lparr>page_count = 2, allocated_pages = 2\<rparr> (byte_map 3) [leaf_of es]
     \<lparr>ix_header = empty_header, ix_node = zero_node 193\<rparr>"

definition int_handler :: bt_handler where
  "int_handler = bt_new\<lparr>bt_pool := True, bt_file_id := 0, file_header := int_header\<rparr>"

lemma int_header_simps:
  "order int_header = 193" "header_attrs int_header = [(INTS, 4)]" "key_length int_header = 12"
  "attr_whole_length int_header = 4" "root_page int_header = 1"
  by (simp_all add: int_header_def created_header_def index_order_def header_attrs_def sizeof_RID_def
      sizeof_IndexFileHeader_def sizeof_IndexNode_def Let_def)

lemma leaf_pool_wf: "hdr_wf \<lparr>page_count = 2, allocated_pages = 2\<rparr> (byte_map 3) (Suc (length [x]))"
proof -
  have "{i. i < 2 \<and> bit (3 :: byte) i} = {0, 1}" by (auto simp: less_2_cases_iff)
  then show ?thesis using byte_map_wf [of 3 2] by (simp add: numeral_2_eq_2)
qed

lemma leaf_pool_view:
  "file_pins (leaf_pool es) 0 = (\<lambda>_. 0)" "file_count (leaf_pool es) 0 = 2" "file_stable (leaf_pool es) 0 q" "file_cap (leaf_pool es) 0 = 4"
  by (simp_all add: leaf_pool_def built_view [OF leaf_pool_wf] built_cap)

lemma leaf_pool_ok:
  assumes es: "length es < 193" "\<forall>(k, r) \<in> set es. length k = 12" "sorted_wrt (\<lambda>a b. key_norm [(INTS, 4)] (fst a) < key_norm [(INTS, 4)] (fst b)) es"
  shows "index_ok 0 int_handler (leaf_pool es) (Lf 1 es 0)"
proof -
  have "client_ok (ix_good 193) 0 (leaf_pool es)"
    unfolding leaf_pool_def
    by (rule built_client [OF leaf_pool_wf]) (use es(1) in \<open>simp_all add: ix_good_def node_size_ok_def zero_node_def leaf_of_def\<close>)
  moreover have "1 < max_pages" by (simp add: max_pages_def BP_PAGE_DATA_SIZE_def BP_PAGE_SIZE_def BP_FILE_SUB_HDR_SIZE_def)
  then have "bit_at (byte_map 3) 1" using bit_at_byte_map [of 1 3] by simp
  then have "file_view (leaf_pool es) 0 1 = Some (leaf_of es)"
    unfolding leaf_pool_def built_view(1) [OF leaf_pool_wf] by simp
  moreover have "leaf_node 193 (- 1) es 0 (ix_node (leaf_of es))"
    using es(1) by (simp add: leaf_node_def node_size_ok_def leaf_of_def nth_append)
  moreover have "free_pins (file_pins (leaf_pool es) 0) (file_cap (leaf_pool es) 0) 3" "\<forall>q. file_stable (leaf_pool es) 0 q"
      "file_count (leaf_pool es) 0 = 2"
    by (simp_all add: leaf_pool_view free_pins_def)
  moreover have "sorted_wrt (mark_less (key_norm [(INTS, 4)])) (marks (Lf 1 es 0))" "\<forall>m \<in> set (marks (Lf 1 es 0)). length (mark_key m) = 12"
    using es(2,3) by (auto simp: sorted_wrt_map)
  ultimately show ?thesis
    by (simp add: index_ok_def Let_def int_handler_def bt_new_def int_header_simps ordered_attrs_def
        linked_def max_pages_def BP_PAGE_DATA_SIZE_def BP_PAGE_SIZE_def BP_FILE_SUB_HDR_SIZE_def)
qed

theorem insert_entry_then_get_entry_witness:
  "\<exists>h' s' t' s''. insert_entry bp_ops (int_bytes 7) \<lparr>rid_page = 1, rid_slot = 0\<rparr> (int_handler, leaf_pool []) = Some (Inr (), (h', s')) \<and>
    index_ok 0 h' s' t' \<and> set (entries t') = {(int_bytes 7 @ rid_bytes \<lparr>rid_page = 1, rid_slot = 0\<rparr>, \<lparr>rid_page = 1, rid_slot = 0\<rparr>)} \<and>
    get_entry bp_ops (int_bytes 7) \<lparr>rid_page = 1, rid_slot = 0\<rparr> (h', s') = Some (Inr \<lparr>rid_page = 1, rid_slot = 0\<rparr>, (h', s''))"
proof -
  have room: "file_count (leaf_pool []) 0 + int (height (Lf 1 [] 0)) + 1 < int max_pages"
    by (simp add: leaf_pool_view max_pages_def BP_PAGE_DATA_SIZE_def BP_PAGE_SIZE_def BP_FILE_SUB_HDR_SIZE_def)
  have mk: "make_key (file_header int_handler) (int_bytes 7) rid = Some (int_bytes 7 @ rid_bytes rid)" for rid
    by (simp add: make_key_def int_handler_def int_header_simps int_bytes_def)
  show ?thesis
    using insert_entry_then_get_entry [OF leaf_pool_ok [of "[]"] room mk, of "\<lparr>rid_page = 1, rid_slot = 0\<rparr>"] by (simp add: entries_def)
qed

text \<open>C5. Looking up an index entry: \<^verbatim>\<open>get_entry\<close> returns the record identifier of the entry of
  the tree with the key, and \<^verbatim>\<open>RECORD_INVALID_KEY\<close> exactly when no entry has it. The walk of
  \<^verbatim>\<open>find_leaf\<close> ends, and the search follows the pages down to the only leaf that can have the
  key.\<close>

theorem get_entry_lookup:
  assumes ok: "index_ok fid h s t" and mk: "make_key (file_header h) pkey rid = Some key"
  shows "\<exists>s'. get_entry bp_ops pkey rid (h, s) =
      Some (case find (\<lambda>(k, r). key_norm (header_attrs (file_header h)) k = key_norm (header_attrs (file_header h)) key) (entries t) of
        None \<Rightarrow> Inl RECORD_INVALID_KEY | Some (k, r) \<Rightarrow> Inr r, (h, s')) \<and>
    file_view s' fid = file_view s fid"
proof -
  let ?fh = "file_header h"
  have p: "2 \<le> order ?fh" "key_length ?fh = attr_whole_length ?fh + 8" "ordered_attrs (header_attrs ?fh)"
      "root_page ?fh = page_of t" "file_count s fid \<le> int max_pages"
    using ok by (auto simp: index_ok_def Let_def)
  obtain m where m: "order ?fh = Suc (Suc m)" using p(1) by (metis Suc_le_D numeral_2_eq_2 Suc_le_mono)
  have key: "length key = key_length ?fh \<and> ordered_attrs (header_attrs ?fh)" using make_key_length [OF mk] p by simp
  show ?thesis using dbt.get_entry_run [OF index_okD [OF ok m refl refl] p(4,5) mk key] by blast
qed

theorem get_entry_lookup_witness:
  "\<exists>s'. get_entry bp_ops (int_bytes 7) \<lparr>rid_page = 1, rid_slot = 0\<rparr> (int_handler, leaf_pool []) = Some (Inl RECORD_INVALID_KEY, (int_handler, s'))"
proof -
  have mk: "make_key (file_header int_handler) (int_bytes 7) rid = Some (int_bytes 7 @ rid_bytes rid)" for rid
    by (simp add: make_key_def int_handler_def int_header_simps int_bytes_def)
  show ?thesis using get_entry_lookup [OF leaf_pool_ok [of "[]"] mk, of "\<lparr>rid_page = 1, rid_slot = 0\<rparr>"] by (auto simp: entries_def)
qed

definition first_rid :: RID where
  "first_rid = \<lparr>rid_page = 1, rid_slot = 0\<rparr>"

lemma one_entry_ok: "index_ok 0 int_handler (leaf_pool [(int_bytes 5 @ rid_bytes first_rid, first_rid)]) (Lf 1 [(int_bytes 5 @ rid_bytes first_rid, first_rid)] 0)"
  by (rule leaf_pool_ok) (simp_all add: rid_bytes_def int_bytes_def)

text \<open>C6. Deleting an index entry: in an index file that holds a B+ tree, \<^verbatim>\<open>delete_entry\<close> of a key
  whose leaf stays at least half full, or is the root, succeeds, the pages hold a B+ tree with all
  entries but that one, and \<^verbatim>\<open>get_entry\<close> no longer finds it.\<close>

theorem delete_entry_then_get_entry:
  assumes ok: "index_ok fid h s t" and mk: "make_key (file_header h) pkey rid = Some key"
    and e: "(k, r) \<in> set (entries t)" "key_norm (header_attrs (file_header h)) k = key_norm (header_attrs (file_header h)) key"
    and large: "\<forall>(p, es, nxt) \<in> set (leaves t). (k, r) \<in> set es \<longrightarrow> order (file_header h) div 2 < length es \<or> t = Lf p es nxt"
  shows "\<exists>s' t' s''. delete_entry bp_ops pkey rid (h, s) = Some (Inr (), (h, s')) \<and> index_ok fid h s' t' \<and>
    set (entries t') = set (entries t) - {(k, r)} \<and> get_entry bp_ops pkey rid (h, s') = Some (Inl RECORD_INVALID_KEY, (h, s''))"
proof -
  let ?fh = "file_header h" and ?norm = "key_norm (header_attrs (file_header h))"
  have p: "2 \<le> order ?fh" "key_length ?fh = attr_whole_length ?fh + 8" "ordered_attrs (header_attrs ?fh)"
      "root_page ?fh = page_of t" "file_count s fid \<le> int max_pages" "sorted_wrt (mark_less ?norm) (marks t)"
    using ok by (auto simp: index_ok_def Let_def)
  obtain m where m: "order ?fh = Suc (Suc m)" using p(1) by (metis Suc_le_D numeral_2_eq_2 Suc_le_mono)
  note o = index_okD [OF ok m refl refl]
  have key: "length key = key_length ?fh \<and> ordered_attrs (header_attrs ?fh)" using make_key_length [OF mk] p by simp
  obtain s' t' where del: "delete_entry bp_ops pkey rid (h, s) = Some (Inr (), (h, s'))"
      "dbt.deleted m fid (header_attrs ?fh) (key_length ?fh) h s t (k, r) s' t'"
    using dbt.delete_entry_run [OF o p(4,5) mk key e(1)] e(2) large m by auto
  have d: "dbt.idle m fid s'" "dbt.tree_inv fid m (header_attrs ?fh) (key_length ?fh) s' t'" "file_count s' fid \<le> int max_pages"
      "page_of t' = page_of t" "set (entries t') = set (entries t) - {(k, r)}"
    using del(2) p(5) by (auto simp: dbt.deleted_def)
  have "index_ok fid h s' t'" by (rule index_okI [OF o(1) d(1,2)]) (use p d in simp_all)
  moreover have "find (\<lambda>(k', r'). ?norm k' = ?norm key) (entries t') = None"
  proof -
    have "(k', r') = (k, r)" if "(k', r') \<in> set (entries t)" "?norm k' = ?norm key" for k' r'
      using entries_unique [OF p(6) e(1) that(1)] e(2) that(2) by simp
    then show ?thesis using d(5) by (auto simp: find_None_iff)
  qed
  moreover obtain s'' where "get_entry bp_ops pkey rid (h, s') =
      Some (case find (\<lambda>(k', r'). ?norm k' = ?norm key) (entries t') of None \<Rightarrow> Inl RECORD_INVALID_KEY | Some (k', r') \<Rightarrow> Inr r', (h, s''))"
    using dbt.get_entry_run [OF o(1) d(1,2) _ d(3) mk key] p(4) d(4) by auto
  ultimately show ?thesis using del(1) d(5) by auto
qed

theorem delete_entry_then_get_entry_witness:
  "\<exists>s' t' s''. delete_entry bp_ops (int_bytes 5) first_rid (int_handler, leaf_pool [(int_bytes 5 @ rid_bytes first_rid, first_rid)]) =
      Some (Inr (), (int_handler, s')) \<and>
    index_ok 0 int_handler s' t' \<and> entries t' = [] \<and> get_entry bp_ops (int_bytes 5) first_rid (int_handler, s') = Some (Inl RECORD_INVALID_KEY, (int_handler, s''))"
proof -
  have mk: "make_key (file_header int_handler) (int_bytes 5) rid = Some (int_bytes 5 @ rid_bytes rid)" for rid
    by (simp add: make_key_def int_handler_def int_header_simps int_bytes_def)
  have es: "entries (Lf p es nxt) = es" for p es nxt by (simp add: entries_def)
  show ?thesis
    using delete_entry_then_get_entry [OF one_entry_ok mk, of "int_bytes 5 @ rid_bytes first_rid" first_rid first_rid] by (simp add: es)
qed

text \<open>C28. When a leaf lends its last entry to the leaf on its right, the key moves and the record
  identifier does not: the entry that arrives has the identifier of the first entry of the right
  leaf, so the index refers to one record twice and to the other no longer.\<close>

theorem redistribute_leaves_loses_rid:
  assumes "leaf_node ord par (e1 @ [(k, rid)]) n1 left" "leaf_node ord par' ((k0, rid0) # e2) n2 right"
    and "ord div 2 \<le> length e1 + 1" "length e2 + 2 < ord"
  shows "\<exists>left' right'. redistribute_leaves ord left right = Some (left', right', k) \<and>
    leaf_node ord par e1 n1 left' \<and> leaf_node ord par' ((k, rid0) # (k0, rid0) # e2) n2 right'"
  by (rule redistribute_to_right [OF assms])

definition small_leaf :: "(byte list \<times> RID) list \<Rightarrow> IndexNode" where
  "small_leaf es = \<lparr>is_leaf = True, key_num = length es, parent = 3, keys = map fst es @ replicate (4 - length es) [],
     rids = map snd es @ replicate (4 - length es) \<lparr>rid_page = 0, rid_slot = 0\<rparr>\<rparr>"

theorem redistribute_leaves_loses_rid_witness:
  "\<exists>left' right'. redistribute_leaves 4 (small_leaf [([1], page_rid 1), ([2], page_rid 2), ([3], page_rid 3)]) (small_leaf [([4], page_rid 4)]) =
      Some (left', right', [3]) \<and>
    leaf_node 4 3 [([1], page_rid 1), ([2], page_rid 2)] 0 left' \<and> leaf_node 4 3 [([3], page_rid 4), ([4], page_rid 4)] 0 right'"
  by (rule redistribute_leaves_loses_rid [where rid = "page_rid 3"]) (simp_all add: leaf_node_def node_size_ok_def small_leaf_def)

end
