(* ===== verification/Bplus_Scan_Properties.thy ===== *)
theory Bplus_Scan_Properties
  imports Bplus_Properties
begin

text \<open>
  What a scan of an index file returns.
\<close>

lemma satisfy_attrs_total:
  assumes "opr \<noteq> EQUAL_TO"
  shows "satisfy_attrs opr as pkey val off ds \<noteq> None"
proof (induction "as" arbitrary: off ds)
  case (Cons a "as")
  obtain t len where a: "a = (t, len)" by fastforce
  have "attr_satisfied opr t len pkey val off ds' \<noteq> None" for ds'
    using assms by (cases t) (auto simp: attr_satisfied_def)
  then obtain b where "attr_satisfied opr t len pkey val off (if t = DATE then Some (read_uint pkey off, read_uint val off) else ds) = Some b"
    by blast
  then show ?case using Cons.IH by (cases b) (simp_all add: a Let_def)
qed simp

lemma satisfy_condition_total: "opr \<noteq> EQUAL_TO \<Longrightarrow> \<exists>b. satisfy_condition opr as val k = Some b"
  using satisfy_attrs_total [of opr "as" k val 0 None] by (auto simp: satisfy_condition_def)

lemma first_match_exists: "k \<in> set ks \<Longrightarrow> 0 \<le> CompareKey as k key 0 \<Longrightarrow> first_match EQUAL_TO as key ks \<noteq> None"
  by (induction ks) (auto simp: Let_def)

definition satisfies :: "CompOp \<Rightarrow> (AttrType \<times> nat) list \<Rightarrow> byte list \<Rightarrow> byte list \<Rightarrow> bool" where
  "satisfies opr as val k \<longleftrightarrow> satisfy_condition opr as val k = Some True"

text \<open>C7. What an index scan with \<^verbatim>\<open><\<close>, \<^verbatim>\<open><=\<close> or \<^verbatim>\<open><>\<close> returns: when every leaf
  of the tree has an entry that satisfies the condition, the calls of \<^verbatim>\<open>next_entry\<close> return all
  such entries in the order of the keys and then \<^verbatim>\<open>RECORD_EOF\<close>; otherwise they end with
  \<^verbatim>\<open>RECORD_NO_MORE_IDX_IN_MEM\<close>, which the caller takes for an error, at the first leaf that has
  none, whatever the leaves behind it hold.\<close>

theorem index_scan_until_gap:
  assumes ok: "index_ok fid h s t" and op: "opr = LESS_THAN \<or> opr = LESS_EQUAL \<or> opr = NOT_EQUAL"
    and val: "scan_value (file_header h) val = Some v" and n: "length (entries t) < n"
  shows "\<exists>sc s' rs rc st. bts_open bp_ops opr val (bts_new, h, s) = Some (Inr (), (sc, h, s')) \<and>
    scan_entries bp_ops n (sc, h, s') = Some (Inr (rs, rc), st) \<and>
    ((\<forall>(p, es, nx) \<in> set (leaves t). \<exists>(k, r) \<in> set es. satisfies opr (header_attrs (file_header h)) v k) \<longrightarrow>
       rs = map snd (filter (\<lambda>(k, r). satisfies opr (header_attrs (file_header h)) v k) (entries t)) \<and> rc = RECORD_EOF) \<and>
    (\<forall>b p es nx a. leaves t = b @ (p, es, nx) # a \<longrightarrow>
       (\<forall>(p, es, nx) \<in> set b. \<exists>(k, r) \<in> set es. satisfies opr (header_attrs (file_header h)) v k) \<longrightarrow>
       (\<forall>(k, r) \<in> set es. \<not> satisfies opr (header_attrs (file_header h)) v k) \<longrightarrow>
       rs = map snd (filter (\<lambda>(k, r). satisfies opr (header_attrs (file_header h)) v k) (concat (map (fst \<circ> snd) b))) \<and>
       rc = RECORD_NO_MORE_IDX_IN_MEM)"
proof -
  let ?fh = "file_header h" and ?sat = "satisfies opr (header_attrs (file_header h)) v"
  have p: "2 \<le> order ?fh" "root_page ?fh = page_of t" "file_count s fid \<le> int max_pages"
    using ok by (auto simp: index_ok_def Let_def)
  obtain m where m: "order ?fh = Suc (Suc m)" using p(1) by (metis Suc_le_D numeral_2_eq_2 Suc_le_mono)
  have "opr \<noteq> EQUAL_TO" using op by auto
  then have "satisfy_condition opr (header_attrs ?fh) v k = Some (?sat k)" for k
    using satisfy_condition_total [of opr "header_attrs ?fh" v k] by (auto simp: satisfies_def)
  then have "\<forall>(k, r) \<in> set (entries t). satisfy_condition opr (header_attrs ?fh) v k = Some (?sat k)" by auto
  then obtain sc s' st where run: "bts_open bp_ops opr val (bts_new, h, s) = Some (Inr (), (sc, h, s'))"
      "scan_entries bp_ops n (sc, h, s') = Some (Inr (leaf_scan ?sat (map (\<lambda>l. fst (snd l)) (leaves t))), st)"
    using dbt.scan_from_first_leaf [OF index_okD [OF ok m refl refl] p(2,3) op val _ n] by blast
  have es: "concat (map (\<lambda>l. fst (snd l)) (leaves t)) = entries t"
    unfolding entries_def by (intro arg_cong [of _ _ concat] map_cong) auto
  have "leaf_scan ?sat (map (\<lambda>l. fst (snd l)) (leaves t)) = (map snd (filter (\<lambda>(k, r). ?sat k) (entries t)), RECORD_EOF)"
    if "\<forall>(p, es, nx) \<in> set (leaves t). \<exists>(k, r) \<in> set es. ?sat k"
    using leaf_scan_complete [of "map (\<lambda>l. fst (snd l)) (leaves t)" ?sat] that es by (simp add: split_beta')
  moreover have "leaf_scan ?sat (map (\<lambda>l. fst (snd l)) (leaves t)) =
      (map snd (filter (\<lambda>(k, r). ?sat k) (concat (map (fst \<circ> snd) b))), RECORD_NO_MORE_IDX_IN_MEM)"
    if "leaves t = b @ (p, es, nx) # a" "\<forall>(p, es, nx) \<in> set b. \<exists>(k, r) \<in> set es. ?sat k" "\<forall>(k, r) \<in> set es. \<not> ?sat k" for b p es nx a
    using leaf_scan_gap [of "map (\<lambda>l. fst (snd l)) b" ?sat es] that by (simp add: split_beta' comp_def)
  ultimately show ?thesis
    using run by (intro exI [of _ sc] exI [of _ s'] exI [of _ "fst (leaf_scan ?sat (map (\<lambda>l. fst (snd l)) (leaves t)))"]
        exI [of _ "snd (leaf_scan ?sat (map (\<lambda>l. fst (snd l)) (leaves t)))"] exI [of _ st] conjI) simp_all
qed

lemma read_int_bytes:
  "read_int (int_bytes 5 @ rid_bytes first_rid) 0 = 5" "read_int (int_bytes 9) 0 = 9" "read_int (int_bytes 3) 0 = 3"
  by code_simp+

lemma int_scan_value: "scan_value (file_header int_handler) (Some (int_bytes x)) = Some (int_bytes x)"
  by (simp add: scan_value_def int_handler_def int_header_simps int_bytes_def)

lemma int_handler_attrs: "header_attrs (file_header int_handler) = [(INTS, 4)]"
  by (simp add: int_handler_def int_header_simps)

theorem index_scan_until_gap_witness:
  "\<exists>sc s' st. bts_open bp_ops LESS_THAN (Some (int_bytes 9)) (bts_new, int_handler, leaf_pool [(int_bytes 5 @ rid_bytes first_rid, first_rid)]) =
      Some (Inr (), (sc, int_handler, s')) \<and>
    scan_entries bp_ops 2 (sc, int_handler, s') = Some (Inr ([first_rid], RECORD_EOF), st)"
proof -
  have "satisfies LESS_THAN [(INTS, 4)] (int_bytes 9) (int_bytes 5 @ rid_bytes first_rid)"
    by (simp add: satisfies_def satisfy_condition_def attr_satisfied_def op_rel_def read_int_bytes)
  then show ?thesis
    using index_scan_until_gap [OF one_entry_ok _ int_scan_value, of LESS_THAN 2 9]
    by (auto simp: entries_def int_handler_attrs)
qed

text \<open>Looking for a value that an index does not have: in an index on one integer whose root is
  its only leaf, a scan for a value that no entry has but below that of some entry is not empty but
  fails, its first call of \<^verbatim>\<open>next_entry\<close> returns \<^verbatim>\<open>RECORD_NO_MORE_IDX_IN_MEM\<close>.\<close>

theorem equal_scan_fails:
  assumes ok: "index_ok fid h s (Lf p es nxt)" and attrs: "header_attrs (file_header h) = [(INTS, 4)]" "attr_whole_length (file_header h) = 4"
    and val: "length v = 4"
    and none: "\<forall>(k, r) \<in> set es. read_int k 0 \<noteq> read_int v 0" and above: "\<exists>(k, r) \<in> set es. read_int v 0 < read_int k 0"
  shows "\<exists>sc s' st. bts_open bp_ops EQUAL_TO (Some v) (bts_new, h, s) = Some (Inr (), (sc, h, s')) \<and>
    scan_entries bp_ops (Suc (length es)) (sc, h, s') = Some (Inr ([], RECORD_NO_MORE_IDX_IN_MEM), st)"
proof -
  let ?fh = "file_header h"
  have p: "2 \<le> order ?fh" "root_page ?fh = p" "file_count s fid \<le> int max_pages" "key_length ?fh = attr_whole_length ?fh + 8" "ordered_attrs (header_attrs ?fh)"
    using ok by (auto simp: index_ok_def Let_def)
  obtain m where m: "order ?fh = Suc (Suc m)" using p(1) by (metis Suc_le_D numeral_2_eq_2 Suc_le_mono)
  obtain k where k: "k \<in> set (map fst es)" "read_int v 0 < read_int k 0" using above by force
  obtain i where i: "first_match EQUAL_TO (header_attrs ?fh) v (map fst es) = Some i"
    using first_match_exists [of k "map fst es" "header_attrs ?fh" v] k by (auto simp: attrs compare_attr_def)
  have sat: "\<forall>(k, r) \<in> set es. satisfy_condition EQUAL_TO (header_attrs ?fh) v k = Some False"
    using none by (auto simp: attrs satisfy_condition_def attr_satisfied_def op_rel_def)
  have mk: "make_key ?fh v (page_rid (- 1)) = Some (v @ rid_bytes (page_rid (- 1)))" using attrs val by (simp add: make_key_def)
  have key: "length (v @ rid_bytes (page_rid (- 1))) = key_length ?fh \<and> ordered_attrs (header_attrs ?fh)"
    using make_key_length [OF mk] p by simp
  have val': "scan_value ?fh (Some v) = Some v" using attrs val by (simp add: scan_value_def)
  show ?thesis
    using dbt.scan_one_leaf [OF index_okD [OF ok m refl refl] p(2,3) val' mk key i, of "\<lambda>_. False" "Suc (length es)"] sat
    by (auto simp del: scan_entries.simps)
qed

theorem equal_scan_fails_witness:
  "\<exists>sc s' st. bts_open bp_ops EQUAL_TO (Some (int_bytes 3)) (bts_new, int_handler, leaf_pool [(int_bytes 5 @ rid_bytes first_rid, first_rid)]) =
      Some (Inr (), (sc, int_handler, s')) \<and>
    scan_entries bp_ops 2 (sc, int_handler, s') = Some (Inr ([], RECORD_NO_MORE_IDX_IN_MEM), st)"
proof -
  have "attr_whole_length (file_header int_handler) = 4" "length (int_bytes 3) = 4"
    by (simp_all add: int_handler_def int_header_simps int_bytes_def)
  from equal_scan_fails [OF one_entry_ok int_handler_attrs this] show ?thesis
    by (simp add: read_int_bytes numeral_2_eq_2 del: scan_entries.simps)
qed

end
