(* ===== verification/Table_Meta.thy ===== *)
theory Table_Meta
  imports Parse_Types Complex_Main
begin

text \<open>
  The metadata of tables (\<^verbatim>\<open>field_meta.cpp\<close>, \<^verbatim>\<open>index_meta.cpp\<close> and \<^verbatim>\<open>table_meta.cpp\<close>
  of \<^verbatim>\<open>storage/common\<close>): fields and their layout in a record, indexes, and the JSON document that
  a metadata file holds. The document is written and parsed by jsoncpp: the writer and the parser are
  parameters, and the accessors of \<^verbatim>\<open>Json::Value\<close> that the code uses are below. An exception of
  jsoncpp, which nothing catches, is \<^verbatim>\<open>None\<close>.
\<close>

section \<open>JSON values\<close>

datatype Json = JNull | JBool bool | JInt int | JReal rat | JStr string | JArr "Json list" | JObj "string \<rightharpoonup> Json"

text \<open>A \<^verbatim>\<open>char *\<close> ends at its first zero byte.\<close>

definition c_str :: "string \<Rightarrow> string" where
  "c_str s = takeWhile (\<lambda>c. c \<noteq> CHR 0x00) s"

fun is_string :: "Json \<Rightarrow> bool" where
  "is_string (JStr s) = True"
| "is_string v = False"

fun is_bool :: "Json \<Rightarrow> bool" where
  "is_bool (JBool b) = True"
| "is_bool v = False"

fun is_array :: "Json \<Rightarrow> bool" where
  "is_array (JArr vs) = True"
| "is_array v = False"

fun is_object :: "Json \<Rightarrow> bool" where
  "is_object (JObj m) = True"
| "is_object v = False"

fun is_int :: "Json \<Rightarrow> bool" where
  "is_int (JInt i) \<longleftrightarrow> - (2 ^ 31) \<le> i \<and> i < 2 ^ 31"
| "is_int (JReal r) \<longleftrightarrow> - (2 ^ 31) \<le> r \<and> r \<le> 2 ^ 31 - 1 \<and> of_int (floor r) = r"
| "is_int v = False"

text \<open>The conversions; where the value does not fit they throw. A number is cut off towards zero.\<close>

fun as_c_string :: "Json \<Rightarrow> string option" where
  "as_c_string (JStr s) = Some (c_str s)"
| "as_c_string v = None"

fun as_int :: "Json \<Rightarrow> int option" where
  "as_int (JInt i) = (if is_int (JInt i) then Some i else None)"
| "as_int (JReal r) = (if - (2 ^ 31) \<le> r \<and> r \<le> 2 ^ 31 - 1 then Some (if 0 \<le> r then floor r else ceiling r) else None)"
| "as_int JNull = Some 0"
| "as_int (JBool b) = Some (if b then 1 else 0)"
| "as_int v = None"

fun as_bool :: "Json \<Rightarrow> bool option" where
  "as_bool (JBool b) = Some b"
| "as_bool JNull = Some False"
| "as_bool (JInt i) = Some (i \<noteq> 0)"
| "as_bool (JReal r) = Some (r \<noteq> 0)"
| "as_bool v = None"

text \<open>\<^verbatim>\<open>operator[]\<close> with a key.\<close>

fun json_member :: "Json \<Rightarrow> string \<Rightarrow> Json option" where
  "json_member JNull k = Some JNull"
| "json_member (JObj m) k = Some (case m k of None \<Rightarrow> JNull | Some v \<Rightarrow> v)"
| "json_member v k = None"

text \<open>\<^verbatim>\<open>empty\<close>, for the values that are tested for it: an object is not distinguished from an empty
  one unless it has no member.\<close>

fun json_empty :: "Json \<Rightarrow> bool" where
  "json_empty JNull = True"
| "json_empty (JArr vs) = (vs = [])"
| "json_empty (JObj m) = (m = Map.empty)"
| "json_empty v = False"

text \<open>The value after appending some values to a null value.\<close>

definition appended :: "Json list \<Rightarrow> Json" where
  "appended vs = (if vs = [] then JNull else JArr vs)"

section \<open>FieldMeta\<close>

record FieldMeta =
  fm_name :: string
  attr_type :: AttrType
  attr_offset :: int
  attr_len :: int
  visible :: bool
  nullable :: bool

definition field_init :: "string option \<Rightarrow> AttrType \<Rightarrow> int \<Rightarrow> int \<Rightarrow> bool \<Rightarrow> bool \<Rightarrow> RC + FieldMeta" where
  "field_init name t off len vis null_def =
    (if name = None \<or> name = Some [] then Inl INVALID_ARGUMENT
     else if t = UNDEFINED \<or> off < 0 \<or> len \<le> 0 then Inl INVALID_ARGUMENT
     else Inr \<lparr>fm_name = the name, attr_type = t, attr_offset = off, attr_len = len, visible = vis, nullable = null_def\<rparr>)"

definition attr_type_to_string :: "AttrType \<Rightarrow> string" where
  "attr_type_to_string t = (case t of
      UNDEFINED \<Rightarrow> ''undefined'' | CHARS \<Rightarrow> ''chars'' | INTS \<Rightarrow> ''ints'' | DATE \<Rightarrow> ''date'' | FLOATS \<Rightarrow> ''floats'' | _ \<Rightarrow> ''unknown'')"

definition attr_type_from_string :: "string \<Rightarrow> AttrType" where
  "attr_type_from_string s =
    (if s = ''undefined'' then UNDEFINED else if s = ''chars'' then CHARS else if s = ''ints'' then INTS
     else if s = ''date'' then DATE else if s = ''floats'' then FLOATS else UNDEFINED)"

definition field_to_json :: "FieldMeta \<Rightarrow> Json" where
  "field_to_json f = JObj [''name'' \<mapsto> JStr (fm_name f), ''type'' \<mapsto> JStr (attr_type_to_string (attr_type f)),
     ''offset'' \<mapsto> JInt (attr_offset f), ''len'' \<mapsto> JInt (attr_len f), ''visible'' \<mapsto> JBool (visible f),
     ''nullable'' \<mapsto> JBool (nullable f)]"

definition field_from_json :: "Json \<Rightarrow> (RC + FieldMeta) option" where
  "field_from_json v =
    (if \<not> is_object v then Some (Inl GENERIC_ERROR)
     else case (json_member v ''name'', json_member v ''type'', json_member v ''offset'', json_member v ''len'', json_member v ''visible'', json_member v ''nullable'') of
       (Some nm, Some ty, Some off, Some len, Some vis, Some nul) \<Rightarrow>
         if \<not> is_string nm \<or> \<not> is_string ty \<or> \<not> is_int off \<or> \<not> is_int len \<or> \<not> is_bool vis then Some (Inl GENERIC_ERROR)
         else case (as_c_string nm, as_c_string ty, as_int off, as_int len, as_bool vis) of
           (Some nm, Some ty, Some off, Some len, Some vis) \<Rightarrow>
             let t = attr_type_from_string ty in
             if t = UNDEFINED then Some (Inl GENERIC_ERROR)
             else Some (field_init (Some nm) t off len vis (is_bool nul \<and> as_bool nul = Some True))
         | _ \<Rightarrow> None
     | _ \<Rightarrow> None)"

section \<open>IndexMeta and TableMeta\<close>

record IndexMeta =
  im_name :: string
  im_fields :: "string list"

definition is_blank :: "string \<Rightarrow> bool" where
  "is_blank s = list_all (\<lambda>c. c \<in> {CHR '' '', CHR 0x09, CHR 0x0A, CHR 0x0B, CHR 0x0C, CHR 0x0D}) s"

text \<open>\<^verbatim>\<open>IndexMeta::init\<close> on a new object.\<close>

definition index_init :: "string option \<Rightarrow> FieldMeta list \<Rightarrow> RC + IndexMeta" where
  "index_init name fs = (case name of
      None \<Rightarrow> Inl INVALID_ARGUMENT
    | Some n \<Rightarrow> if is_blank n then Inl INVALID_ARGUMENT else Inr \<lparr>im_name = n, im_fields = map fm_name fs\<rparr>)"

definition index_to_json :: "IndexMeta \<Rightarrow> Json" where
  "index_to_json i = JObj [''name'' \<mapsto> JStr (im_name i), ''field_name'' \<mapsto> appended (map JStr (im_fields i))]"

record TableMeta =
  tm_name :: string
  tm_fields :: "FieldMeta list"
  indexes :: "IndexMeta list"
  unique_indexes :: "IndexMeta list"
  record_size :: int

definition tm_new :: TableMeta where
  "tm_new = \<lparr>tm_name = [], tm_fields = [], indexes = [], unique_indexes = [], record_size = 0\<rparr>"

definition field_by_name :: "TableMeta \<Rightarrow> string \<Rightarrow> FieldMeta option" where
  "field_by_name m n = find (\<lambda>f. fm_name f = n) (tm_fields m)"

definition find_field_by_offset :: "TableMeta \<Rightarrow> int \<Rightarrow> FieldMeta option" where
  "find_field_by_offset m off = find (\<lambda>f. attr_offset f = off) (tm_fields m)"

definition index_by_name :: "TableMeta \<Rightarrow> string \<Rightarrow> IndexMeta option" where
  "index_by_name m n = find (\<lambda>i. im_name i = n) (indexes m @ unique_indexes m)"

definition find_index_by_fields :: "TableMeta \<Rightarrow> string list \<Rightarrow> IndexMeta option" where
  "find_index_by_fields m ns = find (\<lambda>i. im_fields i = ns) (indexes m @ unique_indexes m)"

definition add_index :: "IndexMeta \<Rightarrow> TableMeta \<Rightarrow> TableMeta" where
  "add_index i m = m\<lparr>indexes := indexes m @ [i]\<rparr>"

definition add_unique_index :: "IndexMeta \<Rightarrow> TableMeta \<Rightarrow> TableMeta" where
  "add_unique_index i m = m\<lparr>unique_indexes := unique_indexes m @ [i]\<rparr>"

text \<open>\<^verbatim>\<open>IndexMeta::from_json\<close>. The message about a missing field asks for the string of a JSON array,
  which throws.\<close>

fun index_fields :: "TableMeta \<Rightarrow> Json list \<Rightarrow> FieldMeta list option" where
  "index_fields m [] = Some []"
| "index_fields m (v # vs) = (case as_c_string v of
      None \<Rightarrow> None
    | Some n \<Rightarrow> (case field_by_name m n of
        None \<Rightarrow> None
      | Some f \<Rightarrow> map_option ((#) f) (index_fields m vs)))"

definition index_from_json :: "TableMeta \<Rightarrow> Json \<Rightarrow> (RC + IndexMeta) option" where
  "index_from_json m v = (case (json_member v ''name'', json_member v ''field_name'') of
      (Some nm, Some (JArr vs)) \<Rightarrow>
        if \<not> is_string nm then Some (Inl GENERIC_ERROR)
        else (case (as_c_string nm, index_fields m vs) of
            (Some n, Some fs) \<Rightarrow> Some (index_init (Some n) fs)
          | _ \<Rightarrow> None)
    | (Some nm, Some _) \<Rightarrow> Some (Inl GENERIC_ERROR)
    | _ \<Rightarrow> None)"

subsection \<open>A new table\<close>

text \<open>\<^verbatim>\<open>sys_fields_\<close> is shared by all tables; it is filled by the first one.\<close>

definition init_sys_fields :: "FieldMeta list \<Rightarrow> RC + FieldMeta list" where
  "init_sys_fields sys = (case field_init (Some ''__trx'') INTS 0 4 False False of
      Inl rc \<Rightarrow> Inl rc
    | Inr f \<Rightarrow> Inr (sys @ [f]))"

definition sys_ready :: "FieldMeta list \<Rightarrow> RC + FieldMeta list" where
  "sys_ready sys = (if sys = [] then init_sys_fields sys else Inr sys)"

record AttrInfo =
  ai_name :: "string option"
  ai_type :: AttrType
  ai_length :: int
  ai_null_type :: int

fun layout :: "int \<Rightarrow> AttrInfo list \<Rightarrow> RC + FieldMeta list \<times> int" where
  "layout off [] = Inr ([], off)"
| "layout off (a # as) =
    (case field_init (ai_name a) (ai_type a) off (wrap32 (ai_length a)) True (ai_null_type a \<noteq> 0) of
      Inl rc \<Rightarrow> Inl rc
    | Inr f \<Rightarrow> (case layout (wrap32 (off + ai_length a)) as of
        Inl rc \<Rightarrow> Inl rc
      | Inr (fs, stop) \<Rightarrow> Inr (f # fs, stop)))"

text \<open>\<^verbatim>\<open>TableMeta::init\<close>; after an error the caller drops the object.\<close>

definition table_init :: "FieldMeta list \<Rightarrow> string option \<Rightarrow> AttrInfo list \<Rightarrow> TableMeta \<Rightarrow> RC + TableMeta" where
  "table_init sys name attrs m =
    (if name = None \<or> name = Some [] then Inl INVALID_ARGUMENT
     else if attrs = [] then Inl INVALID_ARGUMENT
     else case sys_ready sys of
       Inl rc \<Rightarrow> Inl rc
     | Inr sys' \<Rightarrow> (case layout (attr_offset (last sys') + attr_len (last sys')) attrs of
           Inl rc \<Rightarrow> Inl rc
         | Inr (fs, stop) \<Rightarrow> Inr (m\<lparr>tm_name := the name, tm_fields := sys' @ fs, record_size := stop\<rparr>)))"

subsection \<open>The metadata file\<close>

definition table_to_json :: "TableMeta \<Rightarrow> Json" where
  "table_to_json m = JObj [''table_name'' \<mapsto> JStr (tm_name m), ''fields'' \<mapsto> appended (map field_to_json (tm_fields m)),
     ''indexes'' \<mapsto> appended (map index_to_json (indexes m)),
     ''unique_indexes'' \<mapsto> appended (map index_to_json (unique_indexes m))]"

definition serialize :: "(Json \<Rightarrow> 'f) \<Rightarrow> TableMeta \<Rightarrow> 'f" where
  "serialize writer m = writer (table_to_json m)"

text \<open>Reading all elements of an array, up to the first error.\<close>

fun read_all :: "('v \<Rightarrow> (RC + 'a) option) \<Rightarrow> 'v list \<Rightarrow> 'a list option option" where
  "read_all f [] = Some (Some [])"
| "read_all f (v # vs) = (case f v of
      None \<Rightarrow> None
    | Some (Inl rc) \<Rightarrow> Some None
    | Some (Inr x) \<Rightarrow> map_option (map_option ((#) x)) (read_all f vs))"

text \<open>Both lists of indexes are read in the same way; an absent list leaves the old one.\<close>

definition read_indexes :: "TableMeta \<Rightarrow> Json \<Rightarrow> IndexMeta list \<Rightarrow> IndexMeta list option option" where
  "read_indexes m v old =
    (if json_empty v then Some (Some old)
     else case v of JArr vs \<Rightarrow> read_all (index_from_json m) vs | _ \<Rightarrow> Some None)"

text \<open>\<^verbatim>\<open>deserialize\<close>: \<^verbatim>\<open>Some None\<close> is the result \<^verbatim>\<open>-1\<close>, after which the caller drops the
  object.\<close>

definition deserialize :: "('f \<Rightarrow> Json option) \<Rightarrow> 'f \<Rightarrow> TableMeta \<Rightarrow> TableMeta option option" where
  "deserialize parser text m = (case parser text of
      None \<Rightarrow> Some None
    | Some v \<Rightarrow> (case (json_member v ''table_name'', json_member v ''fields'', json_member v ''indexes'', json_member v ''unique_indexes'') of
        (Some nm, Some fv, Some iv, Some uv) \<Rightarrow>
          (case (nm, fv) of
            (JStr n, JArr vs) \<Rightarrow>
              if vs = [] then Some None
              else (case read_all field_from_json vs of
                  None \<Rightarrow> None
                | Some None \<Rightarrow> Some None
                | Some (Some fs) \<Rightarrow>
                    let fs' = sort_key attr_offset fs;
                        m1 = m\<lparr>tm_name := n, tm_fields := fs', record_size := wrap32 (attr_offset (last fs') + attr_len (last fs'))\<rparr> in
                    (case read_indexes m1 iv (indexes m) of
                      None \<Rightarrow> None
                    | Some None \<Rightarrow> Some None
                    | Some (Some ixs) \<Rightarrow>
                        let m2 = m1\<lparr>indexes := ixs\<rparr> in
                        (case read_indexes m2 uv (unique_indexes m) of
                          None \<Rightarrow> None
                        | Some None \<Rightarrow> Some None
                        | Some (Some uxs) \<Rightarrow> Some (Some (m2\<lparr>unique_indexes := uxs\<rparr>)))))
          | _ \<Rightarrow> Some None)
      | _ \<Rightarrow> None))"

section \<open>Layout\<close>

text \<open>The fields of a record lie one behind the other, from an offset to the end.\<close>

fun contiguous :: "int \<Rightarrow> FieldMeta list \<Rightarrow> int \<Rightarrow> bool" where
  "contiguous off [] end' \<longleftrightarrow> off = end'"
| "contiguous off (f # fs) end' \<longleftrightarrow> attr_offset f = off \<and> 0 < attr_len f \<and> contiguous (off + attr_len f) fs end'"

definition attr_ok :: "AttrInfo \<Rightarrow> bool" where
  "attr_ok a \<longleftrightarrow> ai_name a \<noteq> None \<and> ai_name a \<noteq> Some [] \<and> ai_type a \<noteq> UNDEFINED \<and> 0 < ai_length a"

definition field_of :: "int \<Rightarrow> AttrInfo \<Rightarrow> FieldMeta" where
  "field_of off a = \<lparr>fm_name = the (ai_name a), attr_type = ai_type a, attr_offset = off, attr_len = ai_length a,
     visible = True, nullable = ai_null_type a \<noteq> 0\<rparr>"

lemma layout_ok:
  assumes "list_all attr_ok as" "0 \<le> off" "off + sum_list (map ai_length as) < 2 ^ 31"
  shows "\<exists>fs. layout off as = Inr (fs, off + sum_list (map ai_length as)) \<and>
    contiguous off fs (off + sum_list (map ai_length as)) \<and>
    map (\<lambda>f. (fm_name f, attr_type f, attr_len f, visible f, nullable f)) fs =
      map (\<lambda>a. (the (ai_name a), ai_type a, ai_length a, True, ai_null_type a \<noteq> 0)) as"
  using assms
proof (induction "as" arbitrary: off)
  case (Cons a "as")
  have pos: "0 \<le> sum_list (map ai_length as)"
    using Cons.prems(1) by (intro sum_list_nonneg) (auto simp: attr_ok_def list_all_iff)
  have a: "attr_ok a" "list_all attr_ok as" using Cons.prems(1) by simp_all
  have i: "in_int (ai_length a)" "in_int (off + ai_length a)"
    using Cons.prems(2,3) a(1) pos by (auto simp: in_int_def attr_ok_def)
  have f: "field_init (ai_name a) (ai_type a) off (wrap32 (ai_length a)) True (ai_null_type a \<noteq> 0) = Inr (field_of off a)"
    using a(1) i(1) Cons.prems(2) by (auto simp: field_init_def attr_ok_def field_of_def)
  obtain fs where fs: "layout (off + ai_length a) as = Inr (fs, off + ai_length a + sum_list (map ai_length as))"
      "contiguous (off + ai_length a) fs (off + ai_length a + sum_list (map ai_length as))"
      "map (\<lambda>f. (fm_name f, attr_type f, attr_len f, visible f, nullable f)) fs =
        map (\<lambda>a. (the (ai_name a), ai_type a, ai_length a, True, ai_null_type a \<noteq> 0)) as"
    using Cons.IH [OF a(2), of "off + ai_length a"] Cons.prems(2,3) a(1) by (auto simp: attr_ok_def)
  then show ?case
    using f i(2) a(1) by (intro exI [of _ "field_of off a # fs"]) (simp add: field_of_def attr_ok_def add.assoc)
qed simp

definition trx_field :: FieldMeta where
  "trx_field = \<lparr>fm_name = ''__trx'', attr_type = INTS, attr_offset = 0, attr_len = 4, visible = False, nullable = False\<rparr>"

lemma sys_ready_trx: "sys = [] \<or> sys = [trx_field] \<Longrightarrow> sys_ready sys = Inr [trx_field]"
  by (auto simp: sys_ready_def init_sys_fields_def field_init_def trx_field_def)

lemma contiguous_offsets:
  assumes "contiguous off fs e" "f \<in> set fs"
  shows "off \<le> attr_offset f \<and> attr_offset f + attr_len f \<le> e \<and> 0 < attr_len f"
proof -
  have "off \<le> e" if "contiguous off fs e" for off fs
    using that by (induction off fs e rule: contiguous.induct) auto
  then show ?thesis using assms by (induction off fs e rule: contiguous.induct) fastforce+
qed

lemma contiguous_sorted: "contiguous off fs e \<Longrightarrow> sorted (map attr_offset fs)"
proof (induction off fs e rule: contiguous.induct)
  case (2 off f fs e)
  have "attr_offset f \<le> attr_offset g" if "g \<in> set fs" for g
    using contiguous_offsets [of "off + attr_len f" fs e g] that 2 by auto
  then show ?case using 2 by simp
qed simp

lemma contiguous_last: "contiguous off fs e \<Longrightarrow> fs \<noteq> [] \<Longrightarrow> attr_offset (last fs) + attr_len (last fs) = e"
  by (induction off fs e rule: contiguous.induct) auto

end
