(* ===== verification/Table_Meta_Properties.thy ===== *)
theory Table_Meta_Properties
  imports Table_Meta
begin

text \<open>
  Properties of the metadata of tables: the invariant that creating a table establishes and adding an
  index keeps, and what is left of it after the metadata file has been written and read.
\<close>

section \<open>The invariant\<close>

definition name_ok :: "string \<Rightarrow> bool" where
  "name_ok n \<longleftrightarrow> n \<noteq> [] \<and> CHR 0x00 \<notin> set n"

definition stored_types :: "AttrType set" where
  "stored_types = {CHARS, INTS, DATE, FLOATS}"

definition index_meta_ok :: "FieldMeta list \<Rightarrow> IndexMeta \<Rightarrow> bool" where
  "index_meta_ok fs i \<longleftrightarrow> name_ok (im_name i) \<and> \<not> is_blank (im_name i) \<and> im_fields i \<noteq> [] \<and> set (im_fields i) \<subseteq> fm_name ` set fs"

definition meta_ok :: "TableMeta \<Rightarrow> bool" where
  "meta_ok m \<longleftrightarrow> tm_fields m \<noteq> [] \<and> hd (tm_fields m) = trx_field \<and> contiguous 0 (tm_fields m) (record_size m) \<and>
     record_size m < 2 ^ 31 \<and> (\<forall>f \<in> set (tm_fields m). name_ok (fm_name f) \<and> attr_type f \<in> stored_types) \<and>
     (\<forall>i \<in> set (indexes m @ unique_indexes m). index_meta_ok (tm_fields m) i)"

text \<open>Attributes as the parser gives them for a table, except for \<^verbatim>\<open>TEXTS\<close> with a length.\<close>

definition attr_stored :: "AttrInfo \<Rightarrow> bool" where
  "attr_stored a \<longleftrightarrow> (\<exists>n. ai_name a = Some n \<and> name_ok n) \<and> ai_type a \<in> stored_types \<and> 0 < ai_length a"

lemma attr_stored_ok: "attr_stored a \<Longrightarrow> attr_ok a"
  by (auto simp: attr_stored_def attr_ok_def name_ok_def stored_types_def)

lemma table_init_layout:
  assumes "attrs \<noteq> []" "list_all attr_stored attrs" "4 + sum_list (map ai_length attrs) < 2 ^ 31" "name_ok name"
    and sys: "sys = [] \<or> sys = [trx_field]"
  shows "\<exists>m. table_init sys (Some name) attrs tm_new = Inr m \<and> meta_ok m \<and> tm_name m = name \<and>
    record_size m = 4 + sum_list (map ai_length attrs) \<and>
    map (\<lambda>f. (fm_name f, attr_type f, attr_len f, nullable f)) (tl (tm_fields m)) =
      map (\<lambda>a. (the (ai_name a), ai_type a, ai_length a, ai_null_type a \<noteq> 0)) attrs"
proof -
  have "list_all attr_ok attrs" using assms(2) attr_stored_ok by (auto simp: list_all_iff)
  then obtain fs where fs: "layout 4 attrs = Inr (fs, 4 + sum_list (map ai_length attrs))"
      "contiguous 4 fs (4 + sum_list (map ai_length attrs))"
      "map (\<lambda>f. (fm_name f, attr_type f, attr_len f, visible f, nullable f)) fs =
        map (\<lambda>a. (the (ai_name a), ai_type a, ai_length a, True, ai_null_type a \<noteq> 0)) attrs"
    using layout_ok [of attrs 4] assms(3) by auto
  let ?m = "tm_new\<lparr>tm_name := name, tm_fields := trx_field # fs, record_size := 4 + sum_list (map ai_length attrs)\<rparr>"
  have init: "table_init sys (Some name) attrs tm_new = Inr ?m"
    using assms(1,4) fs(1) sys_ready_trx [OF sys] by (simp add: table_init_def name_ok_def) (simp add: trx_field_def)
  have nm: "name_ok (fm_name f) \<and> attr_type f \<in> stored_types" if "f \<in> set fs" for f
  proof -
    have "(fm_name f, attr_type f, attr_len f, visible f, nullable f) \<in>
        set (map (\<lambda>a. (the (ai_name a), ai_type a, ai_length a, True, ai_null_type a \<noteq> 0)) attrs)"
      unfolding fs(3) [symmetric] using that by auto
    then show ?thesis using assms(2) by (auto simp: list_all_iff attr_stored_def)
  qed
  have "meta_ok ?m"
    using fs(2) nm assms(3) by (simp add: meta_ok_def tm_new_def trx_field_def name_ok_def stored_types_def)
  moreover have "map (\<lambda>f. (fm_name f, attr_type f, attr_len f, nullable f)) fs =
      map (\<lambda>a. (the (ai_name a), ai_type a, ai_length a, ai_null_type a \<noteq> 0)) attrs"
    using arg_cong [OF fs(3), of "map (\<lambda>(n, t, l, v, u). (n, t, l, u))"] by (simp add: comp_def)
  ultimately show ?thesis using init by simp
qed

lemma add_index_meta_ok:
  assumes "meta_ok m" "index_meta_ok (tm_fields m) i"
  shows "meta_ok (add_index i m)" "meta_ok (add_unique_index i m)"
  using assms by (auto simp: meta_ok_def add_index_def add_unique_index_def)

lemma index_init_ok:
  assumes "name_ok n" "\<not> is_blank n" "fs \<noteq> []" "set fs \<subseteq> set (tm_fields m)"
  shows "\<exists>i. index_init (Some n) fs = Inr i \<and> index_meta_ok (tm_fields m) i"
  using assms by (auto simp: index_init_def index_meta_ok_def)

section \<open>Writing and reading\<close>

lemma c_str_id: "CHR 0x00 \<notin> set n \<Longrightarrow> c_str n = n"
  by (auto simp: c_str_def takeWhile_eq_all_conv)

lemma attr_type_strings:
  "t \<in> stored_types \<Longrightarrow> attr_type_from_string (attr_type_to_string t) = t \<and> t \<noteq> UNDEFINED"
  "t \<in> stored_types \<Longrightarrow> c_str (attr_type_to_string t) = attr_type_to_string t"
  by (auto simp: stored_types_def attr_type_to_string_def attr_type_from_string_def c_str_def)

lemma field_round_trip:
  assumes "name_ok (fm_name f)" "attr_type f \<in> stored_types" "0 \<le> attr_offset f" "0 < attr_len f"
    "attr_offset f < 2 ^ 31" "attr_len f < 2 ^ 31"
  shows "field_from_json (field_to_json f) = Some (Inr f)"
  using assms attr_type_strings [OF assms(2)]
  by (simp add: field_from_json_def field_to_json_def field_init_def name_ok_def c_str_id Let_def)

lemma read_all_map: "\<forall>x \<in> set xs. f (g x) = Some (Inr x) \<Longrightarrow> read_all f (map g xs) = Some (Some xs)"
  by (induction xs) auto

lemma index_fields_names:
  assumes "set ns \<subseteq> fm_name ` set (tm_fields m)" "\<forall>n \<in> set ns. CHR 0x00 \<notin> set n"
  shows "\<exists>fs. index_fields m (map JStr ns) = Some fs \<and> map fm_name fs = ns"
  using assms
proof (induction ns)
  case (Cons n ns)
  then obtain f where "field_by_name m n = Some f" "fm_name f = n"
    by (cases "field_by_name m n") (auto simp: field_by_name_def find_None_iff dest: find_SomeD)
  then show ?case using Cons by (auto simp: c_str_id)
qed simp

lemma index_round_trip:
  assumes "index_meta_ok (tm_fields m) i" "\<forall>f \<in> set (tm_fields m). name_ok (fm_name f)"
  shows "index_from_json m (index_to_json i) = Some (Inr i)"
proof -
  have "\<forall>n \<in> set (im_fields i). CHR 0x00 \<notin> set n" using assms by (auto simp: index_meta_ok_def name_ok_def)
  then obtain fs where "index_fields m (map JStr (im_fields i)) = Some fs" "map fm_name fs = im_fields i"
    using index_fields_names [of "im_fields i" m] assms(1) by (auto simp: index_meta_ok_def)
  then show ?thesis
    using assms(1) by (simp add: index_from_json_def index_to_json_def appended_def index_meta_ok_def index_init_def c_str_id name_ok_def)
qed

lemma read_indexes_round_trip:
  assumes "\<forall>i \<in> set is. index_meta_ok (tm_fields m) i" "\<forall>f \<in> set (tm_fields m). name_ok (fm_name f)"
  shows "read_indexes m (appended (map index_to_json is)) [] = Some (Some is)"
proof (cases "is = []")
  case False
  have "read_all (index_from_json m) (map index_to_json is) = Some (Some is)"
    by (rule read_all_map) (use assms index_round_trip in blast)
  then show ?thesis using False by (simp add: read_indexes_def appended_def)
qed (simp add: read_indexes_def appended_def)

lemma sort_key_sorted: "sorted (map f xs) \<Longrightarrow> sort_key f xs = xs"
  by (induction xs) (auto simp: insort_is_Cons)

lemma deserialize_serialize:
  assumes ok: "meta_ok m" and parser: "parser (writer (table_to_json m)) = Some (table_to_json m)"
  shows "deserialize parser (serialize writer m) tm_new = Some (Some m)"
proof -
  have c: "contiguous 0 (tm_fields m) (record_size m)" "tm_fields m \<noteq> []" "record_size m < 2 ^ 31"
      "\<forall>f \<in> set (tm_fields m). name_ok (fm_name f) \<and> attr_type f \<in> stored_types"
      "\<forall>i \<in> set (indexes m). index_meta_ok (tm_fields m) i" "\<forall>i \<in> set (unique_indexes m). index_meta_ok (tm_fields m) i"
    using ok by (auto simp: meta_ok_def)
  have "field_from_json (field_to_json f) = Some (Inr f)" if "f \<in> set (tm_fields m)" for f
    using contiguous_offsets [OF c(1) that] c(3,4) that by (intro field_round_trip) auto
  then have fs: "read_all field_from_json (map field_to_json (tm_fields m)) = Some (Some (tm_fields m))"
    by (intro read_all_map) blast
  have size: "wrap32 (attr_offset (last (tm_fields m)) + attr_len (last (tm_fields m))) = record_size m"
    using contiguous_last [OF c(1,2)] contiguous_offsets [OF c(1), of "last (tm_fields m)"] c(2,3) by (simp add: in_int_def)
  have sorted: "sort_key attr_offset (tm_fields m) = tm_fields m" by (rule sort_key_sorted [OF contiguous_sorted [OF c(1)]])
  have ix: "read_indexes m' (appended (map index_to_json (indexes m))) [] = Some (Some (indexes m))"
      "read_indexes m' (appended (map index_to_json (unique_indexes m))) [] = Some (Some (unique_indexes m))"
    if "tm_fields m' = tm_fields m" for m'
    by (rule read_indexes_round_trip; use c(4-6) that in simp)+
  show ?thesis
    using parser c(2) by (simp add: deserialize_def serialize_def)
      (simp add: table_to_json_def appended_def [of "map field_to_json (tm_fields m)"] fs sorted size ix tm_new_def Let_def)
qed

section \<open>Properties\<close>

text \<open>C30. Creating a table lays its fields out one behind the other after the four bytes of the
  transaction field, without gaps or overlaps, in the order, with the types and the lengths asked
  for, and the record size is the end of the last field. Adding an index over fields of the table,
  unique or not, keeps this invariant of the metadata.\<close>

theorem created_table_invariant:
  assumes "attrs \<noteq> []" "list_all attr_stored attrs" "4 + sum_list (map ai_length attrs) < 2 ^ 31" "name_ok name"
    and "sys = [] \<or> sys = [trx_field]"
    and index: "name_ok ix" "\<not> is_blank ix" "fs \<noteq> []"
  shows "\<exists>m. table_init sys (Some name) attrs tm_new = Inr m \<and> meta_ok m \<and> tm_name m = name \<and>
    record_size m = 4 + sum_list (map ai_length attrs) \<and>
    map (\<lambda>f. (fm_name f, attr_type f, attr_len f, nullable f)) (tl (tm_fields m)) =
      map (\<lambda>a. (the (ai_name a), ai_type a, ai_length a, ai_null_type a \<noteq> 0)) attrs \<and>
    (\<forall>m'. meta_ok m' \<and> set fs \<subseteq> set (tm_fields m') \<longrightarrow>
      (\<exists>i. index_init (Some ix) fs = Inr i \<and> meta_ok (add_index i m') \<and> meta_ok (add_unique_index i m')))"
  using table_init_layout [OF assms(1-5)] index_init_ok [OF index] add_index_meta_ok by blast

definition two_columns :: "AttrInfo list" where
  "two_columns = [\<lparr>ai_name = Some ''id'', ai_type = INTS, ai_length = 4, ai_null_type = 0\<rparr>,
     \<lparr>ai_name = Some ''name'', ai_type = CHARS, ai_length = 12, ai_null_type = 1\<rparr>]"

lemma two_columns_stored: "list_all attr_stored two_columns"
  by (simp add: two_columns_def attr_stored_def name_ok_def stored_types_def)

theorem created_table_invariant_witness:
  "\<exists>m. table_init [] (Some ''t'') two_columns tm_new = Inr m \<and> meta_ok m \<and> tm_name m = ''t'' \<and> record_size m = 20"
  using created_table_invariant [OF _ two_columns_stored, of "''t''" "[]" "''i''" "[trx_field]"]
  by (auto simp: two_columns_def name_ok_def is_blank_def)

text \<open>C31. Opening a table again: the metadata that the file of a table gives back, read into a new
  object, is the metadata that was written, with all fields, their layout and all indexes. The
  hypothesis on the JSON library is that it parses the document that it wrote for this table.\<close>

theorem table_meta_round_trip:
  assumes "meta_ok m" "parser (writer (table_to_json m)) = Some (table_to_json m)"
  shows "deserialize parser (serialize writer m) tm_new = Some (Some m)"
  using deserialize_serialize [of m parser writer] assms by blast

definition indexed_table :: TableMeta where
  "indexed_table = \<lparr>tm_name = ''t'', tm_fields = [trx_field,
     \<lparr>fm_name = ''id'', attr_type = INTS, attr_offset = 4, attr_len = 4, visible = True, nullable = False\<rparr>],
     indexes = [\<lparr>im_name = ''i'', im_fields = [''id'']\<rparr>], unique_indexes = [], record_size = 8\<rparr>"

theorem table_meta_round_trip_witness: "deserialize Some (serialize id indexed_table) tm_new = Some (Some indexed_table)"
proof -
  have "meta_ok indexed_table"
    by (simp add: meta_ok_def indexed_table_def trx_field_def name_ok_def stored_types_def index_meta_ok_def is_blank_def)
  then show ?thesis using table_meta_round_trip [of indexed_table Some id] by simp
qed

text \<open>C32. A table with a column of type \<^verbatim>\<open>TEXTS\<close> and an explicit length can be created and not
  be opened again: the type is written as \<^verbatim>\<open>unknown\<close>, and reading it fails.\<close>

theorem texts_column_not_reopened:
  assumes "f \<in> set (tm_fields m)" "attr_type f = TEXTS" "\<forall>f \<in> set (tm_fields m). attr_type f \<noteq> UNDEFINED"
    and "\<forall>f \<in> set (tm_fields m). name_ok (fm_name f) \<and> 0 \<le> attr_offset f \<and> attr_offset f < 2 ^ 31 \<and> 0 < attr_len f \<and> attr_len f < 2 ^ 31"
    and parser: "parser (writer (table_to_json m)) = Some (table_to_json m)"
  shows "deserialize parser (serialize writer m) tm_new = Some None"
proof -
  have bad: "field_from_json (field_to_json f) = Some (Inl GENERIC_ERROR)" if "f \<in> set (tm_fields m)" "attr_type f \<notin> stored_types" for f
    using that assms(3,4) by (cases "attr_type f")
      (auto simp: field_from_json_def field_to_json_def stored_types_def attr_type_to_string_def attr_type_from_string_def c_str_def)
  have good: "field_from_json (field_to_json f) = Some (Inr f)" if "f \<in> set (tm_fields m)" "attr_type f \<in> stored_types" for f
    using that assms(4) by (intro field_round_trip) auto
  have "read_all field_from_json (map field_to_json fs) = Some None" if "f \<in> set fs" "set fs \<subseteq> set (tm_fields m)" for fs
    using that
  proof (induction fs)
    case (Cons g fs)
    show ?case
    proof (cases "attr_type g \<in> stored_types")
      case True
      then have "g \<noteq> f" using assms(2) by (auto simp: stored_types_def)
      then show ?thesis using Cons good [of g] True by simp
    qed (use Cons bad [of g] in simp)
  qed simp
  then have fs: "read_all field_from_json (map field_to_json (tm_fields m)) = Some None" using assms(1) by blast
  have "tm_fields m \<noteq> []" using assms(1) by auto
  then show ?thesis
    using parser by (simp add: deserialize_def serialize_def)
      (simp add: table_to_json_def appended_def [of "map field_to_json (tm_fields m)"] fs)
qed

theorem texts_column_not_reopened_witness:
  "\<exists>m. table_init [] (Some ''t'') [\<lparr>ai_name = Some ''a'', ai_type = TEXTS, ai_length = 10, ai_null_type = 0\<rparr>] tm_new = Inr m \<and>
    deserialize Some (serialize id m) tm_new = Some None"
proof -
  let ?f = "\<lparr>fm_name = ''a'', attr_type = TEXTS, attr_offset = 4, attr_len = 10, visible = True, nullable = False\<rparr>"
  let ?m = "tm_new\<lparr>tm_name := ''t'', tm_fields := [trx_field, ?f], record_size := 14\<rparr>"
  have "table_init [] (Some ''t'') [\<lparr>ai_name = Some ''a'', ai_type = TEXTS, ai_length = 10, ai_null_type = 0\<rparr>] tm_new = Inr ?m"
    using sys_ready_trx [of "[]"] by (simp add: table_init_def) (simp add: trx_field_def field_init_def in_int_def)
  moreover have "deserialize Some (serialize id ?m) tm_new = Some None"
    using texts_column_not_reopened [of ?f ?m Some id] by (simp add: trx_field_def name_ok_def)
  ultimately show ?thesis by blast
qed

end
