(* ===== verification/Trx.thy ===== *)
theory Trx
  imports Table_Meta Key_Compare Record_Manager
begin

text \<open>
  Transactions (\<^verbatim>\<open>storage/trx/trx.cpp\<close>): the transaction number and the deletion mark in the first
  field of a record, the operations that a transaction has queued for each table, commit and
  rollback. The operations are kept in an \<^verbatim>\<open>unordered_map\<close> of \<^verbatim>\<open>unordered_set\<close>s; they are lists
  here, and their order is the order in which the code happens to go through them. The methods of
  \<^verbatim>\<open>Table\<close> that commit and rollback call are arguments.
\<close>

section \<open>The transaction field of a record\<close>

definition DELETED_FLAG_BIT_MASK :: "32 word" where
  "DELETED_FLAG_BIT_MASK = 0x80000000"

definition TRX_ID_BIT_MASK :: "32 word" where
  "TRX_ID_BIT_MASK = 0x7FFFFFFF"

unbundle bit_operations_syntax

definition trx_offset :: "TableMeta \<Rightarrow> nat option" where
  "trx_offset m = (case tm_fields m of [] \<Rightarrow> None | f # fs \<Rightarrow> if attr_offset f < 0 then None else Some (nat (attr_offset f)))"

text \<open>Writing and reading four bytes of a record; outside the record there is no defined result.\<close>

definition set_record_trx_id :: "TableMeta \<Rightarrow> 32 word \<Rightarrow> bool \<Rightarrow> byte list \<Rightarrow> byte list option" where
  "set_record_trx_id m tid deleted bytes = (case trx_offset m of
      None \<Rightarrow> None
    | Some off \<Rightarrow> if off + 4 \<le> length bytes
        then Some (overwrite bytes off (int_bytes (uint (if deleted then tid OR DELETED_FLAG_BIT_MASK else tid)))) else None)"

definition get_record_trx_id :: "TableMeta \<Rightarrow> byte list \<Rightarrow> (32 word \<times> bool) option" where
  "get_record_trx_id m bytes = (case trx_offset m of
      None \<Rightarrow> None
    | Some off \<Rightarrow> if off + 4 \<le> length bytes
        then let trx = le_word (segment bytes off 4) in Some (trx AND TRX_ID_BIT_MASK, trx AND DELETED_FLAG_BIT_MASK \<noteq> 0)
        else None)"

section \<open>Transactions\<close>

datatype OpType = INSERT | UPDATE | DELETE | UNDEFINED_TYPE

record Operation =
  op_type :: OpType
  op_rid :: RID

record 't Trx =
  trx_id :: "32 word"
  operations :: "('t \<times> Operation list) list"

definition trx_new :: "'t Trx" where
  "trx_new = \<lparr>trx_id = 0, operations = []\<rparr>"

text \<open>\<^verbatim>\<open>next_trx_id\<close> counts up a static number, the first component of the state, which starts at 0.\<close>

definition next_trx_id :: "32 word \<Rightarrow> 32 word" where
  "next_trx_id n = n + 1"

definition start_if_not_started :: "32 word \<times> 't Trx \<Rightarrow> 32 word \<times> 't Trx" where
  "start_if_not_started = (\<lambda>(n, t). if trx_id t = 0 then (next_trx_id n, t\<lparr>trx_id := next_trx_id n\<rparr>) else (n, t))"

definition find_operation :: "'t \<Rightarrow> RID \<Rightarrow> 't Trx \<Rightarrow> Operation option" where
  "find_operation table rid t = (case map_of (operations t) table of
      None \<Rightarrow> None
    | Some ops \<Rightarrow> find (\<lambda>o'. op_rid o' = rid) ops)"

text \<open>\<^verbatim>\<open>operations_[table]\<close> adds an empty set when there is none; \<^verbatim>\<open>emplace\<close> keeps an operation with
  the same record.\<close>

fun upd_table :: "'t \<Rightarrow> (Operation list \<Rightarrow> Operation list) \<Rightarrow> ('t \<times> Operation list) list \<Rightarrow> ('t \<times> Operation list) list" where
  "upd_table table f [] = [(table, f [])]"
| "upd_table table f ((t, ops) # xs) = (if t = table then (t, f ops) # xs else (t, ops) # upd_table table f xs)"

definition emplace :: "Operation \<Rightarrow> Operation list \<Rightarrow> Operation list" where
  "emplace o' ops = (if \<exists>p \<in> set ops. op_rid p = op_rid o' then ops else ops @ [o'])"

definition insert_operation :: "'t \<Rightarrow> OpType \<Rightarrow> RID \<Rightarrow> 't Trx \<Rightarrow> 't Trx" where
  "insert_operation table ty rid t = t\<lparr>operations := upd_table table (emplace \<lparr>op_type = ty, op_rid = rid\<rparr>) (operations t)\<rparr>"

definition delete_operation :: "'t \<Rightarrow> RID \<Rightarrow> 't Trx \<Rightarrow> 't Trx" where
  "delete_operation table rid t =
    (if map_of (operations t) table = None then t
     else t\<lparr>operations := upd_table table (filter (\<lambda>o'. op_rid o' \<noteq> rid)) (operations t)\<rparr>)"

type_synonym ('t, 'a) trx_op = "(32 word \<times> 't Trx, 'a) M"

definition trx_insert_record :: "'t \<Rightarrow> RID \<Rightarrow> ('t, unit) trx_op" where
  "trx_insert_record table rid = bindE (gets snd) (\<lambda>t.
     if find_operation table rid t \<noteq> None then fail GENERIC_ERROR
     else bindE (modify start_if_not_started) (\<lambda>_.
       modify (map_prod id (insert_operation table INSERT rid))))"

text \<open>\<^verbatim>\<open>delete_record\<close> for the records that make up one row: it returns at the first one that the
  transaction has inserted, with what has been queued so far, and leaves the mark to the end. The
  result is whether the mark is to be written.\<close>

fun queue_deletes :: "'t \<Rightarrow> RID list \<Rightarrow> ('t, bool) trx_op" where
  "queue_deletes table [] = ret True"
| "queue_deletes table (rid # rids) = bindE (gets snd) (\<lambda>t. case find_operation table rid t of
      Some o' \<Rightarrow>
        if op_type o' = INSERT then bindE (modify (map_prod id (delete_operation table rid))) (\<lambda>_. ret False)
        else fail GENERIC_ERROR
    | None \<Rightarrow> bindE (modify (map_prod id (insert_operation table DELETE rid))) (\<lambda>_. queue_deletes table rids))"

text \<open>The new bytes of the record.\<close>

definition trx_delete_record :: "TableMeta \<Rightarrow> 't \<Rightarrow> byte list \<Rightarrow> RID list \<Rightarrow> ('t, byte list) trx_op" where
  "trx_delete_record m table bytes rids = bindE (modify start_if_not_started) (\<lambda>_.
     bindE (queue_deletes table rids) (\<lambda>mark.
     bindE (gets snd) (\<lambda>t.
     if mark then lift_opt (set_record_trx_id m (trx_id t) True bytes) else ret bytes)))"

definition trx_update_record :: "TableMeta \<Rightarrow> 't \<Rightarrow> byte list \<Rightarrow> RID \<Rightarrow> ('t, byte list) trx_op" where
  "trx_update_record m table bytes rid = bindE (gets snd) (\<lambda>t. case find_operation table rid t of
      Some o' \<Rightarrow> if op_type o' = INSERT \<or> op_type o' = UPDATE then ret bytes else fail GENERIC_ERROR
    | None \<Rightarrow> bindE (modify start_if_not_started) (\<lambda>_.
        bindE (gets snd) (\<lambda>t.
        bindE (lift_opt (set_record_trx_id m (trx_id t) False bytes)) (\<lambda>bytes'.
        bindE (modify (map_prod id (insert_operation table UPDATE rid))) (\<lambda>_. ret bytes')))))"

text \<open>\<^verbatim>\<open>commit_insert\<close>, \<^verbatim>\<open>rollback_delete\<close> and \<^verbatim>\<open>commit_update\<close>\<close>

definition clear_trx_id :: "TableMeta \<Rightarrow> byte list \<Rightarrow> byte list option" where
  "clear_trx_id m bytes = set_record_trx_id m 0 False bytes"

definition is_visible :: "TableMeta \<Rightarrow> 't Trx \<Rightarrow> byte list \<Rightarrow> bool option" where
  "is_visible m t bytes = (case get_record_trx_id m bytes of
      None \<Rightarrow> None
    | Some (record_trx_id, record_deleted) \<Rightarrow>
        Some (if record_trx_id = 0 \<or> record_trx_id = trx_id t then \<not> record_deleted else record_deleted))"

definition init_trx_info :: "TableMeta \<Rightarrow> 't Trx \<Rightarrow> byte list \<Rightarrow> byte list option" where
  "init_trx_info m t bytes = set_record_trx_id m (trx_id t) False bytes"

section \<open>Commit and rollback\<close>

record ('t, 's) trx_tables =
  tt_commit_insert :: "'t \<Rightarrow> RID \<Rightarrow> ('s, unit) M"
  tt_commit_delete :: "'t \<Rightarrow> RID \<Rightarrow> ('s, unit) M"
  tt_commit_update :: "'t \<Rightarrow> RID \<Rightarrow> ('s, unit) M"
  tt_rollback_insert :: "'t \<Rightarrow> RID \<Rightarrow> ('s, unit) M"
  tt_rollback_delete :: "'t \<Rightarrow> RID \<Rightarrow> ('s, unit) M"

text \<open>The result code of an operation of another type is the one of the operation before it.\<close>

definition commit_op :: "('t, 's) trx_tables \<Rightarrow> 't \<Rightarrow> Operation \<Rightarrow> ('s, unit) M option" where
  "commit_op tt table o' = (case op_type o' of
      INSERT \<Rightarrow> Some (tt_commit_insert tt table (op_rid o'))
    | DELETE \<Rightarrow> Some (tt_commit_delete tt table (op_rid o'))
    | UPDATE \<Rightarrow> Some (tt_commit_update tt table (op_rid o'))
    | UNDEFINED_TYPE \<Rightarrow> None)"

definition rollback_op :: "('t, 's) trx_tables \<Rightarrow> 't \<Rightarrow> Operation \<Rightarrow> ('s, unit) M option" where
  "rollback_op tt table o' = (case op_type o' of
      INSERT \<Rightarrow> Some (tt_rollback_insert tt table (op_rid o'))
    | DELETE \<Rightarrow> Some (tt_rollback_delete tt table (op_rid o'))
    | _ \<Rightarrow> None)"

text \<open>Both loops: a failed operation is logged, and the last result is returned.\<close>

fun run_ops :: "('s, unit) M option list \<Rightarrow> RC + unit \<Rightarrow> ('s, unit) M" where
  "run_ops [] rc = (case rc of Inl e \<Rightarrow> fail e | Inr _ \<Rightarrow> ret ())"
| "run_ops (None # ms) rc = run_ops ms rc"
| "run_ops (Some m # ms) rc = attempt m (\<lambda>r. run_ops ms r)"

definition all_operations :: "'t Trx \<Rightarrow> ('t \<times> Operation) list" where
  "all_operations t = concat (map (\<lambda>(table, ops). map (Pair table) ops) (operations t))"

definition finish_trx :: "('t \<Rightarrow> Operation \<Rightarrow> ('s, unit) M option) \<Rightarrow> ('t Trx \<times> 's, unit) M" where
  "finish_trx f = bindE (gets fst) (\<lambda>t.
     attempt (pool_op (run_ops (map (\<lambda>(table, o'). f table o') (all_operations t)) (Inr ()))) (\<lambda>r.
     bindE (upd_handler (\<lambda>t. t\<lparr>operations := [], trx_id := 0\<rparr>)) (\<lambda>_.
     case r of Inl rc \<Rightarrow> fail rc | Inr _ \<Rightarrow> ret ())))"

definition trx_commit :: "('t, 's) trx_tables \<Rightarrow> ('t Trx \<times> 's, unit) M" where
  "trx_commit tt = finish_trx (commit_op tt)"

definition trx_rollback :: "('t, 's) trx_tables \<Rightarrow> ('t Trx \<times> 's, unit) M" where
  "trx_rollback tt = finish_trx (rollback_op tt)"

end
