(* ===== verification/Value.thy ===== *)
theory Value
  imports Key_Compare
begin

text \<open>
  Values of the executor (\<^verbatim>\<open>sql/executor/value.h\<close> and \<^verbatim>\<open>value.cpp\<close>): the subclasses of
  \<^verbatim>\<open>TupleValue\<close> with their comparison, and the rules for dates. A float is its 32 bits. A comparison
  that casts its argument to the wrong class has no defined result.
\<close>

section \<open>Comparing values\<close>

datatype TupleValue = NullValue | IntValue int | FloatValue "32 word" | StringValue "byte list" | DateValue "32 word"

definition is_null :: "TupleValue \<Rightarrow> bool" where
  "is_null v \<longleftrightarrow> v = NullValue"

definition value_type :: "TupleValue \<Rightarrow> AttrType" where
  "value_type v = (case v of NullValue \<Rightarrow> NULLS | IntValue _ \<Rightarrow> INTS | FloatValue _ \<Rightarrow> FLOATS | StringValue _ \<Rightarrow> CHARS | DateValue _ \<Rightarrow> DATE)"

text \<open>\<^verbatim>\<open>strcmp\<close> of strings without a zero byte.\<close>

fun strcmp :: "byte list \<Rightarrow> byte list \<Rightarrow> int" where
  "strcmp [] [] = 0"
| "strcmp [] (b # bs) = - uint b"
| "strcmp (a # as) [] = uint a"
| "strcmp (a # as) (b # bs) = (if a \<noteq> b then uint a - uint b else strcmp as bs)"

definition c_bytes :: "byte list \<Rightarrow> byte list" where
  "c_bytes bs = takeWhile (\<lambda>b. b \<noteq> 0) bs"

text \<open>\<^verbatim>\<open>FloatValue::compare\<close>: differences below \<^verbatim>\<open>1e-7\<close> are none.\<close>

definition float_value_compare :: "flt \<Rightarrow> flt \<Rightarrow> int" where
  "float_value_compare f1 f2 = (case flt_sub f1 f2 of
      Fin n \<Rightarrow> if \<bar>n\<bar> * 10 ^ 7 < 2 ^ 149 then 0 else if n > 0 then 1 else - 1
    | Inf neg \<Rightarrow> if neg then - 1 else 1
    | NaN \<Rightarrow> - 1)"

text \<open>\<^verbatim>\<open>compare\<close> of the classes. The difference of two integers is taken in 32 bits and wraps around, which is what the
  machine does; in C++ the overflow of a signed subtraction has no defined result.\<close>

definition value_compare :: "TupleValue \<Rightarrow> TupleValue \<Rightarrow> int option" where
  "value_compare v other = (case v of
      NullValue \<Rightarrow> Some 0
    | IntValue i \<Rightarrow> (case other of NullValue \<Rightarrow> Some (- 1) | IntValue j \<Rightarrow> Some (wrap32 (i - j)) | _ \<Rightarrow> None)
    | FloatValue f \<Rightarrow> (case other of NullValue \<Rightarrow> Some (- 1)
        | FloatValue g \<Rightarrow> Some (float_value_compare (float_of (uint f)) (float_of (uint g))) | _ \<Rightarrow> None)
    | StringValue s \<Rightarrow> (case other of NullValue \<Rightarrow> Some (- 1) | StringValue t \<Rightarrow> Some (strcmp (c_bytes s) (c_bytes t)) | _ \<Rightarrow> None)
    | DateValue d \<Rightarrow> (case other of NullValue \<Rightarrow> Some (- 1) | DateValue e \<Rightarrow> Some (sint (d - e)) | _ \<Rightarrow> None))"

text \<open>\<^verbatim>\<open>TupleValue::from\<close>; a null pointer for a type without values.\<close>

definition value_from :: "AttrType \<Rightarrow> byte list \<Rightarrow> TupleValue option" where
  "value_from t mem = (case t of
      CHARS \<Rightarrow> Some (StringValue (c_bytes mem))
    | INTS \<Rightarrow> Some (IntValue (read_int mem 0))
    | DATE \<Rightarrow> Some (DateValue (le_word (segment mem 0 4)))
    | FLOATS \<Rightarrow> Some (FloatValue (le_word (segment mem 0 4)))
    | _ \<Rightarrow> None)"

section \<open>Dates\<close>

record tm =
  tm_year :: int
  tm_mon :: int
  tm_mday :: int

definition big_month :: "bool list" where
  "big_month = [True, False, True, False, True, False, True, True, False, True, False, True]"

definition check_date_manually :: "tm \<Rightarrow> bool option" where
  "check_date_manually t =
    (let year = tm_year t + 1900; month = tm_mon t; day = tm_mday t in
     if year < 1970 then Some False
     else if month < 0 \<or> 12 \<le> month then None
     else Some (if \<not> big_month ! nat month
       then if month \<noteq> 1 then day \<le> 30 else if year mod 4 = 0 then day \<le> 29 else day \<le> 28
       else True))"

text \<open>\<^verbatim>\<open>strptime\<close> with the format \<^verbatim>\<open>%Y-%m-%d\<close> is an argument.\<close>

definition validate_data_format :: "(byte list \<Rightarrow> tm option) \<Rightarrow> byte list \<Rightarrow> tm option option" where
  "validate_data_format strptime s = (case strptime s of
      None \<Rightarrow> Some None
    | Some t \<Rightarrow> map_option (\<lambda>ok. if ok then Some t else None) (check_date_manually t))"

text \<open>The number of days that a date is stored as, from the result of \<^verbatim>\<open>mktime\<close>, and the number of
  seconds that it is printed from. Division rounds towards zero; the product has the type of
  \<^verbatim>\<open>date_t\<close>.\<close>

definition div0 :: "int \<Rightarrow> int \<Rightarrow> int" where
  "div0 a b = sgn a * sgn b * (\<bar>a\<bar> div \<bar>b\<bar>)"

definition to_raw_data :: "(tm \<Rightarrow> int) \<Rightarrow> tm \<Rightarrow> 32 word" where
  "to_raw_data mktime t = word_of_int (div0 (div0 (mktime t) 3600 + 8) 24)"

definition raw_seconds :: "32 word \<Rightarrow> int" where
  "raw_seconds days = uint (days * (24 * 3600))"

section \<open>Lemmas\<close>

lemma le_word_int_bytes: "le_word (int_bytes x) = word_of_int x"
proof -
  have step: "y mod 256 + 256 * (y div 256 mod n) = y mod (256 * n)" if "0 < n" for y n :: int
    using that by (simp add: zmod_zmult2_eq)
  have "foldr (\<lambda>b n. uint b + 256 * n) (int_bytes x) 0
    = x mod 256 + 256 * (x div 256 mod 256 + 256 * (x div 256 div 256 mod 256 + 256 * (x div 256 div 256 div 256 mod 256)))"
    by (simp add: int_bytes_def upt_rec take_bit_eq_mod uint_word_of_int zdiv_zmult2_eq [symmetric])
  also have "\<dots> = x mod 2 ^ 32"
    by (simp add: step)
  finally show ?thesis
    unfolding le_word_def by (intro word_uint_eqI) (simp add: uint_word_of_int)
qed

lemma length_int_bytes [simp]: "length (int_bytes x) = 4"
  by (simp add: int_bytes_def)

lemma read_int_at:
  assumes "in_int i"
  shows "off = length xs \<Longrightarrow> read_int (xs @ int_bytes i @ ys) off = i" "read_int (int_bytes i) 0 = i"
  using wrap32_id [OF assms] by (simp_all add: read_int_def segment_def le_word_int_bytes wrap32_def)

lemma c_bytes_nonzero: "0 \<notin> set (c_bytes bs)"
  by (auto simp: c_bytes_def dest: set_takeWhileD)

lemma strcmp_order:
  assumes "0 \<notin> set s" "0 \<notin> set t"
  shows "strcmp s t < 0 \<longleftrightarrow> map uint s < map uint t" "strcmp s t = 0 \<longleftrightarrow> map uint s = map uint t"
proof -
  have pos: "0 < uint b" if "b \<noteq> 0" for b :: byte using that uint_ge_0 [of b] by (metis order_le_less unsigned_eq_0_iff)
  have "(strcmp s t < 0 \<longleftrightarrow> map uint s < map uint t) \<and> (strcmp s t = 0 \<longleftrightarrow> map uint s = map uint t)"
    using assms
  proof (induction s t rule: strcmp.induct)
    case (2 b bs)
    then have "0 < uint b" by (intro pos) auto
    then show ?case by auto
  next
    case (3 a "as")
    then have "0 < uint a" by (intro pos) auto
    then show ?case by auto
  qed (auto dest: word_uint_eqI)
  then show "strcmp s t < 0 \<longleftrightarrow> map uint s < map uint t" "strcmp s t = 0 \<longleftrightarrow> map uint s = map uint t" by simp_all
qed

lemma strcmp_in_int: "in_int (- strcmp s t)"
proof -
  have "uint (b :: byte) < 256" for b using uint_lt2p [of b] by simp
  then have "\<bar>strcmp s t\<bar> \<le> 256"
    by (induction s t rule: strcmp.induct) (auto simp: abs_le_iff intro: order_less_imp_le,
      (smt (verit, best) uint_ge_0)+)
  then show ?thesis unfolding in_int_def by auto
qed

text \<open>What the comparison of two values of the same class looks at, for integers whose difference
  does not overflow.\<close>

definition value_key :: "TupleValue \<Rightarrow> int list" where
  "value_key v = (case v of IntValue i \<Rightarrow> [i] | StringValue s \<Rightarrow> map uint (c_bytes s) | DateValue d \<Rightarrow> [uint d] | _ \<Rightarrow> [])"

text \<open>The values that the comparison orders: strings, dates whose number is below \<^verbatim>\<open>2 ^ 31\<close>, and integers from
  \<^verbatim>\<open>- 2 ^ 30\<close> to \<^verbatim>\<open>2 ^ 30 - 1\<close>, whose differences do not overflow. Nulls and floats are not among them: a null
  compares as equal to or less than everything, depending on its side, and for floats near values are equal.\<close>

definition orderable :: "AttrType \<Rightarrow> TupleValue \<Rightarrow> bool" where
  "orderable t v \<longleftrightarrow> value_type v = t \<and> (case v of IntValue i \<Rightarrow> - (2 ^ 30) \<le> i \<and> i < 2 ^ 30 | StringValue s \<Rightarrow> True
     | DateValue d \<Rightarrow> uint d < 2 ^ 31 | _ \<Rightarrow> False)"

lemma sint_diff:
  assumes "uint (d :: 32 word) < 2 ^ 31" "uint e < 2 ^ 31"
  shows "sint (d - e) = uint d - uint e"
proof -
  have "sint (d - e) = wrap32 (uint d - uint e)"
    by (simp add: wrap32_def)
  moreover have "in_int (uint d - uint e)" using assms uint_ge_0 [of d] uint_ge_0 [of e] unfolding in_int_def by linarith
  ultimately show ?thesis by simp
qed

lemma value_compare_order:
  assumes "orderable t v" "orderable t w"
  shows "\<exists>c. value_compare v w = Some c \<and> (c < 0 \<longleftrightarrow> value_key v < value_key w) \<and> (c = 0 \<longleftrightarrow> value_key v = value_key w) \<and> in_int (- c)"
proof (cases v)
  case (IntValue i)
  then obtain j where j: "w = IntValue j" using assms by (cases w) (auto simp: orderable_def value_type_def)
  then have "in_int (i - j)" "in_int (- (i - j))" using assms IntValue unfolding orderable_def in_int_def by auto
  then show ?thesis using IntValue j by (simp add: value_compare_def value_key_def)
next
  case (StringValue s)
  then obtain u where u: "w = StringValue u" using assms by (cases w) (auto simp: orderable_def value_type_def)
  then show ?thesis
    using StringValue strcmp_order [OF c_bytes_nonzero c_bytes_nonzero] strcmp_in_int by (auto simp: value_compare_def value_key_def)
next
  case (DateValue d)
  then obtain e where e: "w = DateValue e" using assms by (cases w) (auto simp: orderable_def value_type_def)
  have de: "uint d < 2 ^ 31" "uint e < 2 ^ 31" using assms DateValue e by (auto simp: orderable_def)
  then have "in_int (- (uint d - uint e))" using uint_ge_0 [of d] uint_ge_0 [of e] unfolding in_int_def by linarith
  then show ?thesis using DateValue e sint_diff [OF de] by (auto simp: value_compare_def value_key_def dest: word_uint_eqI)
qed (use assms in \<open>auto simp: orderable_def\<close>)

end
