(* ===== verification/Trx_Properties.thy ===== *)
theory Trx_Properties
  imports Trx Value
begin

text \<open>
  What transactions see of each other's records, and what commit and rollback do with the queued
  operations.
\<close>

section \<open>The transaction field\<close>

unbundle bit_operations_syntax

lemma trx_bits:
  assumes "uint (w :: 32 word) < 2 ^ 31"
  shows "w AND TRX_ID_BIT_MASK = w" "w AND DELETED_FLAG_BIT_MASK = 0"
    "(w OR DELETED_FLAG_BIT_MASK) AND TRX_ID_BIT_MASK = w" "(w OR DELETED_FLAG_BIT_MASK) AND DELETED_FLAG_BIT_MASK \<noteq> 0"
proof -
  have T: "TRX_ID_BIT_MASK = mask 31" by (simp add: TRX_ID_BIT_MASK_def mask_eq_decr_exp)
  have pow: "DELETED_FLAG_BIT_MASK = 2 ^ 31" by (simp add: DELETED_FLAG_BIT_MASK_def)
  have D: "bit DELETED_FLAG_BIT_MASK n \<longleftrightarrow> n = 31" for n unfolding pow bit_exp_iff by auto
  have lt: "take_bit 31 w = w"
    using assms by (intro word_uint_eqI) (simp add: unsigned_take_bit_eq take_bit_int_eq_self)
  have hi: "\<not> bit w n" if "31 \<le> n" for n using that arg_cong [OF lt, of "\<lambda>w. bit w n"] by (auto simp: bit_take_bit_iff)
  show "w AND TRX_ID_BIT_MASK = w" using lt by (simp add: T take_bit_eq_mask)
  show "w AND DELETED_FLAG_BIT_MASK = 0"
    using hi by (intro bit_word_eqI) (auto simp: D bit_simps)
  show "(w OR DELETED_FLAG_BIT_MASK) AND TRX_ID_BIT_MASK = w"
    using hi by (intro bit_word_eqI) (auto simp: D T bit_simps, metis not_le_imp_less)
  have "bit ((w OR DELETED_FLAG_BIT_MASK) AND DELETED_FLAG_BIT_MASK) 31"
    by (simp add: D bit_simps)
  then show "(w OR DELETED_FLAG_BIT_MASK) AND DELETED_FLAG_BIT_MASK \<noteq> 0" by fastforce
qed

lemma record_trx_id:
  assumes "trx_offset m = Some off" "off + 4 \<le> length bytes" "uint tid < 2 ^ 31"
  obtains b where "set_record_trx_id m tid deleted bytes = Some b" "length b = length bytes"
    "get_record_trx_id m b = Some (tid, deleted)" "take off b = take off bytes" "drop (off + 4) b = drop (off + 4) bytes"
proof -
  let ?w = "if deleted then tid OR DELETED_FLAG_BIT_MASK else tid"
  let ?b = "overwrite bytes off (int_bytes (uint ?w))"
  have n: "length (int_bytes x) = 4" for x by (simp add: int_bytes_def)
  have len: "length ?b = length bytes" using assms(2) n by simp
  have "segment ?b off 4 = int_bytes (uint ?w)" using segment_overwrite_same [of off "int_bytes (uint ?w)" bytes] assms(2) n by simp
  then have "get_record_trx_id m ?b = Some (tid, deleted)"
    using assms len trx_bits [OF assms(3)] by (auto simp: get_record_trx_id_def le_word_int_bytes)
  moreover have "take off ?b = take off bytes" "drop (off + 4) ?b = drop (off + 4) bytes"
    using assms(2) n by (simp_all add: overwrite_def min_def)
  ultimately show ?thesis using assms len by (intro that [of ?b]) (simp_all add: set_record_trx_id_def)
qed

lemma is_visible_get: "get_record_trx_id m b = Some (tid, deleted) \<Longrightarrow>
  is_visible m t b = Some (if tid = 0 \<or> tid = trx_id t then \<not> deleted else deleted)"
  by (simp add: is_visible_def)

text \<open>
  C15. Isolation. A record that a transaction with a number has stamped is visible to it and to no
  other transaction; when the insertion is committed, which clears the field, both see it. When it deletes a
  record that it has no operation for, with one queued operation, the record is gone for it and still there
  for every other transaction; when the deletion is rolled back, which clears the field too, both see it
  again. Each of the four writes changes the four bytes of the transaction field only.
\<close>

theorem trx_isolation:
  fixes t u :: "'t Trx"
  assumes m: "trx_offset m = Some off" "off + 4 \<le> length bytes"
    and t: "0 < uint (trx_id t)" "uint (trx_id t) < 2 ^ 31" "trx_id u \<noteq> trx_id t" "find_operation table rid t = None"
  shows "\<exists>b e d c. init_trx_info m t bytes = Some b \<and> is_visible m t b = Some True \<and> is_visible m u b = Some False
    \<and> clear_trx_id m b = Some e \<and> is_visible m t e = Some True \<and> is_visible m u e = Some True
    \<and> trx_delete_record m table bytes [rid] (n, t) = Some (Inr d, (n, insert_operation table DELETE rid t))
    \<and> is_visible m t d = Some False \<and> is_visible m u d = Some True
    \<and> clear_trx_id m d = Some c \<and> is_visible m t c = Some True \<and> is_visible m u c = Some True
    \<and> (\<forall>x \<in> {b, c, d, e}. take off x = take off bytes \<and> drop (off + 4) x = drop (off + 4) bytes)"
proof -
  obtain b where b: "set_record_trx_id m (trx_id t) False bytes = Some b" "length b = length bytes" "get_record_trx_id m b = Some (trx_id t, False)"
      "take off b = take off bytes" "drop (off + 4) b = drop (off + 4) bytes"
    using record_trx_id [OF m t(2)] by metis
  obtain d where d: "set_record_trx_id m (trx_id t) True bytes = Some d" "length d = length bytes"
      "get_record_trx_id m d = Some (trx_id t, True)" "take off d = take off bytes" "drop (off + 4) d = drop (off + 4) bytes"
    using record_trx_id [OF m t(2)] by metis
  have cleared: "\<exists>c. clear_trx_id m x = Some c \<and> is_visible m t c = Some True \<and> is_visible m u c = Some True
      \<and> take off c = take off x \<and> drop (off + 4) c = drop (off + 4) x" if "length x = length bytes" for x
  proof -
    have len: "off + 4 \<le> length x" and zero: "uint (0 :: 32 word) < 2 ^ 31" using m(2) that by simp_all
    obtain c where c: "set_record_trx_id m 0 False x = Some c" "get_record_trx_id m c = Some (0, False)"
        "take off c = take off x" "drop (off + 4) c = drop (off + 4) x"
      using record_trx_id [OF m(1) len zero] by metis
    then show ?thesis using is_visible_get [OF c(2), of t] is_visible_get [OF c(2), of u] by (simp add: clear_trx_id_def)
  qed
  obtain e where e: "clear_trx_id m b = Some e" "is_visible m t e = Some True" "is_visible m u e = Some True"
      "take off e = take off b" "drop (off + 4) e = drop (off + 4) b" using cleared [OF b(2)] by blast
  obtain c where c: "clear_trx_id m d = Some c" "is_visible m t c = Some True" "is_visible m u c = Some True"
      "take off c = take off d" "drop (off + 4) c = drop (off + 4) d" using cleared [OF d(2)] by blast
  have nz: "trx_id t \<noteq> 0" using t(1) by auto
  then have "trx_delete_record m table bytes [rid] (n, t) = Some (Inr d, (n, insert_operation table DELETE rid t))"
    using d(1) t(4) by (simp add: trx_delete_record_def start_if_not_started_def insert_operation_def run)
  then show ?thesis
    using b c d e t t(3) [symmetric] nz
    by - (rule exI [of _ b], rule exI [of _ e], rule exI [of _ d], rule exI [of _ c], simp add: init_trx_info_def is_visible_get)
qed

definition one_table :: TableMeta where
  "one_table = tm_new\<lparr>tm_fields := [\<lparr>fm_name = ''__trx'', attr_type = INTS, attr_offset = 0, attr_len = 4, visible = False, nullable = False\<rparr>]\<rparr>"

definition third_trx :: "nat Trx" where
  "third_trx = \<lparr>trx_id = 3, operations = []\<rparr>"

theorem trx_isolation_witness:
  "\<exists>b e d c. init_trx_info one_table third_trx (replicate 12 7) = Some b
    \<and> clear_trx_id one_table b = Some e \<and> is_visible one_table (trx_new :: nat Trx) e = Some True
    \<and> is_visible one_table third_trx b = Some True \<and> is_visible one_table (trx_new :: nat Trx) b = Some False
    \<and> trx_delete_record one_table 0 (replicate 12 7) [\<lparr>rid_page = 1, rid_slot = 0\<rparr>] (3, third_trx)
        = Some (Inr d, (3, insert_operation 0 DELETE \<lparr>rid_page = 1, rid_slot = 0\<rparr> third_trx))
    \<and> is_visible one_table (trx_new :: nat Trx) d = Some True \<and> clear_trx_id one_table d = Some c"
proof -
  have m: "trx_offset one_table = Some 0" by (simp add: one_table_def trx_offset_def)
  have t: "0 + 4 \<le> length (replicate 12 7 :: byte list)" "0 < uint (trx_id third_trx)" "uint (trx_id third_trx) < 2 ^ 31"
    "trx_id (trx_new :: nat Trx) \<noteq> trx_id third_trx" "find_operation 0 \<lparr>rid_page = 1, rid_slot = 0\<rparr> third_trx = None"
    by (simp_all add: third_trx_def trx_new_def find_operation_def)
  show ?thesis using trx_isolation [OF m t, of 3] by (elim exE conjE) (intro exI conjI)
qed

section \<open>Commit and rollback\<close>

lemma finish_trx_run:
  assumes "run_ops (map (\<lambda>(table, o'). f table o') (all_operations t)) (Inr ()) s = Some (r, s')"
  shows "finish_trx f (t, s) = Some (r, (t\<lparr>operations := [], trx_id := 0\<rparr>, s'))"
  using assms by (cases r) (simp_all add: finish_trx_def pool_op_def upd_handler_def run)

text \<open>
  C36. Commit returns the result of the operation it goes through last. When the commit of one
  operation fails and the next one succeeds, commit reports success, drops both operations and
  forgets the transaction: the operation that failed cannot be tried again or undone.
\<close>

theorem commit_hides_failure:
  assumes "operations t = [(table, [o1, o2])]" "commit_op tt table o1 = Some c1" "commit_op tt table o2 = Some c2"
    and "c1 s = Some (Inl e, s1)" "c2 s1 = Some (Inr (), s2)"
  shows "trx_commit tt (t, s) = Some (Inr (), (t\<lparr>operations := [], trx_id := 0\<rparr>, s2))"
  unfolding trx_commit_def using assms by (intro finish_trx_run) (simp add: all_operations_def run)

definition failing_tables :: "(nat, RC) trx_tables" where
  "failing_tables = \<lparr>tt_commit_insert = (\<lambda>_ _. fail RECORD_RECORD_NOT_EXIST), tt_commit_delete = (\<lambda>_ _. ret ()),
     tt_commit_update = (\<lambda>_ _. ret ()), tt_rollback_insert = (\<lambda>_ _. ret ()), tt_rollback_delete = (\<lambda>_ _. ret ())\<rparr>"

theorem commit_hides_failure_witness:
  "trx_commit failing_tables (\<lparr>trx_id = 3, operations = [(0, [\<lparr>op_type = INSERT, op_rid = \<lparr>rid_page = 1, rid_slot = 0\<rparr>\<rparr>, \<lparr>op_type = DELETE, op_rid = \<lparr>rid_page = 1, rid_slot = 1\<rparr>\<rparr>])]\<rparr>, SUCCESS)
    = Some (Inr (), (\<lparr>trx_id = 0, operations = []\<rparr>, SUCCESS))"
proof -
  have "commit_op failing_tables 0 \<lparr>op_type = INSERT, op_rid = \<lparr>rid_page = 1, rid_slot = 0\<rparr>\<rparr> = Some (fail RECORD_RECORD_NOT_EXIST)"
    "commit_op failing_tables 0 \<lparr>op_type = DELETE, op_rid = \<lparr>rid_page = 1, rid_slot = 1\<rparr>\<rparr> = Some (ret ())"
    by (simp_all add: failing_tables_def commit_op_def)
  from commit_hides_failure [OF _ this, of "\<lparr>trx_id = 3, operations = _\<rparr>" SUCCESS RECORD_RECORD_NOT_EXIST SUCCESS SUCCESS]
  show ?thesis by (simp add: run)
qed

text \<open>
  C33. Rollback does not undo an update. A transaction that has only updated records rolls back
  with success, without a single call to the tables: the state that the tables share stays as the
  updates have left it, with the number of the transaction in the records.
\<close>

theorem rollback_keeps_updates:
  assumes "\<forall>(table, ops) \<in> set (operations t). \<forall>o' \<in> set ops. op_type o' = UPDATE"
  shows "trx_rollback tt (t, s) = Some (Inr (), (t\<lparr>operations := [], trx_id := 0\<rparr>, s))"
proof -
  have "map (\<lambda>(table, o'). rollback_op tt table o') (all_operations t) = replicate (length (all_operations t)) None"
    using assms by (intro nth_equalityI) (auto simp: all_operations_def rollback_op_def dest!: nth_mem split: prod.splits)
  moreover have "run_ops (replicate n None) r s = (case r of Inl e \<Rightarrow> Some (Inl e, s) | Inr _ \<Rightarrow> Some (Inr (), s))" for n r
    by (induction n) (auto simp: run split: sum.split)
  ultimately show ?thesis unfolding trx_rollback_def by (intro finish_trx_run) simp
qed

theorem rollback_keeps_updates_witness:
  "trx_rollback failing_tables (\<lparr>trx_id = 3, operations = [(0, [\<lparr>op_type = UPDATE, op_rid = \<lparr>rid_page = 1, rid_slot = 0\<rparr>\<rparr>])]\<rparr>, SUCCESS)
    = Some (Inr (), (\<lparr>trx_id = 0, operations = []\<rparr>, SUCCESS))"
  using rollback_keeps_updates [of "\<lparr>trx_id = 3, operations = [(0, [\<lparr>op_type = UPDATE, op_rid = \<lparr>rid_page = 1, rid_slot = 0\<rparr>\<rparr>])]\<rparr>" failing_tables SUCCESS]
  by simp

end
