(* ===== verification/Tuple.thy ===== *)
theory Tuple
  imports Value Table_Meta "HOL-Library.Multiset"
begin

text \<open>
  Tuples of the executor (\<^verbatim>\<open>sql/executor/tuple.cpp\<close>): schemas, sets of tuples, sorting, and reading
  a tuple from the bytes of a record.
\<close>

section \<open>Schemas and sets of tuples\<close>

record TupleField =
  tf_type :: AttrType
  tf_table :: string
  tf_field :: string

type_synonym TupleSchema = "TupleField list"
type_synonym Tuple = "TupleValue list"

definition schema_add :: "AttrType \<Rightarrow> string \<Rightarrow> string \<Rightarrow> TupleSchema \<Rightarrow> TupleSchema" where
  "schema_add t table field sch = sch @ [\<lparr>tf_type = t, tf_table = table, tf_field = field\<rparr>]"

definition add_if_not_exists :: "AttrType \<Rightarrow> string \<Rightarrow> string \<Rightarrow> TupleSchema \<Rightarrow> TupleSchema" where
  "add_if_not_exists t table field sch =
    (if list_ex (\<lambda>f. tf_table f = table \<and> tf_field f = field) sch then sch else schema_add t table field sch)"

definition schema_append :: "TupleSchema \<Rightarrow> TupleSchema \<Rightarrow> TupleSchema" where
  "schema_append sch other = sch @ other"

text \<open>\<^verbatim>\<open>TupleSchema::from_table\<close>\<close>

definition from_table :: "TableMeta \<Rightarrow> TupleSchema \<Rightarrow> TupleSchema" where
  "from_table m sch = foldl (\<lambda>sch f. if visible f then schema_add (attr_type f) (tm_name m) (fm_name f) sch else sch) sch (tm_fields m)"

fun index_where :: "('a \<Rightarrow> bool) \<Rightarrow> 'a list \<Rightarrow> nat option" where
  "index_where P [] = None"
| "index_where P (x # xs) = (if P x then Some 0 else map_option Suc (index_where P xs))"

text \<open>Both versions of \<^verbatim>\<open>index_of_field\<close>; \<^verbatim>\<open>None\<close> is the index \<^verbatim>\<open>-1\<close>.\<close>

definition index_of_field :: "string option \<Rightarrow> string \<Rightarrow> TupleSchema \<Rightarrow> nat option" where
  "index_of_field table field sch =
    index_where (\<lambda>f. (case table of None \<Rightarrow> True | Some n \<Rightarrow> tf_table f = n) \<and> tf_field f = field) sch"

record TupleSet =
  ts_tuples :: "Tuple list"
  ts_schema :: TupleSchema

definition ts_add :: "Tuple \<Rightarrow> TupleSet \<Rightarrow> TupleSet" where
  "ts_add t ts = ts\<lparr>ts_tuples := ts_tuples ts @ [t]\<rparr>"

text \<open>\<^verbatim>\<open>TupleSet::add_record\<close>: the columns of the schema of the set, out of a tuple with another one.\<close>

fun pick_columns :: "TupleSchema \<Rightarrow> TupleSchema \<Rightarrow> Tuple \<Rightarrow> Tuple option" where
  "pick_columns [] sch t = Some []"
| "pick_columns (f # fs) sch t = (case index_of_field None (tf_field f) sch of
      None \<Rightarrow> None
    | Some i \<Rightarrow> if i < length t then map_option ((#) (t ! i)) (pick_columns fs sch t) else None)"

definition ts_add_record :: "Tuple \<Rightarrow> TupleSchema \<Rightarrow> TupleSet \<Rightarrow> TupleSet option" where
  "ts_add_record t sch ts = map_option (\<lambda>added. ts_add added ts) (pick_columns (ts_schema ts) sch t)"

definition ts_pop_row :: "TupleSet \<Rightarrow> TupleSet option" where
  "ts_pop_row ts = (if [] \<in> set (ts_tuples ts) then None else Some (ts\<lparr>ts_tuples := map butlast (ts_tuples ts)\<rparr>))"

section \<open>Sorting\<close>

datatype OrderType = ORDER_DESC | ORDER_ASC

record Order =
  order_type :: OrderType
  order_relation :: "string option"
  order_attribute :: string

text \<open>\<^verbatim>\<open>compare\<close>, with \<^verbatim>\<open>orders_\<close> as an argument. A column that is not there has the index \<^verbatim>\<open>-1\<close>, here
  \<^verbatim>\<open>None\<close>: reading it is undefined. Negation wraps around.\<close>

fun tuple_less :: "(nat option \<times> OrderType) list \<Rightarrow> Tuple \<Rightarrow> Tuple \<Rightarrow> bool option" where
  "tuple_less [] t1 t2 = Some False"
| "tuple_less ((None, ty) # ords) t1 t2 = None"
| "tuple_less ((Some i, ty) # ords) t1 t2 =
    (if i < length t1 \<and> i < length t2
     then case value_compare (t1 ! i) (t2 ! i) of
         None \<Rightarrow> None
       | Some c \<Rightarrow> let comp = (if ty = ORDER_DESC then wrap32 (- c) else c) in
           if comp < 0 then Some True else if comp > 0 then Some False else tuple_less ords t1 t2
     else None)"

text \<open>\<^verbatim>\<open>std::sort\<close>: the order of equal tuples is open, and insertion is one way to sort. For a comparison that is
  no strict weak order \<^verbatim>\<open>std::sort\<close> is undefined in C++; the model then still returns a list, about which nothing is
  stated.\<close>

fun insert_sorted :: "('a \<Rightarrow> 'a \<Rightarrow> bool option) \<Rightarrow> 'a \<Rightarrow> 'a list \<Rightarrow> 'a list option" where
  "insert_sorted cmp x [] = Some [x]"
| "insert_sorted cmp x (y # ys) = (case cmp y x of
      None \<Rightarrow> None
    | Some True \<Rightarrow> map_option ((#) y) (insert_sorted cmp x ys)
    | Some False \<Rightarrow> Some (x # y # ys))"

fun std_sort :: "('a \<Rightarrow> 'a \<Rightarrow> bool option) \<Rightarrow> 'a list \<Rightarrow> 'a list option" where
  "std_sort cmp [] = Some []"
| "std_sort cmp (x # xs) = (case std_sort cmp xs of None \<Rightarrow> None | Some ys \<Rightarrow> insert_sorted cmp x ys)"

definition order_indices :: "TupleSchema \<Rightarrow> Order list \<Rightarrow> (nat option \<times> OrderType) list" where
  "order_indices sch orders =
    map (\<lambda>ord. (index_of_field (order_relation ord) (order_attribute ord) sch, order_type ord)) orders"

definition sort_by_orders :: "Order list \<Rightarrow> TupleSet \<Rightarrow> TupleSet option" where
  "sort_by_orders orders ts =
    (if orders = [] then Some ts
     else map_option (\<lambda>us. ts\<lparr>ts_tuples := us\<rparr>)
       (std_sort (tuple_less (order_indices (ts_schema ts) orders)) (ts_tuples ts)))"

section \<open>Reading a record\<close>

text \<open>\<^verbatim>\<open>TupleRecordConverter::add_record\<close> for one field. The string of a \<^verbatim>\<open>CHARS\<close> field ends at the first
  zero byte, wherever that is. A field of another type gives no value.\<close>

definition has_zero :: "byte list \<Rightarrow> bool" where
  "has_zero mem \<longleftrightarrow> 0 \<in> set mem"

definition read_field :: "FieldMeta \<Rightarrow> byte list \<Rightarrow> Tuple option" where
  "read_field f mem =
    (let off = nat (attr_offset f); start = (if nullable f then off + 4 else off) in
     if nullable f \<and> length mem < off + 4 then None
     else if nullable f \<and> read_int mem off \<noteq> 0 then Some [NullValue]
     else case attr_type f of
         INTS \<Rightarrow> if start + 4 \<le> length mem then Some [IntValue (read_int mem start)] else None
       | FLOATS \<Rightarrow> if start + 4 \<le> length mem then Some [FloatValue (le_word (segment mem start 4))] else None
       | CHARS \<Rightarrow> if has_zero (drop start mem) then Some [StringValue (c_bytes (drop start mem))] else None
       | DATE \<Rightarrow> if start + 4 \<le> length mem then Some [DateValue (le_word (segment mem start 4))] else None
       | _ \<Rightarrow> Some [])"

fun read_record :: "TableMeta \<Rightarrow> TupleSchema \<Rightarrow> byte list \<Rightarrow> Tuple option" where
  "read_record m [] mem = Some []"
| "read_record m (f # fs) mem = (case field_by_name m (tf_field f) of
      None \<Rightarrow> None
    | Some fm \<Rightarrow> (case read_field fm mem of
        None \<Rightarrow> None
      | Some vs \<Rightarrow> map_option ((@) vs) (read_record m fs mem)))"

definition converter_add_record :: "TableMeta \<Rightarrow> byte list \<Rightarrow> TupleSet \<Rightarrow> TupleSet option" where
  "converter_add_record m mem ts = map_option (\<lambda>t. ts_add t ts) (read_record m (ts_schema ts) mem)"

section \<open>Sorting is correct\<close>

lemma insert_sorted_ok:
  assumes cmp: "\<And>x y. x \<in> A \<Longrightarrow> y \<in> A \<Longrightarrow> cmp x y = Some (L x y)"
    and trans: "\<And>x y z. x \<in> A \<Longrightarrow> y \<in> A \<Longrightarrow> z \<in> A \<Longrightarrow> L x z \<Longrightarrow> L x y \<or> L y z"
    and asym: "\<And>x y. x \<in> A \<Longrightarrow> y \<in> A \<Longrightarrow> L x y \<Longrightarrow> \<not> L y x"
    and ys: "x \<in> A" "set ys \<subseteq> A" "sorted_wrt (\<lambda>a b. \<not> L b a) ys"
  shows "\<exists>zs. insert_sorted cmp x ys = Some zs \<and> mset zs = add_mset x (mset ys) \<and> sorted_wrt (\<lambda>a b. \<not> L b a) zs"
  using ys(2,3)
proof (induction ys)
  case (Cons y ys)
  have y: "y \<in> A" "set ys \<subseteq> A" using Cons.prems(1) by auto
  show ?case
  proof (cases "L y x")
    case True
    obtain zs where zs: "insert_sorted cmp x ys = Some zs" "mset zs = add_mset x (mset ys)" "sorted_wrt (\<lambda>a b. \<not> L b a) zs"
      using Cons.IH [OF y(2)] Cons.prems(2) by auto
    have "set zs = insert x (set ys)" using arg_cong [OF zs(2), of set_mset] by simp
    then have "\<forall>z \<in> set zs. \<not> L z y" using Cons.prems(2) asym [OF y(1) ys(1) True] by auto
    then show ?thesis using zs True cmp [OF y(1) ys(1)] by auto
  next
    case False
    have "\<not> L z x" if "z \<in> set ys" for z
      using trans [of z y x] that False Cons.prems ys(1) y by auto
    then show ?thesis using False cmp [OF y(1) ys(1)] Cons.prems by auto
  qed
qed simp

lemma std_sort_ok:
  assumes "\<And>x y. x \<in> A \<Longrightarrow> y \<in> A \<Longrightarrow> cmp x y = Some (L x y)"
    and "\<And>x y z. x \<in> A \<Longrightarrow> y \<in> A \<Longrightarrow> z \<in> A \<Longrightarrow> L x z \<Longrightarrow> L x y \<or> L y z"
    and "\<And>x y. x \<in> A \<Longrightarrow> y \<in> A \<Longrightarrow> L x y \<Longrightarrow> \<not> L y x" "set xs \<subseteq> A"
  shows "\<exists>zs. std_sort cmp xs = Some zs \<and> mset zs = mset xs \<and> sorted_wrt (\<lambda>a b. \<not> L b a) zs"
  using assms(4)
proof (induction xs)
  case (Cons x xs)
  then obtain ys where ys: "std_sort cmp xs = Some ys" "mset ys = mset xs" "sorted_wrt (\<lambda>a b. \<not> L b a) ys" by auto
  have "set ys \<subseteq> A" using arg_cong [OF ys(2), of set_mset] Cons.prems by simp
  then show ?case using insert_sorted_ok [OF assms(1-3) _ _ ys(3), where x = x] Cons.prems ys by auto
qed simp

text \<open>The order that the comparison of tuples stands for.\<close>

fun tuple_before :: "(nat option \<times> OrderType) list \<Rightarrow> Tuple \<Rightarrow> Tuple \<Rightarrow> bool" where
  "tuple_before [] x y \<longleftrightarrow> False"
| "tuple_before ((i, ty) # ords) x y \<longleftrightarrow>
    (let a = value_key (x ! the i); b = value_key (y ! the i) in
     (if ty = ORDER_DESC then b < a else a < b) \<or> a = b \<and> tuple_before ords x y)"

lemma tuple_before_negtrans: "tuple_before ords x z \<Longrightarrow> tuple_before ords x y \<or> tuple_before ords y z"
  by (induction ords x z rule: tuple_before.induct) (auto simp: Let_def split: if_splits)

lemma tuple_before_asym: "tuple_before ords x y \<Longrightarrow> \<not> tuple_before ords y x"
  by (induction ords x y rule: tuple_before.induct) (auto simp: Let_def split: if_splits)

definition sortable :: "(nat option \<times> OrderType) list \<Rightarrow> AttrType list \<Rightarrow> Tuple \<Rightarrow> bool" where
  "sortable ords ts x \<longleftrightarrow> list_all (\<lambda>(i, ty). case i of None \<Rightarrow> False
     | Some i \<Rightarrow> i < length x \<and> i < length ts \<and> orderable (ts ! i) (x ! i)) ords"

lemma tuple_less_before:
  assumes "sortable ords ts x" "sortable ords ts y"
  shows "tuple_less ords x y = Some (tuple_before ords x y)"
  using assms
proof (induction ords)
  case (Cons ord ords)
  then obtain i ty where ord: "ord = (Some i, ty)" by (cases ord) (auto simp: sortable_def split: option.splits)
  have i: "i < length x" "i < length y" "orderable (ts ! i) (x ! i)" "orderable (ts ! i) (y ! i)"
    and rest: "sortable ords ts x" "sortable ords ts y"
    using Cons.prems ord by (auto simp: sortable_def)
  obtain c where c: "value_compare (x ! i) (y ! i) = Some c" "c < 0 \<longleftrightarrow> value_key (x ! i) < value_key (y ! i)"
      "c = 0 \<longleftrightarrow> value_key (x ! i) = value_key (y ! i)" "in_int (- c)"
    using value_compare_order [OF i(3,4)] by blast
  then have "0 < c \<longleftrightarrow> value_key (y ! i) < value_key (x ! i)" by (metis linorder_neqE not_less_iff_gr_or_eq)
  then show ?case using c i(1,2) Cons.IH [OF rest] by (auto simp: ord Let_def)
qed simp

end
