(* ===== verification/Tuple_Properties.thy ===== *)
theory Tuple_Properties
  imports Tuple
begin

text \<open>
  Which dates are accepted and which of them are printed as they were entered, and when the rows of a
  result come out in the order that was asked for.
\<close>

section \<open>Dates\<close>

text \<open>The length of a month of the Gregorian calendar; January is month 0.\<close>

definition leap_year :: "int \<Rightarrow> bool" where
  "leap_year y \<longleftrightarrow> y mod 4 = 0 \<and> (y mod 100 \<noteq> 0 \<or> y mod 400 = 0)"

definition month_days :: "int \<Rightarrow> int \<Rightarrow> int" where
  "month_days y month = (if month = 1 then if leap_year y then 29 else 28 else if month \<in> {3, 5, 8, 10} then 30 else 31)"

lemma big_month_days:
  assumes "0 \<le> month" "month < 12"
  shows "big_month ! nat month \<longleftrightarrow> month_days y month = 31"
proof -
  have "month \<in> {0..<12}" using assms by simp
  also have "{0..<12 :: int} = set [0..11]" by auto
  also have "[0..11 :: int] = [0, 1, 2, 3, 4, 5, 6, 7, 8, 9, 10, 11]" by (simp add: upto_rec1)
  finally show ?thesis by (auto simp: big_month_def month_days_def)
qed

text \<open>
  C38. For a date from 1970 on, with the ranges that \<^verbatim>\<open>strptime\<close> lets through, the check agrees with
  the calendar exactly when the date is not the 29th of February of a year that 100 divides and 400
  does not: \<^verbatim>\<open>2100-02-29\<close> is the first date that is accepted and does not exist.
\<close>

theorem check_date_calendar:
  assumes "1970 \<le> tm_year t + 1900" "0 \<le> tm_mon t" "tm_mon t < 12" "1 \<le> tm_mday t" "tm_mday t \<le> 31"
  shows "check_date_manually t = Some (tm_mday t \<le> month_days (tm_year t + 1900) (tm_mon t))
    \<longleftrightarrow> \<not> (tm_mon t = 1 \<and> tm_mday t = 29 \<and> (tm_year t + 1900) mod 100 = 0 \<and> (tm_year t + 1900) mod 400 \<noteq> 0)"
proof -
  let ?y = "tm_year t + 1900"
  have four: "?y mod 4 = 0" if "?y mod 100 = 0" using that by presburger
  show ?thesis
  proof (cases "tm_mon t = 1")
    case True
    then show ?thesis using assms four
      by (auto simp: check_date_manually_def big_month_def month_days_def leap_year_def Let_def)
  next
    case False
    have "tm_mday t \<le> (if big_month ! nat (tm_mon t) then 31 else 30) \<longleftrightarrow> tm_mday t \<le> month_days ?y (tm_mon t)"
      using big_month_days [OF assms(2,3), of ?y] False by (auto simp: month_days_def)
    then show ?thesis using assms False by (auto simp: check_date_manually_def Let_def)
  qed
qed

theorem check_date_calendar_witness:
  "check_date_manually \<lparr>tm_year = 121, tm_mon = 1, tm_mday = 28\<rparr> = Some True
    \<and> check_date_manually \<lparr>tm_year = 200, tm_mon = 1, tm_mday = 29\<rparr> \<noteq> Some False"
  using check_date_calendar [of "\<lparr>tm_year = 121, tm_mon = 1, tm_mday = 28\<rparr>"]
    check_date_calendar [of "\<lparr>tm_year = 200, tm_mon = 1, tm_mday = 29\<rparr>"]
  by (simp add: month_days_def leap_year_def)

lemma div0_mult: "0 < k \<Longrightarrow> div0 (k * x) k = x"
  by (simp add: div0_def abs_mult sgn_mult mult_sgn_abs)

lemma to_raw_data_days:
  assumes "mktime t = 86400 * days - 8 * 3600"
  shows "to_raw_data mktime t = word_of_int days"
proof -
  have "mktime t = 3600 * (24 * days - 8)" using assms by simp
  then have "div0 (mktime t) 3600 = 24 * days - 8" by (simp only: div0_mult [of 3600])
  then have "div0 (mktime t) 3600 + 8 = 24 * days" by simp
  then show ?thesis by (simp only: to_raw_data_def div0_mult [of 24])
qed

text \<open>
  C39. Where local time is eight hours ahead of UTC, the day that a date is stored as gives back the
  first second of that day exactly for the days up to number 49710, which is the 7th of February
  2106; the seconds of a later date wrap around in 32 bits, and another date is printed.
\<close>

theorem date_seconds:
  assumes "mktime t = 86400 * days - 8 * 3600" "0 \<le> days" "days < 2 ^ 32"
  shows "raw_seconds (to_raw_data mktime t) = 86400 * days \<longleftrightarrow> days \<le> 49710"
proof -
  have "raw_seconds (to_raw_data mktime t) = uint (word_of_int (86400 * days) :: 32 word)"
    using to_raw_data_days [of mktime t days] assms(1) by (simp add: raw_seconds_def mult.commute)
  also have "\<dots> = 86400 * days mod 2 ^ 32" by (simp only: uint_word_of_int) simp
  finally have eq: "raw_seconds (to_raw_data mktime t) = 86400 * days mod 2 ^ 32" .
  show ?thesis
  proof
    assume "days \<le> 49710"
    then show "raw_seconds (to_raw_data mktime t) = 86400 * days" using assms(2) by (simp add: eq mod_pos_pos_trivial)
  next
    assume "raw_seconds (to_raw_data mktime t) = 86400 * days"
    then have "86400 * days < 2 ^ 32" using pos_mod_bound [of "2 ^ 32 :: int" "86400 * days"] eq by simp
    then show "days \<le> 49710" by simp
  qed
qed

theorem date_seconds_witness:
  "raw_seconds (to_raw_data (\<lambda>_. 86400 * 18628 - 8 * 3600) \<lparr>tm_year = 121, tm_mon = 0, tm_mday = 1\<rparr>) = 86400 * 18628
    \<and> raw_seconds (to_raw_data (\<lambda>_. 86400 * 49711 - 8 * 3600) \<lparr>tm_year = 206, tm_mon = 1, tm_mday = 8\<rparr>) \<noteq> 86400 * 49711"
  using date_seconds [of "\<lambda>_. 86400 * 18628 - 8 * 3600" "\<lparr>tm_year = 121, tm_mon = 0, tm_mday = 1\<rparr>" 18628]
    date_seconds [of "\<lambda>_. 86400 * 49711 - 8 * 3600" "\<lparr>tm_year = 206, tm_mon = 1, tm_mday = 8\<rparr>" 49711]
  by simp

section \<open>Order\<close>

text \<open>
  C37. When every tuple has the columns that the \<^verbatim>\<open>ORDER BY\<close> list names, each with a string, a date below \<^verbatim>\<open>2^31\<close> or an integer
  from \<^verbatim>\<open>-2^30\<close> to \<^verbatim>\<open>2^30 - 1\<close>, of the same type in all tuples, none of them null, \<^verbatim>\<open>sort_by_orders\<close> returns, keeps the schema, loses
  and adds no tuple, and no tuple comes after one that it is before: in the first column of the list that
  tells them apart it is smaller, or greater when the list says descending. Nulls and floats are left out because
  their comparison is no strict weak order (lemmas \<^verbatim>\<open>null_breaks_order\<close> and \<^verbatim>\<open>float_breaks_order\<close>), wide integers because
  their difference may overflow.
\<close>

theorem sort_by_orders_sorted:
  assumes "\<forall>x \<in> set (ts_tuples ts). sortable (order_indices (ts_schema ts) orders) types x"
  shows "\<exists>us. sort_by_orders orders ts = Some (ts\<lparr>ts_tuples := us\<rparr>) \<and> mset us = mset (ts_tuples ts)
    \<and> sorted_wrt (\<lambda>a b. \<not> tuple_before (order_indices (ts_schema ts) orders) b a) us"
proof (cases "orders = []")
  case True
  have "sorted_wrt (\<lambda>a b. True) us" for us :: "Tuple list" by (induction us) auto
  then show ?thesis using True by (intro exI [of _ "ts_tuples ts"]) (simp add: sort_by_orders_def order_indices_def)
next
  case False
  let ?ords = "order_indices (ts_schema ts) orders"
  have "\<exists>us. std_sort (tuple_less ?ords) (ts_tuples ts) = Some us \<and> mset us = mset (ts_tuples ts)
    \<and> sorted_wrt (\<lambda>a b. \<not> tuple_before ?ords b a) us"
    using assms by (intro std_sort_ok [where A = "{x. sortable ?ords types x}"])
      (auto simp: tuple_less_before dest: tuple_before_negtrans tuple_before_asym)
  then show ?thesis using False by (auto simp: sort_by_orders_def)
qed

definition scores :: TupleSet where
  "scores = \<lparr>ts_tuples = [[StringValue [98], IntValue 3], [StringValue [97], IntValue 7], [StringValue [97], IntValue 9]],
     ts_schema = [\<lparr>tf_type = CHARS, tf_table = ''t'', tf_field = ''name''\<rparr>, \<lparr>tf_type = INTS, tf_table = ''t'', tf_field = ''score''\<rparr>]\<rparr>"

definition by_name_and_score :: "Order list" where
  "by_name_and_score = [\<lparr>order_type = ORDER_ASC, order_relation = None, order_attribute = ''name''\<rparr>,
     \<lparr>order_type = ORDER_DESC, order_relation = Some ''t'', order_attribute = ''score''\<rparr>]"

theorem sort_by_orders_sorted_witness:
  "\<exists>us. sort_by_orders by_name_and_score scores = Some (scores\<lparr>ts_tuples := us\<rparr>) \<and> mset us = mset (ts_tuples scores)
    \<and> sorted_wrt (\<lambda>a b. \<not> tuple_before [(Some 0, ORDER_ASC), (Some 1, ORDER_DESC)] b a) us"
proof -
  have i: "order_indices (ts_schema scores) by_name_and_score = [(Some 0, ORDER_ASC), (Some 1, ORDER_DESC)]"
    by (simp add: scores_def by_name_and_score_def order_indices_def index_of_field_def)
  show ?thesis
    using sort_by_orders_sorted [of scores by_name_and_score "[CHARS, INTS]"] unfolding i
    by (simp add: scores_def sortable_def orderable_def value_type_def)
qed

text \<open>
  A null value takes the order away. In descending order a null is neither before nor after any
  integer, and yet the integers differ: not being before each other is not transitive, which is what
  \<^verbatim>\<open>std::sort\<close> requires of the comparison, so that nothing is known of the order of its result.
\<close>

theorem null_breaks_order:
  assumes "in_int (j - i)" "i < j"
  shows "tuple_less [(Some 0, ORDER_DESC)] [IntValue i] [NullValue] = Some False
    \<and> tuple_less [(Some 0, ORDER_DESC)] [NullValue] [IntValue i] = Some False
    \<and> tuple_less [(Some 0, ORDER_DESC)] [NullValue] [IntValue j] = Some False
    \<and> tuple_less [(Some 0, ORDER_DESC)] [IntValue j] [NullValue] = Some False
    \<and> tuple_less [(Some 0, ORDER_DESC)] [IntValue j] [IntValue i] = Some True"
proof -
  have "in_int (i - j)" "in_int 1" "in_int 0" using assms unfolding in_int_def by auto
  then show ?thesis using assms by (simp add: value_compare_def Let_def wrap32_id)
qed

theorem null_breaks_order_witness:
  "tuple_less [(Some 0, ORDER_DESC)] [IntValue 1] [NullValue] = Some False
    \<and> tuple_less [(Some 0, ORDER_DESC)] [NullValue] [IntValue 2] = Some False
    \<and> tuple_less [(Some 0, ORDER_DESC)] [IntValue 2] [IntValue 1] = Some True"
  using null_breaks_order [of 2 1] by (simp add: in_int_def)

text \<open>
  Floats have no order either. Differences below \<^verbatim>\<open>1e-7\<close> are none: of three floats, here 0, 2^-24 and
  2^-23, the neighbours are equal and the first is less than the last.
\<close>

lemma float_breaks_order:
  "value_compare (FloatValue 0) (FloatValue 864026624) = Some 0 \<and> value_compare (FloatValue 864026624) (FloatValue 872415232) = Some 0
    \<and> value_compare (FloatValue 0) (FloatValue 872415232) = Some (- 1)"
  by (simp add: value_compare_def float_value_compare_def float_of_def flt_round_def round_by_def excess_bits.simps)

end
