(* ===== verification/Condition_Filter.thy ===== *)
theory Condition_Filter
  imports Tuple
begin

text \<open>
  Conditions on records (\<^verbatim>\<open>storage/common/condition_filter.cpp\<close>): from the condition of a statement to a
  filter, and the filter applied to the bytes of a record. A value that the parser has stored on the
  heap is the bytes that can be read from its pointer on.

  Subqueries are run by the executor: what a subquery gives, and the hash of values, are arguments of
  the definitions. A member of a descriptor that the code leaves uninitialised is an argument too.
\<close>

section \<open>Conditions\<close>

record RelAttr =
  relation_name :: "string option"
  attribute_name :: string

record sql_value =
  v_type :: AttrType
  v_data :: "byte list"

datatype 'q ConditionField = CondValue sql_value | CondAttr RelAttr bool | CondSubquery 'q

record 'q Condition =
  cond_left :: "'q ConditionField"
  cond_right :: "'q ConditionField"
  cond_comp :: CompOp

fun is_value :: "'q ConditionField \<Rightarrow> bool" where
  "is_value (CondValue v) = True"
| "is_value f = False"

fun is_attr :: "'q ConditionField \<Rightarrow> bool" where
  "is_attr (CondAttr a outer) = True"
| "is_attr f = False"

fun is_subquery :: "'q ConditionField \<Rightarrow> bool" where
  "is_subquery (CondSubquery q) = True"
| "is_subquery f = False"

text \<open>What the filter takes from the rest of the system: the tables of the database, the type and the
  results of subqueries in a context of attribute values, and \<^verbatim>\<open>TupleValue::hash\<close>.\<close>

type_synonym attr_context = "(RelAttr \<times> TupleValue) list"

record 'q sub_env =
  se_table :: "string \<Rightarrow> TableMeta option"
  se_type :: "'q \<Rightarrow> AttrType"
  se_scalar :: "'q \<Rightarrow> attr_context \<Rightarrow> TupleValue"
  se_set :: "'q \<Rightarrow> attr_context \<Rightarrow> TupleValue list"
  se_hash :: "TupleValue \<Rightarrow> nat"

section \<open>From a condition to a filter\<close>

record 'q ConDesc =
  cd_field :: "'q ConditionField"
  cd_refers_outer :: bool
  cd_offset :: int
  cd_nullable :: bool
  cd_isnull :: bool

definition attr_field :: "'q sub_env \<Rightarrow> TableMeta \<Rightarrow> RelAttr \<Rightarrow> bool \<Rightarrow> FieldMeta option option" where
  "attr_field env m a outer =
    (if outer then (case relation_name a of
        None \<Rightarrow> None
      | Some n \<Rightarrow> map_option (\<lambda>m'. field_by_name m' (attribute_name a)) (se_table env n))
     else Some (field_by_name m (attribute_name a)))"

text \<open>One side. \<^verbatim>\<open>refers_outer\<close> is not set for a value or a subquery: \<^verbatim>\<open>junk\<close>.\<close>

fun con_desc :: "'q sub_env \<Rightarrow> bool \<Rightarrow> TableMeta \<Rightarrow> 'q ConditionField \<Rightarrow> (RC + 'q ConDesc \<times> AttrType) option" where
  "con_desc env junk m (CondAttr a outer) = (case attr_field env m a outer of
      None \<Rightarrow> None
    | Some None \<Rightarrow> Some (Inl SCHEMA_FIELD_MISSING)
    | Some (Some f) \<Rightarrow> Some (Inr (\<lparr>cd_field = CondAttr a outer, cd_refers_outer = outer, cd_offset = attr_offset f,
        cd_nullable = nullable f, cd_isnull = (attr_type f = NULLS)\<rparr>, attr_type f)))"
| "con_desc env junk m (CondValue v) = Some (Inr (\<lparr>cd_field = CondValue v, cd_refers_outer = junk, cd_offset = 0,
     cd_nullable = False, cd_isnull = (v_type v = NULLS)\<rparr>, v_type v))"
| "con_desc env junk m (CondSubquery q) = Some (Inr (\<lparr>cd_field = CondSubquery q, cd_refers_outer = junk, cd_offset = 0,
     cd_nullable = False, cd_isnull = (se_type env q = NULLS)\<rparr>, se_type env q))"

record 'q DefaultConditionFilter =
  fl_left :: "'q ConDesc"
  fl_right :: "'q ConDesc"
  fl_type :: AttrType
  fl_comp :: CompOp
  float_int :: bool
  int_left :: bool

text \<open>A date that is written as a string is overwritten with its number of days. The code writes into the value
  that the parser has stored, which the condition shares: here the descriptor has the new bytes and the
  condition keeps the string, so that the model is of one initialisation for each condition.\<close>

definition rewrite_date :: "(byte list \<Rightarrow> tm option) \<Rightarrow> (tm \<Rightarrow> int) \<Rightarrow> 'q ConDesc \<Rightarrow> (RC + 'q ConDesc) option" where
  "rewrite_date strptime mktime d = (case cd_field d of
      CondValue v \<Rightarrow> (case if has_zero (v_data v) then validate_data_format strptime (c_bytes (v_data v)) else None of
          None \<Rightarrow> None
        | Some None \<Rightarrow> Some (Inl INVALID_ARGUMENT)
        | Some (Some t) \<Rightarrow>
            if 4 \<le> length (v_data v)
            then Some (Inr (d\<lparr>cd_field := CondValue (v\<lparr>v_data := overwrite (v_data v) 0 (int_bytes (uint (to_raw_data mktime t)))\<rparr>)\<rparr>))
            else None)
    | _ \<Rightarrow> None)"

definition mixed_numbers :: "AttrType \<Rightarrow> AttrType \<Rightarrow> bool" where
  "mixed_numbers t1 t2 \<longleftrightarrow> t1 = INTS \<and> t2 = FLOATS \<or> t1 = FLOATS \<and> t2 = INTS"

definition filter_init ::
    "(byte list \<Rightarrow> tm option) \<Rightarrow> (tm \<Rightarrow> int) \<Rightarrow> 'q sub_env \<Rightarrow> bool \<Rightarrow> bool \<Rightarrow> TableMeta \<Rightarrow> 'q Condition
      \<Rightarrow> (RC + 'q DefaultConditionFilter) option" where
  "filter_init strptime mktime env junk_left junk_right m c =
    (case con_desc env junk_left m (cond_left c) of
      None \<Rightarrow> None
    | Some (Inl rc) \<Rightarrow> Some (Inl rc)
    | Some (Inr (l, t_left)) \<Rightarrow> (case con_desc env junk_right m (cond_right c) of
        None \<Rightarrow> None
      | Some (Inl rc) \<Rightarrow> Some (Inl rc)
      | Some (Inr (r, t_right)) \<Rightarrow>
          let made = (\<lambda>l r t fi il. Some (Inr \<lparr>fl_left = l, fl_right = r, fl_type = t, fl_comp = cond_comp c, float_int = fi, int_left = il\<rparr>)) in
          if t_left = t_right \<or> t_left = NULLS \<or> t_right = NULLS then made l r t_left False False
          else if mixed_numbers t_left t_right \<and> \<not> (is_attr (cond_left c) \<and> is_attr (cond_right c)) then made l r t_left True (t_left = INTS)
          else if is_value (cond_left c) \<and> \<not> is_value (cond_right c) \<and> t_right = DATE \<and> t_left = CHARS
          then (case rewrite_date strptime mktime l of
              None \<Rightarrow> None
            | Some (Inl rc) \<Rightarrow> Some (Inl rc)
            | Some (Inr l') \<Rightarrow> made l' r DATE False False)
          else if \<not> is_value (cond_left c) \<and> is_value (cond_right c) \<and> t_left = DATE \<and> t_right = CHARS
          then (case rewrite_date strptime mktime r of
              None \<Rightarrow> None
            | Some (Inl rc) \<Rightarrow> Some (Inl rc)
            | Some (Inr r') \<Rightarrow> made l r' DATE False False)
          else Some (Inl SCHEMA_FIELD_TYPE_MISMATCH)))"

section \<open>Applying a filter\<close>

text \<open>The search goes through the context from its end; an attribute without the name of its table stops
  it with a null pointer.\<close>

fun context_search :: "attr_context \<Rightarrow> RelAttr \<Rightarrow> TupleValue option" where
  "context_search [] a = Some NullValue"
| "context_search ((b, v) # ctx) a =
    (if relation_name b = None \<or> relation_name a = None then None
     else if b = a then Some v else context_search ctx a)"

definition find_from_context :: "attr_context \<Rightarrow> RelAttr \<Rightarrow> TupleValue option" where
  "find_from_context ctx a = context_search (rev ctx) a"

text \<open>\<^verbatim>\<open>TupleValue::from\<close> for memory that has to be long enough.\<close>

definition from_memory :: "AttrType \<Rightarrow> byte list \<Rightarrow> TupleValue option" where
  "from_memory t mem =
    (if t = CHARS then if has_zero mem then value_from t mem else None
     else if length mem < 4 then None else value_from t mem)"

text \<open>The value of a side that is no subquery, in \<^verbatim>\<open>subquery_filter\<close>: the null flag of a nullable column
  is not skipped there.\<close>

fun side_value :: "attr_context \<Rightarrow> AttrType \<Rightarrow> byte list \<Rightarrow> 'q ConDesc \<Rightarrow> TupleValue option" where
  "side_value ctx t mem d = (case cd_field d of
      CondAttr a outer \<Rightarrow> if cd_refers_outer d then find_from_context ctx a else from_memory t (drop (nat (cd_offset d)) mem)
    | CondValue v \<Rightarrow> from_memory t (v_data v)
    | CondSubquery q \<Rightarrow> None)"

definition pushed :: "'q ConDesc \<Rightarrow> TupleValue \<Rightarrow> attr_context \<Rightarrow> attr_context" where
  "pushed d v ctx = (case cd_field d of CondAttr a outer \<Rightarrow> ctx @ [(a, v)] | _ \<Rightarrow> ctx)"

definition both_values :: "'q sub_env \<Rightarrow> attr_context \<Rightarrow> AttrType \<Rightarrow> byte list \<Rightarrow> 'q ConDesc \<Rightarrow> 'q ConDesc \<Rightarrow> (TupleValue \<times> TupleValue) option" where
  "both_values env ctx t mem l r = (case (cd_field l, cd_field r) of
      (CondSubquery p, CondSubquery q) \<Rightarrow> Some (se_scalar env p ctx, se_scalar env q ctx)
    | (CondSubquery p, _) \<Rightarrow> map_option (\<lambda>v. (se_scalar env p (pushed r v ctx), v)) (side_value ctx t mem r)
    | (_, CondSubquery q) \<Rightarrow> map_option (\<lambda>v. (v, se_scalar env q (pushed l v ctx))) (side_value ctx t mem l)
    | _ \<Rightarrow> (case (side_value ctx t mem l, side_value ctx t mem r) of (Some v, Some w) \<Rightarrow> Some (v, w) | _ \<Rightarrow> None))"

text \<open>The four bytes that \<^verbatim>\<open>value_\<close> has in an \<^verbatim>\<open>IntValue\<close>, \<^verbatim>\<open>FloatValue\<close> or \<^verbatim>\<open>DateValue\<close>: the code reads them
  as an \<^verbatim>\<open>int\<close> or as a \<^verbatim>\<open>float\<close>, whatever the class is.\<close>

fun value_bits :: "TupleValue \<Rightarrow> 32 word option" where
  "value_bits (IntValue i) = Some (word_of_int i)"
| "value_bits (FloatValue w) = Some w"
| "value_bits (DateValue w) = Some w"
| "value_bits v = None"

definition float_of_int :: "32 word \<Rightarrow> flt" where
  "float_of_int w = flt_round (sint w * 2 ^ 149)"

definition mixed_compare :: "bool \<Rightarrow> TupleValue \<Rightarrow> TupleValue \<Rightarrow> int option" where
  "mixed_compare left_int v w = (case (value_bits v, value_bits w) of
      (Some a, Some b) \<Rightarrow> Some (if left_int then float_value_compare (float_of_int a) (float_of (uint b))
        else float_value_compare (float_of (uint a)) (float_of_int b))
    | _ \<Rightarrow> None)"

text \<open>\<^verbatim>\<open>subquery_filter\<close>; \<^verbatim>\<open>Some None\<close> when one of the values is null.\<close>

definition subquery_filter :: "'q sub_env \<Rightarrow> attr_context \<Rightarrow> 'q DefaultConditionFilter \<Rightarrow> byte list \<Rightarrow> int option option" where
  "subquery_filter env ctx fl mem = (case both_values env ctx (fl_type fl) mem (fl_left fl) (fl_right fl) of
      None \<Rightarrow> None
    | Some (v, w) \<Rightarrow>
        if is_null v \<or> is_null w then Some None
        else map_option Some (if float_int fl then mixed_compare (int_left fl) v w else value_compare v w))"

definition comp_result :: "CompOp \<Rightarrow> int \<Rightarrow> bool" where
  "comp_result opr c = (case opr of
      EQUAL_TO \<Rightarrow> c = 0 | LESS_EQUAL \<Rightarrow> c \<le> 0 | NOT_EQUAL \<Rightarrow> c \<noteq> 0
    | LESS_THAN \<Rightarrow> c < 0 | GREAT_EQUAL \<Rightarrow> c \<ge> 0 | GREAT_THAN \<Rightarrow> c > 0 | IS_OP \<Rightarrow> False | _ \<Rightarrow> c \<noteq> 0)"

text \<open>The null flag and the memory of a side.\<close>

definition side_memory :: "byte list \<Rightarrow> 'q ConDesc \<Rightarrow> (bool \<times> byte list option) option" where
  "side_memory mem d = (case cd_field d of
      CondAttr a outer \<Rightarrow>
        if cd_nullable d
        then if length mem < nat (cd_offset d) + 4 then None
             else Some (read_int mem (nat (cd_offset d)) \<noteq> 0, Some (drop (nat (cd_offset d) + 4) mem))
        else Some (False, Some (drop (nat (cd_offset d)) mem))
    | CondValue v \<Rightarrow> Some (cd_isnull d, if cd_isnull d then None else Some (v_data v))
    | CondSubquery q \<Rightarrow> Some (False, None))"

definition compare_memory :: "AttrType \<Rightarrow> byte list \<Rightarrow> byte list \<Rightarrow> int option" where
  "compare_memory t l r =
    (if t = CHARS then if has_zero l \<and> has_zero r then Some (strcmp (c_bytes l) (c_bytes r)) else None
     else if t = INTS \<or> t = FLOATS \<or> t = DATE
     then if length l < 4 \<or> length r < 4 then None
       else Some (case t of
           INTS \<Rightarrow> wrap32 (read_int l 0 - read_int r 0)
         | FLOATS \<Rightarrow> (case flt_sub (float_of (read_uint l 0)) (float_of (read_uint r 0)) of
             Fin n \<Rightarrow> sgn n | Inf neg \<Rightarrow> if neg then - 1 else 1 | NaN \<Rightarrow> - 1)
         | _ \<Rightarrow> sint (le_word (segment l 0 4) - le_word (segment r 0 4)))
     else Some 0)"

text \<open>\<^verbatim>\<open>IN\<close> and \<^verbatim>\<open>NOT IN\<close>: members of the set are found by their hash. A left side that is no
  column has no name that could be put into the context.\<close>

definition in_filter :: "'q sub_env \<Rightarrow> attr_context \<Rightarrow> 'q DefaultConditionFilter \<Rightarrow> byte list option \<Rightarrow> bool option" where
  "in_filter env ctx fl left_value = (case cd_field (fl_right fl) of
      CondSubquery q \<Rightarrow>
        if fl_type fl \<noteq> se_type env q then Some False
        else (case (cd_field (fl_left fl), Option.bind left_value (from_memory (fl_type fl))) of
            (CondAttr a outer, Some v) \<Rightarrow>
              Some ((fl_comp fl = COND_IN) = (\<exists>w \<in> set (se_set env q (ctx @ [(a, v)])). se_hash env w = se_hash env v))
          | _ \<Rightarrow> None)
    | _ \<Rightarrow> None)"

definition by_values :: "'q DefaultConditionFilter \<Rightarrow> bool" where
  "by_values fl \<longleftrightarrow> fl_comp fl \<notin> {COND_IN, NOT_IN, IS_OP, IS_NOT_OP}
     \<and> \<not> (is_value (cd_field (fl_left fl)) \<and> cd_isnull (fl_left fl) \<or> is_value (cd_field (fl_right fl)) \<and> cd_isnull (fl_right fl))
     \<and> (float_int fl \<or> cd_refers_outer (fl_left fl) \<or> cd_refers_outer (fl_right fl)
        \<or> is_subquery (cd_field (fl_left fl)) \<or> is_subquery (cd_field (fl_right fl)))"

definition default_filter :: "'q sub_env \<Rightarrow> attr_context \<Rightarrow> 'q DefaultConditionFilter \<Rightarrow> byte list \<Rightarrow> bool option" where
  "default_filter env ctx fl mem =
    (if by_values fl
     then map_option (\<lambda>r. case r of None \<Rightarrow> False | Some c \<Rightarrow> comp_result (fl_comp fl) c) (subquery_filter env ctx fl mem)
     else case (side_memory mem (fl_left fl), side_memory mem (fl_right fl)) of
       (Some (lnull, lv), Some (rnull, rv)) \<Rightarrow>
         if fl_comp fl = IS_NOT_OP then Some (\<not> lnull)
         else if fl_comp fl = IS_OP then Some lnull
         else if lnull \<or> rnull then Some False
         else if fl_comp fl = COND_IN \<or> fl_comp fl = NOT_IN then in_filter env ctx fl lv
         else (case (lv, rv) of
             (Some l, Some r) \<Rightarrow> map_option (comp_result (fl_comp fl)) (compare_memory (fl_type fl) l r)
           | _ \<Rightarrow> None)
     | _ \<Rightarrow> None)"

text \<open>\<^verbatim>\<open>CompositeConditionFilter\<close>\<close>

fun composite_filter :: "(byte list \<Rightarrow> bool option) list \<Rightarrow> byte list \<Rightarrow> bool option" where
  "composite_filter [] mem = Some True"
| "composite_filter (f # fs) mem = (case f mem of
      None \<Rightarrow> None
    | Some False \<Rightarrow> Some False
    | Some True \<Rightarrow> composite_filter fs mem)"

fun composite_init :: "('c \<Rightarrow> (RC + 'f) option) \<Rightarrow> 'c list \<Rightarrow> (RC + 'f list) option" where
  "composite_init f [] = Some (Inr [])"
| "composite_init f (c # cs) = (case f c of
      None \<Rightarrow> None
    | Some (Inl rc) \<Rightarrow> Some (Inl rc)
    | Some (Inr x) \<Rightarrow> map_option (map_sum id ((#) x)) (composite_init f cs))"

text \<open>The difference of two integers that does not fit into 32 bits has the wrong sign.\<close>

lemma wrap32_low:
  assumes "in_int i" "in_int j" "i - j < - (2 ^ 31)"
  shows "wrap32 (i - j) = i - j + 2 ^ 32" "0 < wrap32 (i - j)"
proof -
  have "in_int (i - j + 2 ^ 32)" using assms unfolding in_int_def by simp
  moreover have "(word_of_int (i - j) :: 32 word) = word_of_int (i - j + 2 ^ 32)"
    by (intro word_uint_eqI) (simp only: uint_word_of_int, simp)
  then have "wrap32 (i - j) = wrap32 (i - j + 2 ^ 32)" by (simp only: wrap32_def)
  ultimately show w: "wrap32 (i - j) = i - j + 2 ^ 32" by simp
  have "0 < i - j + 2 ^ 32" using assms(1,2) unfolding in_int_def by simp
  then show "0 < wrap32 (i - j)" using w by simp
qed

end
