(* ===== verification/Filter_Properties.thy ===== *)
theory Filter_Properties
  imports Condition_Filter
begin

text \<open>
  When a condition on a column selects a record: the answer of the filter, which works on the bytes of
  the record, against the comparison of the values that the record is shown with.
\<close>

section \<open>Comparing memory and comparing values\<close>

definition key_rel :: "CompOp \<Rightarrow> int list \<Rightarrow> int list \<Rightarrow> bool" where
  "key_rel opr a b = (case opr of
      EQUAL_TO \<Rightarrow> a = b | LESS_EQUAL \<Rightarrow> a \<le> b | NOT_EQUAL \<Rightarrow> a \<noteq> b
    | LESS_THAN \<Rightarrow> a < b | GREAT_EQUAL \<Rightarrow> b \<le> a | GREAT_THAN \<Rightarrow> b < a | _ \<Rightarrow> False)"

definition comparison :: "CompOp \<Rightarrow> bool" where
  "comparison opr \<longleftrightarrow> opr \<in> {EQUAL_TO, LESS_EQUAL, NOT_EQUAL, LESS_THAN, GREAT_EQUAL, GREAT_THAN}"

lemma c_bytes_idem: "c_bytes (c_bytes bs) = c_bytes bs"
  by (simp add: c_bytes_def)

lemma compare_memory_value:
  assumes "from_memory t l = Some x" "from_memory t r = Some w" "t = INTS \<or> t = CHARS \<or> t = DATE"
  shows "compare_memory t l r = value_compare x w"
  using assms
  by (elim disjE) (auto simp: from_memory_def value_from_def compare_memory_def value_compare_def c_bytes_idem split: if_splits)

lemma comp_result_key:
  assumes "orderable t x" "orderable t w" "comparison opr" "value_compare x w = Some c"
  shows "comp_result opr c \<longleftrightarrow> key_rel opr (value_key x) (value_key w)"
proof -
  have "(c < 0 \<longleftrightarrow> value_key x < value_key w) \<and> (c = 0 \<longleftrightarrow> value_key x = value_key w)"
    using value_compare_order [OF assms(1,2)] assms(4) by auto
  then show ?thesis using assms(3)
    by (auto simp: comparison_def comp_result_def key_rel_def not_less)
qed

definition column_condition :: "string \<Rightarrow> CompOp \<Rightarrow> sql_value \<Rightarrow> 'q Condition" where
  "column_condition n opr v =
    \<lparr>cond_left = CondAttr \<lparr>relation_name = None, attribute_name = n\<rparr> False, cond_right = CondValue v, cond_comp = opr\<rparr>"

text \<open>The filter of such a condition. \<^verbatim>\<open>init\<close> does not set \<^verbatim>\<open>refers_outer\<close> for a constant: \<^verbatim>\<open>junk\<close> is what it finds there.\<close>

definition column_filter :: "FieldMeta \<Rightarrow> CompOp \<Rightarrow> sql_value \<Rightarrow> bool \<Rightarrow> bool \<Rightarrow> 'q DefaultConditionFilter" where
  "column_filter f opr v fi junk =
    \<lparr>fl_left = \<lparr>cd_field = CondAttr \<lparr>relation_name = None, attribute_name = fm_name f\<rparr> False, cd_refers_outer = False,
       cd_offset = attr_offset f, cd_nullable = nullable f, cd_isnull = (attr_type f = NULLS)\<rparr>,
     fl_right = \<lparr>cd_field = CondValue v, cd_refers_outer = junk, cd_offset = 0, cd_nullable = False, cd_isnull = (v_type v = NULLS)\<rparr>,
     fl_type = attr_type f, fl_comp = opr, float_int = fi, int_left = (fi \<and> attr_type f = INTS)\<rparr>"

lemma column_filter_sel [simp]:
  "fl_comp (column_filter f opr v fi junk) = opr" "fl_type (column_filter f opr v fi junk) = attr_type f"
  by (simp_all add: column_filter_def)

lemma column_filter_init:
  assumes "field_by_name m (fm_name f) = Some f" "v_type v = attr_type f \<or> mixed_numbers (attr_type f) (v_type v)"
  shows "filter_init strptime mktime env unused junk m (column_condition (fm_name f) opr v)
    = Some (Inr (column_filter f opr v (v_type v \<noteq> attr_type f) junk))"
  using assms by (auto simp: filter_init_def column_condition_def column_filter_def attr_field_def mixed_numbers_def)

lemma column_memory:
  assumes "read_field f mem = Some [x]" "attr_type f = t" "t = INTS \<or> t = CHARS \<or> t = DATE"
  shows "\<exists>l. side_memory mem (fl_left (column_filter f opr v fi junk)) = Some (x = NullValue, Some l) \<and>
    (x \<noteq> NullValue \<longrightarrow> from_memory t l = Some x)"
proof (cases "nullable f")
  case True
  then show ?thesis using assms
    by (elim disjE) (auto simp: read_field_def side_memory_def column_filter_def from_memory_def value_from_def
      read_int_def segment_def Let_def split: if_splits)
next
  case False
  then show ?thesis using assms
    by (elim disjE) (auto simp: read_field_def side_memory_def column_filter_def from_memory_def value_from_def
      read_int_def segment_def Let_def split: if_splits)
qed

text \<open>Without a null flag in front of the column, comparing the values gives the same answer.\<close>

lemma column_value:
  assumes "read_field f mem = Some [x]" "attr_type f = t" "t = INTS \<or> t = CHARS \<or> t = DATE" "\<not> nullable f"
  shows "side_value ctx t mem (fl_left (column_filter f opr v fi junk)) = Some x" "x \<noteq> NullValue"
  using assms
  by (auto simp: read_field_def column_filter_def from_memory_def value_from_def read_int_def segment_def Let_def split: if_splits)

lemma filter_by_values:
  fixes env :: "'q sub_env"
  assumes "read_field f mem = Some [x]" "attr_type f \<in> {INTS, CHARS, DATE}" "\<not> nullable f" "comparison opr"
    and v: "v_type v = attr_type f" "from_memory (v_type v) (v_data v) = Some w" "w \<noteq> NullValue" "value_compare x w = Some c"
  shows "default_filter env ctx (column_filter f opr v False True) mem = Some (comp_result opr c)"
proof -
  let ?fl = "column_filter f opr v False True :: 'q DefaultConditionFilter"
  have t: "attr_type f = INTS \<or> attr_type f = CHARS \<or> attr_type f = DATE" using assms(2) by auto
  have x: "side_value ctx (attr_type f) mem (fl_left ?fl) = Some x" "x \<noteq> NullValue" using column_value [OF assms(1) refl t assms(3)] by blast+
  have "both_values env ctx (attr_type f) mem (fl_left ?fl) (fl_right ?fl) = Some (x, w)"
    using x(1) v(1,2) by (simp add: both_values_def column_filter_def)
  then have "subquery_filter env ctx ?fl mem = Some (Some c)"
    using x(2) v(3,4) by (simp add: subquery_filter_def is_null_def column_filter_def)
  moreover have "by_values ?fl" using assms(4) v(1) t by (auto simp: by_values_def column_filter_def comparison_def)
  ultimately show ?thesis by (simp add: default_filter_def)
qed

text \<open>
  C11. A condition that compares an integer, string or date column with a constant of that type
  selects a record exactly when the column is not null and the value that the record is shown with
  stands in the relation to the constant: numbers, days and strings in their order. Integers are between
  \<^verbatim>\<open>-2^30\<close> and \<^verbatim>\<open>2^30\<close>, so that their difference does not overflow. The descriptor of a constant has a member
  \<^verbatim>\<open>refers_outer\<close> that is not initialised, here \<^verbatim>\<open>junk\<close>: for a nullable column the answer is right only when it
  happens to be false.
\<close>

theorem column_filter_selects:
  fixes env :: "'q sub_env"
  assumes f: "field_by_name m (fm_name f) = Some f" "attr_type f \<in> {INTS, CHARS, DATE}" "comparison opr"
    and x: "read_field f mem = Some [x]" "x = NullValue \<or> orderable (attr_type f) x"
    and v: "v_type v = attr_type f" "from_memory (v_type v) (v_data v) = Some w" "orderable (attr_type f) w"
    and junk: "junk \<longrightarrow> \<not> nullable f"
  shows "\<exists>fl. filter_init strptime mktime env unused junk m (column_condition (fm_name f) opr v) = Some (Inr fl) \<and>
    default_filter env ctx fl mem = Some (x \<noteq> NullValue \<and> key_rel opr (value_key x) (value_key w))"
proof -
  let ?fl = "column_filter f opr v False junk :: 'q DefaultConditionFilter"
  have t: "attr_type f = INTS \<or> attr_type f = CHARS \<or> attr_type f = DATE" using f(2) by auto
  have w: "w \<noteq> NullValue" using v(3) by (auto simp: orderable_def)
  have key: "\<exists>c. value_compare x w = Some c \<and> (comp_result opr c \<longleftrightarrow> key_rel opr (value_key x) (value_key w))" if "x \<noteq> NullValue"
  proof -
    have o: "orderable (attr_type f) x" using x(2) that by simp
    obtain c where c: "value_compare x w = Some c" using value_compare_order [OF o v(3)] by blast
    then show ?thesis using comp_result_key [OF o v(3) f(3) c] by blast
  qed
  have "default_filter env ctx ?fl mem = Some (x \<noteq> NullValue \<and> key_rel opr (value_key x) (value_key w))"
  proof (cases junk)
    case True
    then have n: "\<not> nullable f" using junk by simp
    have x': "x \<noteq> NullValue" by (rule column_value(2) [OF x(1) refl t n])
    obtain c where c: "value_compare x w = Some c" "comp_result opr c \<longleftrightarrow> key_rel opr (value_key x) (value_key w)" using key [OF x'] by blast
    show ?thesis using True x' c(2) filter_by_values [OF x(1) f(2) n f(3) v(1,2) w c(1), of env ctx] by simp
  next
    case False
    obtain l where l: "side_memory mem (fl_left ?fl) = Some (x = NullValue, Some l)" "x \<noteq> NullValue \<Longrightarrow> from_memory (attr_type f) l = Some x"
      using column_memory [OF x(1) refl t] by blast
    have r: "side_memory mem (fl_right ?fl) = Some (False, Some (v_data v))"
      using v(1) t by (auto simp: side_memory_def column_filter_def)
    have nv: "\<not> by_values ?fl" using False by (simp add: by_values_def column_filter_def)
    have "map_option (comp_result opr) (compare_memory (attr_type f) l (v_data v)) = Some (key_rel opr (value_key x) (value_key w))"
      if "x \<noteq> NullValue"
      using compare_memory_value [OF l(2) [OF that] v(2) [unfolded v(1)] t] key [OF that] by auto
    then show ?thesis using l(1) r nv f(3) by (auto simp: default_filter_def comparison_def)
  qed
  then show ?thesis
    using column_filter_init [of m f v strptime mktime env unused junk opr] f(1) v(1) by auto
qed

definition age :: FieldMeta where
  "age = \<lparr>fm_name = ''age'', attr_type = INTS, attr_offset = 4, attr_len = 8, visible = True, nullable = True\<rparr>"

definition int_const :: "int \<Rightarrow> sql_value" where
  "int_const i = \<lparr>v_type = INTS, v_data = int_bytes i\<rparr>"

definition no_subqueries :: "unit sub_env" where
  "no_subqueries = \<lparr>se_table = (\<lambda>_. None), se_type = (\<lambda>_. UNDEFINED), se_scalar = (\<lambda>_ _. NullValue), se_set = (\<lambda>_ _. []), se_hash = (\<lambda>_. 0)\<rparr>"

theorem column_filter_selects_witness:
  "\<exists>fl. filter_init (\<lambda>_. None) (\<lambda>_. 0) no_subqueries True False (tm_new\<lparr>tm_fields := [age]\<rparr>) (column_condition ''age'' LESS_THAN (int_const 30)) = Some (Inr fl)
    \<and> default_filter no_subqueries [] fl (int_bytes 0 @ int_bytes 0 @ int_bytes 18) = Some True"
proof -
  have f: "field_by_name (tm_new\<lparr>tm_fields := [age]\<rparr>) (fm_name age) = Some age" "attr_type age \<in> {INTS, CHARS, DATE}" "comparison LESS_THAN"
    by (simp_all add: field_by_name_def age_def comparison_def)
  have x: "read_field age (int_bytes 0 @ int_bytes 0 @ int_bytes 18) = Some [IntValue 18]"
    by (simp add: read_field_def age_def int_bytes_def upt_rec read_int_def le_word_def segment_def)
  have v: "v_type (int_const 30) = attr_type age" "from_memory (v_type (int_const 30)) (v_data (int_const 30)) = Some (IntValue 30)"
    by (simp_all add: int_const_def age_def from_memory_def value_from_def int_bytes_def upt_rec read_int_def le_word_def segment_def)
  show ?thesis
    using column_filter_selects [OF f x _ v, of False "\<lambda>_. None" "\<lambda>_. 0" no_subqueries True "[]"]
    by (simp add: orderable_def value_type_def age_def key_rel_def value_key_def)
qed

section \<open>Where the filter is wrong\<close>

text \<open>
  C34. The difference of two integers is computed in 32 bits: when it overflows, \<^verbatim>\<open><\<close> rejects a record
  whose column is less than the constant and \<^verbatim>\<open>>\<close> accepts it.
\<close>

theorem int_filter_overflow:
  assumes "attr_type f = INTS" "\<not> nullable f" "v_type v = INTS" "nat (attr_offset f) + 4 \<le> length mem" "4 \<le> length (v_data v)"
    and "i = read_int mem (nat (attr_offset f))" "j = read_int (v_data v) 0" "i - j < - (2 ^ 31)"
  shows "i < j \<and> default_filter env ctx (column_filter f LESS_THAN v False junk) mem = Some False
    \<and> default_filter env ctx (column_filter f GREAT_THAN v False junk) mem = Some True"
proof -
  have rng: "- (2 ^ 31) \<le> i" "i < 2 ^ 31" "- (2 ^ 31) \<le> j" "j < 2 ^ 31"
    using assms(6,7) sint_ge [where ?'a = 32] sint_lt [where ?'a = 32] by (simp_all add: read_int_def)
  then have "in_int i" "in_int j" by (simp_all add: in_int_def)
  then have "\<not> wrap32 (i - j) < 0" "0 < wrap32 (i - j)" using wrap32_low(2) assms(8) by fastforce+
  then show ?thesis using assms rng
    by (cases junk) (simp_all add: default_filter_def by_values_def column_filter_def side_memory_def compare_memory_def comp_result_def
      subquery_filter_def both_values_def from_memory_def value_from_def is_null_def value_compare_def read_int_def segment_def)
qed

definition small_age :: FieldMeta where
  "small_age = \<lparr>fm_name = ''age'', attr_type = INTS, attr_offset = 4, attr_len = 4, visible = True, nullable = False\<rparr>"

theorem int_filter_overflow_witness:
  "default_filter no_subqueries [] (column_filter small_age LESS_THAN (int_const 2147483647) False False) (int_bytes 0 @ int_bytes (- 2)) = Some False"
proof -
  have i: "in_int (- 2)" "in_int 2147483647" by (simp_all add: in_int_def)
  have "read_int (int_bytes 0 @ int_bytes (- 2)) 4 = - 2" "read_int (int_bytes 2147483647) 0 = 2147483647"
    using read_int_at(1) [OF i(1), of 4 "int_bytes 0" "[]"] read_int_at(2) [OF i(2)] by simp_all
  then show ?thesis
    using int_filter_overflow [of small_age "int_const 2147483647" "int_bytes 0 @ int_bytes (- 2)" "- 2" 2147483647 no_subqueries "[]" False]
    by (simp add: small_age_def int_const_def)
qed

text \<open>
  C35. A nullable integer column that is compared with a float constant is not compared: in place of
  its value the filter reads the null flag in front of it, which is 0 for every value, and a null
  column is taken for the number that its flag is.
\<close>

theorem nullable_column_against_float:
  assumes "attr_type f = INTS" "nullable f" "v_type v = FLOATS" "nat (attr_offset f) + 8 \<le> length mem" "4 \<le> length (v_data v)"
    and "comparison opr" "flag = le_word (segment mem (nat (attr_offset f)) 4)"
  shows "default_filter env ctx (column_filter f opr v True junk) mem
    = Some (comp_result opr (float_value_compare (float_of_int flag) (float_of (read_uint (v_data v) 0))))"
  using assms
  by (auto simp: default_filter_def by_values_def column_filter_def comparison_def subquery_filter_def both_values_def
    from_memory_def value_from_def is_null_def mixed_compare_def read_int_def read_uint_def segment_def)

theorem nullable_column_against_float_witness:
  "default_filter no_subqueries [] (column_filter age GREAT_THAN \<lparr>v_type = FLOATS, v_data = [0, 0, 128, 63]\<rparr> True False)
     (int_bytes 0 @ int_bytes 0 @ int_bytes 18) = Some False"
proof -
  have "comparison GREAT_THAN" by (simp add: comparison_def)
  then show ?thesis
    using nullable_column_against_float [of age "\<lparr>v_type = FLOATS, v_data = [0, 0, 128, 63]\<rparr>" "int_bytes 0 @ int_bytes 0 @ int_bytes 18" GREAT_THAN _ no_subqueries "[]" False]
    by (simp add: age_def int_bytes_def upt_rec le_word_def segment_def read_uint_def comp_result_def float_value_compare_def
      float_of_int_def float_of_def flt_round_def round_by_def excess_bits.simps)
qed

text \<open>
  What happens to a nullable column when the uninitialised \<^verbatim>\<open>refers_outer\<close> of the constant is true: the values are
  compared, and in place of the column the null flag in front of it is read. A null, with a flag of 1, is
  less than 10, and the value 18 is not found.
\<close>

lemma nullable_column_junk:
  assumes "attr_type f = INTS" "nullable f" "v_type v = INTS" "nat (attr_offset f) + 8 \<le> length mem" "4 \<le> length (v_data v)" "comparison opr"
  shows "default_filter env ctx (column_filter f opr v False True) mem
    = Some (comp_result opr (wrap32 (read_int mem (nat (attr_offset f)) - read_int (v_data v) 0)))"
  using assms
  by (auto simp: default_filter_def by_values_def column_filter_def comparison_def subquery_filter_def both_values_def
    from_memory_def value_from_def is_null_def value_compare_def read_int_def segment_def)

end
