(* ===== verification/Bplus_Index.thy ===== *)
theory Bplus_Index
  imports Bplus_Scan Table_Meta
begin

text \<open>
  Indexes of tables (\<^verbatim>\<open>storage/common/index.cpp\<close> and \<^verbatim>\<open>bplus_tree_index.cpp\<close>): an index takes its
  key out of the bytes of a record and passes it to the B+ tree.
\<close>

record index =
  ix_meta :: IndexMeta
  ix_fields :: "FieldMeta list"
  inited :: bool
  index_handler :: bt_handler

definition index_new :: index where
  "index_new = \<lparr>ix_meta = \<lparr>im_name = [], im_fields = []\<rparr>, ix_fields = [], inited = False, index_handler = bt_new\<rparr>"

type_synonym ('s, 'a) index_op = "(index \<times> 's, 'a) M"

definition on_tree :: "('s, 'a) tree_op \<Rightarrow> ('s, 'a) index_op" where
  "on_tree m = (\<lambda>(ix, s). case m (index_handler ix, s) of
      None \<Rightarrow> None
    | Some (r, (h, s')) \<Rightarrow> Some (r, (ix\<lparr>index_handler := h\<rparr>, s')))"

definition bti_init :: "IndexMeta \<Rightarrow> FieldMeta list \<Rightarrow> ('s, unit) index_op" where
  "bti_init im fs = upd_handler (\<lambda>ix. ix\<lparr>ix_meta := im, ix_fields := fs\<rparr>)"

text \<open>The types and lengths are collected in arrays of 20 elements.\<close>

definition bti_create :: "('s, ix_page) pool_ops \<Rightarrow> string \<Rightarrow> IndexMeta \<Rightarrow> FieldMeta list \<Rightarrow> ('s, unit) index_op" where
  "bti_create ops name im fs = bindE (gets fst) (\<lambda>ix.
     if inited ix then fail RECORD_OPENNED
     else bindE (bti_init im fs) (\<lambda>_.
       if length fs > 20 then undef
       else bindE (on_tree (bt_create ops name (map attr_type fs) (map (nat \<circ> attr_len) fs))) (\<lambda>_.
         upd_handler (\<lambda>ix. ix\<lparr>inited := True\<rparr>))))"

definition bti_open :: "('s, ix_page) pool_ops \<Rightarrow> string \<Rightarrow> IndexMeta \<Rightarrow> FieldMeta list \<Rightarrow> ('s, unit) index_op" where
  "bti_open ops name im fs = bindE (gets fst) (\<lambda>ix.
     if inited ix then fail RECORD_OPENNED
     else bindE (bti_init im fs) (\<lambda>_.
       bindE (on_tree (bt_open ops name)) (\<lambda>_. upd_handler (\<lambda>ix. ix\<lparr>inited := True\<rparr>))))"

definition bti_close :: "('s, ix_page) pool_ops \<Rightarrow> ('s, unit) index_op" where
  "bti_close ops = bindE (gets fst) (\<lambda>ix.
     if inited ix then bindE (ignoring (on_tree (bt_close ops))) (\<lambda>_. upd_handler (\<lambda>ix. ix\<lparr>inited := False\<rparr>)) else ret ())"

text \<open>The key of a record: the fields of the index, one after the other.\<close>

fun index_key :: "FieldMeta list \<Rightarrow> byte list \<Rightarrow> byte list option" where
  "index_key [] rec = Some []"
| "index_key (f # fs) rec =
    (if 0 \<le> attr_offset f \<and> 0 \<le> attr_len f \<and> nat (attr_offset f) + nat (attr_len f) \<le> length rec
     then map_option ((@) (segment rec (nat (attr_offset f)) (nat (attr_len f)))) (index_key fs rec) else None)"

definition bti_insert_entry :: "('s, ix_page) pool_ops \<Rightarrow> byte list \<Rightarrow> RID \<Rightarrow> ('s, unit) index_op" where
  "bti_insert_entry ops rec rid = bindE (gets fst) (\<lambda>ix.
     bindE (lift_opt (index_key (ix_fields ix) rec)) (\<lambda>key. on_tree (insert_entry ops key rid)))"

definition bti_delete_entry :: "('s, ix_page) pool_ops \<Rightarrow> byte list \<Rightarrow> RID \<Rightarrow> ('s, unit) index_op" where
  "bti_delete_entry ops rec rid = bindE (gets fst) (\<lambda>ix.
     bindE (lift_opt (index_key (ix_fields ix) rec)) (\<lambda>key. on_tree (delete_entry ops key rid)))"

definition bti_sync :: "('s, ix_page) pool_ops \<Rightarrow> ('s, unit) index_op" where
  "bti_sync ops = on_tree (bt_sync ops)"

text \<open>A scan of an index beside the index.\<close>

definition on_index_scan :: "('s, 'a) scan_op \<Rightarrow> (bt_scanner \<times> index \<times> 's, 'a) M" where
  "on_index_scan m = (\<lambda>(sc, ix, s). case m (sc, index_handler ix, s) of
      None \<Rightarrow> None
    | Some (r, (sc', h, s')) \<Rightarrow> Some (r, (sc', ix\<lparr>index_handler := h\<rparr>, s')))"

text \<open>\<^verbatim>\<open>create_scanner\<close>: a null pointer when the scan cannot be opened.\<close>

definition create_scanner :: "('s, ix_page) pool_ops \<Rightarrow> CompOp \<Rightarrow> byte list option \<Rightarrow> ('s, bt_scanner option) index_op" where
  "create_scanner ops opr val = (\<lambda>(ix, s). case on_index_scan (bts_open ops opr val) (bts_new, ix, s) of
      None \<Rightarrow> None
    | Some (r, (sc, ix', s')) \<Rightarrow> Some (Inr (case r of Inl rc \<Rightarrow> None | Inr _ \<Rightarrow> Some sc), (ix', s')))"

definition index_scan_next :: "('s, ix_page) pool_ops \<Rightarrow> (bt_scanner \<times> index \<times> 's, RID) M" where
  "index_scan_next ops = on_index_scan (next_entry ops)"

definition index_scan_destroy :: "(bt_scanner \<times> index \<times> 's, unit) M" where
  "index_scan_destroy = ignoring (on_index_scan bts_close)"

end
