(* ===== verification/Table_Record.thy ===== *)
theory Table_Record
  imports Bplus_Index Trx Value
begin

text \<open>
  Tables (\<^verbatim>\<open>storage/common/table.cpp\<close>), first part: the state of a table, its indexes, and the operations on
  one record that statements and the end of a transaction are made of.

  The state is the table, the transaction of the session with the counter of transaction numbers, and
  the buffer pool with the files. Operations of the parts run on their part of it. A transaction
  that is a null pointer is the argument \<^verbatim>\<open>False\<close>.

  \<^verbatim>\<open>get_record\<close> returns a pointer into a page that is no longer pinned. The bytes are those of the moment
  of the call; a write through the pointer goes into the frame and does not mark it as dirty.
\<close>

section \<open>State\<close>

record table =
  tb_id :: nat
  tb_meta :: TableMeta
  tb_base_dir :: string
  tb_pool :: bool
  tb_file_id :: int
  record_handler :: "rec_file option"
  tb_indexes :: "index list"
  tb_unique :: "index list"
  multi_insertion_flag :: bool
  rollback_rids :: "RID list"

record 's tenv =
  te_table :: table
  te_trx :: "32 word \<times> nat Trx"
  te_sys :: "FieldMeta list"
  te_first :: int
  te_pool :: 's

text \<open>\<^verbatim>\<open>multi_insertion_flag\<close> is not initialised.\<close>

definition table_new :: "nat \<Rightarrow> bool \<Rightarrow> table" where
  "table_new i junk = \<lparr>tb_id = i, tb_meta = tm_new, tb_base_dir = [], tb_pool = False, tb_file_id = - 1, record_handler = None,
     tb_indexes = [], tb_unique = [], multi_insertion_flag = junk, rollback_rids = []\<rparr>"

type_synonym ('s, 'a) table_op = "('s tenv, 'a) M"

text \<open>An operation on a part of the state.\<close>

definition zoom :: "('b \<Rightarrow> 'a) \<Rightarrow> ('a \<Rightarrow> 'b \<Rightarrow> 'b) \<Rightarrow> ('a, 'r) M \<Rightarrow> ('b, 'r) M" where
  "zoom g p m = (\<lambda>b. case m (g b) of None \<Rightarrow> None | Some (r, a) \<Rightarrow> Some (r, p a b))"

lemma zoom_run [run]: "m (g b) = Some (r, a) \<Longrightarrow> zoom g p m b = Some (r, p a b)"
  by (simp add: zoom_def)

definition on_pool :: "('s, 'a) M \<Rightarrow> ('s, 'a) table_op" where
  "on_pool m = zoom te_pool (\<lambda>s e. e\<lparr>te_pool := s\<rparr>) m"

definition on_trx :: "(nat, 'a) trx_op \<Rightarrow> ('s, 'a) table_op" where
  "on_trx m = zoom te_trx (\<lambda>t e. e\<lparr>te_trx := t\<rparr>) m"

definition upd_table_state :: "(table \<Rightarrow> table) \<Rightarrow> ('s, unit) table_op" where
  "upd_table_state f = modify (\<lambda>e. e\<lparr>te_table := f (te_table e)\<rparr>)"

text \<open>The record file; without one, \<^verbatim>\<open>record_handler_\<close> is a null pointer.\<close>

definition on_file :: "(rec_file \<times> 's, 'a) M \<Rightarrow> ('s, 'a) table_op" where
  "on_file m = bindE (gets (\<lambda>e. record_handler (te_table e))) (\<lambda>h. case h of
      None \<Rightarrow> undef
    | Some f \<Rightarrow> zoom (\<lambda>e. (f, te_pool e)) (\<lambda>(f', s) e. e\<lparr>te_table := (te_table e)\<lparr>record_handler := Some f'\<rparr>, te_pool := s\<rparr>) m)"

definition get_meta :: "('s, TableMeta) table_op" where
  "get_meta = gets (\<lambda>e. tb_meta (te_table e))"

section \<open>Indexes of a record\<close>

text \<open>A loop over indexes: \<^verbatim>\<open>rc\<close> is the result of the last one, and the loop breaks at a result that stops
  it.\<close>

fun index_loop :: "('s, unit) index_op \<Rightarrow> (RC \<Rightarrow> bool) \<Rightarrow> index list \<Rightarrow> RC + unit \<Rightarrow> 's \<Rightarrow> ((RC + unit) \<times> index list \<times> 's) option" where
  "index_loop m stop [] rc s = Some (rc, [], s)"
| "index_loop m stop (ix # ixs) rc s = (case m (ix, s) of
      None \<Rightarrow> None
    | Some (r, (ix', s')) \<Rightarrow>
        if (case r of Inl e \<Rightarrow> stop e | Inr _ \<Rightarrow> False) then Some (r, ix' # ixs, s')
        else map_option (\<lambda>(r', ixs', s''). (r', ix' # ixs', s'')) (index_loop m stop ixs r s'))"

definition on_indexes :: "('s, unit) index_op \<Rightarrow> (RC \<Rightarrow> bool) \<Rightarrow> RC + unit \<Rightarrow> ('s, unit) table_op" where
  "on_indexes m stop rc = (\<lambda>e. case index_loop m stop (tb_indexes (te_table e)) rc (te_pool e) of
      None \<Rightarrow> None
    | Some (r, ixs, s) \<Rightarrow> Some (r, e\<lparr>te_table := (te_table e)\<lparr>tb_indexes := ixs\<rparr>, te_pool := s\<rparr>))"

definition on_unique :: "('s, unit) index_op \<Rightarrow> (RC \<Rightarrow> bool) \<Rightarrow> RC + unit \<Rightarrow> ('s, unit) table_op" where
  "on_unique m stop rc = (\<lambda>e. case index_loop m stop (tb_unique (te_table e)) rc (te_pool e) of
      None \<Rightarrow> None
    | Some (r, ixs, s) \<Rightarrow> Some (r, e\<lparr>te_table := (te_table e)\<lparr>tb_unique := ixs\<rparr>, te_pool := s\<rparr>))"

text \<open>A record that has not been read is \<^verbatim>\<open>None\<close>: its data is an uninitialised pointer.\<close>

definition with_record :: "byte list option \<Rightarrow> (byte list \<Rightarrow> ('s, unit) index_op) \<Rightarrow> ('s, unit) index_op" where
  "with_record rec f = (case rec of None \<Rightarrow> undef | Some b \<Rightarrow> f b)"

text \<open>The second loop of \<^verbatim>\<open>insert_entry_of_indexes\<close> runs whatever the first one has returned.\<close>

definition insert_entry_of_indexes :: "('s, ix_page) pool_ops \<Rightarrow> byte list option \<Rightarrow> RID \<Rightarrow> ('s, unit) table_op" where
  "insert_entry_of_indexes iops rec rid =
    (let m = with_record rec (\<lambda>b. bti_insert_entry iops b rid) in
     attempt (on_indexes m (\<lambda>_. True) (Inr ())) (\<lambda>rc. on_unique m (\<lambda>_. True) rc))"

definition delete_entry_of_indexes :: "('s, ix_page) pool_ops \<Rightarrow> byte list option \<Rightarrow> RID \<Rightarrow> bool \<Rightarrow> ('s, unit) table_op" where
  "delete_entry_of_indexes iops rec rid error_on_not_exists =
    on_indexes (with_record rec (\<lambda>b. bti_delete_entry iops b rid))
      (\<lambda>rc. rc \<noteq> RECORD_INVALID_KEY \<or> \<not> error_on_not_exists) (Inr ())"

section \<open>One record\<close>

text \<open>\<^verbatim>\<open>RecordFileHandler::get_record\<close> with the pointer that \<^verbatim>\<open>record.data\<close> is.\<close>

definition get_record_ptr :: "('s, rec_page) pool_ops \<Rightarrow> RID \<Rightarrow> (rec_file \<times> 's, (byte list \<times> BPPageHandle) option) M" where
  "get_record_ptr ops rid = bindE rf_fid (\<lambda>file_id.
     local_handler ops (opened ops file_id (rid_page rid)
       (bindE (rph_get_record ops rid) (\<lambda>b. bindE (gets fst) (\<lambda>h. ret (map_option (Pair b) (ph_header h))))) None))"

definition write_record :: "('s, rec_page) pool_ops \<Rightarrow> BPPageHandle \<Rightarrow> RID \<Rightarrow> byte list \<Rightarrow> ('s, unit) M" where
  "write_record ops p rid bytes = bindE (op_peek_data ops p) (\<lambda>d.
     bindE (lift_opt (copy_in (body d) (slot_offset d (rid_slot rid)) bytes (record_real_size d))) (\<lambda>mem.
     op_put_data ops p (d\<lparr>body := mem\<rparr>)))"

text \<open>\<^verbatim>\<open>commit_insert\<close>, \<^verbatim>\<open>commit_update\<close> and \<^verbatim>\<open>rollback_delete\<close>\<close>

definition release_record :: "('s, rec_page) pool_ops \<Rightarrow> RID \<Rightarrow> ('s, unit) table_op" where
  "release_record ops rid = bindE (on_file (get_record_ptr ops rid)) (\<lambda>r. case r of
      None \<Rightarrow> undef
    | Some (bytes, p) \<Rightarrow>
        bindE get_meta (\<lambda>m.
        bindE (lift_opt (clear_trx_id m bytes)) (\<lambda>bytes'.
        on_pool (write_record ops p rid bytes'))))"

definition rollback_insert :: "('s, rec_page) pool_ops \<Rightarrow> ('s, ix_page) pool_ops \<Rightarrow> RID \<Rightarrow> ('s, unit) table_op" where
  "rollback_insert ops iops rid = bindE (on_file (rf_get_record ops rid)) (\<lambda>rec.
     bindE (delete_entry_of_indexes iops rec rid False) (\<lambda>_.
     on_file (rf_delete_record ops rid)))"

definition commit_delete :: "('s, rec_page) pool_ops \<Rightarrow> ('s, ix_page) pool_ops \<Rightarrow> RID \<Rightarrow> ('s, unit) table_op" where
  "commit_delete ops iops rid = bindE (on_file (rf_get_record ops rid)) (\<lambda>rec.
     bindE (ignoring (delete_entry_of_indexes iops rec rid False)) (\<lambda>_.
     on_file (rf_delete_record ops rid)))"

text \<open>What a transaction calls.\<close>

definition table_trx_ops :: "('s, rec_page) pool_ops \<Rightarrow> ('s, ix_page) pool_ops \<Rightarrow> (nat, 's tenv) trx_tables" where
  "table_trx_ops ops iops = \<lparr>
     tt_commit_insert = (\<lambda>_. release_record ops), tt_commit_delete = (\<lambda>_. commit_delete ops iops),
     tt_commit_update = (\<lambda>_. release_record ops), tt_rollback_insert = (\<lambda>_. rollback_insert ops iops),
     tt_rollback_delete = (\<lambda>_. release_record ops)\<rparr>"

text \<open>\<^verbatim>\<open>insert_record(Trx *, Record *)\<close> for the bytes of a record.\<close>

definition insert_record :: "('s, rec_page) pool_ops \<Rightarrow> ('s, ix_page) pool_ops \<Rightarrow> bool \<Rightarrow> byte list \<Rightarrow> ('s, RID) table_op" where
  "insert_record ops iops trx bytes = bindE get_meta (\<lambda>m.
     bindE (gets te_trx) (\<lambda>(n, t).
     bindE (if trx then lift_opt (init_trx_info m t bytes) else ret bytes) (\<lambda>b.
     bindE (on_file (rf_insert_record ops b (TableMeta.record_size m))) (\<lambda>rid. case rid of
         None \<Rightarrow> undef
       | Some rid \<Rightarrow>
           bindE (gets (\<lambda>e. tb_id (te_table e))) (\<lambda>me.
           attempt (if trx then on_trx (trx_insert_record me rid) else ret ()) (\<lambda>r. case r of
               Inl rc \<Rightarrow> bindE (ignoring (on_file (rf_delete_record ops rid))) (\<lambda>_. fail rc)
             | Inr _ \<Rightarrow> attempt (insert_entry_of_indexes iops (Some b) rid) (\<lambda>r. case r of
                 Inl rc \<Rightarrow>
                   bindE (ignoring (delete_entry_of_indexes iops (Some b) rid True)) (\<lambda>_.
                   bindE (ignoring (on_file (rf_delete_record ops rid))) (\<lambda>_. fail rc))
               | Inr _ \<Rightarrow> ret rid)))))))"

text \<open>\<^verbatim>\<open>update_record(Trx *, Record *, Record *)\<close>: the transaction stamps the buffer of the new record after it
  has been copied into the page.\<close>

definition update_record :: "('s, rec_page) pool_ops \<Rightarrow> ('s, ix_page) pool_ops \<Rightarrow> bool \<Rightarrow> RID \<Rightarrow> byte list \<Rightarrow> byte list \<Rightarrow> ('s, unit) table_op" where
  "update_record ops iops trx rid old_bytes new_bytes =
    bindE (delete_entry_of_indexes iops (Some old_bytes) rid False) (\<lambda>_.
    bindE (insert_entry_of_indexes iops (Some new_bytes) rid) (\<lambda>_.
    bindE (on_file (rf_update_record ops rid new_bytes)) (\<lambda>_.
    if trx then bindE get_meta (\<lambda>m.
      bindE (gets (\<lambda>e. tb_id (te_table e))) (\<lambda>me.
      bindE (on_trx (trx_update_record m me new_bytes rid)) (\<lambda>_. ret ())))
    else ret ())))"

text \<open>\<^verbatim>\<open>delete_record(Trx *, Record *)\<close>. The bytes are those that \<^verbatim>\<open>record->data\<close> points to, and the result are
  the bytes with the mark of the transaction, for the caller to write through the pointer.\<close>

fun delete_rids :: "('s, rec_page) pool_ops \<Rightarrow> RID list \<Rightarrow> ('s, unit) table_op" where
  "delete_rids ops [] = ret ()"
| "delete_rids ops (rid # rs) = bindE (on_file (rf_delete_record ops rid)) (\<lambda>_. delete_rids ops rs)"

definition record_times :: "TableMeta \<Rightarrow> int" where
  "record_times m = div0 (TableMeta.record_size m + 4055) 4056"

definition delete_record :: "('s, rec_page) pool_ops \<Rightarrow> ('s, ix_page) pool_ops \<Rightarrow> bool \<Rightarrow> RID \<Rightarrow> byte list \<Rightarrow> ('s, byte list) table_op" where
  "delete_record ops iops trx rid bytes = bindE get_meta (\<lambda>m.
     bindE (gets te_table) (\<lambda>tb.
     let rs = (if record_times m > 1 then rollback_rids tb else [rid]) in
     if trx then on_trx (trx_delete_record m (tb_id tb) bytes rs)
     else bindE (delete_entry_of_indexes iops (Some bytes) rid False) (\<lambda>_.
       bindE (delete_rids ops rs) (\<lambda>_. ret bytes))))"

end
