(* ===== verification/Table_Scan.thy ===== *)
theory Table_Scan
  imports Table_Record Condition_Filter
begin

text \<open>
  Tables, second part: going through the records of a table, with or without an index, and the
  statements that do it: selecting, deleting and updating.

  The \<^verbatim>\<open>context\<close> of a record reader is the first component of the state. A filter without a defined
  result for a record does not accept it.
\<close>

section \<open>What the table uses\<close>

record ('q, 's) system =
  sy_ops :: "('s, rec_page) pool_ops"
  sy_iops :: "('s, ix_page) pool_ops"
  sy_env :: "'q sub_env"
  sy_ctx :: attr_context
  sy_strptime :: "byte list \<Rightarrow> tm option"
  sy_mktime :: "tm \<Rightarrow> int"
  sy_junk :: bool

type_synonym 'q filter_ptr = "'q DefaultConditionFilter list option"

text \<open>A null pointer accepts every record; a single condition is a list of one. The scanner takes a function
  to truth values: a record that is too short for the filter counts as not accepted.\<close>

definition accepts :: "('q, 's) system \<Rightarrow> 'q filter_ptr \<Rightarrow> byte list \<Rightarrow> bool" where
  "accepts sy flt bytes \<longleftrightarrow> (case flt of
      None \<Rightarrow> True
    | Some fls \<Rightarrow> composite_filter (map (default_filter (sy_env sy) (sy_ctx sy)) fls) bytes = Some True)"

definition row_visible :: "bool \<Rightarrow> byte list \<Rightarrow> ('s, bool) table_op" where
  "row_visible trx bytes =
    (if trx then bindE get_meta (\<lambda>m. bindE (gets te_trx) (\<lambda>(n, t). lift_opt (is_visible m t bytes))) else ret True)"

type_synonym ('c, 's) reader = "RID \<Rightarrow> byte list \<Rightarrow> BPPageHandle option \<Rightarrow> ('c \<times> 's tenv, unit) M"

section \<open>Without an index\<close>

type_synonym ('c, 's, 'a) scan_state_op = "(scanner \<times> 'c \<times> 's tenv, 'a) M"

definition on_scanner :: "(scanner \<times> 's, 'a) M \<Rightarrow> ('c, 's, 'a) scan_state_op" where
  "on_scanner m = zoom (\<lambda>(sc, c, e). (sc, te_pool e)) (\<lambda>(sc, s) (_, c, e). (sc, c, e\<lparr>te_pool := s\<rparr>)) m"

definition scan_env :: "('s, 'a) table_op \<Rightarrow> ('c, 's, 'a) scan_state_op" where
  "scan_env m = pool_op (pool_op m)"

definition scan_next :: "('s, rec_page) pool_ops \<Rightarrow> RID \<Rightarrow> ('c, 's, RID \<times> byte list option) scan_state_op" where
  "scan_next ops rid = on_scanner (sc_get_next_record ops rid)"

text \<open>The loop for records that fit into a page, with a bound on its rounds. The page of the current
  record is pinned by the scanner, and \<^verbatim>\<open>tmp.data\<close> points into it.\<close>

fun scan_rows :: "('q, 's) system \<Rightarrow> bool \<Rightarrow> ('c, 's) reader \<Rightarrow> int \<Rightarrow> nat \<Rightarrow> int \<Rightarrow> RC + RID \<times> byte list option \<Rightarrow> ('c, 's, unit) scan_state_op" where
  "scan_rows sy trx reader limit 0 cnt got = undef"
| "scan_rows sy trx reader limit (Suc k) cnt got = (case got of
      Inl rc \<Rightarrow> fail rc
    | Inr (rid, bytes) \<Rightarrow>
        if cnt \<ge> limit then ret ()
        else bindE (lift_opt bytes) (\<lambda>bytes.
          bindE (scan_env (row_visible trx bytes)) (\<lambda>vis.
          if vis
          then bindE (gets (\<lambda>(sc, _). ph_header (sc_handler sc))) (\<lambda>p.
            bindE (pool_op (reader rid bytes p)) (\<lambda>_.
            attempt (scan_next (sy_ops sy) rid) (scan_rows sy trx reader limit k (cnt + 1))))
          else attempt (scan_next (sy_ops sy) rid) (scan_rows sy trx reader limit k cnt))))"

text \<open>The loop for records of several pages: each chunk is copied behind the chunks before it, and every
  chunk but the first repeats four bytes. \<^verbatim>\<open>first\<close> is a global variable. A complete record goes to the
  filter and the reader, with the identifiers of its chunks in \<^verbatim>\<open>rollback_rids\<close>.\<close>

definition chunk_bytes :: "('s, rec_page) pool_ops \<Rightarrow> RID \<Rightarrow> int \<Rightarrow> int \<Rightarrow> ('c, 's, byte list) scan_state_op" where
  "chunk_bytes ops rid skip len = bindE (gets (\<lambda>(sc, _). ph_header (sc_handler sc))) (\<lambda>p. case p of
      None \<Rightarrow> undef
    | Some p \<Rightarrow> scan_env (on_pool (bindE (op_peek_data ops p) (\<lambda>d.
        lift_opt (copy_out (body d) (slot_offset d (rid_slot rid) + skip) len)))))"

definition connect_record :: "('s, rec_page) pool_ops \<Rightarrow> byte list \<Rightarrow> RID \<Rightarrow> int \<Rightarrow> int \<Rightarrow> ('c, 's, byte list) scan_state_op" where
  "connect_record ops buf rid off len = bindE (scan_env (gets te_first)) (\<lambda>fst'.
     bindE (chunk_bytes ops rid (if fst' = 0 then 0 else 4) len) (\<lambda>bs.
     bindE (lift_opt (copy_in buf (if fst' = 0 then 0 else off) bs len)) (\<lambda>buf'.
     bindE (scan_env (modify (\<lambda>e. e\<lparr>te_first := te_first e + 1\<rparr>))) (\<lambda>_. ret buf'))))"

definition fresh_buffer :: "TableMeta \<Rightarrow> byte list" where
  "fresh_buffer m = replicate (nat (TableMeta.record_size m + 4055)) 0"

fun scan_chunks :: "('q, 's) system \<Rightarrow> bool \<Rightarrow> 'q filter_ptr \<Rightarrow> ('c, 's) reader \<Rightarrow> TableMeta \<Rightarrow> int \<Rightarrow> nat \<Rightarrow> int \<Rightarrow> byte list \<Rightarrow> int
    \<Rightarrow> RC + RID \<times> byte list option \<Rightarrow> ('c, 's, unit) scan_state_op" where
  "scan_chunks sy trx flt reader m limit 0 cnt buf off got = undef"
| "scan_chunks sy trx flt reader m limit (Suc k) cnt buf off got = (case got of
      Inl rc \<Rightarrow> fail rc
    | Inr (rid, bytes) \<Rightarrow>
        if cnt \<ge> limit then ret ()
        else bindE (lift_opt bytes) (\<lambda>bytes.
          bindE (scan_env (row_visible trx bytes)) (\<lambda>vis.
          if \<not> vis then attempt (scan_next (sy_ops sy) rid) (scan_chunks sy trx flt reader m limit k cnt buf off)
          else bindE (scan_env (upd_table_state (\<lambda>tb. tb\<lparr>rollback_rids := rollback_rids tb @ [rid]\<rparr>))) (\<lambda>_.
            bindE (connect_record (sy_ops sy) buf rid off (if TableMeta.record_size m - off > 4056 then 4056 else TableMeta.record_size m - off)) (\<lambda>buf'.
            if (cnt + 1) mod record_times m = 0
            then attempt (if accepts sy flt buf' then pool_op (reader \<lparr>rid_page = 0, rid_slot = 0\<rparr> buf' None) else ret ()) (\<lambda>r.
              bindE (scan_env (modify (\<lambda>e. e\<lparr>te_first := 0, te_table := (te_table e)\<lparr>rollback_rids := []\<rparr>\<rparr>))) (\<lambda>_.
              (case r of
                Inl rc \<Rightarrow> fail rc
              | Inr _ \<Rightarrow> attempt (scan_next (sy_ops sy) rid) (scan_chunks sy trx flt reader m limit k (cnt + 1) (fresh_buffer m) 0))))
            else attempt (scan_next (sy_ops sy) rid) (scan_chunks sy trx flt reader m limit k (cnt + 1) buf' (off + 4056)))))))"

text \<open>A file has fewer than 2^15 pages and a page fewer than 2^15 slots.\<close>

definition scan_fuel :: nat where
  "scan_fuel = Suc (2 ^ 30)"

text \<open>The scanner is on the stack: its page handler lets go of its page at the end.\<close>

definition scan_file :: "('q, 's) system \<Rightarrow> bool \<Rightarrow> 'q filter_ptr \<Rightarrow> int \<Rightarrow> ('c, 's) reader \<Rightarrow> ('c \<times> 's tenv, unit) M" where
  "scan_file sy trx flt limit reader = (\<lambda>(c, e).
     let m = tb_meta (te_table e); single = (record_times m = 1) in
     case bindE (on_scanner (open_scan (tb_file_id (te_table e)) (if single then Some (\<lambda>_. accepts sy flt) else None))) (\<lambda>_.
         attempt (attempt (on_scanner (sc_get_first_record (sy_ops sy)))
           (if single then scan_rows sy trx reader limit scan_fuel 0
            else scan_chunks sy trx flt reader m limit scan_fuel 0 (fresh_buffer m) 0)) (\<lambda>r.
         bindE (on_scanner close_scan) (\<lambda>_.
         bindE (on_scanner (on_scan (rph_deinit (sy_ops sy)))) (\<lambda>_.
         if r = Inl RECORD_EOF then ret () else case r of Inl rc \<Rightarrow> fail rc | Inr _ \<Rightarrow> ret ())))) (sc_new, c, e) of
       None \<Rightarrow> None
     | Some (r, (sc, c', e')) \<Rightarrow> Some (r, (c', e')))"

section \<open>With an index\<close>

definition find_index :: "table \<Rightarrow> string \<Rightarrow> (nat + nat) option" where
  "find_index tb n = (case index_where (\<lambda>ix. im_name (ix_meta ix) = n) (tb_indexes tb) of
      Some i \<Rightarrow> Some (Inl i)
    | None \<Rightarrow> map_option Inr (index_where (\<lambda>ix. im_name (ix_meta ix) = n) (tb_unique tb)))"

fun the_index :: "table \<Rightarrow> nat + nat \<Rightarrow> index" where
  "the_index tb (Inl i) = tb_indexes tb ! i"
| "the_index tb (Inr i) = tb_unique tb ! i"

fun set_index :: "nat + nat \<Rightarrow> index \<Rightarrow> table \<Rightarrow> table" where
  "set_index (Inl i) ix tb = tb\<lparr>tb_indexes := (tb_indexes tb)[i := ix]\<rparr>"
| "set_index (Inr i) ix tb = tb\<lparr>tb_unique := (tb_unique tb)[i := ix]\<rparr>"

definition on_index :: "nat + nat \<Rightarrow> ('s, 'a) index_op \<Rightarrow> ('s, 'a) table_op" where
  "on_index pos m = zoom (\<lambda>e. (the_index (te_table e) pos, te_pool e))
     (\<lambda>(ix, s) e. e\<lparr>te_table := set_index pos ix (te_table e), te_pool := s\<rparr>) m"

text \<open>\<^verbatim>\<open>find_index_for_scan\<close> for one condition: the index, the operator and the value for the scan. The operator
  is the one of the condition, on whichever side the column is. The value of a subquery is an
  uninitialised pointer.\<close>

definition scan_candidate :: "table \<Rightarrow> 'q DefaultConditionFilter \<Rightarrow> ((nat + nat) \<times> CompOp \<times> byte list option) option option" where
  "scan_candidate tb fl =
    (let l = fl_left fl; r = fl_right fl;
       sides = (if is_attr (cd_field l) \<and> \<not> is_attr (cd_field r) then Some (l, r)
                else if is_attr (cd_field r) \<and> \<not> is_attr (cd_field l) then Some (r, l) else None) in
     case sides of
       None \<Rightarrow> Some None
     | Some (fd, vd) \<Rightarrow> (case find_field_by_offset (tb_meta tb) (cd_offset fd) of
         None \<Rightarrow> Some None
       | Some f \<Rightarrow>
           if nullable f then Some None
           else (case find_index_by_fields (tb_meta tb) [fm_name f] of
             None \<Rightarrow> Some None
           | Some im \<Rightarrow> (case find_index tb (im_name im) of
               None \<Rightarrow> Some None
             | Some pos \<Rightarrow> (case cd_field vd of
                 CondValue v \<Rightarrow> Some (Some (pos, fl_comp fl, if v_type v = NULLS then None else Some (v_data v)))
               | _ \<Rightarrow> None)))))"

fun find_index_for_scan :: "('q, 's) system \<Rightarrow> 'q DefaultConditionFilter list \<Rightarrow> ('s, ((nat + nat) \<times> bt_scanner) option) table_op" where
  "find_index_for_scan sy [] = ret None"
| "find_index_for_scan sy (fl # fls) = bindE (gets te_table) (\<lambda>tb.
     bindE (lift_opt (scan_candidate tb fl)) (\<lambda>c. case c of
       None \<Rightarrow> find_index_for_scan sy fls
     | Some (pos, opr, val) \<Rightarrow> bindE (on_index pos (create_scanner (sy_iops sy) opr val)) (\<lambda>sc. case sc of
         None \<Rightarrow> find_index_for_scan sy fls
       | Some sc \<Rightarrow> ret (Some (pos, sc)))))"

definition on_index_scanner :: "nat + nat \<Rightarrow> (bt_scanner \<times> index \<times> 's, 'a) M \<Rightarrow> (bt_scanner \<times> 'c \<times> 's tenv, 'a) M" where
  "on_index_scanner pos m = zoom (\<lambda>(sc, c, e). (sc, the_index (te_table e) pos, te_pool e))
     (\<lambda>(sc, ix, s) (_, c, e). (sc, c, e\<lparr>te_table := set_index pos ix (te_table e), te_pool := s\<rparr>)) m"

text \<open>The loop of \<^verbatim>\<open>scan_record_by_index\<close>: every entry counts, whether its record is accepted or not.\<close>

fun index_rows :: "('q, 's) system \<Rightarrow> nat + nat \<Rightarrow> bool \<Rightarrow> 'q filter_ptr \<Rightarrow> ('c, 's) reader \<Rightarrow> nat \<Rightarrow> (bt_scanner \<times> 'c \<times> 's tenv, unit) M" where
  "index_rows sy pos trx flt reader 0 = ret ()"
| "index_rows sy pos trx flt reader (Suc k) =
    attempt (on_index_scanner pos (index_scan_next (sy_iops sy))) (\<lambda>r. case r of
      Inl rc \<Rightarrow> if rc = RECORD_EOF then ret () else fail rc
    | Inr rid \<Rightarrow> bindE (pool_op (pool_op (on_file (get_record_ptr (sy_ops sy) rid)))) (\<lambda>got. case got of
        None \<Rightarrow> undef
      | Some (bytes, p) \<Rightarrow> bindE (pool_op (pool_op (row_visible trx bytes))) (\<lambda>vis.
          bindE (if vis \<and> accepts sy flt bytes then pool_op (reader rid bytes (Some p)) else ret ()) (\<lambda>_.
          index_rows sy pos trx flt reader k))))"

definition scan_record_by_index :: "('q, 's) system \<Rightarrow> bool \<Rightarrow> nat + nat \<Rightarrow> bt_scanner \<Rightarrow> 'q filter_ptr \<Rightarrow> int \<Rightarrow> ('c, 's) reader \<Rightarrow> ('c \<times> 's tenv, unit) M" where
  "scan_record_by_index sy trx pos sc flt limit reader = (\<lambda>(c, e).
     case attempt (index_rows sy pos trx flt reader (nat limit)) (\<lambda>r.
         bindE (on_index_scanner pos index_scan_destroy) (\<lambda>_. case r of Inl rc \<Rightarrow> fail rc | Inr _ \<Rightarrow> ret ())) (sc, c, e) of
       None \<Rightarrow> None
     | Some (r, (sc', c', e')) \<Rightarrow> Some (r, (c', e')))"

definition scan_record :: "('q, 's) system \<Rightarrow> bool \<Rightarrow> 'q filter_ptr \<Rightarrow> int \<Rightarrow> ('c, 's) reader \<Rightarrow> ('c \<times> 's tenv, unit) M" where
  "scan_record sy trx flt limit reader =
    (if limit = 0 then ret ()
     else let limit = (if limit < 0 then 2 ^ 31 - 1 else limit) in
       bindE (pool_op (case flt of None \<Rightarrow> ret None | Some fls \<Rightarrow> find_index_for_scan sy fls)) (\<lambda>found. case found of
         Some (pos, sc) \<Rightarrow> scan_record_by_index sy trx pos sc flt limit reader
       | None \<Rightarrow> bindE (gets (\<lambda>(c, e). tb_pool (te_table e))) (\<lambda>open'. if open' then scan_file sy trx flt limit reader else undef)))"

section \<open>Statements\<close>

text \<open>\<^verbatim>\<open>SelectExeNode::execute\<close> on a table: the reader adds a tuple to the set. The schema is the one of the
  set.\<close>

definition select_reader :: "(TupleSet, 's) reader" where
  "select_reader rid bytes p = bindE (pool_op get_meta) (\<lambda>m.
     bindE (gets fst) (\<lambda>ts. bindE (lift_opt (converter_add_record m bytes ts)) (\<lambda>ts'. upd_handler (\<lambda>_. ts'))))"

definition select_execute :: "('q, 's) system \<Rightarrow> bool \<Rightarrow> TupleSchema \<Rightarrow> 'q DefaultConditionFilter list \<Rightarrow> (TupleSet \<times> 's tenv, unit) M" where
  "select_execute sy trx sch fls = bindE (upd_handler (\<lambda>_. \<lparr>ts_tuples = [], ts_schema = sch\<rparr>)) (\<lambda>_.
     scan_record sy trx (Some fls) (- 1) select_reader)"

text \<open>Running a scan with a context of its own.\<close>

definition with_context :: "'c \<Rightarrow> ('c \<times> 's tenv, unit) M \<Rightarrow> ('s, (RC + unit) \<times> 'c) table_op" where
  "with_context c m = (\<lambda>e. case m (c, e) of None \<Rightarrow> None | Some (r, (c', e')) \<Rightarrow> Some (Inr (r, c'), e'))"

text \<open>\<^verbatim>\<open>do_custom_select\<close>: \<^verbatim>\<open>None\<close> when the condition or the column is wrong; an error of the scan is lost.\<close>

definition do_custom_select :: "('q, 's) system \<Rightarrow> string \<Rightarrow> 'q Condition option \<Rightarrow> ('s, TupleSet option) table_op" where
  "do_custom_select sy n cond = bindE get_meta (\<lambda>m.
     bindE (case cond of
         None \<Rightarrow> ret (Some [])
       | Some c \<Rightarrow> bindE (lift_opt (filter_init (sy_strptime sy) (sy_mktime sy) (sy_env sy) (sy_junk sy) (sy_junk sy) m c)) (\<lambda>r.
           ret (case r of Inl _ \<Rightarrow> None | Inr fl \<Rightarrow> Some [fl]))) (\<lambda>fls. case fls of
       None \<Rightarrow> ret None
     | Some fls \<Rightarrow> (case field_by_name m n of
         None \<Rightarrow> ret None
       | Some f \<Rightarrow> bindE (with_context \<lparr>ts_tuples = [], ts_schema = []\<rparr>
             (select_execute sy False (add_if_not_exists (attr_type f) (tm_name m) (fm_name f) []) fls)) (\<lambda>(r, ts). ret (Some ts)))))"

definition unique_condition :: "string \<Rightarrow> string \<Rightarrow> sql_value \<Rightarrow> 'q Condition" where
  "unique_condition table n v = \<lparr>cond_left = CondAttr \<lparr>relation_name = Some table, attribute_name = n\<rparr> False,
     cond_right = CondValue v, cond_comp = EQUAL_TO\<rparr>"

definition do_unique_select :: "('q, 's) system \<Rightarrow> sql_value \<Rightarrow> string \<Rightarrow> ('s, TupleSet option) table_op" where
  "do_unique_select sy v n = bindE get_meta (\<lambda>m. do_custom_select sy n (Some (unique_condition (tm_name m) n v)))"

text \<open>\<^verbatim>\<open>RecordDeleter\<close>; the context counts the records.\<close>

definition delete_reader :: "('q, 's) system \<Rightarrow> bool \<Rightarrow> (int, 's) reader" where
  "delete_reader sy trx rid bytes p = bindE (pool_op (delete_record (sy_ops sy) (sy_iops sy) trx rid bytes)) (\<lambda>bytes'.
     bindE (if bytes' = bytes then ret () else case p of
         None \<Rightarrow> ret ()
       | Some p \<Rightarrow> pool_op (on_pool (write_record (sy_ops sy) p rid bytes'))) (\<lambda>_.
     upd_handler (\<lambda>n. n + 1)))"

definition delete_records :: "('q, 's) system \<Rightarrow> bool \<Rightarrow> 'q filter_ptr \<Rightarrow> ('s, (RC + unit) \<times> int) table_op" where
  "delete_records sy trx flt = with_context 0 (scan_record sy trx flt (- 1) (delete_reader sy trx))"

text \<open>\<^verbatim>\<open>RecordUpdater::split_record\<close>, which does not move on in the record, and \<^verbatim>\<open>RecordUpdater::make_record\<close>,
  which copies the value over the whole field.\<close>

function split_record :: "byte list \<Rightarrow> int \<Rightarrow> RID list \<Rightarrow> (RID \<times> byte list) list option" where
  "split_record bytes left_over rs =
    (if left_over \<le> 0 then Some []
     else case (copy_out bytes 0 (if left_over > 4056 then 4056 else left_over), rs) of
         (Some bs, r # rs') \<Rightarrow>
           map_option ((#) (r, bs @ replicate (4056 - length bs) 0)) (split_record bytes (left_over - 4056) rs')
       | _ \<Rightarrow> None)"
  by pat_completeness auto
termination by (relation "measure (\<lambda>(bytes, left_over, rs). nat left_over)") auto

declare split_record.simps [simp del]

definition updated_record :: "TableMeta \<Rightarrow> string \<Rightarrow> sql_value \<Rightarrow> byte list \<Rightarrow> byte list option" where
  "updated_record m n v bytes = (case (field_by_name m n, copy_out bytes 0 (TableMeta.record_size m)) of
      (Some f, Some out) \<Rightarrow> copy_in out (attr_offset f) (v_data v) (attr_len f)
    | _ \<Rightarrow> None)"

fun update_parts :: "('q, 's) system \<Rightarrow> bool \<Rightarrow> string \<Rightarrow> sql_value \<Rightarrow> (RID \<times> byte list) list \<Rightarrow> ('s, unit) table_op" where
  "update_parts sy trx n v [] = ret ()"
| "update_parts sy trx n v ((rid, bytes) # parts) = bindE get_meta (\<lambda>m.
     bindE (lift_opt (updated_record m n v bytes)) (\<lambda>bytes'.
     bindE (update_record (sy_ops sy) (sy_iops sy) trx rid bytes bytes') (\<lambda>_. update_parts sy trx n v parts)))"

definition update_reader :: "('q, 's) system \<Rightarrow> bool \<Rightarrow> string \<Rightarrow> sql_value \<Rightarrow> (int, 's) reader" where
  "update_reader sy trx n v rid bytes p = bindE (pool_op (gets te_table)) (\<lambda>tb.
     let size = TableMeta.record_size (tb_meta tb) in
     bindE (lift_opt (if size > 4056 then split_record bytes size (rollback_rids tb) else Some [(rid, bytes)])) (\<lambda>parts.
     bindE (pool_op (update_parts sy trx n v parts)) (\<lambda>_. upd_handler (\<lambda>n. n + 1))))"

end
