(* ===== verification/Table_Statements.thy ===== *)
theory Table_Statements
  imports Table_Scan
begin

text \<open>
  Tables, third part: from the values of an \<^verbatim>\<open>INSERT\<close> to the bytes of a record, the statements that insert and
  update, and the files of a table: creating, opening, indexes, dropping and closing. The files with the
  metadata are not paged; the operations on them and the JSON reader and writer are arguments.
\<close>

section \<open>From values to a record\<close>

text \<open>\<^verbatim>\<open>type_match\<close>: the value, perhaps with another type.\<close>

definition type_match :: "AttrType \<Rightarrow> sql_value \<Rightarrow> sql_value option" where
  "type_match t v =
    (if t = v_type v then Some v else if t = DATE \<and> v_type v = CHARS then Some (v\<lparr>v_type := DATE\<rparr>) else None)"

text \<open>\<^verbatim>\<open>value_validation\<close>: a date is read as a string and overwritten with its number of days.\<close>

definition value_validation :: "('q, 's) system \<Rightarrow> sql_value \<Rightarrow> sql_value option option" where
  "value_validation sy v =
    (if v_type v \<noteq> DATE then Some (Some v)
     else if \<not> has_zero (v_data v) then None
     else case validate_data_format (sy_strptime sy) (c_bytes (v_data v)) of
         None \<Rightarrow> None
       | Some None \<Rightarrow> Some None
       | Some (Some t) \<Rightarrow>
           if 4 \<le> length (v_data v)
           then Some (Some (v\<lparr>v_data := overwrite (v_data v) 0 (int_bytes (uint (to_raw_data (sy_mktime sy) t)))\<rparr>)) else None)"

definition check_value :: "('q, 's) system \<Rightarrow> FieldMeta \<Rightarrow> sql_value \<Rightarrow> (RC + sql_value) option" where
  "check_value sy f v =
    (if \<not> nullable f \<and> v_type v = NULLS then Some (Inl SCHEMA_FIELD_TYPE_MISMATCH)
     else case type_match (attr_type f) v of
         None \<Rightarrow> if \<not> nullable f \<or> v_type v \<noteq> NULLS then Some (Inl SCHEMA_FIELD_TYPE_MISMATCH) else Some (Inr v)
       | Some v' \<Rightarrow> map_option (\<lambda>r. case r of None \<Rightarrow> Inl INVALID_ARGUMENT | Some v'' \<Rightarrow> Inr v'') (value_validation sy v'))"

fun check_values :: "('q, 's) system \<Rightarrow> FieldMeta list \<Rightarrow> sql_value list \<Rightarrow> (RC + sql_value list) option" where
  "check_values sy (f # fs) (v # vs) = (case check_value sy f v of
      None \<Rightarrow> None
    | Some (Inl rc) \<Rightarrow> Some (Inl rc)
    | Some (Inr v') \<Rightarrow> map_option (map_sum id ((#) v')) (check_values sy fs vs))"
| "check_values sy fs vs = Some (Inr [])"

text \<open>\<^verbatim>\<open>find_if_exist_unique_record\<close>: the values one after the other, and for each of them the unique
  indexes whose first field is the field.\<close>

fun unique_clash :: "('q, 's) system \<Rightarrow> FieldMeta \<Rightarrow> sql_value \<Rightarrow> index list \<Rightarrow> ('s, bool) table_op" where
  "unique_clash sy f v [] = ret False"
| "unique_clash sy f v (ix # ixs) = (case im_fields (ix_meta ix) of
      [] \<Rightarrow> undef
    | n # _ \<Rightarrow>
        if n \<noteq> fm_name f then unique_clash sy f v ixs
        else bindE (do_unique_select sy v (fm_name f)) (\<lambda>res. case res of
            None \<Rightarrow> ret True
          | Some ts \<Rightarrow> if ts_tuples ts \<noteq> [] then ret True else unique_clash sy f v ixs))"

fun find_if_exist_unique_record :: "('q, 's) system \<Rightarrow> FieldMeta list \<Rightarrow> sql_value list \<Rightarrow> ('s, bool) table_op" where
  "find_if_exist_unique_record sy (f # fs) (v # vs) = bindE (gets (\<lambda>e. tb_unique (te_table e))) (\<lambda>ixs.
     bindE (unique_clash sy f v ixs) (\<lambda>clash. if clash then ret True else find_if_exist_unique_record sy fs vs))"
| "find_if_exist_unique_record sy fs vs = ret False"

text \<open>Copying one value into the record. Reading behind the memory of the value has no defined result.\<close>

definition put_field :: "FieldMeta \<Rightarrow> sql_value \<Rightarrow> byte list \<Rightarrow> byte list option" where
  "put_field f v buf =
    (if nullable f
     then let flag = (if v_type v = NULLS then 1 else 0); src = (if v_type v = NULLS then replicate (nat (attr_len f - 4)) 0 else v_data v) in
       Option.bind (copy_in buf (attr_offset f) (int_bytes flag) 4) (\<lambda>buf'. copy_in buf' (attr_offset f + 4) src (attr_len f - 4))
     else copy_in buf (attr_offset f) (v_data v) (attr_len f))"

fun put_fields :: "FieldMeta list \<Rightarrow> sql_value list \<Rightarrow> byte list \<Rightarrow> byte list option" where
  "put_fields (f # fs) (v # vs) buf = Option.bind (put_field f v buf) (put_fields fs vs)"
| "put_fields fs vs buf = Some buf"

definition make_record :: "('q, 's) system \<Rightarrow> sql_value list \<Rightarrow> ('s, byte list) table_op" where
  "make_record sy vs = bindE get_meta (\<lambda>m.
     bindE (gets te_sys) (\<lambda>sys.
     if length vs + length sys \<noteq> length (tm_fields m) then fail SCHEMA_FIELD_MISSING
     else let fs = drop (length sys) (tm_fields m) in
       bindE (lift_opt (check_values sy fs vs)) (\<lambda>r. case r of
         Inl rc \<Rightarrow> fail rc
       | Inr vs' \<Rightarrow> bindE (find_if_exist_unique_record sy fs vs') (\<lambda>clash.
           if clash then fail SCHEMA_INDEX_EXIST
           else lift_opt (put_fields fs vs' (replicate (nat (TableMeta.record_size m + 4)) 0))))))"

section \<open>Statements\<close>

text \<open>\<^verbatim>\<open>insert_record(Trx *, int, const Value *)\<close>: the values of several rows, row by row, up to the first
  error.\<close>

fun insert_rows :: "('q, 's) system \<Rightarrow> bool \<Rightarrow> sql_value list list \<Rightarrow> ('s, unit) table_op" where
  "insert_rows sy trx [] = ret ()"
| "insert_rows sy trx (row # rows) = bindE (make_record sy row) (\<lambda>bytes.
     bindE (insert_record (sy_ops sy) (sy_iops sy) trx bytes) (\<lambda>rid.
     bindE (upd_table_state (\<lambda>tb. if multi_insertion_flag tb then tb\<lparr>rollback_rids := rollback_rids tb @ [rid]\<rparr> else tb)) (\<lambda>_.
     insert_rows sy trx rows)))"

fun rollback_rows :: "('q, 's) system \<Rightarrow> RID list \<Rightarrow> ('s, unit) table_op" where
  "rollback_rows sy [] = ret ()"
| "rollback_rows sy (rid # rs) = bindE (ignoring (rollback_insert (sy_ops sy) (sy_iops sy) rid)) (\<lambda>_. rollback_rows sy rs)"

function rows_of :: "nat \<Rightarrow> 'a list \<Rightarrow> 'a list list" where
  "rows_of k xs = (if k = 0 \<or> xs = [] then [] else take k xs # rows_of k (drop k xs))"
  by pat_completeness auto
termination by (relation "measure (\<lambda>(k, xs). length xs)") auto

declare rows_of.simps [simp del]

definition insert_values :: "('q, 's) system \<Rightarrow> bool \<Rightarrow> sql_value list \<Rightarrow> ('s, unit) table_op" where
  "insert_values sy trx vs =
    (if vs = [] then fail INVALID_ARGUMENT
     else bindE get_meta (\<lambda>m.
       let per_size = length (from_table m []) in
       if per_size = 0 then undef
       else if length vs mod per_size \<noteq> 0 then fail SCHEMA_FIELD_MISSING
       else bindE (if length vs div per_size > 1 then upd_table_state (\<lambda>tb. tb\<lparr>multi_insertion_flag := True\<rparr>) else ret ()) (\<lambda>_.
         attempt (insert_rows sy trx (rows_of per_size vs)) (\<lambda>r.
         bindE (gets te_table) (\<lambda>tb.
         bindE (if r \<noteq> Inr () \<and> multi_insertion_flag tb then rollback_rows sy (rollback_rids tb) else ret ()) (\<lambda>_.
         bindE (upd_table_state (\<lambda>tb. tb\<lparr>multi_insertion_flag := False, rollback_rids := []\<rparr>)) (\<lambda>_.
         case r of Inl rc \<Rightarrow> fail rc | Inr _ \<Rightarrow> ret ())))))))"

definition update_records :: "('q, 's) system \<Rightarrow> bool \<Rightarrow> 'q filter_ptr \<Rightarrow> string \<Rightarrow> sql_value \<Rightarrow> ('s, (RC + unit) \<times> int) table_op" where
  "update_records sy trx flt n v = bindE get_meta (\<lambda>m. case field_by_name m n of
      None \<Rightarrow> fail SCHEMA_FIELD_MISSING
    | Some f \<Rightarrow> (case type_match (attr_type f) v of
        None \<Rightarrow> fail SCHEMA_FIELD_TYPE_MISMATCH
      | Some v' \<Rightarrow> bindE (lift_opt (value_validation sy v')) (\<lambda>r. case r of
          None \<Rightarrow> fail INVALID_ARGUMENT
        | Some v'' \<Rightarrow> with_context 0 (scan_record sy trx flt (- 1) (update_reader sy trx n v'')))))"

section \<open>Files\<close>

record ('f, 's) meta_files =
  mf_create :: "string \<Rightarrow> ('s, unit) M"
  mf_store :: "string \<Rightarrow> 'f \<Rightarrow> ('s, unit) M"
  mf_load :: "string \<Rightarrow> ('s, 'f) M"
  mf_rename :: "string \<Rightarrow> string \<Rightarrow> ('s, unit) M"
  mf_remove :: "string \<Rightarrow> ('s, unit) M"
  mf_writer :: "Json \<Rightarrow> 'f"
  mf_parser :: "'f \<Rightarrow> Json option"

definition table_meta_file :: "string \<Rightarrow> string \<Rightarrow> string" where
  "table_meta_file base_dir table = base_dir @ ''/'' @ table @ ''.table''"

definition index_data_file :: "string \<Rightarrow> string \<Rightarrow> string \<Rightarrow> string" where
  "index_data_file base_dir table ix = base_dir @ ''/'' @ table @ ''-'' @ ix @ ''.index''"

definition data_file :: "string \<Rightarrow> string \<Rightarrow> string" where
  "data_file base_dir table = base_dir @ ''/'' @ table @ ''.data''"

definition init_record_handler :: "('q, 's) system \<Rightarrow> string \<Rightarrow> ('s, unit) table_op" where
  "init_record_handler sy base_dir = bindE (upd_table_state (\<lambda>tb. tb\<lparr>tb_pool := True\<rparr>)) (\<lambda>_.
     bindE get_meta (\<lambda>m.
     bindE (on_pool (op_open_file (sy_ops sy) (data_file base_dir (tm_name m)))) (\<lambda>fid.
     bindE (upd_table_state (\<lambda>tb. tb\<lparr>record_handler := Some rf_new\<rparr>)) (\<lambda>_.
     bindE (on_file (rf_init fid)) (\<lambda>_.
     upd_table_state (\<lambda>tb. tb\<lparr>tb_file_id := fid\<rparr>))))))"

text \<open>\<^verbatim>\<open>sys_fields_\<close> is filled when it is used for the first time.\<close>

definition prepare_sys :: "('s, unit) table_op" where
  "prepare_sys = bindE (gets te_sys) (\<lambda>sys. case sys_ready sys of Inl rc \<Rightarrow> fail rc | Inr sys' \<Rightarrow> modify (\<lambda>e. e\<lparr>te_sys := sys'\<rparr>))"

definition table_create :: "('q, 's) system \<Rightarrow> ('f, 's) meta_files \<Rightarrow> string \<Rightarrow> string option \<Rightarrow> string \<Rightarrow> AttrInfo list \<Rightarrow> ('s, unit) table_op" where
  "table_create sy mf path name base_dir attrs = (case name of
      None \<Rightarrow> fail INVALID_ARGUMENT
    | Some n \<Rightarrow>
        if is_blank n \<or> attrs = [] then fail INVALID_ARGUMENT
        else bindE (on_pool (mf_create mf path)) (\<lambda>_.
          bindE prepare_sys (\<lambda>_.
          bindE (gets te_sys) (\<lambda>sys.
          bindE get_meta (\<lambda>m. case table_init sys (Some n) attrs m of
              Inl rc \<Rightarrow> fail rc
            | Inr m' \<Rightarrow> bindE (upd_table_state (\<lambda>tb. tb\<lparr>tb_meta := m'\<rparr>)) (\<lambda>_.
                bindE (on_pool (mf_store mf path (serialize (mf_writer mf) m'))) (\<lambda>_.
                bindE (upd_table_state (\<lambda>tb. tb\<lparr>tb_pool := True\<rparr>)) (\<lambda>_.
                bindE (on_pool (op_create_file (sy_ops sy) (data_file base_dir n))) (\<lambda>_.
                attempt (init_record_handler sy base_dir) (\<lambda>r.
                bindE (upd_table_state (\<lambda>tb. tb\<lparr>tb_base_dir := base_dir\<rparr>)) (\<lambda>_.
                case r of Inl rc \<Rightarrow> fail rc | Inr _ \<Rightarrow> ret ())))))))))))"

fun lookup_fields :: "TableMeta \<Rightarrow> string list \<Rightarrow> FieldMeta list option" where
  "lookup_fields m [] = Some []"
| "lookup_fields m (n # ns) = (case field_by_name m n of None \<Rightarrow> None | Some f \<Rightarrow> map_option ((#) f) (lookup_fields m ns))"

text \<open>A new index object, with its result; a failed one is deleted, which closes it.\<close>

definition new_index :: "('q, 's) system \<Rightarrow> ('s, unit) index_op \<Rightarrow> ('s, index) table_op" where
  "new_index sy m = (\<lambda>e. case attempt m (\<lambda>r. case r of
        Inl rc \<Rightarrow> bindE (bti_close (sy_iops sy)) (\<lambda>_. fail rc) | Inr _ \<Rightarrow> gets fst) (index_new, te_pool e) of
      None \<Rightarrow> None
    | Some (r, (ix, s)) \<Rightarrow> Some (r, e\<lparr>te_pool := s\<rparr>))"

fun open_indexes :: "('q, 's) system \<Rightarrow> string \<Rightarrow> (IndexMeta \<Rightarrow> string list) \<Rightarrow> (index \<Rightarrow> table \<Rightarrow> table) \<Rightarrow> IndexMeta list \<Rightarrow> ('s, unit) table_op" where
  "open_indexes sy base_dir names add [] = ret ()"
| "open_indexes sy base_dir names add (im # ims) = bindE get_meta (\<lambda>m. case lookup_fields m (names im) of
      None \<Rightarrow> fail GENERIC_ERROR
    | Some fs \<Rightarrow> bindE (new_index sy (bti_open (sy_iops sy) (index_data_file base_dir (tm_name m) (im_name im)) im fs)) (\<lambda>ix.
        bindE (upd_table_state (add ix)) (\<lambda>_. open_indexes sy base_dir names add ims)))"

text \<open>\<^verbatim>\<open>Table::open\<close>: the result of opening the data file is overwritten. A unique index is opened with the
  first of its fields.\<close>

definition table_open :: "('q, 's) system \<Rightarrow> ('f, 's) meta_files \<Rightarrow> string \<Rightarrow> string \<Rightarrow> ('s, unit) table_op" where
  "table_open sy mf meta_file base_dir = bindE (on_pool (mf_load mf (base_dir @ ''/'' @ meta_file))) (\<lambda>text.
     bindE (ignoring prepare_sys) (\<lambda>_.
     bindE get_meta (\<lambda>m.
     bindE (lift_opt (deserialize (mf_parser mf) text m)) (\<lambda>r. case r of
         None \<Rightarrow> fail GENERIC_ERROR
       | Some m' \<Rightarrow> bindE (upd_table_state (\<lambda>tb. tb\<lparr>tb_meta := m'\<rparr>)) (\<lambda>_.
           bindE (ignoring (init_record_handler sy base_dir)) (\<lambda>_.
           bindE (upd_table_state (\<lambda>tb. tb\<lparr>tb_base_dir := base_dir\<rparr>)) (\<lambda>_.
           bindE (open_indexes sy base_dir im_fields (\<lambda>ix tb. tb\<lparr>tb_indexes := tb_indexes tb @ [ix]\<rparr>) (indexes m')) (\<lambda>_.
           if list_ex (\<lambda>im. im_fields im = []) (unique_indexes m') then undef
           else open_indexes sy base_dir (take 1 \<circ> im_fields) (\<lambda>ix tb. tb\<lparr>tb_unique := tb_unique tb @ [ix]\<rparr>) (unique_indexes m')))))))))"

text \<open>Dropping indexes: \<^verbatim>\<open>delete index\<close> closes the index, then its file is removed. The list is cleared when all
  have been dropped.\<close>

fun drop_indexes :: "('q, 's) system \<Rightarrow> ('f, 's) meta_files \<Rightarrow> index list \<Rightarrow> ('s, unit) table_op" where
  "drop_indexes sy mf [] = ret ()"
| "drop_indexes sy mf (ix # ixs) = bindE (gets te_table) (\<lambda>tb.
     bindE (zoom (\<lambda>e. (ix, te_pool e)) (\<lambda>(_, s) e. e\<lparr>te_pool := s\<rparr>) (bti_close (sy_iops sy))) (\<lambda>_.
     attempt (on_pool (mf_remove mf (index_data_file (tb_base_dir tb) (tm_name (tb_meta tb)) (im_name (ix_meta ix))))) (\<lambda>r.
     case r of Inl _ \<Rightarrow> fail IOERR | Inr _ \<Rightarrow> drop_indexes sy mf ixs)))"

definition drop_all_indexes :: "('q, 's) system \<Rightarrow> ('f, 's) meta_files \<Rightarrow> ('s, unit) table_op" where
  "drop_all_indexes sy mf = bindE (gets te_table) (\<lambda>tb.
     let n = length (indexes (tb_meta tb)) in
     if length (tb_indexes tb) < n then undef
     else bindE (drop_indexes sy mf (take n (tb_indexes tb))) (\<lambda>_. upd_table_state (\<lambda>tb. tb\<lparr>tb_indexes := []\<rparr>)))"

definition drop_all_unique_indexes :: "('q, 's) system \<Rightarrow> ('f, 's) meta_files \<Rightarrow> ('s, unit) table_op" where
  "drop_all_unique_indexes sy mf = bindE (gets te_table) (\<lambda>tb.
     let n = length (unique_indexes (tb_meta tb)) in
     if length (tb_unique tb) < n then undef
     else bindE (drop_indexes sy mf (take n (tb_unique tb))) (\<lambda>_. upd_table_state (\<lambda>tb. tb\<lparr>tb_unique := []\<rparr>)))"

text \<open>The end of both ways to create an index: the metadata with the index goes to a temporary file that
  then takes the place of the old one.\<close>

definition store_meta :: "('f, 's) meta_files \<Rightarrow> TableMeta \<Rightarrow> ('s, unit) table_op" where
  "store_meta mf m' = bindE (gets te_table) (\<lambda>tb.
     let file = table_meta_file (tb_base_dir tb) (tm_name (tb_meta tb)); tmp = file @ ''.tmp'' in
     bindE (on_pool (mf_store mf tmp (serialize (mf_writer mf) m'))) (\<lambda>_.
     attempt (on_pool (mf_rename mf tmp file)) (\<lambda>r. case r of
       Inl _ \<Rightarrow> fail IOERR
     | Inr _ \<Rightarrow> upd_table_state (\<lambda>tb. tb\<lparr>tb_meta := m'\<rparr>))))"

definition fill_reader :: "('q, 's) system \<Rightarrow> (index, 's) reader" where
  "fill_reader sy rid bytes p = zoom (\<lambda>(ix, e). (ix, te_pool e)) (\<lambda>(ix, s) (_, e). (ix, e\<lparr>te_pool := s\<rparr>)) (bti_insert_entry (sy_iops sy) bytes rid)"

text \<open>A new index on the records that the transaction sees; an index that could not be filled is closed.\<close>

definition filled_index :: "('q, 's) system \<Rightarrow> bool \<Rightarrow> IndexMeta \<Rightarrow> FieldMeta list \<Rightarrow> ('s, index) table_op" where
  "filled_index sy trx im fs = bindE (gets te_table) (\<lambda>tb.
     bindE (new_index sy (bti_create (sy_iops sy) (index_data_file (tb_base_dir tb) (tm_name (tb_meta tb)) (im_name im)) im fs)) (\<lambda>ix.
     bindE (with_context ix (scan_record sy trx None (- 1) (fill_reader sy))) (\<lambda>(r, ix'). case r of
       Inl rc \<Rightarrow> bindE (zoom (\<lambda>e. (ix', te_pool e)) (\<lambda>(_, s) e. e\<lparr>te_pool := s\<rparr>) (bti_close (sy_iops sy))) (\<lambda>_. fail rc)
     | Inr _ \<Rightarrow> ret ix')))"

definition create_index :: "('q, 's) system \<Rightarrow> ('f, 's) meta_files \<Rightarrow> bool \<Rightarrow> string option \<Rightarrow> string list \<Rightarrow> ('s, unit) table_op" where
  "create_index sy mf trx name attrs = (case name of
      None \<Rightarrow> fail INVALID_ARGUMENT
    | Some n \<Rightarrow>
        if is_blank n \<or> attrs = [] then fail INVALID_ARGUMENT
        else bindE get_meta (\<lambda>m.
          if index_by_name m n \<noteq> None \<or> find_index_by_fields m attrs \<noteq> None then fail SCHEMA_INDEX_EXIST
          else case lookup_fields m attrs of
              None \<Rightarrow> fail SCHEMA_FIELD_MISSING
            | Some fs \<Rightarrow> (case index_init (Some n) fs of
                Inl rc \<Rightarrow> fail rc
              | Inr im \<Rightarrow> bindE (filled_index sy trx im fs) (\<lambda>ix.
                  bindE (upd_table_state (\<lambda>tb. tb\<lparr>tb_indexes := tb_indexes tb @ [ix]\<rparr>)) (\<lambda>_.
                  store_meta mf (add_index im m))))))"

text \<open>Two rows with the same value. \<^verbatim>\<open>get(0)\<close> of a tuple without values has no defined result.\<close>

fun equal_to_some :: "Tuple \<Rightarrow> Tuple list \<Rightarrow> bool option" where
  "equal_to_some t [] = Some False"
| "equal_to_some t (u # us) = (case (t, u) of
      (v # _, w # _) \<Rightarrow> (case value_compare v w of None \<Rightarrow> None | Some c \<Rightarrow> if c = 0 then Some True else equal_to_some t us)
    | _ \<Rightarrow> None)"

fun has_duplicates :: "Tuple list \<Rightarrow> bool option" where
  "has_duplicates [] = Some False"
| "has_duplicates (t # ts) = (case equal_to_some t ts of None \<Rightarrow> None | Some True \<Rightarrow> Some True | Some False \<Rightarrow> has_duplicates ts)"

definition create_unique_index :: "('q, 's) system \<Rightarrow> ('f, 's) meta_files \<Rightarrow> bool \<Rightarrow> string option \<Rightarrow> string option \<Rightarrow> ('s, unit) table_op" where
  "create_unique_index sy mf trx name attr = (case (name, attr) of
      (Some n, Some a) \<Rightarrow>
        if is_blank n \<or> is_blank a then fail INVALID_ARGUMENT
        else bindE get_meta (\<lambda>m.
          if index_by_name m n \<noteq> None \<or> find_index_by_fields m [a] \<noteq> None then fail SCHEMA_INDEX_EXIST
          else case field_by_name m a of
              None \<Rightarrow> fail SCHEMA_FIELD_MISSING
            | Some f \<Rightarrow> bindE (do_custom_select sy (fm_name f) None) (\<lambda>res.
                bindE (lift_opt (has_duplicates (case res of None \<Rightarrow> [] | Some ts \<Rightarrow> ts_tuples ts))) (\<lambda>dup.
                if dup then fail SCHEMA_INDEX_EXIST
                else case index_init (Some n) [f] of
                    Inl rc \<Rightarrow> fail rc
                  | Inr im \<Rightarrow> bindE (filled_index sy trx im [f]) (\<lambda>ix.
                      bindE (upd_table_state (\<lambda>tb. tb\<lparr>tb_unique := tb_unique tb @ [ix]\<rparr>)) (\<lambda>_.
                      store_meta mf (add_unique_index im m))))))
    | _ \<Rightarrow> fail INVALID_ARGUMENT)"

definition table_sync :: "('q, 's) system \<Rightarrow> ('s, unit) table_op" where
  "table_sync sy = bindE (gets te_table) (\<lambda>tb.
     if \<not> tb_pool tb then undef
     else bindE (on_pool (op_flush_all_pages (sy_ops sy) (tb_file_id tb))) (\<lambda>_.
       bindE (on_indexes (bti_sync (sy_iops sy)) (\<lambda>_. True) (Inr ())) (\<lambda>_.
       on_unique (bti_sync (sy_iops sy)) (\<lambda>_. True) (Inr ()))))"

text \<open>The destructor: the page of the record handler is let go of, the record file is closed, and the unique indexes are synced from the last to the first.
  Other indexes are left open.\<close>

definition table_destroy :: "('q, 's) system \<Rightarrow> ('s, unit) table_op" where
  "table_destroy sy = bindE (gets te_table) (\<lambda>tb.
     bindE (if record_handler tb = None then ret () else on_file (on_handler (rph_deinit (sy_ops sy)))) (\<lambda>_.
     bindE (upd_table_state (\<lambda>tb. tb\<lparr>record_handler := None\<rparr>)) (\<lambda>_.
     bindE (if tb_pool tb \<and> tb_file_id tb \<ge> 0
       then bindE (ignoring (on_pool (op_close_file (sy_ops sy) (tb_file_id tb)))) (\<lambda>_. upd_table_state (\<lambda>tb. tb\<lparr>tb_pool := False\<rparr>)) else ret ()) (\<lambda>_.
     bindE (upd_table_state (\<lambda>tb. tb\<lparr>tb_unique := rev (tb_unique tb)\<rparr>)) (\<lambda>_.
     bindE (ignoring (on_unique (bti_sync (sy_iops sy)) (\<lambda>_. False) (Inr ()))) (\<lambda>_.
     upd_table_state (\<lambda>tb. tb\<lparr>tb_unique := []\<rparr>)))))))"

end
