(* ===== verification/Table_Select.thy ===== *)
theory Table_Select
  imports Table_Scan Record_Properties
begin

text \<open>
  The scan of a table whose records fit into a page, without an index, for a reader that leaves the table
  alone: the reader gets the records of the file that the filter accepts and the transaction sees, in the
  order of the file.
\<close>

section \<open>The records of a file\<close>

text \<open>What a call for the next record returns, when these records are left.\<close>

fun got_of :: "RC \<Rightarrow> (RID \<times> byte list) list \<Rightarrow> RC + RID \<times> byte list option" where
  "got_of rc [] = Inl rc"
| "got_of rc ((r, d) # xs) = Inr (r, Some d)"

lemma page_records_length:
  assumes "layout_ok pg"
  shows "length (page_records p pg 0) \<le> 32768"
proof -
  have "length (page_records p pg 0) \<le> length [0..<nat (record_capacity pg)]"
    unfolding page_records_def slots_from_def length_map by (rule length_filter_le)
  then show ?thesis using layout_capacity [OF assms] by simp
qed

lemma pages_from_length:
  assumes "pages_ok rs v"
  shows "length (pages_from v p n) \<le> nat (n - p) * 32768"
proof (induction "nat (n - p)" arbitrary: p)
  case 0
  then show ?case by (simp add: pages_from_end)
next
  case (Suc k)
  then have "[p..n - 1] = p # [p + 1..n - 1]" "k = nat (n - (p + 1))" by (simp_all add: upto_rec1)
  moreover have "length (case v p of None \<Rightarrow> [] | Some pg \<Rightarrow> page_records p pg 0) \<le> 32768"
    using assms page_records_length by (auto simp: pages_ok_def page_ok_def split: option.splits)
  moreover have "length (pages_from v (p + 1) n) \<le> k * 32768" using Suc.hyps(1) calculation(2) by simp
  ultimately show ?case unfolding Suc.hyps(2) [symmetric] by (simp add: pages_from_def)
qed

text \<open>What a transaction sees of a record, when its transaction field can be read.\<close>

definition sees :: "bool \<Rightarrow> TableMeta \<Rightarrow> 't Trx \<Rightarrow> byte list \<Rightarrow> bool" where
  "sees trx m t bytes \<longleftrightarrow> \<not> trx \<or> is_visible m t bytes = Some True"

lemma row_visible_run:
  assumes "te_trx e = (n, t)" "trx \<longrightarrow> is_visible (tb_meta (te_table e)) t bytes \<noteq> None"
  shows "row_visible trx bytes e = Some (Inr (sees trx (tb_meta (te_table e)) t bytes), e)"
  using assms by (auto simp: row_visible_def sees_def get_meta_def run)

section \<open>The loop\<close>

context record_pool
begin

definition scan_at :: "(int \<Rightarrow> nat) \<Rightarrow> (int \<Rightarrow> rec_page option) \<Rightarrow> int \<Rightarrow> (RID \<Rightarrow> byte list \<Rightarrow> bool) option \<Rightarrow> (RID \<times> byte list) list \<Rightarrow> scanner \<Rightarrow> 's \<Rightarrow> bool" where
  "scan_at b v pc flt xs f s \<longleftrightarrow> view s = v \<and> count s = pc \<and> sc_filter f = flt \<and> (case xs of
      [] \<Rightarrow> \<exists>q. sc_on b f s q \<or> sc_free b f s q
    | (r, d) # ys \<Rightarrow> sc_on b f s (rid_page r) \<and> scan_pos v r \<and> rid_page r < pc
        \<and> ys = filter (\<lambda>(r, d). sc_accepts flt r d) (records_after v pc r))"

lemma scan_at_some: "scan_at b v pc flt xs f s \<Longrightarrow> \<exists>q. sc_on b f s q \<or> sc_free b f s q"
  by (cases xs) (auto simp: scan_at_def)

lemma next_from:
  assumes v: "pages_ok rs v" "1 < pc" "view s = v" "count s = pc" "scan_pos v rid" "rid_page rid < pc"
    and o: "sc_on b f s (rid_page rid) \<or> sc_free b f s c0 \<and> c0 < rid_page rid"
    and xs: "xs = filter (\<lambda>(r, d). sc_accepts (sc_filter f) r d) (records_after v pc rid)"
  shows "\<exists>f' s'. sc_get_next_record ops rid (f, s) = Some (got_of (scan_end v pc) xs, (f', s')) \<and> same s s' \<and> scan_at b v pc (sc_filter f) xs f' s'"
proof -
  have g: "scan_result b f s (scan_end v pc) xs (sc_get_next_record ops rid (f, s))"
    using sc_get_next_run [OF _ _ _ _ o] v xs by simp
  show ?thesis
  proof (cases xs)
    case Nil
    then show ?thesis using g v(3,4) by (auto simp: scan_result_def scan_at_def same_def)
  next
    case (Cons x ys)
    obtain r d where x: "x = (r, d)" by fastforce
    obtain us vs where split: "records_after v pc rid = us @ (r, d) # vs" "ys = filter (\<lambda>(r, d). sc_accepts (sc_filter f) r d) vs"
      using Cons x xs by (auto simp: filter_eq_Cons_iff)
    have "0 < rid_page rid" using v(5) by (simp add: scan_pos_def)
    then show ?thesis
      using g Cons x v(3,4) split records_after_split [OF split(1) v(6)] by (auto simp: scan_result_def scan_at_def same_def)
  qed
qed

lemma next_at:
  assumes "pages_ok rs v" "1 < pc" "scan_at b v pc flt ((r, d) # xs) f s"
  shows "\<exists>f' s'. sc_get_next_record ops r (f, s) = Some (got_of (scan_end v pc) xs, (f', s')) \<and> same s s' \<and> scan_at b v pc flt xs f' s'"
  using assms next_from [of rs v pc s r b f 0 xs] by (auto simp: scan_at_def)

lemma scan_rows_run:
  fixes e :: "'s tenv" and reader :: "('c, 's) reader"
  assumes v: "pages_ok rs v" "1 < pc" "sy_ops sy = ops"
    and reads: "\<And>r d p c e'. (r, d) \<in> set xs \<Longrightarrow> sees trx (tb_meta tb) t d \<Longrightarrow> te_table e' = tb \<Longrightarrow> te_trx e' = (n, t) \<Longrightarrow>
        R c \<Longrightarrow> reader r d p (c, e') = Some (Inr (), (g c d, e')) \<and> R (g c d)"
    and vis: "\<And>r d. (r, d) \<in> set xs \<Longrightarrow> trx \<Longrightarrow> is_visible (tb_meta tb) t d \<noteq> None"
  shows "scan_at b v pc flt xs f (te_pool e) \<Longrightarrow> te_table e = tb \<Longrightarrow> te_trx e = (n, t) \<Longrightarrow> R c \<Longrightarrow>
    length xs < k \<Longrightarrow> cnt + int (length xs) \<le> most \<Longrightarrow>
    \<exists>f' s'. scan_rows sy trx reader most k cnt (got_of (scan_end v pc) xs) (f, c, e)
        = Some (Inl (scan_end v pc), (f', foldl g c (filter (sees trx (tb_meta tb) t) (map snd xs)), e\<lparr>te_pool := s'\<rparr>))
      \<and> same (te_pool e) s' \<and> scan_at b v pc flt [] f' s'"
  using reads vis
proof (induction xs arbitrary: f e c k cnt)
  case Nil
  then obtain k' where "k = Suc k'" by (cases k) auto
  then show ?case using Nil by (auto simp: run intro!: exI [of _ "te_pool e"])
next
  case (Cons x xs)
  obtain r d where x: "x = (r, d)" by fastforce
  obtain k' where k: "k = Suc k'" using Cons.prems(5) by (cases k) auto
  obtain f1 s1 where n1: "sc_get_next_record ops r (f, te_pool e) = Some (got_of (scan_end v pc) xs, (f1, s1))"
      "same (te_pool e) s1" "scan_at b v pc flt xs f1 s1"
    using next_at [OF v(1,2), of b flt r d xs f "te_pool e"] Cons.prems(1) x by auto
  let ?e = "e\<lparr>te_pool := s1\<rparr>"
  let ?see = "sees trx (tb_meta tb) t d"
  let ?c = "if ?see then g c d else c"
  have nx: "scan_next ops r (f, c', e) = Some (got_of (scan_end v pc) xs, (f1, c', ?e))" for c' :: 'c
    using n1(1) by (simp add: scan_next_def on_scanner_def zoom_def)
  have vis1: "bindE (scan_env (row_visible trx d)) h (f, c, e) = h ?see (f, c, e)" for h :: "bool \<Rightarrow> ('c, 's, unit) scan_state_op"
    using row_visible_run [OF Cons.prems(3), of trx d] Cons.prems(2) Cons.prems(8) [of r d] x
    by (simp add: bindE_def scan_env_def pool_op_def)
  have rd: "reader r d p (c, e) = Some (Inr (), (g c d, e))" "R (g c d)" if ?see for p
    using Cons.prems(2,3,4) Cons.prems(7) [of r d] that x by auto
  have step: "scan_rows sy trx reader most k cnt (got_of (scan_end v pc) (x # xs)) (f, c, e)
      = scan_rows sy trx reader most k' (if ?see then cnt + 1 else cnt) (got_of (scan_end v pc) xs) (f1, ?c, ?e)"
    using x k Cons.prems(6) v(3) nx rd(1) vis1 by (simp add: run)
  have "\<exists>f' s'. scan_rows sy trx reader most k' (if ?see then cnt + 1 else cnt) (got_of (scan_end v pc) xs) (f1, ?c, ?e)
      = Some (Inl (scan_end v pc), (f', foldl g ?c (filter (sees trx (tb_meta tb) t) (map snd xs)), ?e\<lparr>te_pool := s'\<rparr>))
      \<and> same (te_pool ?e) s' \<and> scan_at b v pc flt [] f' s'"
    by (rule Cons.IH) ((use Cons.prems(2-6) n1(3) k rd(2) in \<open>simp; fail\<close>) | (rule Cons.prems(7); simp) | (erule Cons.prems(8) [OF list.set_intros(2)]; simp))+
  then show ?case
    unfolding step using x same_trans [OF n1(2)] by fastforce
qed

lemma scan_released:
  assumes "sc_on b f s q \<or> sc_free b f s q"
  shows "\<exists>f' s'. on_scan (rph_deinit ops) (f\<lparr>sc_pool := False, sc_filter := None\<rparr>, s) = Some (Inr (), (f', s')) \<and> same s s' \<and> pins s' = b"
proof -
  obtain f' s' where u: "on_scan (rph_deinit ops) (f, s) = Some (Inr (), (f', s'))" "sc_free b f' s' q" "same s s'"
    by (rule sc_deinit [OF assms])
  obtain h where "rph_deinit ops (sc_handler f, s) = Some (Inr (), (h, s'))"
    using u(1) by (auto simp: on_scan_def split: option.splits)
  then show ?thesis using u(2,3) by (auto simp: on_scan_def sc_free_def)
qed

lemma scan_file_run:
  fixes e :: "'s tenv" and reader :: "('c, 's) reader" and trx :: bool and t :: "nat Trx"
  assumes e: "tb_file_id (te_table e) = fid" "record_times (tb_meta (te_table e)) = 1" "te_trx e = (n, t)"
    and s: "ready (te_pool e)" "space b (te_pool e)" "pins (te_pool e) = b"
    and v: "view (te_pool e) = v" "count (te_pool e) = pc" "pages_ok rs v" "1 < pc" "pc \<le> 32768" "2 ^ 30 \<le> most"
    and xs: "xs = filter (\<lambda>(r, d). accepts sy flt d) (pages_from v 1 pc)" "sy_ops sy = ops" "R c"
    and reads: "\<And>r d p c e'. (r, d) \<in> set xs \<Longrightarrow> sees trx (tb_meta (te_table e)) t d \<Longrightarrow> te_table e' = te_table e \<Longrightarrow> te_trx e' = (n, t) \<Longrightarrow>
        R c \<Longrightarrow> reader r d p (c, e') = Some (Inr (), (g c d, e')) \<and> R (g c d)"
    and vis: "\<And>r d. (r, d) \<in> set xs \<Longrightarrow> trx \<Longrightarrow> is_visible (tb_meta (te_table e)) t d \<noteq> None"
  shows "\<exists>s'. scan_file sy trx flt most reader (c, e)
      = Some (if scan_end v pc = RECORD_EOF then Inr () else Inl (scan_end v pc),
          (foldl g c (filter (sees trx (tb_meta (te_table e)) t) (map snd xs)), e\<lparr>te_pool := s'\<rparr>))
    \<and> same (te_pool e) s' \<and> pins s' = b"
proof -
  let ?acc = "Some (\<lambda>_ :: RID. accepts sy flt)"
  let ?f = "sc_new\<lparr>sc_pool := True, sc_file_id := fid, sc_filter := ?acc\<rparr>"
  let ?r = "\<lparr>rid_page = 1, rid_slot = - 1\<rparr>"
  have o: "on_scanner (open_scan fid ?acc) (sc_new, c, e) = Some (Inr (), (?f, c, e))"
    by (simp add: on_scanner_def zoom_def open_scan_def close_scan_def upd_handler_def run sc_new_def)
  have free: "sc_free b ?f (te_pool e) (- 1)"
    using s by (simp add: sc_free_def sc_new_def rph_new_def rph_get_page_num_def run)
  have "records_after v pc ?r = pages_from v 1 pc" using records_next_page [of 1 pc] v(4) by simp
  then have all: "xs = filter (\<lambda>(r, d). sc_accepts (sc_filter ?f) r d) (records_after v pc ?r)"
    by (simp add: xs(1) sc_accepts_def)
  obtain f1 s1 where n1: "sc_get_next_record ops ?r (?f, te_pool e) = Some (got_of (scan_end v pc) xs, (f1, s1))"
      "same (te_pool e) s1" "scan_at b v pc ?acc xs f1 s1"
    using next_from [OF v(3,4,1,2) _ _ _ all, of b "- 1"] free v(4) by (auto simp: scan_pos_def)
  let ?e = "e\<lparr>te_pool := s1\<rparr>"
  have "length xs \<le> nat (pc - 1) * 32768"
    unfolding xs(1) using pages_from_length [OF v(3)] length_filter_le le_trans by blast
  then have len: "length xs < 2 ^ 30" using v(4,5) by simp
  have "\<exists>f' s'. scan_rows sy trx reader most scan_fuel 0 (got_of (scan_end v pc) xs) (f1, c, ?e)
        = Some (Inl (scan_end v pc), (f', foldl g c (filter (sees trx (tb_meta (te_table e)) t) (map snd xs)), ?e\<lparr>te_pool := s'\<rparr>))
      \<and> same (te_pool ?e) s' \<and> scan_at b v pc ?acc [] f' s'"
    by (rule scan_rows_run [OF v(3,4) xs(2) reads vis])
      (use n1(3) e(3) xs(3) len v(6) in \<open>simp_all add: scan_fuel_def\<close>)
  then obtain f2 s2 where r: "scan_rows sy trx reader most scan_fuel 0 (got_of (scan_end v pc) xs) (f1, c, ?e)
        = Some (Inl (scan_end v pc), (f2, foldl g c (filter (sees trx (tb_meta (te_table e)) t) (map snd xs)), e\<lparr>te_pool := s2\<rparr>))"
      "same s1 s2" "scan_at b v pc ?acc [] f2 s2" by auto
  obtain f3 s3 where d: "on_scan (rph_deinit ops) (f2\<lparr>sc_pool := False, sc_filter := None\<rparr>, s2) = Some (Inr (), (f3, s3))" "same s2 s3" "pins s3 = b"
    using scan_at_some [OF r(3)] scan_released by blast
  have "scan_file sy trx flt most reader (c, e) = Some (if scan_end v pc = RECORD_EOF then Inr () else Inl (scan_end v pc),
      (foldl g c (filter (sees trx (tb_meta (te_table e)) t) (map snd xs)), e\<lparr>te_pool := s3\<rparr>))"
    using o n1(1) r(1) d(1) e(1,2) xs(2)
    by (simp add: scan_file_def Let_def sc_get_first_record_def on_scanner_def zoom_def bindE_def attempt_def close_scan_def
        upd_handler_def modify_def ret_def fail_def)
  then show ?thesis using d same_trans [OF same_trans [OF n1(2) r(2)] d(2)] by blast
qed

end

end
