(* ===== verification/Table_Properties.thy ===== *)
theory Table_Properties
  imports Table_Statements Table_Select Filter_Properties Trx_Properties Table_Meta_Properties
begin

text \<open>
  What a table makes of the values of a row, what other transactions see of it, and what its indexes
  miss.
\<close>

section \<open>A row in memory\<close>

text \<open>The value that a row is shown with, and when a value fits into a column: it has the type of the column
  or is a null, its memory can be read for the length of the column, and a string ends inside it.\<close>

definition data_len :: "FieldMeta \<Rightarrow> nat" where
  "data_len f = nat (if nullable f then attr_len f - 4 else attr_len f)"

definition shown :: "sql_value \<Rightarrow> TupleValue" where
  "shown v = (case v_type v of
      INTS \<Rightarrow> IntValue (read_int (v_data v) 0) | FLOATS \<Rightarrow> FloatValue (le_word (segment (v_data v) 0 4))
    | CHARS \<Rightarrow> StringValue (c_bytes (v_data v)) | DATE \<Rightarrow> DateValue (le_word (segment (v_data v) 0 4)) | _ \<Rightarrow> NullValue)"

definition fits :: "FieldMeta \<Rightarrow> sql_value \<Rightarrow> bool" where
  "fits f v \<longleftrightarrow> (if v_type v = NULLS then nullable f \<and> 4 \<le> attr_len f
     else v_type v = attr_type f \<and> attr_type f \<in> {INTS, FLOATS, CHARS, DATE} \<and> 4 \<le> attr_len f \<and> data_len f \<le> length (v_data v)
       \<and> (if attr_type f = CHARS then 0 \<in> set (take (data_len f) (v_data v)) else 4 \<le> data_len f))"

definition field_bytes :: "FieldMeta \<Rightarrow> sql_value \<Rightarrow> byte list" where
  "field_bytes f v =
    (if nullable f then int_bytes (if v_type v = NULLS then 1 else 0) else [])
    @ (if v_type v = NULLS then replicate (data_len f) 0 else take (data_len f) (v_data v))"

lemma length_field_bytes:
  assumes "fits f v" "0 < attr_len f"
  shows "length (field_bytes f v) = nat (attr_len f)"
  using assms by (auto simp: fits_def field_bytes_def data_len_def split: if_splits)

lemma put_field_bytes:
  assumes "fits f v" "0 \<le> attr_offset f" "0 < attr_len f" "nat (attr_offset f) + nat (attr_len f) \<le> length buf"
  shows "put_field f v buf = Some (overwrite buf (nat (attr_offset f)) (field_bytes f v))"
proof (cases "nullable f")
  case True
  let ?off = "nat (attr_offset f)"
  let ?flag = "int_bytes (if v_type v = NULLS then 1 else 0)"
  let ?rest = "if v_type v = NULLS then replicate (data_len f) 0 else take (data_len f) (v_data v)"
  have len: "length ?rest = data_len f" "4 + data_len f = nat (attr_len f)" "4 \<le> attr_len f"
    using assms(1) True by (auto simp: fits_def data_len_def split: if_splits)
  have "overwrite (overwrite buf ?off ?flag) (?off + 4) ?rest = overwrite buf ?off (?flag @ ?rest)"
    using assms(4) len by (simp add: overwrite_def min_def add.commute)
  moreover have "nat (attr_offset f + 4) = ?off + 4" using assms(2) by simp
  moreover have "take (nat (attr_len f - 4)) (if v_type v = NULLS then replicate (nat (attr_len f - 4)) 0 else v_data v) = ?rest"
    using True by (simp add: data_len_def)
  ultimately show ?thesis
    using True assms len by (auto simp: put_field_def copy_in_def Let_def field_bytes_def fits_def data_len_def split: if_splits)
next
  case False
  then show ?thesis using assms by (auto simp: put_field_def copy_in_def field_bytes_def fits_def data_len_def split: if_splits)
qed

lemma drop_overwrite:
  assumes "off + length ys \<le> n" "off + length ys \<le> length xs"
  shows "drop n (overwrite xs off ys) = drop n xs"
proof (rule nth_equalityI)
  show "length (drop n (overwrite xs off ys)) = length (drop n xs)" using assms(2) by simp
next
  fix i assume "i < length (drop n (overwrite xs off ys))"
  then show "drop n (overwrite xs off ys) ! i = drop n xs ! i" using assms by (auto simp: nth_overwrite)
qed

lemma put_fields_bytes:
  assumes "contiguous off fs e" "0 \<le> off" "list_all2 fits fs vs" "e \<le> int (length buf)"
  shows "put_fields fs vs buf = Some (take (nat off) buf @ concat (map2 field_bytes fs vs) @ drop (nat e) buf)
    \<and> length (concat (map2 field_bytes fs vs)) = nat e - nat off"
  using assms
proof (induction fs arbitrary: off vs buf)
  case (Cons f fs)
  obtain v vs' where vs: "vs = v # vs'" "fits f v" "list_all2 fits fs vs'" using Cons.prems(3) by (cases vs) auto
  have f: "attr_offset f = off" "0 < attr_len f" "contiguous (off + attr_len f) fs e" using Cons.prems(1) by auto
  have le: "off + attr_len f \<le> e"
    using contiguous_offsets [OF Cons.prems(1), of f] f(1) by simp
  let ?buf = "overwrite buf (nat off) (field_bytes f v)"
  have n: "length (field_bytes f v) = nat (attr_len f)" by (rule length_field_bytes [OF vs(2) f(2)])
  have fit: "nat off + nat (attr_len f) \<le> length buf" using le Cons.prems(2,4) f(2) by linarith
  have put: "put_field f v buf = Some ?buf"
    using put_field_bytes [OF vs(2), of buf] f fit Cons.prems(2) by simp
  have len: "length ?buf = length buf" using fit n by simp
  have ih: "put_fields fs vs' ?buf = Some (take (nat (off + attr_len f)) ?buf @ concat (map2 field_bytes fs vs') @ drop (nat e) ?buf)
      \<and> length (concat (map2 field_bytes fs vs')) = nat e - nat (off + attr_len f)"
    using Cons.IH [OF f(3) _ vs(3), of ?buf] Cons.prems(2,4) f(2) len by simp
  have split: "nat (off + attr_len f) = nat off + nat (attr_len f)" using Cons.prems(2) f(2) by simp
  have "take (nat off + nat (attr_len f)) ?buf = take (nat off) buf @ field_bytes f v"
    using fit n by (simp add: overwrite_def min_def)
  moreover have "drop (nat e) ?buf = drop (nat e) buf"
    using le Cons.prems(2) f(2) fit n by (intro drop_overwrite) linarith+
  ultimately show ?case
    using put ih n split le Cons.prems(2) f(2) by (simp add: vs(1))
qed (simp add: list_all2_Nil)

lemma c_bytes_take: "0 \<in> set (take n d) \<Longrightarrow> c_bytes (take n d @ post) = c_bytes d"
  by (metis (mono_tags, lifting) append_take_drop_id c_bytes_def takeWhile_append1)

lemma segment_at: "length pre = off \<Longrightarrow> n \<le> length xs \<Longrightarrow> segment (pre @ xs @ post) off n = take n xs"
  by (simp add: segment_def)

text \<open>Reading a field out of the bytes that have been written for it.\<close>

lemma read_data:
  assumes "attr_type f = t" "t \<in> {INTS, FLOATS, CHARS, DATE}" "v_type v = t" "data_len f \<le> length (v_data v)"
    "if t = CHARS then 0 \<in> set (take (data_len f) (v_data v)) else 4 \<le> data_len f"
    and start: "length pre = (if nullable f then nat (attr_offset f) + 4 else nat (attr_offset f))"
    and flag: "nullable f \<Longrightarrow> read_int (pre @ take (data_len f) (v_data v) @ post) (nat (attr_offset f)) = 0"
  shows "read_field f (pre @ take (data_len f) (v_data v) @ post) = Some [shown v]"
proof -
  let ?mem = "pre @ take (data_len f) (v_data v) @ post"
  have n: "\<not> (nullable f \<and> length ?mem < nat (attr_offset f) + 4)" using start by auto
  have seg: "segment ?mem (length pre) 4 = segment (v_data v) 0 4" "length pre + 4 \<le> length ?mem" if "t \<noteq> CHARS"
    using that assms(4,5) by (simp_all add: segment_def min_def)
  have str: "has_zero (drop (length pre) ?mem)" "c_bytes (drop (length pre) ?mem) = c_bytes (v_data v)" if "t = CHARS"
    using that assms(5) c_bytes_take by (auto simp: has_zero_def)
  have st: "(if nullable f then nat (attr_offset f) + 4 else nat (attr_offset f)) = length pre" using start by simp
  show ?thesis
    using assms(1-3) n seg str flag unfolding read_field_def Let_def st
    by (cases t) (auto simp: shown_def read_int_def)
qed

lemma read_field_bytes:
  assumes "fits f v" "length pre = nat (attr_offset f)"
  shows "read_field f (pre @ field_bytes f v @ post) = Some [shown v]"
proof (cases "v_type v = NULLS")
  case True
  have "in_int 1" by (simp add: in_int_def)
  then have "read_int (pre @ int_bytes 1 @ replicate (data_len f) 0 @ post) (nat (attr_offset f)) = 1"
    using assms(2) by (simp add: read_int_at(1))
  then show ?thesis using True assms by (auto simp: fits_def field_bytes_def read_field_def shown_def)
next
  case False
  have "in_int 0" by (simp add: in_int_def)
  then have flag: "read_int (pre @ int_bytes 0 @ rest) (nat (attr_offset f)) = 0" for rest
    using assms(2) by (simp add: read_int_at(1))
  let ?pre = "if nullable f then pre @ int_bytes 0 else pre"
  have "read_field f (?pre @ take (data_len f) (v_data v) @ post) = Some [shown v]"
    using assms False flag by (intro read_data [OF refl]) (auto simp: fits_def split: if_splits)
  then show ?thesis using False by (simp add: field_bytes_def split: if_splits)
qed

lemma read_fields_bytes:
  assumes "contiguous off fs e" "0 \<le> off" "list_all2 fits fs vs" "length pre = nat off"
  shows "list_all2 (\<lambda>f v. read_field f (pre @ concat (map2 field_bytes fs vs) @ post) = Some [shown v]) fs vs"
  using assms
proof (induction fs arbitrary: off vs pre)
  case (Cons f fs)
  obtain v vs' where vs: "vs = v # vs'" "fits f v" "list_all2 fits fs vs'" using Cons.prems(3) by (cases vs) auto
  have f: "attr_offset f = off" "0 < attr_len f" "contiguous (off + attr_len f) fs e" using Cons.prems(1) by auto
  have "length (pre @ field_bytes f v) = nat (off + attr_len f)"
    using Cons.prems(2,4) f(2) length_field_bytes [OF vs(2) f(2)] by simp
  then have "list_all2 (\<lambda>g v'. read_field g ((pre @ field_bytes f v) @ concat (map2 field_bytes fs vs') @ post) = Some [shown v']) fs vs'"
    using f(2) Cons.prems(2) by (intro Cons.IH [OF f(3) _ vs(3)]) simp_all
  moreover have "read_field f (pre @ field_bytes f v @ concat (map2 field_bytes fs vs') @ post) = Some [shown v]"
    using read_field_bytes [OF vs(2)] Cons.prems(4) f(1) by simp
  ultimately show ?case by (simp add: vs(1))
qed simp

lemma from_table_fields:
  assumes "list_all visible fs"
  shows "foldl (\<lambda>sch f. if visible f then schema_add (attr_type f) t (fm_name f) sch else sch) sch fs
    = sch @ map (\<lambda>f. \<lparr>tf_type = attr_type f, tf_table = t, tf_field = fm_name f\<rparr>) fs"
  using assms by (induction fs arbitrary: sch) (simp_all add: schema_add_def)

lemma read_record_fields:
  assumes "list_all2 (\<lambda>f v. read_field f b = Some [shown v]) fs vs" "\<forall>f \<in> set fs. field_by_name m (fm_name f) = Some f"
  shows "read_record m (map (\<lambda>f. \<lparr>tf_type = attr_type f, tf_table = t, tf_field = fm_name f\<rparr>) fs) b = Some (map shown vs)"
  using assms by (induction fs vs rule: list_all2_induct) simp_all

lemma field_by_name_distinct:
  assumes "distinct (map fm_name (tm_fields m))" "f \<in> set (tm_fields m)"
  shows "field_by_name m (fm_name f) = Some f"
proof -
  have "find (\<lambda>g. fm_name g = fm_name f) fs = Some f" if "distinct (map fm_name fs)" "f \<in> set fs" for fs
    using that by (induction fs) (auto simp: image_iff)
  then show ?thesis using assms by (simp add: field_by_name_def)
qed

lemma no_unique_clash:
  assumes "tb_unique (te_table e) = []"
  shows "find_if_exist_unique_record sy fs vs e = Some (Inr False, e)"
  using assms by (induction fs vs rule: list_induct2') (simp_all add: bindE_def gets_def ret_def)

text \<open>
  C9. A row that fits its table is read back as it was entered. \<^verbatim>\<open>make_record\<close> succeeds for a table without
  unique indexes when the checks accept the values and each of the resulting values fits its column: the
  record has the size of the table and four bytes more, its transaction field is 0, and reading the
  columns of the table out of it gives the values, nulls included.
\<close>

theorem inserted_row_reads_back:
  assumes m: "m = tb_meta (te_table e)" "meta_ok m" "list_all visible (tl (tm_fields m))" "distinct (map fm_name (tm_fields m))"
    and e: "te_sys e = [trx_field]" "tb_unique (te_table e) = []"
    and vs: "length vs = length (tl (tm_fields m))" "check_values sy (tl (tm_fields m)) vs = Some (Inr vs')" "list_all2 fits (tl (tm_fields m)) vs'"
  shows "\<exists>b. make_record sy vs e = Some (Inr b, e) \<and> int (length b) = TableMeta.record_size m + 4 \<and> take 4 b = [0, 0, 0, 0]
    \<and> read_record m (from_table m []) b = Some (map shown vs')"
proof -
  obtain fs where fs: "tm_fields m = trx_field # fs" "contiguous 4 fs (TableMeta.record_size m)"
    using m(2) by (cases "tm_fields m") (auto simp: meta_ok_def trx_field_def)
  let ?size = "TableMeta.record_size m"
  let ?buf = "replicate (nat (?size + 4)) (0 :: byte)"
  have fits: "list_all2 fits fs vs'" using vs(3) fs(1) by simp
  have size: "4 \<le> ?size"
    using contiguous_offsets [of 0 "tm_fields m" ?size trx_field] m(2) fs(1) by (auto simp: meta_ok_def trx_field_def)
  define b where "b = take 4 ?buf @ concat (map2 field_bytes fs vs') @ drop (nat ?size) ?buf"
  have put: "put_fields fs vs' ?buf = Some b" and len: "length (concat (map2 field_bytes fs vs')) = nat ?size - 4"
    using put_fields_bytes [OF fs(2) _ fits, of ?buf] size by (simp_all add: b_def)
  have b: "int (length b) = ?size + 4" "take 4 b = [0, 0, 0, 0]"
    using len size by (simp_all add: b_def numeral_eq_Suc)
  have "read_record m (from_table m []) b = Some (map shown vs')"
  proof -
    have "list_all2 (\<lambda>f v. read_field f b = Some [shown v]) fs vs'"
      unfolding b_def using size by (intro read_fields_bytes [OF fs(2) _ fits]) simp_all
    moreover have "\<forall>f \<in> set fs. field_by_name m (fm_name f) = Some f"
      using field_by_name_distinct [OF m(4)] fs(1) by simp
    moreover have "\<not> visible trx_field" by (simp add: trx_field_def)
    ultimately show ?thesis
      using read_record_fields from_table_fields [of fs "tm_name m" "[]"] m(3) fs(1) by (simp add: from_table_def)
  qed
  moreover have "make_record sy vs e = Some (Inr b, e)"
    using vs(1,2) fs(1) e m(1) put by (simp add: make_record_def get_meta_def run bindE_ok [OF no_unique_clash])
  ultimately show ?thesis using b by blast
qed

definition people :: TableMeta where
  "people = tm_new\<lparr>tm_name := ''people'', tm_fields := [trx_field,
     \<lparr>fm_name = ''id'', attr_type = INTS, attr_offset = 4, attr_len = 4, visible = True, nullable = False\<rparr>,
     \<lparr>fm_name = ''name'', attr_type = CHARS, attr_offset = 8, attr_len = 8, visible = True, nullable = True\<rparr>], TableMeta.record_size := 16\<rparr>"

definition no_pool :: "('s, 'd) pool_ops" where
  "no_pool = \<lparr>op_get_this_page = (\<lambda>_ _. undef), op_allocate_page = (\<lambda>_. undef), op_get_page_num = (\<lambda>_. undef), op_get_data = (\<lambda>_. undef),
     op_peek_num = (\<lambda>_. undef), op_peek_data = (\<lambda>_. undef), op_put_data = (\<lambda>_ _. undef), op_mark_dirty = (\<lambda>_. undef),
     op_unpin_page = (\<lambda>_. undef), op_dispose_page = (\<lambda>_ _. undef), op_get_page_count = (\<lambda>_. undef), op_flush_all_pages = (\<lambda>_. undef),
     op_create_file = (\<lambda>_. undef), op_open_file = (\<lambda>_. undef), op_close_file = (\<lambda>_. undef)\<rparr>"

definition plain_system :: "(unit, rec_page pool) system" where
  "plain_system = \<lparr>sy_ops = bp_ops, sy_iops = no_pool, sy_env = no_subqueries, sy_ctx = [], sy_strptime = (\<lambda>_. None), sy_mktime = (\<lambda>_. 0), sy_junk = False\<rparr>"

definition people_env :: "rec_page pool tenv" where
  "people_env = \<lparr>te_table = (table_new 1 False)\<lparr>tb_meta := people, tb_pool := True, tb_file_id := 0, record_handler := Some opened_file\<rparr>,
     te_trx = (0, trx_new), te_sys = [trx_field], te_first = 0, te_pool = new_rec_pool\<rparr>"

lemma people_ok: "meta_ok people" "list_all visible (tl (tm_fields people))" "distinct (map fm_name (tm_fields people))"
  by (simp_all add: people_def meta_ok_def trx_field_def tm_new_def name_ok_def stored_types_def)

theorem inserted_row_reads_back_witness:
  "\<exists>b. make_record plain_system [int_const 7, \<lparr>v_type = CHARS, v_data = [97, 98, 0, 0]\<rparr>] people_env = Some (Inr b, people_env)
    \<and> read_record people (from_table people []) b = Some [IntValue 7, StringValue [97, 98]]"
proof -
  let ?vs = "[int_const 7, \<lparr>v_type = CHARS, v_data = [97, 98, 0, 0]\<rparr>]"
  have m: "people = tb_meta (te_table people_env)" by (simp add: people_env_def table_new_def)
  have e: "te_sys people_env = [trx_field]" "tb_unique (te_table people_env) = []" by (simp_all add: people_env_def table_new_def)
  have vs: "length ?vs = length (tl (tm_fields people))" "check_values plain_system (tl (tm_fields people)) ?vs = Some (Inr ?vs)"
      "list_all2 fits (tl (tm_fields people)) ?vs"
    by (simp_all add: people_def check_value_def type_match_def value_validation_def int_const_def fits_def data_len_def)
  have "map shown ?vs = [IntValue 7, StringValue [97, 98]]"
    by (simp add: shown_def int_const_def c_bytes_def int_bytes_def upt_rec read_int_def le_word_def segment_def)
  then show ?thesis using inserted_row_reads_back [OF m people_ok e vs] by auto
qed

section \<open>Reading a table\<close>

lemma no_index_for_scan:
  assumes "indexes (tb_meta (te_table e)) = []" "unique_indexes (tb_meta (te_table e)) = []"
  shows "find_index_for_scan sy fls e = Some (Inr None, e)"
proof (induction fls)
  case (Cons fl fls)
  have "scan_candidate (te_table e) fl = Some None"
    using assms by (simp add: scan_candidate_def Let_def find_index_by_fields_def split: option.splits)
  then show ?case using Cons by (simp add: run)
qed (simp add: run)

lemma pool_ready_count:
  assumes "pool_ready b fid s"
  shows "file_count s fid \<le> 32768"
proof -
  have "contract_ok fid s" using assms by (simp add: pool_ready_def client_ok_def)
  then have "file_count s fid \<le> int max_pages" by (rule contract_okE) (auto simp: file_count_def hdr_wf_def)
  then show ?thesis by (simp add: max_pages_def BP_PAGE_DATA_SIZE_def BP_PAGE_SIZE_def BP_FILE_SUB_HDR_SIZE_def)
qed

lemma select_reader_run:
  assumes "tb_meta (te_table e) = m" "ts_schema ts = sch" "read_record m sch d \<noteq> None"
  shows "select_reader r d p (ts, e) = Some (Inr (), (ts_add (the (read_record m sch d)) ts, e))"
  using assms by (auto simp: select_reader_def get_meta_def converter_add_record_def run)

lemma foldl_ts_add:
  "foldl (\<lambda>ts d. ts_add (g d) ts) \<lparr>ts_tuples = xs, ts_schema = sch\<rparr> ds = \<lparr>ts_tuples = xs @ map g ds, ts_schema = sch\<rparr>"
  by (induction ds arbitrary: xs) (simp_all add: ts_add_def)

text \<open>
  C3. A select without an index returns the rows of the table. For a table without indexes whose records fit
  into a page, the result has a tuple for every record of the file that the conditions accept
  and the transaction sees, and no others, in the order of the file. The records and the pins of the pages are as
  before. The statement succeeds when the last page of the file is in use; otherwise the result is complete
  and the code is \<^verbatim>\<open>BUFFERPOOL_INVALID_PAGE_NUM\<close>.
\<close>

theorem select_returns_visible_rows:
  fixes e :: "rec_page pool tenv" and sy :: "('q, rec_page pool) system"
  assumes e: "tb_file_id (te_table e) = fid" "tb_pool (te_table e)" "tb_meta (te_table e) = m" "te_trx e = (n, t)" "te_pool e = s"
    and m: "indexes m = []" "unique_indexes m = []" "0 < TableMeta.record_size m" "TableMeta.record_size m \<le> 4056"
    and s: "sy_ops sy = bp_ops" "pool_ready (file_pins s fid) fid s" "pages_ok rs (file_view s fid)" "1 < file_count s fid"
    and rows: "rows = filter (accepts sy (Some fls)) (map snd (pages_from (file_view s fid) 1 (file_count s fid)))"
      "\<forall>d \<in> set rows. (trx \<longrightarrow> is_visible m t d \<noteq> None) \<and> (sees trx m t d \<longrightarrow> read_record m sch d \<noteq> None)"
  shows "\<exists>s'. select_execute sy trx sch fls (ts, e)
      = Some (if file_view s fid (file_count s fid - 1) = None then Inl BUFFERPOOL_INVALID_PAGE_NUM else Inr (),
          (\<lparr>ts_tuples = map (\<lambda>d. the (read_record m sch d)) (filter (sees trx m t) rows), ts_schema = sch\<rparr>, e\<lparr>te_pool := s'\<rparr>))
    \<and> file_view s' fid = file_view s fid \<and> file_pins s' fid = file_pins s fid"
proof -
  let ?xs = "filter (\<lambda>(r, d). accepts sy (Some fls) d) (pages_from (file_view s fid) 1 (file_count s fid))"
  let ?ts = "\<lparr>ts_tuples = [], ts_schema = sch\<rparr>"
  let ?g = "\<lambda>ts d. ts_add (the (read_record m sch d)) ts"
  have snd: "map snd ?xs = rows" unfolding rows(1) filter_map by (simp add: comp_def case_prod_unfold)
  have in_rows: "d \<in> set rows" if "(r, d) \<in> set ?xs" for r d unfolding snd [symmetric] using that by force
  have one: "record_times (tb_meta (te_table e)) = 1"
    using m(3,4) e(3) by (simp add: record_times_def div0_def)
  have pc: "file_count s fid \<le> 32768" by (rule pool_ready_count [OF s(2)])
  have r: "dbr.ready fid s" "dbr.space fid (file_pins s fid) s"
    using s(2) by (simp_all add: pool_ready_def dbr.ready_def dbr.space_def)
  have reads: "select_reader r d p (c, e') = Some (Inr (), (?g c d, e')) \<and> ts_schema (?g c d) = sch"
    if "(r, d) \<in> set ?xs" "sees trx (tb_meta (te_table e)) t d" "te_table e' = te_table e" "te_trx e' = (n, t)" "ts_schema c = sch" for r d p c e'
  proof -
    have "read_record m sch d \<noteq> None" using rows(2) in_rows [OF that(1)] that(2) e(3) by blast
    then show ?thesis using select_reader_run [of e' m c sch d r p] that e(3) by (simp add: ts_add_def)
  qed
  have "\<exists>s'. scan_file sy trx (Some fls) (2 ^ 31 - 1) select_reader (?ts, e)
      = Some (if scan_end (file_view s fid) (file_count s fid) = RECORD_EOF then Inr () else Inl (scan_end (file_view s fid) (file_count s fid)),
          (foldl ?g ?ts (filter (sees trx (tb_meta (te_table e)) t) (map snd ?xs)), e\<lparr>te_pool := s'\<rparr>))
    \<and> dbr.same fid (te_pool e) s' \<and> file_pins s' fid = file_pins s fid"
    by (rule dbr.scan_file_run [where R = "\<lambda>ts. ts_schema ts = sch" and fid = fid and v = "file_view s fid" and b = "file_pins s fid" and pc = "file_count s fid" and xs = ?xs and g = ?g, OF e(1) one e(4)])
      ((use r s e(3,5) pc in \<open>simp; fail\<close>) | (rule reads; assumption) | (use rows(2) e(3) in_rows in \<open>blast\<close>))+
  then show ?thesis
    using e(2,3,5) m no_index_for_scan [of e sy fls] unfolding snd foldl_ts_add
    by (fastforce simp: select_execute_def scan_record_def scan_end_def dbr.same_def run)
qed

lemma pages_from_map:
  assumes "(r, d) \<in> set (pages_from v p n)"
  shows "\<exists>q i. file_map v q i = Some d"
proof -
  obtain q where q: "(r, d) \<in> set (case v q of None \<Rightarrow> [] | Some pg \<Rightarrow> page_records q pg 0)"
    using assms by (auto simp: pages_from_def)
  then obtain pg where "v q = Some pg" "(r, d) \<in> set (page_records q pg 0)" by (cases "v q") auto
  then show ?thesis by (auto simp: page_records_def slots_from_def file_map_def intro!: exI [of _ q])
qed

lemma sevens: "read_int (replicate 16 7) 4 = 117901063"
  by code_simp

lemma one_record_content:
  assumes "rf_insert_record bp_ops (replicate 16 7) 16 (opened_file, new_rec_pool) = Some (Inr (Some r), (f, s))"
  shows "(q, d) \<in> set (pages_from (file_view s 0) p n) \<Longrightarrow> d = replicate 16 7"
proof -
  have m: "file_count new_rec_pool 0 < int max_pages"
    by (simp add: new_rec_pool_def max_pages_def BP_PAGE_DATA_SIZE_def BP_PAGE_SIZE_def BP_FILE_SUB_HDR_SIZE_def)
  obtain c i where "file_map (file_view s 0) = (file_map (file_view new_rec_pool 0))(c := (file_map (file_view new_rec_pool 0) c)(i \<mapsto> replicate 16 7))"
    using insert_then_get [OF new_rec_pool_ok m, of 16 "replicate 16 7"] assms by auto
  then have "file_map (file_view s 0) x y = Some d \<Longrightarrow> d = replicate 16 7" for x y
    by (auto simp: new_rec_pool_def file_map_def split: if_splits)
  then show "(q, d) \<in> set (pages_from (file_view s 0) p n) \<Longrightarrow> d = replicate 16 7" using pages_from_map by blast
qed

theorem select_returns_visible_rows_witness:
  "\<exists>c i f s s' rows. rf_insert_record bp_ops (replicate 16 7) 16 (opened_file, new_rec_pool) =
      Some (Inr (Some \<lparr>rid_page = c, rid_slot = int i\<rparr>), (f, s)) \<and>
    rows = map snd (pages_from (file_view s 0) 1 (file_count s 0)) \<and>
    select_execute plain_system False [\<lparr>tf_type = INTS, tf_table = ''people'', tf_field = ''id''\<rparr>] [] (\<lparr>ts_tuples = [], ts_schema = []\<rparr>, people_env\<lparr>te_pool := s\<rparr>)
      = Some (Inr (), (\<lparr>ts_tuples = map (\<lambda>_. [IntValue 117901063]) rows, ts_schema = [\<lparr>tf_type = INTS, tf_table = ''people'', tf_field = ''id''\<rparr>]\<rparr>, people_env\<lparr>te_pool := s'\<rparr>))"
proof -
  let ?sch = "[\<lparr>tf_type = INTS, tf_table = ''people'', tf_field = ''id''\<rparr>]"
  obtain c i f s where r: "rf_insert_record bp_ops (replicate 16 7) 16 (opened_file, new_rec_pool) =
      Some (Inr (Some \<lparr>rid_page = c, rid_slot = int i\<rparr>), (f, s))" "pool_ready (file_pins s 0) 0 s"
    "pages_ok 16 (file_view s 0)" "1 < file_count s 0" "file_view s 0 (file_count s 0 - 1) \<noteq> None"
    by (rule one_record_file)
  let ?e = "people_env\<lparr>te_pool := s\<rparr>"
  let ?rows = "map snd (pages_from (file_view s 0) 1 (file_count s 0))"
  have e: "tb_file_id (te_table ?e) = 0" "tb_pool (te_table ?e)" "tb_meta (te_table ?e) = people" "te_trx ?e = (0, trx_new)" "te_pool ?e = s"
    by (simp_all add: people_env_def table_new_def)
  have m: "indexes people = []" "unique_indexes people = []" "0 < TableMeta.record_size people" "TableMeta.record_size people \<le> 4056"
    by (simp_all add: people_def tm_new_def)
  have sy: "sy_ops plain_system = bp_ops" by (simp add: plain_system_def)
  have rows: "?rows = filter (accepts plain_system (Some [])) ?rows" by (simp add: accepts_def)
  have read: "read_record people ?sch d = Some [IntValue 117901063]" if "d \<in> set ?rows" for d
  proof -
    have "d = replicate 16 7" using that one_record_content [OF r(1)] by auto
    then show ?thesis using sevens by (simp add: people_def field_by_name_def trx_field_def read_field_def)
  qed
  then have ok: "\<forall>d \<in> set ?rows. (False \<longrightarrow> is_visible people (trx_new :: nat Trx) d \<noteq> None) \<and>
      (sees False people (trx_new :: nat Trx) d \<longrightarrow> read_record people ?sch d \<noteq> None)" by simp
  have "map (\<lambda>d. the (read_record people ?sch d)) ?rows = map (\<lambda>_. [IntValue 117901063]) ?rows" using read by simp
  then show ?thesis
    using select_returns_visible_rows [OF e m sy r(2-4) rows ok, of "\<lparr>ts_tuples = [], ts_schema = []\<rparr>"] r(1,5) by (fastforce simp: sees_def)
qed

section \<open>Inserting a record\<close>

lemma get_record_trx_id_take:
  assumes "trx_offset m = Some off" "off + 4 \<le> k" "k \<le> length b"
  shows "get_record_trx_id m (take k b) = get_record_trx_id m b"
proof -
  have "segment (take k b) off 4 = segment b off 4" using assms(2) by (simp add: segment_def drop_take min_def)
  then show ?thesis using assms by (simp add: get_record_trx_id_def)
qed

lemma on_file_run:
  assumes "record_handler (te_table e) = Some f" "m (f, te_pool e) = Some (r, (f', s'))"
  shows "on_file m e = Some (r, e\<lparr>te_table := (te_table e)\<lparr>record_handler := Some f'\<rparr>, te_pool := s'\<rparr>)"
  using assms by (simp add: on_file_def zoom_def run)

lemma no_index_entries:
  assumes "tb_indexes (te_table e) = []" "tb_unique (te_table e) = []"
  shows "insert_entry_of_indexes iops rec rid e = Some (Inr (), e)"
proof -
  have "(te_table e)\<lparr>tb_indexes := []\<rparr> = te_table e" "(te_table e)\<lparr>tb_unique := []\<rparr> = te_table e"
    using assms by (cases "te_table e"; simp)+
  then show ?thesis using assms by (simp add: insert_entry_of_indexes_def on_indexes_def on_unique_def attempt_def Let_def)
qed

text \<open>
  C10. Inserting into a table without indexes. The record gets an identifier that was free, the transaction
  has started and has queued the insertion, and reading the identifier gives the bytes that were passed,
  except for the transaction field. Who sees the record depends on the number that the transaction had before
  the call: with a number, the transaction alone; without one, every transaction, because the field is
  written before the transaction gets its number.
\<close>

theorem inserted_record_visibility:
  fixes e :: "rec_page pool tenv" and iops :: "(rec_page pool, ix_page) pool_ops"
  assumes e: "tb_meta (te_table e) = m" "record_handler (te_table e) = Some f" "te_trx e = (n, t)" "te_pool e = s"
      "tb_indexes (te_table e) = []" "tb_unique (te_table e) = []"
    and m: "trx_offset m = Some off" "off + 4 \<le> nat (TableMeta.record_size m)" "8 < TableMeta.record_size m"
      "TableMeta.record_size m \<le> 4056" "TableMeta.record_size m \<le> int (length bytes)"
    and s: "rec_file_ok b fid f s" "rec_table_ok (TableMeta.record_size m) fid s" "file_count s fid < int max_pages"
    and t: "uint (trx_id t) < 2 ^ 31"
      "\<forall>c i. file_map (file_view s fid) c i = None \<longrightarrow> find_operation (tb_id (te_table e)) \<lparr>rid_page = c, rid_slot = int i\<rparr> t = None"
  shows "\<exists>c i e' d e''. insert_record bp_ops iops True bytes e = Some (Inr \<lparr>rid_page = c, rid_slot = int i\<rparr>, e')
    \<and> file_map (file_view s fid) c i = None
    \<and> te_trx e' = map_prod id (insert_operation (tb_id (te_table e)) INSERT \<lparr>rid_page = c, rid_slot = int i\<rparr>) (start_if_not_started (n, t))
    \<and> on_file (rf_get_record bp_ops \<lparr>rid_page = c, rid_slot = int i\<rparr>) e' = Some (Inr (Some d), e'')
    \<and> take off d = take off bytes \<and> drop (off + 4) d = drop (off + 4) (take (nat (TableMeta.record_size m)) bytes)
    \<and> (\<forall>u :: nat Trx. is_visible m u d = Some (trx_id t = 0 \<or> trx_id u = trx_id t))"
proof -
  let ?n = "nat (TableMeta.record_size m)"
  have len: "off + 4 \<le> length bytes" "?n \<le> length bytes" using m(2,5) by simp_all
  obtain b' where b: "set_record_trx_id m (trx_id t) False bytes = Some b'" "length b' = length bytes"
      "get_record_trx_id m b' = Some (trx_id t, False)" "take off b' = take off bytes" "drop (off + 4) b' = drop (off + 4) bytes"
    using record_trx_id [OF m(1) len(1) t(1)] by metis
  have size: "TableMeta.record_size m \<le> int (length b')" using b(2) m(5) by simp
  obtain c i f' s' s'' where ins: "rf_insert_record bp_ops b' (TableMeta.record_size m) (f, s) = Some (Inr (Some \<lparr>rid_page = c, rid_slot = int i\<rparr>), (f', s'))"
      "file_map (file_view s fid) c i = None"
      "rf_get_record bp_ops \<lparr>rid_page = c, rid_slot = int i\<rparr> (f', s') = Some (Inr (Some (take ?n b')), (f', s''))"
    using insert_then_get [OF s m(3,4) size] by auto
  let ?rid = "\<lparr>rid_page = c, rid_slot = int i\<rparr>"
  let ?e1 = "e\<lparr>te_table := (te_table e)\<lparr>record_handler := Some f'\<rparr>, te_pool := s'\<rparr>"
  let ?e = "?e1\<lparr>te_trx := map_prod id (insert_operation (tb_id (te_table e)) INSERT ?rid) (start_if_not_started (n, t))\<rparr>"
  have put: "on_file (rf_insert_record bp_ops b' (TableMeta.record_size m)) e = Some (Inr (Some ?rid), ?e1)"
    using on_file_run [OF e(2)] ins(1) e(4) by simp
  have queued: "on_trx (trx_insert_record (tb_id (te_table e)) ?rid) ?e1 = Some (Inr (), ?e)"
    using e(3) t(2) ins(2) by (simp add: on_trx_def zoom_def trx_insert_record_def run)
  have "insert_record bp_ops iops True bytes e = Some (Inr ?rid, ?e)"
    using e b(1) put queued no_index_entries [of ?e iops "Some b'" ?rid]
    by (simp add: insert_record_def get_meta_def init_trx_info_def run)
  moreover have "on_file (rf_get_record bp_ops ?rid) ?e = Some (Inr (Some (take ?n b')), ?e\<lparr>te_table := (te_table ?e)\<lparr>record_handler := Some f'\<rparr>, te_pool := s''\<rparr>)"
    using on_file_run [of ?e f' "rf_get_record bp_ops ?rid" "Inr (Some (take ?n b'))" f' s''] ins(3) by simp
  moreover have "is_visible m u (take ?n b') = Some (trx_id t = 0 \<or> trx_id u = trx_id t)" for u :: "nat Trx"
    using is_visible_get [of m "take ?n b'" "trx_id t" False u] get_record_trx_id_take [OF m(1,2), of b'] b(2,3) len(2) by auto
  moreover have "take off (take ?n b') = take off bytes" "drop (off + 4) (take ?n b') = drop (off + 4) (take ?n bytes)"
    using b(4,5) m(2) by (simp_all add: drop_take min_def)
  ultimately show ?thesis using ins(2) by (intro exI conjI) (assumption | simp)+
qed

theorem inserted_record_visibility_witness:
  "\<exists>c i e' d e''. insert_record bp_ops no_pool True (replicate 20 0) people_env = Some (Inr \<lparr>rid_page = c, rid_slot = int i\<rparr>, e')
    \<and> on_file (rf_get_record bp_ops \<lparr>rid_page = c, rid_slot = int i\<rparr>) e' = Some (Inr (Some d), e'')
    \<and> snd (te_trx e') = \<lparr>trx_id = 1, operations = [(1, [\<lparr>op_type = INSERT, op_rid = \<lparr>rid_page = c, rid_slot = int i\<rparr>\<rparr>])]\<rparr>
    \<and> is_visible people third_trx d = Some True"
proof -
  have e: "tb_meta (te_table people_env) = people" "record_handler (te_table people_env) = Some opened_file" "te_trx people_env = (0, trx_new)"
      "te_pool people_env = new_rec_pool" "tb_indexes (te_table people_env) = []" "tb_unique (te_table people_env) = []"
    by (simp_all add: people_env_def table_new_def)
  have m: "trx_offset people = Some 0" "0 + 4 \<le> nat (TableMeta.record_size people)" "8 < TableMeta.record_size people"
      "TableMeta.record_size people \<le> 4056" "TableMeta.record_size people \<le> int (length (replicate 20 0 :: byte list))"
    by (simp_all add: people_def trx_offset_def trx_field_def)
  have c: "file_count new_rec_pool 0 < int max_pages"
    by (simp add: new_rec_pool_def max_pages_def BP_PAGE_DATA_SIZE_def BP_PAGE_SIZE_def BP_FILE_SUB_HDR_SIZE_def)
  have t: "uint (trx_id (trx_new :: nat Trx)) < 2 ^ 31" "\<forall>c i. file_map (file_view new_rec_pool 0) c i = None \<longrightarrow>
      find_operation (tb_id (te_table people_env)) \<lparr>rid_page = c, rid_slot = int i\<rparr> trx_new = None"
    by (simp_all add: trx_new_def find_operation_def)
  have id: "tb_id (te_table people_env) = 1" by (simp add: people_env_def table_new_def)
  show ?thesis
    using inserted_record_visibility [OF e m new_rec_pool_ok c t, of no_pool] unfolding id
    by (fastforce simp: start_if_not_started_def trx_new_def next_trx_id_def insert_operation_def emplace_def)
qed

text \<open>When a unique index takes the entry, the failure of an ordinary index is forgotten.\<close>

lemma index_failure_forgotten:
  assumes "index_loop (with_record rec (\<lambda>b. bti_insert_entry iops b rid)) (\<lambda>_. True) (tb_indexes (te_table e)) (Inr ()) (te_pool e) = Some (Inl rc, ixs, s)"
    and "index_loop (with_record rec (\<lambda>b. bti_insert_entry iops b rid)) (\<lambda>_. True) (tb_unique (te_table e)) (Inl rc) s = Some (Inr (), us, s')"
  shows "insert_entry_of_indexes iops rec rid e = Some (Inr (), e\<lparr>te_table := (te_table e)\<lparr>tb_indexes := ixs, tb_unique := us\<rparr>, te_pool := s'\<rparr>)"
  using assms by (simp add: insert_entry_of_indexes_def on_indexes_def on_unique_def attempt_def Let_def)

text \<open>A scan with an index uses the operator of the condition for \<^verbatim>\<open>value op column\<close> as it does for
  \<^verbatim>\<open>column op value\<close>.\<close>

lemma scan_operator_not_flipped:
  assumes "is_attr (cd_field (fl_left fl))" "\<not> is_attr (cd_field (fl_right fl))"
  shows "scan_candidate tb (fl\<lparr>fl_left := fl_right fl, fl_right := fl_left fl\<rparr>) = scan_candidate tb fl"
  using assms by (simp add: scan_candidate_def Let_def split: option.splits ConditionField.splits)

end
