(* ===== verification/Aggregation.thy ===== *)
theory Aggregation
  imports Condition_Filter
begin

text \<open>
  Aggregation (\<^verbatim>\<open>sql/executor/aggregator.h\<close>, \<^verbatim>\<open>aggregator_manager.cpp\<close>, \<^verbatim>\<open>aggregation_executor.cpp\<close>) and grouping
  (\<^verbatim>\<open>grouper.cpp\<close>). The aggregators are values of a datatype that consume tuples one by one. The maps of
  the grouper are lists of entries whose keys differ in their hash; the order in which an
  \<^verbatim>\<open>unordered_map\<close> goes through its entries and the hash of a string are arguments.
\<close>

section \<open>Floats\<close>

text \<open>Sum and quotient in single precision, as multiples of \<^verbatim>\<open>2^-149\<close>, and the bits of a float. The first
  argument of \<^verbatim>\<open>flt_bits\<close> is the sign of a zero; the bits of a NaN are one of several patterns.\<close>

fun flt_add :: "flt \<Rightarrow> flt \<Rightarrow> flt" where
  "flt_add (Fin a) (Fin b) = flt_round (a + b)"
| "flt_add (Fin a) (Inf s) = Inf s"
| "flt_add (Inf s) (Fin b) = Inf s"
| "flt_add (Inf s) (Inf t) = (if s = t then Inf s else NaN)"
| "flt_add _ _ = NaN"

definition round_ratio :: "nat \<Rightarrow> int \<Rightarrow> int \<Rightarrow> int" where
  "round_ratio k n d = (let q = n div (d * 2 ^ k); r = n mod (d * 2 ^ k) in
     if 2 * r < d * 2 ^ k \<or> 2 * r = d * 2 ^ k \<and> even q then q * 2 ^ k else (q + 1) * 2 ^ k)"

definition flt_ratio :: "int \<Rightarrow> int \<Rightarrow> flt" where
  "flt_ratio n d = (let a = round_ratio (excess_bits (\<bar>n\<bar> div \<bar>d\<bar>)) \<bar>n\<bar> \<bar>d\<bar>; neg = ((n < 0) \<noteq> (d < 0)) in
     if a \<ge> 2 ^ 277 then Inf neg else Fin (if neg then - a else a))"

text \<open>Division by a number that is not zero and not infinite.\<close>

fun flt_div :: "flt \<Rightarrow> flt \<Rightarrow> flt" where
  "flt_div (Fin a) (Fin b) = flt_ratio (a * 2 ^ 149) b"
| "flt_div (Inf s) (Fin b) = Inf (s \<noteq> (b < 0))"
| "flt_div _ _ = NaN"

definition flt_bits :: "bool \<Rightarrow> flt \<Rightarrow> 32 word" where
  "flt_bits neg f = (case f of
      Fin n \<Rightarrow> let a = \<bar>n\<bar>; k = excess_bits a in
        word_of_int ((if n < 0 \<or> n = 0 \<and> neg then 2 ^ 31 else 0)
          + (if a < 2 ^ 23 then a else (int k + 1) * 2 ^ 23 + (a div 2 ^ k - 2 ^ 23)))
    | Inf s \<Rightarrow> word_of_int ((if s then 2 ^ 31 else 0) + 255 * 2 ^ 23)
    | NaN \<Rightarrow> word_of_int (255 * 2 ^ 23 + 2 ^ 22))"

fun flt_neg :: "flt \<Rightarrow> bool" where
  "flt_neg (Fin a) = (a < 0)"
| "flt_neg (Inf s) = s"
| "flt_neg NaN = False"

section \<open>Aggregators\<close>

datatype AggType = AGG_MAX | AGG_MIN | AGG_COUNT | AGG_AVG

datatype AggOperand = AGG_FIELD RelAttr | AGG_STAR RelAttr | AGG_NUMBER int

record AggDesc =
  agg_type :: AggType
  agg_operand :: AggOperand

definition check_operand_type_match_agg_type :: "AggDesc \<Rightarrow> RC + unit" where
  "check_operand_type_match_agg_type d = (case agg_operand d of
      AGG_STAR _ \<Rightarrow> if agg_type d \<noteq> AGG_COUNT then Inl INVALID_ARGUMENT else Inr ()
    | _ \<Rightarrow> Inr ())"

definition check_field_type_match_agg_type :: "AggDesc \<Rightarrow> AttrType \<Rightarrow> RC + unit" where
  "check_field_type_match_agg_type d t =
    (if agg_type d = AGG_AVG \<and> (t = CHARS \<or> t = DATE) then Inl INVALID_ARGUMENT else Inr ())"

text \<open>The average keeps the sum in a union of an \<^verbatim>\<open>int\<close> and a \<^verbatim>\<open>float\<close>, here 32 bits.\<close>

datatype Aggregator =
    CountAggregator int
  | ConstAggregator int
  | MaxAggregator nat "TupleValue option"
  | MinAggregator nat "TupleValue option"
  | AvgAggregator nat AttrType int "32 word" bool

definition acc_value :: "AttrType \<Rightarrow> TupleValue \<Rightarrow> 32 word \<Rightarrow> 32 word option" where
  "acc_value t v acc = map_option (\<lambda>b.
     if t = INTS then acc + b
     else let f = flt_add (float_of (uint acc)) (float_of (uint b)) in flt_bits False f) (value_bits v)"

fun consume :: "Tuple \<Rightarrow> Aggregator \<Rightarrow> Aggregator option" where
  "consume t (CountAggregator cnt) =
    Some (CountAggregator (if length t = 1 \<and> is_null (t ! 0) then cnt else wrap32 (cnt + 1)))"
| "consume t (ConstAggregator c) = Some (ConstAggregator c)"
| "consume t (MaxAggregator pos best) =
    (if length t \<le> pos then None
     else if is_null (t ! pos) then Some (MaxAggregator pos best)
     else case best of
         None \<Rightarrow> Some (MaxAggregator pos (Some (t ! pos)))
       | Some v \<Rightarrow> map_option (\<lambda>c. MaxAggregator pos (if c < 0 then Some (t ! pos) else best)) (value_compare v (t ! pos)))"
| "consume t (MinAggregator pos best) =
    (if length t \<le> pos then None
     else if is_null (t ! pos) then Some (MinAggregator pos best)
     else case best of
         None \<Rightarrow> Some (MinAggregator pos (Some (t ! pos)))
       | Some v \<Rightarrow> map_option (\<lambda>c. MinAggregator pos (if c > 0 then Some (t ! pos) else best)) (value_compare v (t ! pos)))"
| "consume t (AvgAggregator pos ty cnt acc null) =
    (if length t \<le> pos then None
     else if is_null (t ! pos) then Some (AvgAggregator pos ty cnt acc null)
     else map_option (\<lambda>total'. AvgAggregator pos ty (wrap32 (cnt + 1)) total' False) (acc_value ty (t ! pos) acc))"

text \<open>\<^verbatim>\<open>clone\<close>: the copy of a string ends at its first zero byte.\<close>

definition value_clone :: "TupleValue \<Rightarrow> TupleValue" where
  "value_clone v = (case v of StringValue s \<Rightarrow> StringValue (c_bytes s) | _ \<Rightarrow> v)"

fun agg_result :: "Aggregator \<Rightarrow> TupleValue" where
  "agg_result (CountAggregator cnt) = IntValue cnt"
| "agg_result (ConstAggregator c) = IntValue c"
| "agg_result (MaxAggregator pos best) = (case best of None \<Rightarrow> NullValue | Some v \<Rightarrow> value_clone v)"
| "agg_result (MinAggregator pos best) = (case best of None \<Rightarrow> NullValue | Some v \<Rightarrow> value_clone v)"
| "agg_result (AvgAggregator pos ty cnt acc null) =
    (if null \<or> cnt = 0 then NullValue
     else let s = (if ty = INTS then float_of_int acc else float_of (uint acc)); c = float_of_int (word_of_int cnt) in
       FloatValue (flt_bits (flt_neg s \<noteq> flt_neg c) (flt_div s c)))"

fun reset :: "Aggregator \<Rightarrow> Aggregator" where
  "reset (CountAggregator cnt) = CountAggregator 0"
| "reset (ConstAggregator c) = ConstAggregator c"
| "reset (MaxAggregator pos best) = MaxAggregator pos None"
| "reset (MinAggregator pos best) = MinAggregator pos None"
| "reset (AvgAggregator pos ty cnt acc null) = AvgAggregator pos ty 0 0 null"

section \<open>From descriptions to aggregators\<close>

definition find_pos_of_agg_field_in_schema :: "TupleSchema \<Rightarrow> RelAttr \<Rightarrow> nat option" where
  "find_pos_of_agg_field_in_schema sch a = index_of_field (relation_name a) (attribute_name a) sch"

text \<open>\<^verbatim>\<open>create_from\<close>; a null pointer when the column is not in the schema.\<close>

definition create_from :: "TupleSchema \<Rightarrow> AggDesc \<Rightarrow> Aggregator option" where
  "create_from sch d = (case (agg_type d, agg_operand d) of
      (AGG_COUNT, _) \<Rightarrow> Some (CountAggregator 0)
    | (_, AGG_NUMBER n) \<Rightarrow> Some (ConstAggregator n)
    | (ty, opd) \<Rightarrow> map_option (\<lambda>pos. case ty of
          AGG_MAX \<Rightarrow> MaxAggregator pos None
        | AGG_MIN \<Rightarrow> MinAggregator pos None
        | _ \<Rightarrow> AvgAggregator pos (tf_type (sch ! pos)) 0 0 True)
        (find_pos_of_agg_field_in_schema sch (case opd of AGG_FIELD a \<Rightarrow> a | AGG_STAR a \<Rightarrow> a)))"

text \<open>\<^verbatim>\<open>AggregatorManager::create\<close>: the descriptions are stored from the last to the first.\<close>

fun create_all :: "TupleSchema \<Rightarrow> AggDesc list \<Rightarrow> RC + Aggregator list" where
  "create_all sch [] = Inr []"
| "create_all sch (d # ds) = (case create_from sch d of
      None \<Rightarrow> Inl GENERIC_ERROR
    | Some a \<Rightarrow> map_sum id ((#) a) (create_all sch ds))"

definition manager_create :: "AggDesc list \<Rightarrow> TupleSchema \<Rightarrow> RC + Aggregator list" where
  "manager_create aggs sch = create_all sch (rev aggs)"

text \<open>\<^verbatim>\<open>AggregatorManager::result_type\<close>, with the tables of the database. A missing table or column is a null pointer, and a
  number has no attribute to look up.\<close>

definition result_type :: "(string \<Rightarrow> TableMeta option) \<Rightarrow> AggDesc \<Rightarrow> AttrType option" where
  "result_type find_table d = (case agg_type d of
      AGG_COUNT \<Rightarrow> Some INTS
    | AGG_AVG \<Rightarrow> Some FLOATS
    | _ \<Rightarrow> (case agg_operand d of
        AGG_NUMBER _ \<Rightarrow> None
      | AGG_FIELD a \<Rightarrow> map_option attr_type (Option.bind (Option.bind (relation_name a) find_table) (\<lambda>m. field_by_name m (attribute_name a)))
      | AGG_STAR a \<Rightarrow> map_option attr_type (Option.bind (Option.bind (relation_name a) find_table) (\<lambda>m. field_by_name m (attribute_name a)))))"

fun consume_each :: "Tuple \<Rightarrow> Aggregator list \<Rightarrow> Aggregator list option" where
  "consume_each t [] = Some []"
| "consume_each t (a # as) = (case consume t a of None \<Rightarrow> None | Some a' \<Rightarrow> map_option ((#) a') (consume_each t as))"

fun consume_all :: "Tuple list \<Rightarrow> Aggregator list \<Rightarrow> Aggregator list option" where
  "consume_all [] as = Some as"
| "consume_all (t # ts) as = (case consume_each t as of None \<Rightarrow> None | Some as' \<Rightarrow> consume_all ts as')"

text \<open>\<^verbatim>\<open>AggregationExecutor::execute\<close>: the schema and the single tuple of the result.\<close>

definition agg_execute :: "AggDesc list \<Rightarrow> TupleSet \<Rightarrow> (RC + AggDesc list \<times> Tuple) option" where
  "agg_execute aggs ts = (case manager_create aggs (ts_schema ts) of
      Inl rc \<Rightarrow> Some (Inl rc)
    | Inr as \<Rightarrow> map_option (\<lambda>as'. Inr (rev aggs, map agg_result as')) (consume_all (ts_tuples ts) as))"

section \<open>Grouping\<close>

text \<open>\<^verbatim>\<open>hash\<close> of a value. The one of a float reads eight bytes where the float has four: it has no defined
  result.\<close>

fun value_hash :: "(byte list \<Rightarrow> 64 word) \<Rightarrow> TupleValue \<Rightarrow> 64 word option" where
  "value_hash strhash NullValue = Some 0"
| "value_hash strhash (IntValue i) = Some (word_of_int i)"
| "value_hash strhash (FloatValue w) = None"
| "value_hash strhash (StringValue s) = Some (strhash s)"
| "value_hash strhash (DateValue d) = Some (ucast d)"

datatype group_map = Group "Tuple list" | Level "(TupleValue \<times> group_map) list"

text \<open>Adding a tuple to its group: \<^verbatim>\<open>get_group_of_tuple\<close> and \<^verbatim>\<open>create_later_map_chain\<close>, and the \<^verbatim>\<open>push_back\<close> behind
  them. Keys are the same when their hashes are.\<close>

fun add_tuple :: "(TupleValue \<Rightarrow> 64 word option) \<Rightarrow> nat list \<Rightarrow> Tuple \<Rightarrow> group_map \<Rightarrow> group_map option"
  and add_entry :: "(TupleValue \<Rightarrow> 64 word option) \<Rightarrow> TupleValue \<Rightarrow> nat list \<Rightarrow> Tuple \<Rightarrow> (TupleValue \<times> group_map) list \<Rightarrow> (TupleValue \<times> group_map) list option" where
  "add_tuple h [] t (Group ts) = Some (Group (ts @ [t]))"
| "add_tuple h (i # is) t (Level es) = (if i < length t then map_option Level (add_entry h (t ! i) is t es) else None)"
| "add_tuple h _ t _ = None"
| "add_entry h v is t [] = (if h v = None then None else
     map_option (\<lambda>g. [(v, g)]) (add_tuple h is t (if is = [] then Group [] else Level [])))"
| "add_entry h v is t ((k, g) # es) =
    (if h k = None \<or> h v = None then None
     else if h k = h v then map_option (\<lambda>g'. (k, g') # es) (add_tuple h is t g)
     else map_option ((#) (k, g)) (add_entry h v is t es))"

fun add_tuples :: "(TupleValue \<Rightarrow> 64 word option) \<Rightarrow> nat list \<Rightarrow> Tuple list \<Rightarrow> group_map \<Rightarrow> group_map option" where
  "add_tuples h is [] g = Some g"
| "add_tuples h is (t # ts) g = (case add_tuple h is t g of None \<Rightarrow> None | Some g' \<Rightarrow> add_tuples h is ts g')"

text \<open>\<^verbatim>\<open>do_aggregation_helper\<close>: the aggregators are reset for each group and go on to the next one. The order of
  the entries of a map is open.\<close>

fun do_aggregation :: "((TupleValue \<times> group_map) list \<Rightarrow> (TupleValue \<times> group_map) list) \<Rightarrow> nat \<Rightarrow> group_map \<Rightarrow> Tuple \<Rightarrow> Aggregator list
      \<Rightarrow> (Tuple list \<times> Aggregator list) option"
  and do_entries :: "((TupleValue \<times> group_map) list \<Rightarrow> (TupleValue \<times> group_map) list) \<Rightarrow> nat \<Rightarrow> (TupleValue \<times> group_map) list \<Rightarrow> Tuple \<Rightarrow> Aggregator list
      \<Rightarrow> (Tuple list \<times> Aggregator list) option" where
  "do_aggregation arrange 0 (Group ts) tuple as =
    map_option (\<lambda>as'. ([tuple @ map agg_result as'], as')) (consume_all ts (map reset as))"
| "do_aggregation arrange (Suc n) (Level es) tuple as = do_entries arrange n (arrange es) tuple as"
| "do_aggregation arrange _ _ tuple as = None"
| "do_entries arrange n [] tuple as = Some ([], as)"
| "do_entries arrange n ((k, g) # es) tuple as = (case do_aggregation arrange n g (tuple @ [value_clone k]) as of
      None \<Rightarrow> None
    | Some (out, as') \<Rightarrow> map_option (\<lambda>(out', as''). (out @ out', as'')) (do_entries arrange n es tuple as'))"

text \<open>\<^verbatim>\<open>init_schema_and_indices\<close> and \<^verbatim>\<open>execute\<close>. An attribute without a table belongs to the relation that is stored
  first; a table or column that is not there is a null pointer.\<close>

fun group_columns :: "(string \<Rightarrow> TableMeta option) \<Rightarrow> string list \<Rightarrow> TupleSchema \<Rightarrow> RelAttr list \<Rightarrow> TupleSchema \<Rightarrow> (RC + TupleSchema \<times> nat list) option" where
  "group_columns find_table relations sch [] out = Some (Inr (out, []))"
| "group_columns find_table relations sch (a # attrs) out =
    (case (case relation_name a of Some n \<Rightarrow> Some n | None \<Rightarrow> if relations = [] then None else Some (hd relations)) of
      None \<Rightarrow> None
    | Some n \<Rightarrow> (case Option.bind (find_table n) (\<lambda>m. field_by_name m (attribute_name a)) of
        None \<Rightarrow> None
      | Some f \<Rightarrow> (case index_of_field (Some n) (attribute_name a) sch of
          None \<Rightarrow> Some (Inl SCHEMA_FIELD_NOT_EXIST)
        | Some i \<Rightarrow> map_option (map_sum id (map_prod id ((#) i)))
            (group_columns find_table relations sch attrs (add_if_not_exists (attr_type f) n (attribute_name a) out)))))"

record GroupByTupleSet =
  gb_group_schema :: TupleSchema
  gb_agg_schema :: "AggDesc list"
  gb_tuples :: "Tuple list"

definition grouper_execute ::
    "(byte list \<Rightarrow> 64 word) \<Rightarrow> ((TupleValue \<times> group_map) list \<Rightarrow> (TupleValue \<times> group_map) list) \<Rightarrow> (string \<Rightarrow> TableMeta option)
      \<Rightarrow> string list \<Rightarrow> RelAttr list \<Rightarrow> AggDesc list \<Rightarrow> TupleSet \<Rightarrow> (RC + GroupByTupleSet) option" where
  "grouper_execute strhash arrange find_table relations group_by aggs ts =
    (case group_columns find_table relations (ts_schema ts) (rev group_by) [] of
      None \<Rightarrow> None
    | Some (Inl rc) \<Rightarrow> Some (Inl rc)
    | Some (Inr (sch, is)) \<Rightarrow> (case manager_create aggs (ts_schema ts) of
        Inl rc \<Rightarrow> Some (Inl rc)
      | Inr as \<Rightarrow>
          if is = [] then (if ts_tuples ts = [] then None else Some (Inl GENERIC_ERROR))
          else Option.bind (add_tuples (value_hash strhash) is (rev (ts_tuples ts)) (Level [])) (\<lambda>g.
            map_option (\<lambda>(out, _). Inr \<lparr>gb_group_schema = sch, gb_agg_schema = rev aggs, gb_tuples = out\<rparr>)
              (do_aggregation arrange (length is) g [] as))))"

end
