(* ===== verification/Aggregation_Properties.thy ===== *)
theory Aggregation_Properties
  imports Aggregation
begin

text \<open>
  What the aggregates are: counts, extreme values in the order of the values, averages rounded to single
  precision.
\<close>

section \<open>The bits of a float\<close>

lemma excess_bits_small: "n < 2 ^ 24 \<Longrightarrow> excess_bits n = 0"
  by (simp add: excess_bits.simps [of n])

lemma excess_bits_at:
  assumes "2 ^ 23 \<le> q" "q < 2 ^ 24" "0 \<le> r" "r < 2 ^ k"
  shows "excess_bits (q * 2 ^ k + r) = k"
  using assms
proof (induction k arbitrary: r)
  case 0
  then show ?case by (simp add: excess_bits_small)
next
  case (Suc k)
  let ?n = "q * 2 ^ Suc k + r"
  have "2 ^ 23 * 2 ^ Suc k \<le> q * (2 :: int) ^ Suc k" using Suc.prems(1) by (intro mult_right_mono) simp_all
  moreover have "(2 :: int) ^ 24 \<le> 2 ^ 23 * 2 ^ Suc k" by simp
  ultimately have big: "\<not> ?n < 2 ^ 24" using Suc.prems(3) by linarith
  have "?n div 2 = q * 2 ^ k + r div 2" by simp
  moreover have "0 \<le> r div 2" "r div 2 < 2 ^ k" using Suc.prems(3,4) by simp_all
  ultimately have "excess_bits (?n div 2) = k" using Suc.IH [of "r div 2"] Suc.prems(1,2) by simp
  then show ?case unfolding excess_bits.simps [of ?n] using big by simp
qed

lemma excess_bits_split:
  "2 ^ 24 \<le> n \<Longrightarrow> \<exists>q r. n = q * 2 ^ excess_bits n + r \<and> 2 ^ 23 \<le> q \<and> q < 2 ^ 24 \<and> 0 \<le> r \<and> r < 2 ^ excess_bits n"
proof (induction n rule: excess_bits.induct)
  case (1 n)
  have s: "excess_bits n = Suc (excess_bits (n div 2))" unfolding excess_bits.simps [of n] using 1(2) by simp
  have n: "n = 2 * (n div 2) + n mod 2" "0 \<le> n mod 2" "n mod 2 < 2" by simp_all
  show ?case
  proof (cases "n div 2 < 2 ^ 24")
    case True
    then have "excess_bits n = 1" using s excess_bits_small by simp
    then show ?thesis using 1(2) True n by (intro exI [of _ "n div 2"] exI [of _ "n mod 2"]) simp
  next
    case False
    define k where "k = excess_bits (n div 2)"
    obtain q r where qr: "n div 2 = q * 2 ^ k + r" "2 ^ 23 \<le> q" "q < 2 ^ 24" "0 \<le> r" "r < 2 ^ k"
      using 1 False unfolding k_def by auto
    have k: "excess_bits n = Suc k" using s by (simp add: k_def)
    have "n = 2 * (q * 2 ^ k + r) + n mod 2" using n(1) qr(1) by simp
    then have "n = q * 2 ^ excess_bits n + (2 * r + n mod 2)" unfolding k by (simp add: algebra_simps)
    moreover have "2 * r + n mod 2 < 2 ^ excess_bits n" unfolding k power_Suc using qr(5) n(3) by linarith
    ultimately show ?thesis using qr n(2) by - (rule exI [of _ q], rule exI [of _ "2 * r + n mod 2"], simp)
  qed
qed

definition representable :: "flt \<Rightarrow> bool" where
  "representable f \<longleftrightarrow> (case f of Fin n \<Rightarrow> \<bar>n\<bar> < 2 ^ 277 \<and> 2 ^ excess_bits \<bar>n\<bar> dvd n | Inf _ \<Rightarrow> True | NaN \<Rightarrow> True)"

lemma float_of_fields:
  assumes "0 \<le> e" "e < 256" "0 \<le> m" "m < 2 ^ 23" "w = (if neg then 2 ^ 31 else 0) + e * 2 ^ 23 + m"
  shows "float_of w = (let sg = (\<lambda>n :: int. if neg then - n else n) in if e = 255 then (if m = 0 then Inf neg else NaN)
        else if e = 0 then Fin (sg m) else Fin (sg ((2 ^ 23 + m) * 2 ^ nat (e - 1))))"
proof -
  define x where "x = (if neg then 256 else 0) + e"
  have w: "w = x * 2 ^ 23 + m" using assms(5) by (auto simp: x_def)
  have "w div 2 ^ 23 = x" "w mod 2 ^ 23 = m" unfolding w using assms(3,4) by simp_all
  moreover have "x mod 256 = e" using assms(1,2) by (auto simp: x_def)
  moreover have "2 ^ 31 \<le> w \<longleftrightarrow> neg" using assms by auto
  ultimately show ?thesis by (simp add: float_of_def)
qed

lemma uint_of: "0 \<le> w \<Longrightarrow> w < 2 ^ 32 \<Longrightarrow> uint (word_of_int w :: 32 word) = w"
  by (simp add: uint_word_of_int)

lemma float_of_flt_bits:
  assumes "representable f"
  shows "float_of (uint (flt_bits neg f)) = f"
proof (cases f)
  case (Fin n)
  let ?a = "\<bar>n\<bar>" and ?k = "excess_bits \<bar>n\<bar>" and ?s = "n < 0 \<or> n = 0 \<and> neg"
  have a: "?a < 2 ^ 277" "2 ^ ?k dvd ?a" using assms Fin by (auto simp: representable_def)
  show ?thesis
  proof (cases "?a < 2 ^ 23")
    case True
    let ?w = "(if ?s then 2 ^ 31 else 0) + ?a"
    have "flt_bits neg f = word_of_int ?w"
      using True by (simp only: flt_bits_def Fin flt.case Let_def if_True)
    moreover have "0 \<le> ?w" "?w < 2 ^ 32" using True by auto
    ultimately have "uint (flt_bits neg f) = ?w" by (metis uint_of)
    then show ?thesis using float_of_fields [of 0 ?a ?w ?s] True Fin by auto
  next
    case False
    obtain q where q: "?a = q * 2 ^ ?k" "2 ^ 23 \<le> q" "q < 2 ^ 24"
    proof (cases "?a < 2 ^ 24")
      case True
      then show ?thesis using that [of ?a] False excess_bits_small [of ?a] by simp
    next
      case c: False
      then have "2 ^ 24 \<le> ?a" by simp
      then obtain q r where qr: "?a = q * 2 ^ ?k + r" "2 ^ 23 \<le> q" "q < 2 ^ 24" "0 \<le> r" "r < 2 ^ ?k"
        using excess_bits_split by blast
      have "2 ^ ?k dvd r" using a(2) qr(1) by (metis dvd_add_right_iff dvd_triv_right)
      then have "r = 0" using qr(4,5) by (metis dvd_imp_le_int abs_of_nonneg less_le_not_le zero_le_numeral zero_le_power)
      then show ?thesis using that qr by simp
    qed
    have "2 ^ 23 * 2 ^ ?k \<le> q * 2 ^ ?k" using q(2) by (intro mult_right_mono) simp_all
    then have "(2 :: int) ^ (23 + ?k) < 2 ^ 277" using q(1) a(1) by (simp add: power_add)
    then have "23 + ?k < 277" by (rule power_less_imp_less_exp [rotated]) simp
    then have k: "?k < 254" by simp
    let ?w = "(if ?s then 2 ^ 31 else 0) + ((int ?k + 1) * 2 ^ 23 + (q - 2 ^ 23))"
    have div: "?a div 2 ^ ?k = q" using q(1) by (metis nonzero_mult_div_cancel_right power_not_zero zero_neq_numeral)
    have "flt_bits neg f = word_of_int ?w"
      using False by (simp only: flt_bits_def Fin flt.case Let_def if_False div)
    moreover have "0 \<le> ?w" "?w < 2 ^ 32" using k q(2,3) by auto
    ultimately have "uint (flt_bits neg f) = ?w" by (metis uint_of)
    then have "float_of (uint (flt_bits neg f)) = Fin (if ?s then - (q * 2 ^ ?k) else q * 2 ^ ?k)"
      using float_of_fields [of "int ?k + 1" "q - 2 ^ 23" ?w ?s] k q(2,3) by (simp add: Let_def)
    then show ?thesis using q(1) Fin False by (auto split: if_splits)
  qed
next
  case (Inf s)
  let ?w = "(if s then 2 ^ 31 else 0) + 255 * 2 ^ 23 :: int"
  have "flt_bits neg f = word_of_int ?w" by (simp only: flt_bits_def Inf flt.case)
  moreover have "0 \<le> ?w" "?w < 2 ^ 32" by auto
  ultimately have "uint (flt_bits neg f) = ?w" by (metis uint_of)
  then show ?thesis using float_of_fields [of 255 0 ?w s] Inf by simp
next
  case NaN
  have "uint (flt_bits neg f) = 255 * 2 ^ 23 + 2 ^ 22" using NaN by (simp add: flt_bits_def uint_word_of_int)
  then show ?thesis using NaN by (simp add: float_of_def)
qed

lemma rounded_dvd:
  assumes "0 \<le> x" "x \<le> 2 ^ 24" "k = 0 \<or> 2 ^ 23 \<le> x"
  shows "(2 :: int) ^ excess_bits (x * 2 ^ k) dvd x * 2 ^ k"
proof -
  consider "x = 2 ^ 24" | "x < 2 ^ 24" "k = 0" | "x < 2 ^ 24" "2 ^ 23 \<le> x" using assms by fastforce
  then show ?thesis
  proof cases
    case 1
    have "x * 2 ^ k = 2 ^ 23 * 2 ^ Suc k + 0" using 1 by simp
    moreover have "excess_bits (2 ^ 23 * 2 ^ Suc k + 0) = Suc k" by (rule excess_bits_at) simp_all
    ultimately show ?thesis by (metis add_0_right dvd_triv_right)
  next
    case 2
    then show ?thesis by (simp add: excess_bits_small)
  next
    case 3
    then show ?thesis using excess_bits_at [of x 0 k] by simp
  qed
qed

lemma representable_ratio:
  assumes "d \<noteq> 0"
  shows "representable (flt_ratio n d)"
proof -
  let ?n = "\<bar>n\<bar>" and ?d = "\<bar>d\<bar>"
  define m where "m = ?n div ?d"
  define k where "k = excess_bits m"
  define q where "q = m div 2 ^ k"
  have m: "0 \<le> m" using assms by (simp add: m_def pos_imp_zdiv_nonneg_iff)
  have q: "0 \<le> q \<and> q < 2 ^ 24 \<and> (k = 0 \<or> 2 ^ 23 \<le> q)"
  proof (cases "m < 2 ^ 24")
    case True
    then show ?thesis using m excess_bits_small by (simp add: q_def k_def)
  next
    case False
    then obtain q' r where "m = q' * 2 ^ k + r" "2 ^ 23 \<le> q'" "q' < 2 ^ 24" "0 \<le> r" "r < 2 ^ k"
      using excess_bits_split [of m] unfolding k_def by fastforce
    then show ?thesis by (simp add: q_def)
  qed
  have "?n div (?d * 2 ^ k) = q" by (simp add: q_def m_def zdiv_zmult2_eq)
  then have "round_ratio k ?n ?d \<in> {q * 2 ^ k, (q + 1) * 2 ^ k}" by (simp add: round_ratio_def Let_def)
  then obtain x where x: "round_ratio k ?n ?d = x * 2 ^ k" "x = q \<or> x = q + 1" by auto
  then have "2 ^ excess_bits (x * 2 ^ k) dvd x * 2 ^ k" using q by (intro rounded_dvd) auto
  moreover have "0 \<le> x * 2 ^ k" using x(2) q by auto
  ultimately show ?thesis
    using x(1) unfolding flt_ratio_def m_def [symmetric] k_def [symmetric] by (simp add: representable_def Let_def)
qed

lemma flt_round_ratio: "flt_round n = flt_ratio n 1"
  by (simp add: flt_round_def flt_ratio_def round_ratio_def round_by_def Let_def)

lemma representable_add: "representable (flt_add f g)"
  by (cases "(f, g)" rule: flt_add.cases) (simp_all add: flt_round_ratio representable_ratio, simp_all add: representable_def)

section \<open>One aggregator\<close>

fun run_agg :: "Tuple list \<Rightarrow> Aggregator \<Rightarrow> Aggregator option" where
  "run_agg [] a = Some a"
| "run_agg (t # ts) a = (case consume t a of None \<Rightarrow> None | Some a' \<Rightarrow> run_agg ts a')"

lemma consume_each_all2: "list_all2 (\<lambda>a b. consume t a = Some b) as bs \<Longrightarrow> consume_each t as = Some bs"
  by (induction rule: list_all2_induct) simp_all

lemma consume_all_run:
  "list_all2 (\<lambda>a b. run_agg ts a = Some b) as bs \<Longrightarrow> consume_all ts as = Some bs"
proof (induction ts arbitrary: "as")
  case Nil
  then show ?case by (simp add: list.rel_eq)
next
  case (Cons t ts)
  let ?as = "map (\<lambda>a. the (consume t a)) as"
  have "list_all2 (\<lambda>a b. consume t a = Some b) as ?as \<and> list_all2 (\<lambda>a b. run_agg ts a = Some b) ?as bs"
    using Cons.prems by (induction rule: list_all2_induct) (auto split: option.splits)
  then have "consume_each t as = Some ?as" "consume_all ts ?as = Some bs" using Cons.IH consume_each_all2 by blast+
  then show ?case by simp
qed

definition column_values :: "nat \<Rightarrow> Tuple list \<Rightarrow> TupleValue list" where
  "column_values pos ts = filter (\<lambda>v. v \<noteq> NullValue) (map (\<lambda>t. t ! pos) ts)"

definition column_of :: "AttrType \<Rightarrow> nat \<Rightarrow> Tuple list \<Rightarrow> bool" where
  "column_of ty pos ts \<longleftrightarrow> (\<forall>t \<in> set ts. pos < length t \<and> (t ! pos = NullValue \<or> orderable ty (t ! pos)))"

lemma value_compare_key:
  assumes "orderable ty v" "orderable ty w"
  obtains c where "value_compare v w = Some c" "c < 0 \<longleftrightarrow> value_key v < value_key w" "c > 0 \<longleftrightarrow> value_key w < value_key v"
proof -
  obtain c where "value_compare v w = Some c" "c < 0 \<longleftrightarrow> value_key v < value_key w" "c = 0 \<longleftrightarrow> value_key v = value_key w"
    using value_compare_order [OF assms] by blast
  then show ?thesis by (intro that [of c]) (auto simp: neq_iff)
qed

fun pick :: "('a \<Rightarrow> 'a \<Rightarrow> bool) \<Rightarrow> 'a option \<Rightarrow> 'a list \<Rightarrow> 'a option" where
  "pick worse best [] = best"
| "pick worse best (v # vs) = pick worse (case best of None \<Rightarrow> Some v | Some b \<Rightarrow> if worse b v then Some v else best) vs"

lemma pick_extreme:
  assumes "\<And>a b. worse a b \<longleftrightarrow> \<not> le b a" "\<And>a b c. le a b \<Longrightarrow> le b c \<Longrightarrow> le a c" "\<And>a b. le a b \<or> le b a"
  shows "(case pick worse best vs of
      None \<Rightarrow> best = None \<and> vs = []
    | Some v \<Rightarrow> v \<in> set_option best \<union> set vs \<and> (\<forall>w \<in> set_option best \<union> set vs. le w v))"
proof (induction vs arbitrary: best)
  case Nil
  then show ?case using assms(3) by (auto split: option.splits)
next
  case (Cons v vs)
  define best1 where "best1 = (case best of None \<Rightarrow> Some v | Some b \<Rightarrow> if worse b v then Some v else best)"
  have b1: "best1 \<noteq> None" "set_option best1 \<subseteq> insert v (set_option best)" "\<forall>w \<in> insert v (set_option best). \<exists>u \<in> set_option best1. le w u"
    using assms(1,3) by (auto simp: best1_def split: option.splits)
  have p: "pick worse best (v # vs) = pick worse best1 vs" by (simp add: best1_def)
  obtain x where x: "pick worse best1 vs = Some x" "x \<in> set_option best1 \<union> set vs" "\<forall>w \<in> set_option best1 \<union> set vs. le w x"
    using Cons.IH [of best1] b1(1) by (auto split: option.splits)
  have "le w x" if "w \<in> set_option best \<union> set (v # vs)" for w
    using that b1(3) x(3) assms(2) by (metis Un_iff insert_iff list.set(2))
  then show ?case unfolding p x(1) using x(2) b1(2) by auto
qed

lemma pick_max:
  fixes key :: "'a \<Rightarrow> 'b :: linorder"
  shows "case pick (\<lambda>b v. key b < key v) None vs of None \<Rightarrow> vs = [] | Some v \<Rightarrow> v \<in> set vs \<and> (\<forall>w \<in> set vs. key w \<le> key v)"
proof -
  have "case pick (\<lambda>b v. key b < key v) None vs of None \<Rightarrow> None = (None :: 'a option) \<and> vs = []
      | Some v \<Rightarrow> v \<in> set_option None \<union> set vs \<and> (\<forall>w \<in> set_option None \<union> set vs. key w \<le> key v)"
    by (rule pick_extreme) auto
  then show ?thesis by (auto split: option.splits)
qed

lemma pick_min:
  fixes key :: "'a \<Rightarrow> 'b :: linorder"
  shows "case pick (\<lambda>b v. key v < key b) None vs of None \<Rightarrow> vs = [] | Some v \<Rightarrow> v \<in> set vs \<and> (\<forall>w \<in> set vs. key v \<le> key w)"
proof -
  have "case pick (\<lambda>b v. key v < key b) None vs of None \<Rightarrow> None = (None :: 'a option) \<and> vs = []
      | Some v \<Rightarrow> v \<in> set_option None \<union> set vs \<and> (\<forall>w \<in> set_option None \<union> set vs. key v \<le> key w)"
    by (rule pick_extreme) auto
  then show ?thesis by (auto split: option.splits)
qed

lemma max_run:
  assumes "column_of ty pos ts" "\<forall>v \<in> set_option best. orderable ty v"
  shows "run_agg ts (MaxAggregator pos best) = Some (MaxAggregator pos (pick (\<lambda>b v. value_key b < value_key v) best (column_values pos ts)))"
  using assms
proof (induction ts arbitrary: best)
  case (Cons t ts)
  have t: "pos < length t" "t ! pos = NullValue \<or> orderable ty (t ! pos)" "column_of ty pos ts" using Cons.prems(1) by (auto simp: column_of_def)
  obtain c where "best = None \<or> t ! pos = NullValue \<or> (value_compare (the best) (t ! pos) = Some c \<and> (c < 0 \<longleftrightarrow> value_key (the best) < value_key (t ! pos)))"
    using value_compare_key [of ty "the best" "t ! pos"] t(2) Cons.prems(2) by (metis elem_set option.collapse)
  then show ?case using t Cons by (cases best) (auto simp: column_values_def is_null_def)
qed (simp add: column_values_def)

lemma min_run:
  assumes "column_of ty pos ts" "\<forall>v \<in> set_option best. orderable ty v"
  shows "run_agg ts (MinAggregator pos best) = Some (MinAggregator pos (pick (\<lambda>b v. value_key v < value_key b) best (column_values pos ts)))"
  using assms
proof (induction ts arbitrary: best)
  case (Cons t ts)
  have t: "pos < length t" "t ! pos = NullValue \<or> orderable ty (t ! pos)" "column_of ty pos ts" using Cons.prems(1) by (auto simp: column_of_def)
  obtain c where "best = None \<or> t ! pos = NullValue \<or> (value_compare (the best) (t ! pos) = Some c \<and> (c > 0 \<longleftrightarrow> value_key (t ! pos) < value_key (the best)))"
    using value_compare_key [of ty "the best" "t ! pos"] t(2) Cons.prems(2) by (metis elem_set option.collapse)
  then show ?case using t Cons by (cases best) (auto simp: column_values_def is_null_def)
qed (simp add: column_values_def)

lemma count_run:
  assumes "0 \<le> cnt" "cnt + int (length ts) < 2 ^ 31"
  shows "run_agg ts (CountAggregator cnt) = Some (CountAggregator (cnt + int (length (filter (\<lambda>t. t \<noteq> [NullValue]) ts))))"
  using assms
proof (induction ts arbitrary: cnt)
  case (Cons t ts)
  have "length t = 1 \<and> is_null (t ! 0) \<longleftrightarrow> t = [NullValue]" by (cases t) (auto simp: is_null_def)
  moreover have "in_int (cnt + 1)" using Cons.prems by (simp add: in_int_def)
  ultimately show ?case using Cons.IH [of "cnt + 1"] Cons.IH [of cnt] Cons.prems by auto
qed simp

text \<open>The sum that an average is taken of.\<close>

definition column_sum :: "AttrType \<Rightarrow> TupleValue list \<Rightarrow> flt" where
  "column_sum ty vs = (if ty = INTS then flt_round (sum_list (map (\<lambda>v. case v of IntValue i \<Rightarrow> i | _ \<Rightarrow> 0) vs) * 2 ^ 149)
     else foldl (\<lambda>f v. flt_add f (case v of FloatValue w \<Rightarrow> float_of (uint w) | _ \<Rightarrow> Fin 0)) (Fin 0) vs)"

definition number_column :: "AttrType \<Rightarrow> nat \<Rightarrow> Tuple list \<Rightarrow> bool" where
  "number_column ty pos ts \<longleftrightarrow> (ty = INTS \<or> ty = FLOATS) \<and> (\<forall>t \<in> set ts. pos < length t \<and> (t ! pos = NullValue \<or> value_type (t ! pos) = ty))"

lemma flt_round_positive:
  assumes "0 < m" "m < 2 ^ 200"
  shows "\<exists>b. flt_round m = Fin b \<and> 0 < b"
proof (cases "m < 2 ^ 24")
  case True
  then show ?thesis using assms(1) by (simp add: flt_round_def round_by_def excess_bits_small)
next
  case False
  define k where "k = excess_bits m"
  obtain q r where qr: "m = q * 2 ^ k + r" "2 ^ 23 \<le> q" "q < 2 ^ 24" "0 \<le> r" "r < 2 ^ k"
    using excess_bits_split [of m] False unfolding k_def by fastforce
  have q: "m div 2 ^ k = q" using qr by simp
  have p: "(0 :: int) < 2 ^ k" by simp
  have "1 * 2 ^ k \<le> q * 2 ^ k" using qr(2) p by (intro mult_right_mono) simp_all
  moreover have "round_by k m = q * 2 ^ k \<or> round_by k m = q * 2 ^ k + 2 ^ k" by (simp add: round_by_def q Let_def distrib_right)
  ultimately have "0 < round_by k m \<and> round_by k m \<le> 2 * m" using qr(1,4) p by linarith
  then show ?thesis using assms by (simp add: flt_round_def k_def [symmetric] Let_def)
qed

lemma float_of_int_round: "in_int i \<Longrightarrow> float_of_int (word_of_int i) = flt_round (i * 2 ^ 149)"
  by (simp add: float_of_int_def flip: wrap32_def)

lemma avg_result:
  assumes "0 < n" "n < 2 ^ 31" "s = (if ty = INTS then float_of_int acc else float_of (uint acc))"
  shows "\<exists>w. agg_result (AvgAggregator pos ty n acc False) = FloatValue w \<and> float_of (uint w) = flt_div s (flt_round (n * 2 ^ 149))"
proof -
  have n: "float_of_int (word_of_int n) = flt_round (n * 2 ^ 149)"
    using assms by (intro float_of_int_round) (simp add: in_int_def)
  obtain b where b: "flt_round (n * 2 ^ 149) = Fin b" "0 < b" using flt_round_positive [of "n * 2 ^ 149"] assms by auto
  have "representable (flt_div s (Fin b))"
    using b(2) by (cases s) (simp_all add: representable_ratio, simp_all add: representable_def)
  then show ?thesis using assms(1) b(1) by (auto simp: n Let_def float_of_flt_bits simp flip: assms(3))
qed

lemma avg_int_run:
  assumes "number_column INTS pos ts" "0 \<le> cnt" "cnt + int (length ts) < 2 ^ 31"
  shows "run_agg ts (AvgAggregator pos INTS cnt acc null) = Some (AvgAggregator pos INTS (cnt + int (length (column_values pos ts)))
    (acc + word_of_int (sum_list (map (\<lambda>v. case v of IntValue i \<Rightarrow> i | _ \<Rightarrow> 0) (column_values pos ts)))) (null \<and> column_values pos ts = []))"
  using assms
proof (induction ts arbitrary: cnt acc null)
  case (Cons t ts)
  have t: "pos < length t" "t ! pos = NullValue \<or> (\<exists>i. t ! pos = IntValue i)" "number_column INTS pos ts"
    using Cons.prems(1) by (cases "t ! pos"; auto simp: number_column_def value_type_def)+
  have "in_int (cnt + 1)" using Cons.prems by (simp add: in_int_def)
  then show ?case
    using t Cons.IH [OF t(3), of "cnt + 1"] Cons.IH [OF t(3), of cnt] Cons.prems(2,3)
    by (auto simp: is_null_def column_values_def acc_value_def add.assoc)
qed (simp add: column_values_def)

lemma avg_float_run:
  assumes "number_column FLOATS pos ts" "0 \<le> cnt" "cnt + int (length ts) < 2 ^ 31"
  shows "\<exists>acc'. run_agg ts (AvgAggregator pos FLOATS cnt acc null) = Some (AvgAggregator pos FLOATS (cnt + int (length (column_values pos ts))) acc'
      (null \<and> column_values pos ts = []))
    \<and> float_of (uint acc') = foldl (\<lambda>f v. flt_add f (case v of FloatValue w \<Rightarrow> float_of (uint w) | _ \<Rightarrow> Fin 0)) (float_of (uint acc)) (column_values pos ts)"
  using assms
proof (induction ts arbitrary: cnt acc null)
  case (Cons t ts)
  have t: "pos < length t" "t ! pos = NullValue \<or> (\<exists>w. t ! pos = FloatValue w)" "number_column FLOATS pos ts"
    using Cons.prems(1) by (cases "t ! pos"; auto simp: number_column_def value_type_def)+
  have n: "in_int (cnt + 1)" using Cons.prems by (simp add: in_int_def)
  consider "t ! pos = NullValue" | w where "t ! pos = FloatValue w" using t(2) by blast
  then show ?case
  proof cases
    case 1
    then show ?thesis using t(1) Cons.IH [OF t(3), of cnt acc null] Cons.prems(2,3) by (simp add: is_null_def column_values_def)
  next
    case (2 w)
    let ?f = "flt_add (float_of (uint acc)) (float_of (uint w))"
    have "float_of (uint (flt_bits False ?f)) = ?f" by (rule float_of_flt_bits [OF representable_add])
    then show ?thesis
      using t(1) 2 n Cons.IH [OF t(3), of "cnt + 1" "flt_bits False ?f" False] Cons.prems(2,3)
      by (simp add: is_null_def column_values_def acc_value_def Let_def add.assoc)
  qed
qed (simp add: column_values_def)

section \<open>Aggregates\<close>

lemma value_key_clone [simp]: "value_key (value_clone v) = value_key v"
  by (simp add: value_clone_def value_key_def c_bytes_def split: TupleValue.splits)

text \<open>What an aggregate of tuples is. A count leaves out tuples that are a single null; the other aggregates
  leave out nulls, and are null when nothing is left.\<close>

definition is_aggregate :: "TupleSchema \<Rightarrow> Tuple list \<Rightarrow> AggDesc \<Rightarrow> TupleValue \<Rightarrow> bool" where
  "is_aggregate sch ts d v = (case (agg_type d, agg_operand d) of
      (AGG_COUNT, _) \<Rightarrow> v = IntValue (int (length (filter (\<lambda>t. t \<noteq> [NullValue]) ts)))
    | (_, AGG_NUMBER n) \<Rightarrow> v = IntValue n
    | (ty, opd) \<Rightarrow> \<exists>pos. find_pos_of_agg_field_in_schema sch (case opd of AGG_FIELD a \<Rightarrow> a | AGG_STAR a \<Rightarrow> a) = Some pos
        \<and> (let vs = column_values pos ts in
           if vs = [] then v = NullValue
           else case ty of
             AGG_MAX \<Rightarrow> v \<in> value_clone ` set vs \<and> (\<forall>w \<in> set vs. value_key w \<le> value_key v)
           | AGG_MIN \<Rightarrow> v \<in> value_clone ` set vs \<and> (\<forall>w \<in> set vs. value_key v \<le> value_key w)
           | _ \<Rightarrow> \<exists>w. v = FloatValue w \<and> float_of (uint w) = flt_div (column_sum (tf_type (sch ! pos)) vs) (flt_round (int (length vs) * 2 ^ 149))))"

text \<open>Aggregates for which the code has to be right: the columns are there and have values of their type, and
  the sum of integers does not overflow.\<close>

definition agg_ok :: "TupleSchema \<Rightarrow> Tuple list \<Rightarrow> AggDesc \<Rightarrow> bool" where
  "agg_ok sch ts d = (case (agg_type d, agg_operand d) of
      (AGG_COUNT, _) \<Rightarrow> True
    | (_, AGG_NUMBER n) \<Rightarrow> True
    | (ty, opd) \<Rightarrow> (case find_pos_of_agg_field_in_schema sch (case opd of AGG_FIELD a \<Rightarrow> a | AGG_STAR a \<Rightarrow> a) of
        None \<Rightarrow> False
      | Some pos \<Rightarrow> if ty = AGG_AVG
          then number_column (tf_type (sch ! pos)) pos ts \<and> in_int (sum_list (map (\<lambda>v. case v of IntValue i \<Rightarrow> i | _ \<Rightarrow> 0) (column_values pos ts)))
          else column_of (tf_type (sch ! pos)) pos ts))"

fun with_null :: "bool \<Rightarrow> Aggregator \<Rightarrow> Aggregator" where
  "with_null null (AvgAggregator pos ty cnt acc _) = AvgAggregator pos ty cnt acc null"
| "with_null null a = a"

lemma avg_run:
  assumes "number_column ty pos ts" "int (length ts) < 2 ^ 31" "in_int (sum_list (map (\<lambda>v. case v of IntValue i \<Rightarrow> i | _ \<Rightarrow> 0) (column_values pos ts)))"
  shows "\<exists>a'. run_agg ts (AvgAggregator pos ty 0 0 null) = Some a' \<and> (\<exists>null'. reset a' = AvgAggregator pos ty 0 0 null')
    \<and> (if column_values pos ts = [] then agg_result a' = NullValue
       else \<exists>w. agg_result a' = FloatValue w \<and> float_of (uint w) = flt_div (column_sum ty (column_values pos ts)) (flt_round (int (length (column_values pos ts)) * 2 ^ 149)))"
proof -
  let ?vs = "column_values pos ts"
  have len: "int (length ?vs) \<le> int (length ts)" by (simp add: column_values_def)
  obtain acc where acc: "run_agg ts (AvgAggregator pos ty 0 0 null) = Some (AvgAggregator pos ty (int (length ?vs)) acc (null \<and> ?vs = []))"
      "(if ty = INTS then float_of_int acc else float_of (uint acc)) = column_sum ty ?vs"
  proof (cases "ty = INTS")
    case True
    then show ?thesis
      using that avg_int_run [of pos ts 0 0 null] assms float_of_int_round [OF assms(3)] by (simp add: column_sum_def)
  next
    case False
    then have "ty = FLOATS" using assms(1) by (simp add: number_column_def)
    moreover have "float_of (uint (0 :: 32 word)) = Fin 0" by (simp add: float_of_def)
    ultimately show ?thesis using that avg_float_run [of pos ts 0 0 null] assms False by (auto simp: column_sum_def)
  qed
  show ?thesis
  proof (cases "?vs = []")
    case True
    then show ?thesis using acc(1) by simp
  next
    case False
    then show ?thesis
      using acc(1) avg_result [of "int (length ?vs)" "column_sum ty ?vs" ty acc pos] acc(2) len assms(2) by auto
  qed
qed

lemma aggregate_run:
  assumes "agg_ok sch ts d" "int (length ts) < 2 ^ 31"
  obtains a where "create_from sch d = Some a"
    "\<And>null. \<exists>a' null'. run_agg ts (with_null null a) = Some a' \<and> reset a' = with_null null' a \<and> is_aggregate sch ts d (agg_result a')"
proof -
  consider "agg_type d = AGG_COUNT" | n where "agg_type d \<noteq> AGG_COUNT" "agg_operand d = AGG_NUMBER n"
    | r where "agg_type d \<noteq> AGG_COUNT" "agg_operand d = AGG_FIELD r \<or> agg_operand d = AGG_STAR r"
    by (cases "agg_operand d") auto
  then show ?thesis
  proof cases
    case 1
    then show ?thesis using count_run [of 0 ts] assms(2) by (intro that [of "CountAggregator 0"]) (simp_all add: create_from_def is_aggregate_def)
  next
    case (2 n)
    have "run_agg ts (ConstAggregator n) = Some (ConstAggregator n)" by (induction ts) simp_all
    then show ?thesis using 2 by (intro that [of "ConstAggregator n"]) (auto simp: create_from_def is_aggregate_def split: AggType.splits)
  next
    case (3 r)
    then obtain pos where pos: "find_pos_of_agg_field_in_schema sch r = Some pos"
      using assms(1) by (auto simp: agg_ok_def split: AggType.splits option.splits)
    let ?ty = "tf_type (sch ! pos)"
    show ?thesis
    proof (cases "agg_type d")
      case AGG_MAX
      then have c: "column_of ?ty pos ts" using assms(1) 3 pos by (auto simp: agg_ok_def)
      show ?thesis
        using AGG_MAX 3 pos max_run [OF c, of None] pick_max [of "column_values pos ts" value_key]
        by (intro that [of "MaxAggregator pos None"]) (auto simp: create_from_def is_aggregate_def Let_def split: option.splits)
    next
      case AGG_MIN
      then have c: "column_of ?ty pos ts" using assms(1) 3 pos by (auto simp: agg_ok_def)
      show ?thesis
        using AGG_MIN 3 pos min_run [OF c, of None] pick_min [of "column_values pos ts" value_key]
        by (intro that [of "MinAggregator pos None"]) (auto simp: create_from_def is_aggregate_def Let_def split: option.splits)
    next
      case AGG_AVG
      then have c: "number_column ?ty pos ts" "in_int (sum_list (map (\<lambda>v. case v of IntValue i \<Rightarrow> i | _ \<Rightarrow> 0) (column_values pos ts)))"
        using assms(1) 3 pos by (auto simp: agg_ok_def)
      show ?thesis
      proof (rule that [of "AvgAggregator pos ?ty 0 0 True"])
        show "create_from sch d = Some (AvgAggregator pos ?ty 0 0 True)" using AGG_AVG 3 pos by (auto simp: create_from_def)
        fix null
        obtain a' null' where a': "run_agg ts (AvgAggregator pos ?ty 0 0 null) = Some a'" "reset a' = AvgAggregator pos ?ty 0 0 null'"
            "if column_values pos ts = [] then agg_result a' = NullValue
             else \<exists>w. agg_result a' = FloatValue w \<and> float_of (uint w) = flt_div (column_sum ?ty (column_values pos ts)) (flt_round (int (length (column_values pos ts)) * 2 ^ 149))"
          using avg_run [OF c(1) assms(2) c(2), of null] by blast
        have "is_aggregate sch ts d (agg_result a')"
          using 3(2) a'(3) unfolding is_aggregate_def AGG_AVG by (auto simp: Let_def pos)
        then show "\<exists>a' null'. run_agg ts (with_null null (AvgAggregator pos ?ty 0 0 True)) = Some a' \<and>
            reset a' = with_null null' (AvgAggregator pos ?ty 0 0 True) \<and> is_aggregate sch ts d (agg_result a')"
          using a'(1,2) by auto
      qed
    qed (use 3 in simp)
  qed
qed

text \<open>Aggregators that have been created for descriptions, up to the flag of averages, which survives a reset.\<close>

definition made_for :: "TupleSchema \<Rightarrow> AggDesc list \<Rightarrow> Aggregator list \<Rightarrow> bool" where
  "made_for sch ds as \<longleftrightarrow> list_all2 (\<lambda>d a. \<exists>a0 null. create_from sch d = Some a0 \<and> a = with_null null a0) ds as"

lemma create_from_reset: "create_from sch d = Some a \<Longrightarrow> reset a = a \<and> with_null (case a of AvgAggregator pos ty cnt acc null \<Rightarrow> null | _ \<Rightarrow> True) a = a"
  by (auto simp: create_from_def split: AggType.splits AggOperand.splits)

lemma with_null_twice [simp]: "with_null n (with_null m a) = with_null n a"
  by (cases a) simp_all

lemma consume_made_for:
  assumes "made_for sch ds as" "\<forall>d \<in> set ds. agg_ok sch ts d" "int (length ts) < 2 ^ 31"
  shows "\<exists>as'. consume_all ts as = Some as' \<and> list_all2 (is_aggregate sch ts) ds (map agg_result as') \<and> made_for sch ds (map reset as')"
proof -
  have "\<exists>as'. list_all2 (\<lambda>a b. run_agg ts a = Some b) as as' \<and> list_all2 (is_aggregate sch ts) ds (map agg_result as') \<and> made_for sch ds (map reset as')"
    using assms(1,2) unfolding made_for_def
  proof (induction rule: list_all2_induct)
    case (Cons d ds a "as")
    obtain a0 null where a: "create_from sch d = Some a0" "a = with_null null a0" using Cons.hyps(1) by blast
    have "agg_ok sch ts d" using Cons.prems by simp
    then obtain a' null' where a': "run_agg ts a = Some a'" "reset a' = with_null null' a0" "is_aggregate sch ts d (agg_result a')"
      using a by (elim aggregate_run [OF _ assms(3)]) (metis option.inject)
    obtain as' where "list_all2 (\<lambda>a b. run_agg ts a = Some b) as as'" "list_all2 (is_aggregate sch ts) ds (map agg_result as')"
        "list_all2 (\<lambda>d a. \<exists>a0 null. create_from sch d = Some a0 \<and> a = with_null null a0) ds (map reset as')"
      using Cons.IH Cons.prems by auto
    then show ?case using a' a(1) by (intro exI [of _ "a' # as'"]) auto
  qed simp
  then show ?thesis using consume_all_run by blast
qed

lemma created_made_for:
  assumes "\<forall>d \<in> set ds. create_from sch d \<noteq> None"
  shows "\<exists>as. create_all sch ds = Inr as \<and> made_for sch ds as \<and> made_for sch ds (map reset as)"
  using assms
proof (induction ds)
  case (Cons d ds)
  then obtain a "as" where a: "create_from sch d = Some a" "create_all sch ds = Inr as" "made_for sch ds as" "made_for sch ds (map reset as)" by auto
  have "\<exists>null. a = with_null null a" "reset a = a" using create_from_reset [OF a(1)] by metis+
  then show ?case using a by (auto simp: made_for_def)
qed (simp add: made_for_def)

text \<open>
  C14. Aggregation without grouping. The result has one value for each description, in the order of the
  statement: the number of tuples that are not a single null, the constant, a greatest or a least value
  of the column in the order of the values, or the sum of the column divided by the number of its values in
  single precision; nulls are left out, and an aggregate of nothing else is null. The columns of \<^verbatim>\<open>MAX\<close> and \<^verbatim>\<open>MIN\<close>
  hold strings, dates below \<^verbatim>\<open>2^31\<close> or integers from \<^verbatim>\<open>-2^30\<close> to \<^verbatim>\<open>2^30 - 1\<close>: the comparison of integers further apart overflows
  (lemma \<^verbatim>\<open>max_of_distant_ints\<close>), and the one of floats takes differences below \<^verbatim>\<open>1e-7\<close> for none. The columns of \<^verbatim>\<open>AVG\<close> hold floats,
  or integers whose sum fits into 32 bits.
\<close>

theorem aggregation_correct:
  assumes "\<forall>d \<in> set aggs. agg_ok (ts_schema ts) (ts_tuples ts) d" "int (length (ts_tuples ts)) < 2 ^ 31"
  shows "\<exists>vs. agg_execute aggs ts = Some (Inr (rev aggs, vs)) \<and> list_all2 (is_aggregate (ts_schema ts) (ts_tuples ts)) (rev aggs) vs"
proof -
  have "\<forall>d \<in> set (rev aggs). create_from (ts_schema ts) d \<noteq> None"
    using assms by (auto elim!: aggregate_run [OF _ assms(2)])
  then obtain as0 where as0: "create_all (ts_schema ts) (rev aggs) = Inr as0" "made_for (ts_schema ts) (rev aggs) as0"
    using created_made_for by blast
  obtain as' where "consume_all (ts_tuples ts) as0 = Some as'" "list_all2 (is_aggregate (ts_schema ts) (ts_tuples ts)) (rev aggs) (map agg_result as')"
    using consume_made_for [OF as0(2) _ assms(2)] assms(1) by auto
  then show ?thesis using as0(1) by (auto simp: agg_execute_def manager_create_def)
qed

definition ages :: TupleSet where
  "ages = \<lparr>ts_tuples = [[IntValue 3], [NullValue], [IntValue 8]], ts_schema = [\<lparr>tf_type = INTS, tf_table = ''people'', tf_field = ''age''\<rparr>]\<rparr>"

definition of_age :: "AggType \<Rightarrow> AggDesc" where
  "of_age ty = \<lparr>agg_type = ty, agg_operand = AGG_FIELD \<lparr>relation_name = None, attribute_name = ''age''\<rparr>\<rparr>"

theorem aggregation_correct_witness:
  "\<exists>w. agg_execute [of_age AGG_AVG, of_age AGG_MAX, of_age AGG_COUNT] ages
    = Some (Inr ([of_age AGG_COUNT, of_age AGG_MAX, of_age AGG_AVG], [IntValue 2, IntValue 8, FloatValue w]))"
proof -
  let ?aggs = "[of_age AGG_AVG, of_age AGG_MAX, of_age AGG_COUNT]"
  have ok: "\<forall>d \<in> set ?aggs. agg_ok (ts_schema ages) (ts_tuples ages) d"
    by (simp add: agg_ok_def of_age_def ages_def find_pos_of_agg_field_in_schema_def index_of_field_def column_of_def number_column_def
        orderable_def value_type_def column_values_def in_int_def)
  have len: "int (length (ts_tuples ages)) < 2 ^ 31" by (simp add: ages_def)
  obtain vs where vs: "agg_execute ?aggs ages = Some (Inr (rev ?aggs, vs))" "list_all2 (is_aggregate (ts_schema ages) (ts_tuples ages)) (rev ?aggs) vs"
    using aggregation_correct [OF ok len] by blast
  then obtain a b c where v: "vs = [a, b, c]" "is_aggregate (ts_schema ages) (ts_tuples ages) (of_age AGG_COUNT) a"
      "is_aggregate (ts_schema ages) (ts_tuples ages) (of_age AGG_MAX) b" "is_aggregate (ts_schema ages) (ts_tuples ages) (of_age AGG_AVG) c"
    by (auto simp: list_all2_Cons1)
  have "a = IntValue 2" "b = IntValue 8" "\<exists>w. c = FloatValue w" using v(2-4)
    by (auto simp: is_aggregate_def of_age_def ages_def find_pos_of_agg_field_in_schema_def index_of_field_def column_values_def value_key_def value_clone_def)
  then show ?thesis using vs(1) v(1) by auto
qed

section \<open>Integers that are far apart\<close>

text \<open>\<^verbatim>\<open>MAX\<close> compares by a difference in 32 bits: of two integers whose difference overflows it returns the smaller one.\<close>

lemma max_of_distant_ints:
  assumes "in_int x" "in_int y" "x - y < - (2 ^ 31)"
  shows "agg_execute [of_age AGG_MAX] \<lparr>ts_tuples = [[IntValue x], [IntValue y]], ts_schema = ts_schema ages\<rparr>
    = Some (Inr ([of_age AGG_MAX], [IntValue x]))"
  using wrap32_low(2) [OF assms]
  by (simp add: agg_execute_def manager_create_def create_from_def of_age_def ages_def find_pos_of_agg_field_in_schema_def index_of_field_def
      is_null_def value_compare_def value_clone_def)

end
