(* ===== verification/Grouping_Properties.thy ===== *)
theory Grouping_Properties
  imports Aggregation_Properties
begin

text \<open>
  What grouping does with the tuples: which tuples a group has, which values it is printed with, and that every
  group is aggregated once.
\<close>

section \<open>Groups\<close>

text \<open>The groups of a map with the keys on the way to them.\<close>

fun leaves :: "group_map \<Rightarrow> (Tuple \<times> Tuple list) list" and entry_leaves :: "(TupleValue \<times> group_map) list \<Rightarrow> (Tuple \<times> Tuple list) list" where
  "leaves (Group ts) = [([], ts)]"
| "leaves (Level es) = entry_leaves es"
| "entry_leaves [] = []"
| "entry_leaves ((k, g) # es) = map (map_prod ((#) k) id) (leaves g) @ entry_leaves es"

lemma entry_leaves_concat: "entry_leaves es = concat (map (\<lambda>(k, g). map (map_prod ((#) k) id) (leaves g)) es)"
  by (induction es) auto

text \<open>Maps as deep as there are columns, in which the keys of a level have different hashes and lead to a group.\<close>

fun levels_ok :: "(TupleValue \<Rightarrow> 64 word option) \<Rightarrow> nat \<Rightarrow> group_map \<Rightarrow> bool"
  and entries_ok :: "(TupleValue \<Rightarrow> 64 word option) \<Rightarrow> nat \<Rightarrow> (TupleValue \<times> group_map) list \<Rightarrow> bool" where
  "levels_ok h 0 (Group ts) = True"
| "levels_ok h (Suc n) (Level es) = entries_ok h n es"
| "levels_ok h _ _ = False"
| "entries_ok h n [] = True"
| "entries_ok h n ((k, g) # es) = (h k \<noteq> None \<and> h k \<notin> h ` fst ` set es \<and> leaves g \<noteq> [] \<and> levels_ok h n g \<and> entries_ok h n es)"

definition leaf_keys :: "(TupleValue \<Rightarrow> 64 word option) \<Rightarrow> (Tuple \<times> Tuple list) list \<Rightarrow> 64 word option list list" where
  "leaf_keys h ls = map (map h \<circ> fst) ls"

lemma leaf_keys_simps [simp]: "leaf_keys h [] = []" "leaf_keys h (l # ls) = map h (fst l) # leaf_keys h ls"
  "leaf_keys h (ls @ ls') = leaf_keys h ls @ leaf_keys h ls'"
  by (simp_all add: leaf_keys_def)

lemma leaf_keys_prefix: "leaf_keys h (map (map_prod ((#) k) id) ls) = map ((#) (h k)) (leaf_keys h ls)"
  by (induction ls) simp_all

lemma entry_leaves_key: "x \<in> set (leaf_keys h (entry_leaves es)) \<Longrightarrow> \<exists>k \<in> fst ` set es. x \<noteq> [] \<and> hd x = h k"
  by (induction es) (auto simp: leaf_keys_prefix)

lemma leaves_distinct:
  "levels_ok h n g \<Longrightarrow> distinct (leaf_keys h (leaves g))"
  "entries_ok h n es \<Longrightarrow> distinct (leaf_keys h (entry_leaves es))"
proof (induction h n g and h n es rule: levels_ok_entries_ok.induct)
  case (5 h n k g es)
  have "h k \<notin> h ` fst ` set es" using 5(3) by simp
  then have "h k # y \<notin> set (leaf_keys h (entry_leaves es))" for y
    using entry_leaves_key [of "h k # y" h es] by (metis imageI list.sel(1))
  then show ?case using 5 by (auto simp: leaf_keys_prefix distinct_map inj_on_def)
qed simp_all

text \<open>What adding a tuple does to the groups.\<close>

definition group_key :: "(TupleValue \<Rightarrow> 64 word option) \<Rightarrow> nat list \<Rightarrow> Tuple \<Rightarrow> 64 word option list" where
  "group_key h is t = map (\<lambda>i. h (t ! i)) is"

text \<open>The key of a new group: on each level it is the one that leads to an existing group with the same hashes so far, and
  the value of the tuple when there is none.\<close>

definition origin :: "(TupleValue \<Rightarrow> 64 word option) \<Rightarrow> (Tuple \<times> Tuple list) list \<Rightarrow> 64 word option list \<Rightarrow> Tuple \<Rightarrow> Tuple \<Rightarrow> bool" where
  "origin h ls key vals ks \<longleftrightarrow> length ks = length vals \<and> map h ks = key \<and> (\<forall>d < length vals.
     (\<exists>l \<in> set ls. take (Suc d) (map h (fst l)) = take (Suc d) key \<and> ks ! d = fst l ! d)
   \<or> (\<forall>l \<in> set ls. take (Suc d) (map h (fst l)) \<noteq> take (Suc d) key) \<and> ks ! d = vals ! d)"

definition grown :: "(TupleValue \<Rightarrow> 64 word option) \<Rightarrow> 64 word option list \<Rightarrow> Tuple \<Rightarrow> Tuple \<Rightarrow> (Tuple \<times> Tuple list) list \<Rightarrow> (Tuple \<times> Tuple list) list \<Rightarrow> bool" where
  "grown h key vals t ls ls' \<longleftrightarrow>
     (\<exists>xs ks ts ys. ls = xs @ (ks, ts) # ys \<and> map h ks = key \<and> ls' = xs @ (ks, ts @ [t]) # ys)
   \<or> (key \<notin> set (leaf_keys h ls) \<and> (\<exists>xs ks ys. ls = xs @ ys \<and> origin h ls key vals ks \<and> ls' = xs @ (ks, [t]) # ys))"

lemma grown_cases [consumes 1, case_names old fresh]:
  assumes "grown h key vals t ls ls'"
  obtains xs ks ts ys where "ls = xs @ (ks, ts) # ys" "map h ks = key" "ls' = xs @ (ks, ts @ [t]) # ys"
    | xs ks ys where "key \<notin> set (leaf_keys h ls)" "ls = xs @ ys" "origin h ls key vals ks" "ls' = xs @ (ks, [t]) # ys"
  using assms by (auto simp: grown_def)

lemma grown_old: "ls = xs @ (ks, ts) # ys \<Longrightarrow> map h ks = key \<Longrightarrow> ls' = xs @ (ks, ts @ [t]) # ys \<Longrightarrow> grown h key vals t ls ls'"
  unfolding grown_def by blast

lemma grown_fresh: "key \<notin> set (leaf_keys h ls) \<Longrightarrow> ls = xs @ ys \<Longrightarrow> origin h ls key vals ks \<Longrightarrow> ls' = xs @ (ks, [t]) # ys \<Longrightarrow> grown h key vals t ls ls'"
  unfolding grown_def by blast

lemma grown_not_empty: "grown h key vals t ls ls' \<Longrightarrow> ls' \<noteq> []"
  by (auto simp: grown_def)

lemma origin_first:
  assumes "origin h ls key vals ks" "ls \<noteq> []" "\<forall>x \<in> set (leaf_keys h rest). x \<noteq> [] \<and> hd x \<noteq> h k"
  shows "origin h (map (map_prod ((#) k) id) ls @ rest) (h k # key) (v # vals) (k # ks)"
proof -
  let ?ls = "map (map_prod ((#) k) (id :: Tuple list \<Rightarrow> Tuple list)) ls @ rest"
  have rest: "take (Suc d) (map h (fst l)) \<noteq> take (Suc d) (h k # key)" if "l \<in> set rest" for l d
    using assms(3) that by (cases "map h (fst l)") (auto simp: leaf_keys_def)
  have "(\<exists>l \<in> set ?ls. take (Suc d) (map h (fst l)) = take (Suc d) (h k # key) \<and> (k # ks) ! d = fst l ! d)
      \<or> (\<forall>l \<in> set ?ls. take (Suc d) (map h (fst l)) \<noteq> take (Suc d) (h k # key)) \<and> (k # ks) ! d = (v # vals) ! d" if "d < length (v # vals)" for d
  proof (cases d)
    case 0
    then show ?thesis using assms(2) by (cases ls) auto
  next
    case (Suc e)
    then have "(\<exists>l \<in> set ls. take (Suc e) (map h (fst l)) = take (Suc e) key \<and> ks ! e = fst l ! e)
        \<or> (\<forall>l \<in> set ls. take (Suc e) (map h (fst l)) \<noteq> take (Suc e) key) \<and> ks ! e = vals ! e"
      using assms(1) that by (simp add: origin_def)
    then show ?thesis
    proof (elim disjE bexE conjE)
      fix l assume "l \<in> set ls" "take (Suc e) (map h (fst l)) = take (Suc e) key" "ks ! e = fst l ! e"
      then show ?thesis using Suc by (intro disjI1 bexI [of _ "map_prod ((#) k) id l"]) auto
    next
      assume "\<forall>l \<in> set ls. take (Suc e) (map h (fst l)) \<noteq> take (Suc e) key" "ks ! e = vals ! e"
      then show ?thesis using Suc rest by (intro disjI2) auto
    qed
  qed
  then show ?thesis using assms(1) by (simp add: origin_def)
qed

lemma grown_first:
  assumes "grown h key vals t ls ls'" "ls \<noteq> []" "\<forall>x \<in> set (leaf_keys h rest). x \<noteq> [] \<and> hd x \<noteq> h k"
  shows "grown h (h k # key) (v # vals) t (map (map_prod ((#) k) id) ls @ rest) (map (map_prod ((#) k) id) ls' @ rest)"
  using assms(1)
proof (cases rule: grown_cases)
  case (old xs ks ts ys)
  then show ?thesis by (intro grown_old [of _ "map (map_prod ((#) k) id) xs" "k # ks" ts "map (map_prod ((#) k) id) ys @ rest"]) simp_all
next
  case (fresh xs ks ys)
  have "h k # key \<notin> set (leaf_keys h (map (map_prod ((#) k) id) ls @ rest))"
    using fresh(1) assms(3) by (auto simp: leaf_keys_prefix)
  then show ?thesis using fresh origin_first [OF fresh(3) assms(2,3)]
    by (intro grown_fresh [of _ _ _ "map (map_prod ((#) k) id) xs" "map (map_prod ((#) k) id) ys @ rest"]) simp_all
qed

lemma grown_later:
  assumes "grown h (hv # key) vals t ls ls'" "\<forall>x \<in> set (leaf_keys h before). x \<noteq> [] \<and> hd x \<noteq> hv"
  shows "grown h (hv # key) vals t (before @ ls) (before @ ls')"
  using assms(1)
proof (cases rule: grown_cases)
  case (old xs ks ts ys)
  then show ?thesis by (intro grown_old [of _ "before @ xs" ks ts ys]) simp_all
next
  case (fresh xs ks ys)
  have "take (Suc d) (map h (fst l)) \<noteq> take (Suc d) (hv # key)" if "l \<in> set before" for l d
    using assms(2) that by (cases "map h (fst l)") (auto simp: leaf_keys_def)
  then have "origin h (before @ ls) (hv # key) vals ks" using fresh(3) unfolding origin_def by (simp add: ball_Un bex_Un)
  moreover have "hv # key \<notin> set (leaf_keys h (before @ ls))" using fresh(1) assms(2) by auto
  ultimately show ?thesis using fresh by (intro grown_fresh [of _ _ _ "before @ xs" ys]) simp_all
qed

definition tuple_ok :: "(TupleValue \<Rightarrow> 64 word option) \<Rightarrow> nat list \<Rightarrow> Tuple \<Rightarrow> bool" where
  "tuple_ok h is t \<longleftrightarrow> (\<forall>i \<in> set is. i < length t \<and> h (t ! i) \<noteq> None)"

lemma grown_new:
  assumes "grown h key vals t [] ls'"
  shows "ls' = [(vals, [t])]" "map h vals = key"
proof -
  obtain ks where ks: "origin h [] key vals ks" "ls' = [(ks, [t])]" using assms by (auto simp: grown_def)
  then have "ks = vals" by (auto simp: origin_def intro: nth_equalityI)
  then show "ls' = [(vals, [t])]" "map h vals = key" using ks by (auto simp: origin_def)
qed

lemma add_tuple_grown:
  "levels_ok h (length is) g \<Longrightarrow> tuple_ok h is t \<Longrightarrow>
    \<exists>g'. add_tuple h is t g = Some g' \<and> levels_ok h (length is) g' \<and> grown h (group_key h is t) (map ((!) t) is) t (leaves g) (leaves g')"
  "entries_ok h (length is) es \<Longrightarrow> tuple_ok h is t \<Longrightarrow> h v \<noteq> None \<Longrightarrow>
    \<exists>es'. add_entry h v is t es = Some es' \<and> entries_ok h (length is) es' \<and> h ` fst ` set es' \<subseteq> insert (h v) (h ` fst ` set es)
      \<and> grown h (h v # group_key h is t) (v # map ((!) t) is) t (entry_leaves es) (entry_leaves es')"
proof (induction h "is" t g and h v "is" t es rule: add_tuple_add_entry.induct)
  case (1 h t ts)
  have "grown h [] [] t [([], ts)] [([], ts @ [t])]" by (rule grown_old [of _ "[]" "[]" ts "[]"]) simp_all
  then show ?case by (simp add: group_key_def)
next
  case (2 h i "is" t es)
  then show ?case by (auto simp: group_key_def tuple_ok_def)
next
  case (4 h v "is" t)
  let ?g = "if is = [] then Group [] else Level []"
  have ok: "levels_ok h (length is) ?g" by (cases "is") simp_all
  obtain g' where g': "add_tuple h is t ?g = Some g'" "levels_ok h (length is) g'" "grown h (group_key h is t) (map ((!) t) is) t (leaves ?g) (leaves g')"
    using 4(1) [OF _ ok 4(3)] 4(4) by auto
  have new: "leaves g' = [(map ((!) t) is, [t])]" "map h (map ((!) t) is) = group_key h is t"
  proof -
    show "leaves g' = [(map ((!) t) is, [t])]"
    proof (cases "is")
      case Nil
      then show ?thesis using g'(1) by auto
    next
      case (Cons i is')
      then show ?thesis using grown_new(1) [of h "group_key h is t" "map ((!) t) is" t "leaves g'"] g'(3) by simp
    qed
  qed (simp add: group_key_def)
  have "origin h [] (h v # group_key h is t) (v # map ((!) t) is) (v # map ((!) t) is)" using new(2) by (simp add: origin_def)
  then have "grown h (h v # group_key h is t) (v # map ((!) t) is) t [] [(v # map ((!) t) is, [t])]"
    by (intro grown_fresh [of _ _ _ "[]" "[]"]) simp_all
  then show ?case using g' 4(4) new(1) by auto
next
  case (5 h v "is" t k g es)
  show ?case
  proof (cases "h k = h v")
    case True
    obtain g' where g': "add_tuple h is t g = Some g'" "levels_ok h (length is) g'" "grown h (group_key h is t) (map ((!) t) is) t (leaves g) (leaves g')"
      using 5(1) True 5(3-) by auto
    have "h k \<notin> h ` fst ` set es" "leaves g \<noteq> []" using 5(3) by simp_all
    then have rest: "\<forall>x \<in> set (leaf_keys h (entry_leaves es)). x \<noteq> [] \<and> hd x \<noteq> h k"
      by (metis entry_leaves_key image_eqI)
    from grown_first [OF g'(3) \<open>leaves g \<noteq> []\<close> rest, of v] show ?thesis
      using g'(1,2) grown_not_empty [OF g'(3)] True 5(3,5) by auto
  next
    case False
    obtain es' where es': "add_entry h v is t es = Some es'" "entries_ok h (length is) es'" "h ` fst ` set es' \<subseteq> insert (h v) (h ` fst ` set es)"
        "grown h (h v # group_key h is t) (v # map ((!) t) is) t (entry_leaves es) (entry_leaves es')"
      using 5(2) False 5(3-) by auto
    have "\<forall>x \<in> set (leaf_keys h (map (map_prod ((#) k) id) (leaves g))). x \<noteq> [] \<and> hd x \<noteq> h v"
      using False by (auto simp: leaf_keys_prefix)
    from grown_later [OF es'(4) this] show ?thesis using es'(1-3) False 5(3,5) by auto
  qed
qed (simp_all add: tuple_ok_def)

section \<open>The groups of a set of tuples\<close>

text \<open>The values that a group is printed with, given the tuples in the order in which they are visited: in each column
  the value of the first tuple whose hashes agree with those of the group up to this column.\<close>

definition first_values :: "(TupleValue \<Rightarrow> 64 word option) \<Rightarrow> nat list \<Rightarrow> Tuple list \<Rightarrow> Tuple \<Rightarrow> bool" where
  "first_values h is ts ks \<longleftrightarrow> length ks = length is \<and> (\<forall>d < length is. \<exists>t.
     find (\<lambda>t. take (Suc d) (group_key h is t) = take (Suc d) (map h ks)) ts = Some t \<and> ks ! d = t ! (is ! d))"

text \<open>The groups: one for each list of hashes that a tuple has in the grouping columns, with the tuples that have these
  hashes, in their order.\<close>

definition groups_of :: "(TupleValue \<Rightarrow> 64 word option) \<Rightarrow> nat list \<Rightarrow> Tuple list \<Rightarrow> (Tuple \<times> Tuple list) list \<Rightarrow> bool" where
  "groups_of h is ts L \<longleftrightarrow> distinct (leaf_keys h L) \<and> set (leaf_keys h L) = group_key h is ` set ts
    \<and> (\<forall>(ks, us) \<in> set L. us = filter (\<lambda>t. group_key h is t = map h ks) ts \<and> first_values h is ts ks)"

lemma groups_ofD:
  assumes "groups_of h is ts L" "l \<in> set L"
  shows "snd l = filter (\<lambda>t. group_key h is t = map h (fst l)) ts \<and> first_values h is ts (fst l)"
  using assms unfolding groups_of_def by (simp add: case_prod_unfold)

lemma first_values_later: "first_values h is ts ks \<Longrightarrow> first_values h is (ts @ [t]) ks"
  unfolding first_values_def by (auto simp: find_append)

lemma first_values_origin:
  assumes "\<forall>l \<in> set L. first_values h is ts (fst l)" "set (leaf_keys h L) = group_key h is ` set ts"
    and ks: "origin h L (group_key h is t) (map ((!) t) is) ks"
  shows "first_values h is (ts @ [t]) ks"
proof -
  have key: "map h ks = group_key h is t" "length ks = length is" using ks by (simp_all add: origin_def)
  have "\<exists>u. find (\<lambda>u. take (Suc d) (group_key h is u) = take (Suc d) (map h ks)) (ts @ [t]) = Some u \<and> ks ! d = u ! (is ! d)" if d: "d < length is" for d
  proof -
    let ?P = "\<lambda>u. take (Suc d) (group_key h is u) = take (Suc d) (group_key h is t)"
    consider l where "l \<in> set L" "take (Suc d) (map h (fst l)) = take (Suc d) (group_key h is t)" "ks ! d = fst l ! d"
      | "\<forall>l \<in> set L. take (Suc d) (map h (fst l)) \<noteq> take (Suc d) (group_key h is t)" "ks ! d = t ! (is ! d)"
    proof -
      have "(\<exists>l \<in> set L. take (Suc d) (map h (fst l)) = take (Suc d) (group_key h is t) \<and> ks ! d = fst l ! d)
          \<or> (\<forall>l \<in> set L. take (Suc d) (map h (fst l)) \<noteq> take (Suc d) (group_key h is t)) \<and> ks ! d = t ! (is ! d)"
        using ks d by (simp add: origin_def)
      then show thesis using that by blast
    qed
    then show ?thesis
    proof cases
      case 1
      then obtain u where "find ?P ts = Some u" "fst l ! d = u ! (is ! d)" using assms(1) d unfolding first_values_def by metis
      then show ?thesis using 1(3) by (simp add: key find_append)
    next
      case 2
      have "take (Suc d) x \<noteq> take (Suc d) (group_key h is t)" if "x \<in> set (leaf_keys h L)" for x
        using that 2(1) by (auto simp: leaf_keys_def)
      then have "find ?P ts = None" unfolding find_None_iff assms(2) by blast
      then show ?thesis using 2(2) by (simp add: key find_append)
    qed
  qed
  then show ?thesis using key(2) by (simp add: first_values_def)
qed

lemma leaf_key_mem: "l \<in> set ls \<Longrightarrow> map h (fst l) \<in> set (leaf_keys h ls)"
  by (simp add: leaf_keys_def)

lemma group_later:
  assumes "us = filter (\<lambda>t. group_key h is t = map h ks) ts \<and> first_values h is ts ks" "map h ks \<noteq> group_key h is t"
  shows "us = filter (\<lambda>t. group_key h is t = map h ks) (ts @ [t]) \<and> first_values h is (ts @ [t]) ks"
  using assms first_values_later by auto

lemma grown_groups:
  assumes L: "groups_of h is ts L" and grown: "grown h (group_key h is t) (map ((!) t) is) t L L'" and d: "distinct (leaf_keys h L')"
  shows "groups_of h is (ts @ [t]) L'"
  using grown
proof (cases rule: grown_cases)
  case (old xs ks us ys)
  have other: "map h (fst l) \<noteq> group_key h is t" if "l \<in> set xs \<union> set ys" for l
  proof -
    have "map h ks \<notin> set (leaf_keys h xs)" "map h ks \<notin> set (leaf_keys h ys)" using d old(3) by auto
    then show ?thesis using that leaf_key_mem [of l xs h] leaf_key_mem [of l ys h] old(2) by auto
  qed
  have us: "us = filter (\<lambda>t. group_key h is t = map h ks) ts \<and> first_values h is ts ks" using L old(1) by (simp add: groups_of_def)
  have "set (leaf_keys h L') = set (leaf_keys h L)" using old by simp
  moreover have "group_key h is t \<in> set (leaf_keys h L)" using old by simp
  ultimately have "set (leaf_keys h L') = group_key h is ` set (ts @ [t])" using L by (auto simp: groups_of_def)
  moreover have "snd l = filter (\<lambda>t. group_key h is t = map h (fst l)) (ts @ [t]) \<and> first_values h is (ts @ [t]) (fst l)" if "l \<in> set L'" for l
  proof (cases "l = (ks, us @ [t])")
    case True
    then show ?thesis using us first_values_later [of h "is" ts ks] old(2) by simp
  next
    case False
    then have l: "l \<in> set xs \<union> set ys" using that old(3) by auto
    show ?thesis by (rule group_later [OF _ other [OF l]]) (use groups_ofD [OF L, of l] l old(1) in auto)
  qed
  ultimately show ?thesis using d unfolding groups_of_def by (simp add: case_prod_unfold)
next
  case (fresh xs ks ys)
  have key: "map h ks = group_key h is t" using fresh(3) by (simp add: origin_def)
  have keys: "set (leaf_keys h L) = group_key h is ` set ts" using L by (simp add: groups_of_def)
  then have none: "filter (\<lambda>u. group_key h is u = group_key h is t) ts = []" using fresh(1) unfolding filter_empty_conv by (metis image_eqI)
  have other: "map h (fst l) \<noteq> group_key h is t" if "l \<in> set L" for l using leaf_key_mem [OF that, of h] fresh(1) by auto
  have "set (leaf_keys h L') = insert (group_key h is t) (set (leaf_keys h L))" using fresh(2,4) key by simp
  then have "set (leaf_keys h L') = group_key h is ` set (ts @ [t])" using keys by simp
  moreover have "snd l = filter (\<lambda>t. group_key h is t = map h (fst l)) (ts @ [t]) \<and> first_values h is (ts @ [t]) (fst l)" if "l \<in> set L'" for l
  proof (cases "l = (ks, [t])")
    case True
    have "first_values h is (ts @ [t]) ks"
      by (rule first_values_origin [OF _ keys fresh(3)]) (use groups_ofD [OF L] in blast)
    then show ?thesis using True key none by simp
  next
    case False
    then have l: "l \<in> set L" using that fresh(2,4) by auto
    show ?thesis by (rule group_later [OF _ other [OF l]]) (rule groups_ofD [OF L l])
  qed
  ultimately show ?thesis using d unfolding groups_of_def by (simp add: case_prod_unfold)
qed

lemma add_tuples_groups:
  assumes "levels_ok h (length is) g" "groups_of h is us (leaves g)" "\<forall>t \<in> set ts. tuple_ok h is t"
  shows "\<exists>g'. add_tuples h is ts g = Some g' \<and> levels_ok h (length is) g' \<and> groups_of h is (us @ ts) (leaves g')"
  using assms
proof (induction ts arbitrary: g us)
  case (Cons t ts)
  obtain g' where g': "add_tuple h is t g = Some g'" "levels_ok h (length is) g'" "grown h (group_key h is t) (map ((!) t) is) t (leaves g) (leaves g')"
    using add_tuple_grown(1) [OF Cons.prems(1)] Cons.prems(3) by auto
  have "groups_of h is (us @ [t]) (leaves g')"
    by (rule grown_groups [OF Cons.prems(2) g'(3) leaves_distinct(1) [OF g'(2)]])
  from Cons.IH [OF g'(2) this] show ?case using g'(1) Cons.prems(3) by simp
qed auto

lemma groups_of_arranged:
  assumes "groups_of h is ts L" "mset L = mset L'"
  shows "groups_of h is ts L'"
proof -
  have keys: "mset (leaf_keys h L) = mset (leaf_keys h L')" by (simp add: leaf_keys_def assms(2))
  show ?thesis
    using assms(1) unfolding groups_of_def mset_eq_imp_distinct_iff [OF keys] mset_eq_setD [OF keys] mset_eq_setD [OF assms(2)] .
qed

text \<open>When different values of the grouping columns have different hashes, a group is printed with the values of its
  tuples.\<close>

lemma group_values:
  assumes "groups_of h is ts L" "(ks, us) \<in> set L" "u \<in> set us"
    and inj: "\<And>t d. t \<in> set ts \<Longrightarrow> d < length is \<Longrightarrow> h (t ! (is ! d)) = h (u ! (is ! d)) \<Longrightarrow> t ! (is ! d) = u ! (is ! d)"
  shows "ks = map ((!) u) is"
proof (rule nth_equalityI)
  have u: "group_key h is u = map h ks" "first_values h is ts ks" using assms(1-3) by (auto simp: groups_of_def)
  then show len: "length ks = length (map ((!) u) is)" by (simp add: first_values_def)
  fix d assume "d < length ks"
  then have d: "d < length is" using len by simp
  obtain t where t: "find (\<lambda>t. take (Suc d) (group_key h is t) = take (Suc d) (group_key h is u)) ts = Some t" "ks ! d = t ! (is ! d)"
    using u d by (auto simp: first_values_def)
  then have "t \<in> set ts" "take (Suc d) (group_key h is t) = take (Suc d) (group_key h is u)" by (auto simp: find_Some_iff)
  moreover from this(2) have "take (Suc d) (group_key h is t) ! d = take (Suc d) (group_key h is u) ! d" by simp
  then have "h (t ! (is ! d)) = h (u ! (is ! d))" using d by (simp add: group_key_def)
  ultimately show "ks ! d = map ((!) u) is ! d" using inj d t(2) by simp
qed

section \<open>Aggregating the groups\<close>

text \<open>The aggregation visits every group once and appends the values of its aggregates to its key.\<close>

definition group_row :: "TupleSchema \<Rightarrow> AggDesc list \<Rightarrow> Tuple \<Rightarrow> Tuple \<times> Tuple list \<Rightarrow> Tuple \<Rightarrow> bool" where
  "group_row sch ds prefix l row \<longleftrightarrow> (\<exists>vs. row = prefix @ map value_clone (fst l) @ vs \<and> list_all2 (is_aggregate sch (snd l)) ds vs)"

lemma group_row_prefix: "list_all2 (group_row sch ds (prefix @ [value_clone k])) L out \<Longrightarrow> list_all2 (group_row sch ds prefix) (map (map_prod ((#) k) id) L) out"
  by (auto simp: list_all2_map1 group_row_def elim!: list_all2_mono)

lemma entry_leaves_arranged: "mset es = mset es' \<Longrightarrow> mset (entry_leaves es) = mset (entry_leaves es')"
  by (simp add: entry_leaves_concat mset_concat flip: sum_mset_sum_list)

lemma levels_ok_entries: "levels_ok h (Suc n) (Level es) \<Longrightarrow> \<forall>(k, g) \<in> set es. levels_ok h n g"
  by (induction es) auto

lemma do_aggregation_run:
  fixes arrange :: "(TupleValue \<times> group_map) list \<Rightarrow> (TupleValue \<times> group_map) list" and h :: "TupleValue \<Rightarrow> 64 word option"
  assumes "\<And>es. mset (arrange es) = mset es"
  shows "levels_ok h n g \<Longrightarrow> made_for sch ds (map reset as) \<Longrightarrow>
      \<forall>l \<in> set (leaves g). (\<forall>d \<in> set ds. agg_ok sch (snd l) d) \<and> int (length (snd l)) < 2 ^ 31 \<Longrightarrow>
      \<exists>out as' L. do_aggregation arrange n g tuple as = Some (out, as') \<and> made_for sch ds (map reset as') \<and> mset L = mset (leaves g)
        \<and> list_all2 (group_row sch ds tuple) L out"
    "\<forall>(k, g) \<in> set es. levels_ok h n g \<Longrightarrow> made_for sch ds (map reset as) \<Longrightarrow>
      \<forall>l \<in> set (entry_leaves es). (\<forall>d \<in> set ds. agg_ok sch (snd l) d) \<and> int (length (snd l)) < 2 ^ 31 \<Longrightarrow>
      \<exists>out as' L. do_entries arrange n es tuple as = Some (out, as') \<and> made_for sch ds (map reset as') \<and> mset L = mset (entry_leaves es)
        \<and> list_all2 (group_row sch ds tuple) L out"
  using assms
proof (induction arrange n g tuple "as" and arrange n es tuple "as" rule: do_aggregation_do_entries.induct)
  case (1 arrange ts tuple "as")
  obtain as' where as': "consume_all ts (map reset as) = Some as'" "list_all2 (is_aggregate sch ts) ds (map agg_result as')" "made_for sch ds (map reset as')"
    using consume_made_for [OF 1(2)] 1(3) by auto
  have "list_all2 (group_row sch ds tuple) [([], ts)] [tuple @ map agg_result as']" using as'(2) by (simp add: group_row_def)
  then show ?case using as'(1,3) by (intro exI [of _ "[tuple @ map agg_result as']"] exI [of _ as'] exI [of _ "[([], ts)]"]) simp
next
  case (2 arrange n es tuple "as")
  have m: "mset (entry_leaves (arrange es)) = mset (entry_leaves es)" by (rule entry_leaves_arranged) (rule 2(5))
  have "set (arrange es) = set es" "set (entry_leaves (arrange es)) = set (entry_leaves es)"
    using mset_eq_setD [OF 2(5)] mset_eq_setD [OF m] by simp_all
  moreover have "\<forall>(k, g) \<in> set es. levels_ok h n g" using levels_ok_entries 2(2) by blast
  ultimately have "\<exists>out as' L. do_entries arrange n (arrange es) tuple as = Some (out, as') \<and> made_for sch ds (map reset as')
      \<and> mset L = mset (entry_leaves (arrange es)) \<and> list_all2 (group_row sch ds tuple) L out"
    using 2(4) by (intro 2(1) [OF _ 2(3) _ 2(5)]) simp_all
  then show ?case unfolding do_aggregation.simps leaves.simps m .
next
  case (5 arrange n k g es tuple "as")
  have ok: "levels_ok h n g" "\<forall>(k, g) \<in> set es. levels_ok h n g"
    "\<forall>l \<in> set (leaves g). (\<forall>d \<in> set ds. agg_ok sch (snd l) d) \<and> int (length (snd l)) < 2 ^ 31"
    "\<forall>l \<in> set (entry_leaves es). (\<forall>d \<in> set ds. agg_ok sch (snd l) d) \<and> int (length (snd l)) < 2 ^ 31"
    using 5(3,5) by (simp_all add: ball_Un)
  obtain out as' L where one: "do_aggregation arrange n g (tuple @ [value_clone k]) as = Some (out, as')" "made_for sch ds (map reset as')" "mset L = mset (leaves g)"
      "list_all2 (group_row sch ds (tuple @ [value_clone k])) L out"
    using 5(1) [OF ok(1) 5(4) ok(3) 5(6)] by blast
  obtain out' as'' L' where rest: "do_entries arrange n es tuple as' = Some (out', as'')" "made_for sch ds (map reset as'')" "mset L' = mset (entry_leaves es)"
      "list_all2 (group_row sch ds tuple) L' out'"
    using 5(2) [OF one(1) refl ok(2) one(2) ok(4) 5(6)] by blast
  show ?case using one(1,3) rest(1-3) list_all2_appendI [OF group_row_prefix [OF one(4)] rest(4)]
    by (intro exI [of _ "out @ out'"] exI [of _ as''] exI [of _ "map (map_prod ((#) k) id) L @ L'"]) simp
qed simp_all

text \<open>
  C13. Grouping. There is one group for each list of hashes that the tuples have in the grouping columns; it has the
  tuples with these hashes, from the last to the first. The result has one row for each group: in each grouping
  column the value of the first tuple that is visited and has the hashes of the group up to this column, then
  one aggregate of the tuples of the group for each description in the order of the statement. This
  holds for every order in which the hash maps are walked and for every hash of strings. The grouping
  columns are of any type but float, whose hash is not defined. The aggregates are those for which the
  aggregators are right (\<^verbatim>\<open>agg_ok\<close>, for each group): counts, constants, \<^verbatim>\<open>MAX\<close> and \<^verbatim>\<open>MIN\<close> of strings, dates and of integers
  from \<^verbatim>\<open>-2^30\<close> to \<^verbatim>\<open>2^30 - 1\<close>, \<^verbatim>\<open>AVG\<close> of floats and of integers whose sum does not overflow. A null and the integer 0 have
  the same hash and share a group.
\<close>

theorem group_by_correct:
  assumes cols: "group_columns find_table relations (ts_schema ts) (rev group_by) [] = Some (Inr (sch, is))" "is \<noteq> []"
    and keys: "\<forall>t \<in> set (ts_tuples ts). tuple_ok (value_hash strhash) is t"
    and aggs: "\<forall>d \<in> set aggs. create_from (ts_schema ts) d \<noteq> None"
      "\<forall>t \<in> set (ts_tuples ts). \<forall>d \<in> set aggs. agg_ok (ts_schema ts)
        (filter (\<lambda>u. group_key (value_hash strhash) is u = group_key (value_hash strhash) is t) (rev (ts_tuples ts))) d"
    and len: "int (length (ts_tuples ts)) < 2 ^ 31"
    and arrange: "\<And>es. mset (arrange es) = mset es"
  shows "\<exists>out L. grouper_execute strhash arrange find_table relations group_by aggs ts
        = Some (Inr \<lparr>gb_group_schema = sch, gb_agg_schema = rev aggs, gb_tuples = out\<rparr>)
      \<and> groups_of (value_hash strhash) is (rev (ts_tuples ts)) L
      \<and> list_all2 (group_row (ts_schema ts) (rev aggs) []) L out"
proof -
  let ?h = "value_hash strhash" and ?sch = "ts_schema ts" and ?ts = "rev (ts_tuples ts)"
  obtain as0 where as0: "manager_create aggs ?sch = Inr as0" "made_for ?sch (rev aggs) (map reset as0)"
    using created_made_for [of "rev aggs" ?sch] aggs(1) unfolding manager_create_def by auto
  obtain i "is'" where "is = i # is'" using cols(2) by (cases "is") simp_all
  then have "levels_ok ?h (length is) (Level [])" "groups_of ?h is [] (leaves (Level []))" by (simp_all add: groups_of_def)
  then obtain g where g: "add_tuples ?h is ?ts (Level []) = Some g" "levels_ok ?h (length is) g" "groups_of ?h is ?ts (leaves g)"
    using add_tuples_groups [of ?h "is" "Level []" "[]" ?ts] keys by auto
  have ok: "\<forall>l \<in> set (leaves g). (\<forall>d \<in> set (rev aggs). agg_ok ?sch (snd l) d) \<and> int (length (snd l)) < 2 ^ 31"
  proof
    fix l assume l: "l \<in> set (leaves g)"
    have us: "snd l = filter (\<lambda>u. group_key ?h is u = map ?h (fst l)) ?ts" using groups_ofD [OF g(3) l] by blast
    have "map ?h (fst l) \<in> group_key ?h is ` set ?ts" using leaf_key_mem [OF l, of ?h] g(3) unfolding groups_of_def by blast
    then obtain t where "t \<in> set (ts_tuples ts)" "map ?h (fst l) = group_key ?h is t" by auto
    moreover have "length (snd l) \<le> length (ts_tuples ts)" unfolding us using length_filter_le [of _ ?ts] by simp
    ultimately show "(\<forall>d \<in> set (rev aggs). agg_ok ?sch (snd l) d) \<and> int (length (snd l)) < 2 ^ 31"
      using aggs(2) len us by auto
  qed
  obtain out as' L where out: "do_aggregation arrange (length is) g [] as0 = Some (out, as')" "mset L = mset (leaves g)"
      "list_all2 (group_row ?sch (rev aggs) []) L out"
    using do_aggregation_run(1) [OF arrange g(2) as0(2) ok, of "[]"] by auto
  have "groups_of ?h is ?ts L" by (rule groups_of_arranged [OF g(3) out(2) [symmetric]])
  then show ?thesis using cols as0(1) g(1) out(1,3) by (auto simp: grouper_execute_def)
qed

text \<open>The people of \<^const>\<open>ages\<close> by age.\<close>

definition age_table :: "string \<Rightarrow> TableMeta option" where
  "age_table n = (if n = ''people'' then Some (tm_new\<lparr>tm_name := n, tm_fields :=
     [\<lparr>fm_name = ''age'', attr_type = INTS, attr_offset = 4, attr_len = 4, visible = True, nullable = True\<rparr>]\<rparr>) else None)"

theorem group_by_correct_witness:
  "\<exists>out L. grouper_execute (\<lambda>_. 0) rev age_table [''people''] [\<lparr>relation_name = None, attribute_name = ''age''\<rparr>] [of_age AGG_MAX, of_age AGG_COUNT] ages
        = Some (Inr \<lparr>gb_group_schema = ts_schema ages, gb_agg_schema = [of_age AGG_COUNT, of_age AGG_MAX], gb_tuples = out\<rparr>)
      \<and> groups_of (value_hash (\<lambda>_. 0)) [0] (rev (ts_tuples ages)) L
      \<and> list_all2 (group_row (ts_schema ages) [of_age AGG_COUNT, of_age AGG_MAX] []) L out"
proof -
  let ?by = "[\<lparr>relation_name = None, attribute_name = ''age''\<rparr> :: RelAttr]"
  have cols: "group_columns age_table [''people''] (ts_schema ages) (rev ?by) [] = Some (Inr (ts_schema ages, [0]))"
    by (simp add: age_table_def field_by_name_def ages_def index_of_field_def add_if_not_exists_def schema_add_def)
  have keys: "\<forall>t \<in> set (ts_tuples ages). tuple_ok (value_hash (\<lambda>_. 0)) [0] t" by (simp add: ages_def tuple_ok_def)
  have make: "\<forall>d \<in> set [of_age AGG_MAX, of_age AGG_COUNT]. create_from (ts_schema ages) d \<noteq> None"
    by (simp add: create_from_def of_age_def ages_def find_pos_of_agg_field_in_schema_def index_of_field_def)
  have ok: "\<forall>t \<in> set (ts_tuples ages). \<forall>d \<in> set [of_age AGG_MAX, of_age AGG_COUNT]. agg_ok (ts_schema ages)
      (filter (\<lambda>u. group_key (value_hash (\<lambda>_. 0)) [0] u = group_key (value_hash (\<lambda>_. 0)) [0] t) (rev (ts_tuples ages))) d"
    by (auto simp: agg_ok_def of_age_def ages_def find_pos_of_agg_field_in_schema_def index_of_field_def column_of_def orderable_def value_type_def)
  have len: "int (length (ts_tuples ages)) < 2 ^ 31" by (simp add: ages_def)
  show ?thesis using group_by_correct [OF cols _ keys make ok len, of rev] by simp
qed

end
