(* ===== verification/Join.thy ===== *)
theory Join
  imports Aggregation
begin

text \<open>
  Joins and the end of a SELECT statement (\<^verbatim>\<open>sql/executor/execute_stage.cpp\<close>): the filter on joined rows, the
  nested loop and the hash join of two sets of tuples, the join of all tables of a statement, the choice
  of its columns, and the steps of \<^verbatim>\<open>do_select\<close> from the results of the single tables to the rows, the
  aggregates or the groups that are printed. The order in which an \<^verbatim>\<open>unordered_multimap\<close> goes through the
  entries of a key and the hash of strings are arguments.
\<close>

section \<open>Conditions between tables\<close>

text \<open>\<^verbatim>\<open>index_of_field\<close> for a side of a condition. A side that is not an attribute, or has no name of a table, is
  an invalid pointer; the second \<^verbatim>\<open>None\<close> is the index \<^verbatim>\<open>-1\<close>.\<close>

fun side_index :: "TupleSchema \<Rightarrow> 'q ConditionField \<Rightarrow> nat option option" where
  "side_index sch (CondAttr a outer) = map_option (\<lambda>n. index_of_field (Some n) (attribute_name a) sch) (relation_name a)"
| "side_index sch f = None"

text \<open>\<^verbatim>\<open>filter\<close>. IS and IS NOT end the loop.\<close>

fun join_filter :: "TupleSchema \<Rightarrow> Tuple \<Rightarrow> 'q Condition list \<Rightarrow> bool option" where
  "join_filter sch row [] = Some True"
| "join_filter sch row (c # cs) = (case (side_index sch (cond_left c), side_index sch (cond_right c)) of
      (Some (Some i), Some (Some j)) \<Rightarrow>
        if length row \<le> i \<or> length row \<le> j then None
        else if cond_comp c = IS_NOT_OP then Some (\<not> is_null (row ! i))
        else if cond_comp c = IS_OP then Some (is_null (row ! i))
        else if is_null (row ! i) \<or> is_null (row ! j) then Some False
        else (case value_compare (row ! i) (row ! j) of
            None \<Rightarrow> None
          | Some k \<Rightarrow> if op_rel (cond_comp c) k 0 then join_filter sch row cs else Some False)
    | (Some _, Some _) \<Rightarrow> Some False
    | _ \<Rightarrow> None)"

section \<open>Two tables\<close>

fun keep_rows :: "TupleSchema \<Rightarrow> 'q Condition list \<Rightarrow> Tuple list \<Rightarrow> Tuple list option" where
  "keep_rows sch cs [] = Some []"
| "keep_rows sch cs (row # rows) = (case join_filter sch row cs of
      None \<Rightarrow> None
    | Some b \<Rightarrow> map_option (if b then (#) row else id) (keep_rows sch cs rows))"

definition pair_rows :: "Tuple list \<Rightarrow> Tuple list \<Rightarrow> Tuple list" where
  "pair_rows ls rs = concat (map (\<lambda>l. map (\<lambda>r. l @ r) rs) ls)"

definition connect_table :: "TupleSchema \<Rightarrow> Tuple list \<Rightarrow> Tuple list \<Rightarrow> 'q Condition list \<Rightarrow> Tuple list option" where
  "connect_table sch ls rs cs = keep_rows sch cs (pair_rows ls rs)"

text \<open>The hash of a column, which the multimap takes as an \<^verbatim>\<open>int\<close>. An index of \<^verbatim>\<open>-1\<close> is read only when there is a
  tuple.\<close>

fun column_hashes :: "(byte list \<Rightarrow> 64 word) \<Rightarrow> nat option \<Rightarrow> Tuple list \<Rightarrow> 32 word list option" where
  "column_hashes strhash idx [] = Some []"
| "column_hashes strhash idx (t # ts) = (case idx of
      None \<Rightarrow> None
    | Some i \<Rightarrow> if length t \<le> i then None
        else (case value_hash strhash (t ! i) of
            None \<Rightarrow> None
          | Some h \<Rightarrow> map_option ((#) (ucast h)) (column_hashes strhash idx ts)))"

text \<open>\<^verbatim>\<open>equal_range\<close>: the positions with a hash.\<close>

definition bucket :: "32 word list \<Rightarrow> 32 word \<Rightarrow> nat list" where
  "bucket hs k = filter (\<lambda>i. hs ! i = k) [0..<length hs]"

definition probe_rows :: "(nat list \<Rightarrow> nat list) \<Rightarrow> Tuple list \<Rightarrow> 32 word list \<Rightarrow> (32 word \<times> Tuple) list \<Rightarrow> Tuple list" where
  "probe_rows arrange ls hs rs = concat (map (\<lambda>(k, r). map (\<lambda>i. ls ! i @ r) (arrange (bucket hs k))) rs)"

definition hash_join :: "(byte list \<Rightarrow> 64 word) \<Rightarrow> (nat list \<Rightarrow> nat list) \<Rightarrow> TupleSet \<Rightarrow> TupleSet \<Rightarrow> 'q Condition list \<Rightarrow> TupleSet option" where
  "hash_join strhash arrange left right cs =
    (let sch = schema_append (ts_schema left) (ts_schema right) in
     map_option (\<lambda>rows. \<lparr>ts_tuples = rows, ts_schema = sch\<rparr>)
      (case find (\<lambda>c. cond_comp c = EQUAL_TO) cs of
        None \<Rightarrow> connect_table sch (ts_tuples left) (ts_tuples right) cs
      | Some c \<Rightarrow> (case (side_index (ts_schema left) (cond_left c), side_index (ts_schema right) (cond_right c)) of
          (Some li, Some ri) \<Rightarrow> (case (column_hashes strhash li (ts_tuples left), column_hashes strhash ri (ts_tuples right)) of
              (Some hl, Some hr) \<Rightarrow> keep_rows sch cs (probe_rows arrange (ts_tuples left) hl (zip hr (ts_tuples right)))
            | _ \<Rightarrow> None)
        | _ \<Rightarrow> None)))"

section \<open>All tables\<close>

text \<open>Which conditions hold between the tables joined so far and the next one. A condition that is the other
  way round is turned, and stays so; its operator is kept.\<close>

definition place_condition :: "TupleSchema \<Rightarrow> TupleSchema \<Rightarrow> 'q Condition \<Rightarrow> ('q Condition \<times> bool) option" where
  "place_condition left right c = (case (side_index left (cond_left c), side_index right (cond_right c)) of
      (Some le, Some re) \<Rightarrow>
        if le = None \<and> re = None then
          (case (side_index left (cond_right c), side_index right (cond_left c)) of
            (Some (Some _), Some (Some _)) \<Rightarrow> Some (c\<lparr>cond_left := cond_right c, cond_right := cond_left c\<rparr>, True)
          | _ \<Rightarrow> Some (c, False))
        else Some (c, le \<noteq> None \<and> re \<noteq> None)
    | _ \<Rightarrow> None)"

fun place_conditions :: "TupleSchema \<Rightarrow> TupleSchema \<Rightarrow> 'q Condition list \<Rightarrow> ('q Condition list \<times> 'q Condition list) option" where
  "place_conditions left right [] = Some ([], [])"
| "place_conditions left right (c # cs) = (case place_condition left right c of
      None \<Rightarrow> None
    | Some (c', used) \<Rightarrow> map_option (\<lambda>(all, here). (c' # all, if used then c' # here else here)) (place_conditions left right cs))"

fun join_loop :: "(byte list \<Rightarrow> 64 word) \<Rightarrow> (nat list \<Rightarrow> nat list) \<Rightarrow> TupleSet \<Rightarrow> TupleSet list \<Rightarrow> 'q Condition list \<Rightarrow> TupleSet option" where
  "join_loop strhash arrange left [] cs = Some left"
| "join_loop strhash arrange left (right # sets) cs = (case place_conditions (ts_schema left) (ts_schema right) cs of
      None \<Rightarrow> None
    | Some (cs', here) \<Rightarrow> (case hash_join strhash arrange left right here of
        None \<Rightarrow> None
      | Some res \<Rightarrow> join_loop strhash arrange res sets cs'))"

fun join_tables :: "(byte list \<Rightarrow> 64 word) \<Rightarrow> (nat list \<Rightarrow> nat list) \<Rightarrow> TupleSet list \<Rightarrow> 'q Condition list \<Rightarrow> TupleSet option" where
  "join_tables strhash arrange [] cs = None"
| "join_tables strhash arrange (left # sets) cs = join_loop strhash arrange left sets cs"

text \<open>\<^verbatim>\<open>add_result\<close> and \<^verbatim>\<open>format_tuple\<close>: a column that is not there is left out.\<close>

fun result_columns :: "TupleSchema \<Rightarrow> TupleSchema \<Rightarrow> Tuple \<Rightarrow> Tuple option" where
  "result_columns [] sch cur = Some []"
| "result_columns (f # fs) sch cur = (case index_of_field (Some (tf_table f)) (tf_field f) sch of
      None \<Rightarrow> result_columns fs sch cur
    | Some j \<Rightarrow> if j < length cur then map_option ((#) (cur ! j)) (result_columns fs sch cur) else None)"

definition add_result :: "Tuple \<Rightarrow> TupleSchema \<Rightarrow> TupleSet \<Rightarrow> TupleSet option" where
  "add_result cur sch res = map_option (\<lambda>added. ts_add added res) (result_columns (ts_schema res) sch cur)"

fun format_tuples :: "Tuple list \<Rightarrow> TupleSchema \<Rightarrow> TupleSet \<Rightarrow> TupleSet option" where
  "format_tuples [] sch res = Some res"
| "format_tuples (t # ts) sch res = Option.bind (add_result t sch res) (format_tuples ts sch)"

definition format_tuple :: "TupleSet \<Rightarrow> TupleSet \<Rightarrow> TupleSet option" where
  "format_tuple res cur = format_tuples (ts_tuples cur) (ts_schema cur) res"

section \<open>The end of a SELECT\<close>

text \<open>The parts of a statement, each in the order in which the parser stores it, last first.\<close>

record 'q Selects =
  sel_attributes :: "RelAttr list"
  sel_aggs :: "AggDesc list"
  sel_relations :: "string list"
  sel_conditions :: "'q Condition list"
  sel_group_by :: "RelAttr list"
  sel_orders :: "Order list"

text \<open>\<^verbatim>\<open>create_multiple_selector\<close>: the conditions between attributes of two tables.\<close>

fun create_multiple_selector :: "'q Condition list \<Rightarrow> 'q Condition list option" where
  "create_multiple_selector [] = Some []"
| "create_multiple_selector (c # cs) = (case (cond_left c, cond_right c) of
      (CondAttr a False, CondAttr b False) \<Rightarrow> (case (relation_name a, relation_name b) of
          (Some n, Some m) \<Rightarrow> map_option (if n \<noteq> m then (#) c else id) (create_multiple_selector cs)
        | _ \<Rightarrow> None)
    | _ \<Rightarrow> create_multiple_selector cs)"

text \<open>\<^verbatim>\<open>set_multiple_schema\<close>, with the tables of the database. A \<^verbatim>\<open>*\<close> ends the loop.\<close>

fun star_schema :: "(string \<Rightarrow> TableMeta option) \<Rightarrow> string list \<Rightarrow> TupleSchema \<Rightarrow> TupleSchema option" where
  "star_schema find_table [] sch = Some sch"
| "star_schema find_table (n # ns) sch = (case find_table n of
      None \<Rightarrow> None
    | Some m \<Rightarrow> star_schema find_table ns (schema_append sch (from_table m [])))"

fun multiple_schema :: "(string \<Rightarrow> TableMeta option) \<Rightarrow> string list \<Rightarrow> RelAttr list \<Rightarrow> TupleSchema \<Rightarrow> TupleSchema option" where
  "multiple_schema find_table relations [] sch = Some sch"
| "multiple_schema find_table relations (a # attrs) sch =
    (if attribute_name a = ''*'' then star_schema find_table (rev relations) sch
     else case Option.bind (relation_name a) (\<lambda>n. map_option (Pair n) (Option.bind (find_table n) (\<lambda>m. field_by_name m (attribute_name a)))) of
         None \<Rightarrow> None
       | Some (n, f) \<Rightarrow> multiple_schema find_table relations attrs (schema_add (attr_type f) n (attribute_name a) sch))"

definition set_multiple_schema :: "(string \<Rightarrow> TableMeta option) \<Rightarrow> 'q Selects \<Rightarrow> TupleSchema option" where
  "set_multiple_schema find_table sel = multiple_schema find_table (sel_relations sel) (rev (sel_attributes sel)) []"

text \<open>The rows of the statement from the results of its tables, which are in the order in which they were queried.\<close>

definition select_rows :: "(byte list \<Rightarrow> 64 word) \<Rightarrow> (nat list \<Rightarrow> nat list) \<Rightarrow> (string \<Rightarrow> TableMeta option) \<Rightarrow> 'q Selects
      \<Rightarrow> TupleSet list \<Rightarrow> TupleSet option" where
  "select_rows strhash arrange find_table sel sets =
    Option.bind (create_multiple_selector (sel_conditions sel)) (\<lambda>cs.
     case rev sets of
       [ts] \<Rightarrow> Some ts
     | ordered \<Rightarrow>
        Option.bind (if sel_aggs sel \<noteq> [] then Some (concat (map ts_schema ordered)) else set_multiple_schema find_table sel) (\<lambda>sch.
        Option.bind (join_tables strhash arrange ordered cs) (\<lambda>joined.
        format_tuple \<lparr>ts_tuples = [], ts_schema = sch\<rparr> joined)))"

datatype select_output = Rows TupleSet | Aggregate "AggDesc list" Tuple | Groups GroupByTupleSet

definition select_result :: "(byte list \<Rightarrow> 64 word) \<Rightarrow> (nat list \<Rightarrow> nat list) \<Rightarrow> ((TupleValue \<times> group_map) list \<Rightarrow> (TupleValue \<times> group_map) list)
      \<Rightarrow> (string \<Rightarrow> TableMeta option) \<Rightarrow> 'q Selects \<Rightarrow> TupleSet list \<Rightarrow> (RC + select_output) option" where
  "select_result strhash arrange arrange_groups find_table sel sets =
    (if sets = [] then Some (Inl SQL_SYNTAX)
     else Option.bind (select_rows strhash arrange find_table sel sets) (\<lambda>rows.
      Option.bind (sort_by_orders (rev (sel_orders sel)) rows) (\<lambda>sorted.
      if sel_aggs sel = [] then Some (Inr (Rows sorted))
      else if sel_group_by sel = [] then map_option (map_sum id (\<lambda>(ds, t). Aggregate ds t)) (agg_execute (sel_aggs sel) sorted)
      else map_option (map_sum id Groups)
        (grouper_execute strhash arrange_groups find_table (sel_relations sel) (sel_group_by sel) (sel_aggs sel) sorted))))"

end
