(* ===== verification/Join_Properties.thy ===== *)
theory Join_Properties
  imports Join
begin

text \<open>
  The join of the tables of a statement: a hash join gives the rows of the nested loop, and the join of all
  tables gives the rows of their product on which the conditions between the tables hold.
\<close>

section \<open>Columns of joined schemas\<close>

lemma index_where_append:
  "index_where P (xs @ ys) = (case index_where P xs of Some i \<Rightarrow> Some i | None \<Rightarrow> map_option (\<lambda>i. length xs + i) (index_where P ys))"
  by (cases "index_where P ys"; induction xs) (auto split: option.splits)

lemma index_where_Some: "index_where P xs = Some i \<Longrightarrow> i < length xs \<and> P (xs ! i)"
  by (induction xs arbitrary: i) (auto split: if_splits)

lemma index_where_None: "index_where P xs = None \<longleftrightarrow> (\<forall>x \<in> set xs. \<not> P x)"
  by (induction xs) auto

definition field_names :: "TupleSchema \<Rightarrow> (string \<times> string) list" where
  "field_names sch = map (\<lambda>f. (tf_table f, tf_field f)) sch"

lemma field_names_append [simp]: "field_names (A @ B) = field_names A @ field_names B"
  by (simp add: field_names_def)

lemma field_index_append:
  assumes "index_of_field (Some n) a (A @ B) = Some i" "distinct (field_names (A @ B))"
  shows "index_of_field (Some n) a A = (if i < length A then Some i else None)"
    "index_of_field (Some n) a B = (if i < length A then None else Some (i - length A))"
proof -
  let ?P = "\<lambda>f. tf_table f = n \<and> tf_field f = a"
  have name: "(n, a) \<in> set (field_names sch)" if "index_where ?P sch = Some k" for sch k
    using index_where_Some [OF that] nth_mem [of k sch] by (force simp: field_names_def)
  have none: "index_where ?P sch = None" if "(n, a) \<notin> set (field_names sch)" for sch
    using that by (auto simp: index_where_None field_names_def)
  have i: "index_where ?P (A @ B) = Some i" using assms(1) by (simp add: index_of_field_def)
  show "index_of_field (Some n) a A = (if i < length A then Some i else None)"
    "index_of_field (Some n) a B = (if i < length A then None else Some (i - length A))"
    using i name [of A] none [of B] assms(2) index_where_Some [of ?P A]
    by (auto simp: index_of_field_def index_where_append split: option.splits)
qed

lemma side_index_append:
  assumes "side_index (A @ B) f = Some (Some i)" "distinct (field_names (A @ B))"
  shows "side_index A f = Some (if i < length A then Some i else None)"
    "side_index B f = Some (if i < length A then None else Some (i - length A))"
proof -
  obtain a outer n where f: "f = CondAttr a outer" "relation_name a = Some n" "index_of_field (Some n) (attribute_name a) (A @ B) = Some i"
    using assms(1) by (cases f) auto
  show "side_index A f = Some (if i < length A then Some i else None)"
    "side_index B f = Some (if i < length A then None else Some (i - length A))"
    using f(1,2) field_index_append [OF f(3) assms(2)] by simp_all
qed

lemma side_index_less: "side_index sch f = Some (Some i) \<Longrightarrow> i < length sch"
  by (cases f) (auto simp: index_of_field_def dest: index_where_Some)

lemma side_index_extend: "side_index A f = Some (Some i) \<Longrightarrow> side_index (A @ B) f = Some (Some i)"
  by (cases f) (auto simp: index_of_field_def index_where_append)

text \<open>The columns of a condition.\<close>

definition cond_at :: "TupleSchema \<Rightarrow> 'q Condition \<Rightarrow> nat \<Rightarrow> nat \<Rightarrow> bool" where
  "cond_at sch c i j \<longleftrightarrow> side_index sch (cond_left c) = Some (Some i) \<and> side_index sch (cond_right c) = Some (Some j)"

lemma cond_at_less: "cond_at sch c i j \<Longrightarrow> i < length sch \<and> j < length sch"
  by (auto simp: cond_at_def dest: side_index_less)

lemma cond_at_unique: "cond_at sch c i j \<Longrightarrow> cond_at sch c k l \<longleftrightarrow> k = i \<and> l = j"
  by (auto simp: cond_at_def)

section \<open>Rows and conditions\<close>

definition join_type :: "AttrType \<Rightarrow> bool" where
  "join_type t \<longleftrightarrow> t \<in> {INTS, CHARS, DATE}"

text \<open>Values of a column that can be compared and hashed: nulls, and values of its type; integers are small enough for
  their difference, strings have no zero byte.\<close>

definition joinable :: "AttrType \<Rightarrow> TupleValue \<Rightarrow> bool" where
  "joinable t v \<longleftrightarrow> v = NullValue \<or> orderable t v \<and> (case v of StringValue s \<Rightarrow> 0 \<notin> set s | _ \<Rightarrow> True)"

definition row_ok :: "TupleSchema \<Rightarrow> Tuple \<Rightarrow> bool" where
  "row_ok sch row \<longleftrightarrow> length row = length sch \<and> (\<forall>k < length sch. join_type (tf_type (sch ! k)) \<longrightarrow> joinable (tf_type (sch ! k)) (row ! k))"

definition op_key :: "CompOp \<Rightarrow> 'a :: linorder \<Rightarrow> 'a \<Rightarrow> bool" where
  "op_key opr a b = (case opr of
      EQUAL_TO \<Rightarrow> a = b | LESS_EQUAL \<Rightarrow> a \<le> b | NOT_EQUAL \<Rightarrow> a \<noteq> b
    | LESS_THAN \<Rightarrow> a < b | GREAT_EQUAL \<Rightarrow> a \<ge> b | GREAT_THAN \<Rightarrow> a > b | _ \<Rightarrow> False)"

definition compares :: "CompOp \<Rightarrow> bool" where
  "compares opr \<longleftrightarrow> opr \<in> {EQUAL_TO, LESS_EQUAL, NOT_EQUAL, LESS_THAN, GREAT_EQUAL, GREAT_THAN}"

text \<open>A condition between two columns of the same type, and that it holds for a row: both values are there and
  compare in the order of the values.\<close>

definition cond_ok :: "TupleSchema \<Rightarrow> 'q Condition \<Rightarrow> bool" where
  "cond_ok sch c \<longleftrightarrow> compares (cond_comp c)
    \<and> (\<exists>i j. cond_at sch c i j \<and> tf_type (sch ! i) = tf_type (sch ! j) \<and> join_type (tf_type (sch ! i)))"

definition cond_true :: "TupleSchema \<Rightarrow> Tuple \<Rightarrow> 'q Condition \<Rightarrow> bool" where
  "cond_true sch row c \<longleftrightarrow> (\<exists>i j. cond_at sch c i j \<and> row ! i \<noteq> NullValue \<and> row ! j \<noteq> NullValue
     \<and> op_key (cond_comp c) (value_key (row ! i)) (value_key (row ! j)))"

lemma op_rel_key:
  assumes "c < 0 \<longleftrightarrow> a < b" "c = 0 \<longleftrightarrow> a = b" "compares opr"
  shows "op_rel opr c 0 \<longleftrightarrow> op_key opr (a :: 'a :: linorder) b"
  using assms by (cases opr) (auto simp: op_rel_def op_key_def compares_def)

lemma join_filter_true:
  assumes "row_ok sch row" "\<forall>c \<in> set cs. cond_ok sch c"
  shows "join_filter sch row cs = Some (\<forall>c \<in> set cs. cond_true sch row c)"
  using assms(2)
proof (induction cs)
  case (Cons c cs)
  obtain i j where c: "cond_at sch c i j" "tf_type (sch ! i) = tf_type (sch ! j)" "join_type (tf_type (sch ! i))" "compares (cond_comp c)"
    using Cons.prems by (auto simp: cond_ok_def)
  have less: "i < length sch" "j < length sch" "length row = length sch" using cond_at_less [OF c(1)] assms(1) by (auto simp: row_ok_def)
  have val: "joinable (tf_type (sch ! i)) (row ! i)" "joinable (tf_type (sch ! i)) (row ! j)"
    using assms(1) c less unfolding row_ok_def by metis+
  have no_is: "cond_comp c \<noteq> IS_OP" "cond_comp c \<noteq> IS_NOT_OP" using c(4) by (auto simp: compares_def)
  have true: "cond_true sch row c \<longleftrightarrow> row ! i \<noteq> NullValue \<and> row ! j \<noteq> NullValue \<and> op_key (cond_comp c) (value_key (row ! i)) (value_key (row ! j))"
    using cond_at_unique [OF c(1)] by (auto simp: cond_true_def)
  show ?case
  proof (cases "row ! i = NullValue \<or> row ! j = NullValue")
    case False
    then obtain k where k: "value_compare (row ! i) (row ! j) = Some k" "k < 0 \<longleftrightarrow> value_key (row ! i) < value_key (row ! j)"
        "k = 0 \<longleftrightarrow> value_key (row ! i) = value_key (row ! j)"
      using value_compare_order [of "tf_type (sch ! i)" "row ! i" "row ! j"] val by (auto simp: joinable_def)
    then show ?thesis using Cons c(1) less no_is true False op_rel_key [OF k(2,3) c(4)] by (auto simp: cond_at_def is_null_def)
  qed (use c(1) less no_is true in \<open>auto simp: cond_at_def is_null_def\<close>)
qed simp

lemma keep_rows_filter:
  assumes "\<forall>row \<in> set rows. join_filter sch row cs = Some (P row)"
  shows "keep_rows sch cs rows = Some (filter P rows)"
  using assms by (induction rows) auto

section \<open>The hash join\<close>

lemma pair_rows_mset: "mset (pair_rows ls rs) = mset (concat (map (\<lambda>r. map (\<lambda>l. l @ r) ls) rs))"
proof (induction ls)
  case (Cons l ls)
  have "mset (concat (map (\<lambda>r. (l @ r) # map (\<lambda>l. l @ r) ls) rs)) = mset (map ((@) l) rs) + mset (concat (map (\<lambda>r. map (\<lambda>l. l @ r) ls) rs))"
    by (induction rs) auto
  then show ?case using Cons by (simp add: pair_rows_def)
qed (simp add: pair_rows_def)

lemma pair_rows_mono: "mset ls = mset ls' \<Longrightarrow> mset (pair_rows ls rs) = mset (pair_rows ls' rs)"
  by (simp add: pair_rows_def mset_concat flip: sum_mset_sum_list)

lemma set_pair_rows: "set (pair_rows ls rs) = {l @ r | l r. l \<in> set ls \<and> r \<in> set rs}"
  by (auto simp: pair_rows_def)

text \<open>Values that are equal for the comparison have the same hash.\<close>

lemma joinable_hash: "join_type t \<Longrightarrow> joinable t v \<Longrightarrow> value_hash strhash v \<noteq> None"
  by (cases v) (auto simp: joinable_def orderable_def value_type_def join_type_def)

lemma c_bytes_id: "0 \<notin> set s \<Longrightarrow> c_bytes s = s"
  by (auto simp: c_bytes_def takeWhile_eq_all_conv)

lemma map_uint_eq: "map uint (s :: byte list) = map uint u \<longleftrightarrow> s = u"
  by (rule inj_map_eq_map) (auto intro: injI)

lemma joinable_equal:
  assumes "joinable t v" "joinable t w" "v \<noteq> NullValue" "w \<noteq> NullValue" "value_key v = value_key w"
  shows "v = w"
  using assms
  by (cases v; cases w) (auto simp: joinable_def orderable_def value_type_def value_key_def c_bytes_id map_uint_eq dest: word_uint_eqI)

lemma column_hashes_run:
  assumes "\<forall>t \<in> set ts. i < length t \<and> value_hash strhash (t ! i) \<noteq> None"
  shows "column_hashes strhash (Some i) ts = Some (map (\<lambda>t. ucast (the (value_hash strhash (t ! i)))) ts)"
  using assms by (induction ts) auto

lemma filter_map_filter: "(\<And>x. x \<in> set xs \<Longrightarrow> P (f x) \<Longrightarrow> Q x) \<Longrightarrow> filter P (map f (filter Q xs)) = filter P (map f xs)"
  by (induction xs) auto

lemma bucket_rows:
  assumes "\<And>l. l \<in> set ls \<Longrightarrow> P (l @ r) \<Longrightarrow> hash l = k" and arrange: "\<And>is. mset (arrange is) = mset is"
  shows "mset (filter P (map (\<lambda>i. ls ! i @ r) (arrange (bucket (map hash ls) k)))) = mset (filter P (map (\<lambda>l. l @ r) ls))"
proof -
  have "mset (filter P (map (\<lambda>i. ls ! i @ r) (arrange (bucket (map hash ls) k)))) = mset (filter P (map (\<lambda>i. ls ! i @ r) (bucket (map hash ls) k)))"
    by (simp add: arrange)
  also have "filter P (map (\<lambda>i. ls ! i @ r) (bucket (map hash ls) k)) = filter P (map (\<lambda>i. ls ! i @ r) [0..<length ls])"
    unfolding bucket_def length_map by (rule filter_map_filter) (use assms(1) in simp)
  also have "map (\<lambda>i. ls ! i @ r) [0..<length ls] = map (\<lambda>l. l @ r) ls" by (rule nth_equalityI) simp_all
  finally show ?thesis .
qed

lemma probe_rows_filter:
  assumes "\<And>l r. l \<in> set ls \<Longrightarrow> r \<in> set rs \<Longrightarrow> P (l @ r) \<Longrightarrow> hash l = key r" and arrange: "\<And>is. mset (arrange is) = mset is"
  shows "mset (filter P (probe_rows arrange ls (map hash ls) (zip (map key rs) rs))) = mset (filter P (pair_rows ls rs))"
proof -
  have "mset (filter P (probe_rows arrange ls (map hash ls) (zip (map key rs) rs)))
      = mset (filter P (concat (map (\<lambda>r. map (\<lambda>l. l @ r) ls) rs)))"
    using assms(1)
  proof (induction rs)
    case (Cons r rs)
    have "mset (filter P (map (\<lambda>i. ls ! i @ r) (arrange (bucket (map hash ls) (key r))))) = mset (filter P (map (\<lambda>l. l @ r) ls))"
      by (rule bucket_rows) (use Cons.prems arrange in simp_all)
    then show ?case using Cons by (simp add: probe_rows_def)
  qed (simp add: probe_rows_def)
  then show ?thesis using pair_rows_mset [of ls rs] by (metis mset_filter)
qed

definition set_ok :: "TupleSet \<Rightarrow> bool" where
  "set_ok ts \<longleftrightarrow> (\<forall>t \<in> set (ts_tuples ts). row_ok (ts_schema ts) t)"

lemma row_ok_append: "row_ok A a \<Longrightarrow> row_ok B b \<Longrightarrow> row_ok (A @ B) (a @ b)"
  by (auto simp: row_ok_def nth_append)

lemma pair_rows_ok: "set_ok left \<Longrightarrow> set_ok right \<Longrightarrow> row \<in> set (pair_rows (ts_tuples left) (ts_tuples right)) \<Longrightarrow> row_ok (ts_schema left @ ts_schema right) row"
  by (auto simp: set_ok_def set_pair_rows intro: row_ok_append)

lemma probe_rows_ok:
  assumes "\<And>is. mset (arrange is) = mset is" "length hs = length ls" "row \<in> set (probe_rows arrange ls hs (zip ks rs))"
  shows "row \<in> set (pair_rows ls rs)"
proof -
  have "set (arrange (bucket hs k)) = set (bucket hs k)" for k using mset_eq_setD [OF assms(1)] .
  then show ?thesis using assms(2,3) by (fastforce simp: probe_rows_def set_pair_rows bucket_def dest!: set_zip_rightD)
qed

text \<open>A condition that has its left column in the first and its right column in the second set.\<close>

definition crosses :: "TupleSchema \<Rightarrow> TupleSchema \<Rightarrow> 'q Condition \<Rightarrow> bool" where
  "crosses A B c \<longleftrightarrow> (\<exists>i j. cond_at (A @ B) c i j \<and> i < length A \<and> length A \<le> j)"

lemma hash_join_run:
  assumes ok: "set_ok left" "set_ok right" and names: "distinct (field_names (ts_schema left @ ts_schema right))"
    and cs: "\<forall>c \<in> set cs. cond_ok (ts_schema left @ ts_schema right) c \<and> crosses (ts_schema left) (ts_schema right) c"
    and arrange: "\<And>is. mset (arrange is) = mset is"
  shows "\<exists>rows. hash_join strhash arrange left right cs = Some \<lparr>ts_tuples = rows, ts_schema = ts_schema left @ ts_schema right\<rparr>
    \<and> mset rows = mset (filter (\<lambda>row. \<forall>c \<in> set cs. cond_true (ts_schema left @ ts_schema right) row c) (pair_rows (ts_tuples left) (ts_tuples right)))"
proof -
  let ?A = "ts_schema left" and ?B = "ts_schema right" and ?ls = "ts_tuples left" and ?rs = "ts_tuples right"
  let ?P = "\<lambda>row. \<forall>c \<in> set cs. cond_true (?A @ ?B) row c"
  have all: "keep_rows (?A @ ?B) cs rows = Some (filter ?P rows)" if "set rows \<subseteq> set (pair_rows ?ls ?rs)" for rows
    using that cs by (intro keep_rows_filter ballI join_filter_true pair_rows_ok [OF ok]) auto
  show ?thesis
  proof (cases "find (\<lambda>c. cond_comp c = EQUAL_TO) cs")
    case None
    then show ?thesis using all [of "pair_rows ?ls ?rs"] by (simp add: hash_join_def schema_append_def connect_table_def Let_def)
  next
    case (Some c)
    then have c: "c \<in> set cs" "cond_comp c = EQUAL_TO" by (auto simp: find_Some_iff)
    obtain i j where ij: "cond_at (?A @ ?B) c i j" "i < length ?A" "length ?A \<le> j" using cs c(1) by (auto simp: crosses_def)
    let ?t = "tf_type (?A ! i)" and ?j = "j - length ?A"
    have j: "?j < length ?B" using cond_at_less [OF ij(1)] ij(3) by auto
    have ty: "tf_type (?B ! ?j) = ?t" "join_type ?t"
      using cs c(1) cond_at_unique [OF ij(1)] ij(2,3) by (auto simp: cond_ok_def nth_append)
    have sides: "side_index (?A @ ?B) (cond_left c) = Some (Some i)" "side_index (?A @ ?B) (cond_right c) = Some (Some j)"
      using ij(1) by (simp_all add: cond_at_def)
    have at: "side_index ?A (cond_left c) = Some (Some i)" "side_index ?B (cond_right c) = Some (Some ?j)"
      using side_index_append(1) [OF sides(1) names] side_index_append(2) [OF sides(2) names] ij(2,3) by simp_all
    let ?h = "\<lambda>t. ucast (the (value_hash strhash (t ! i))) :: 32 word" and ?k = "\<lambda>t. ucast (the (value_hash strhash (t ! ?j))) :: 32 word"
    have val: "\<forall>l \<in> set ?ls. i < length l \<and> joinable ?t (l ! i)" "\<forall>r \<in> set ?rs. ?j < length r \<and> joinable ?t (r ! ?j)"
      using ok ij(2) j ty unfolding set_ok_def row_ok_def by metis+
    have hashes: "column_hashes strhash (Some i) ?ls = Some (map ?h ?ls)" "column_hashes strhash (Some ?j) ?rs = Some (map ?k ?rs)"
      using val joinable_hash [OF ty(2)] by (auto intro!: column_hashes_run)
    have same: "?h l = ?k r" if "l \<in> set ?ls" "r \<in> set ?rs" "?P (l @ r)" for l r
    proof -
      have len: "length l = length ?A" using ok(1) that(1) by (auto simp: set_ok_def row_ok_def)
      have "cond_true (?A @ ?B) (l @ r) c" using that(3) c(1) by blast
      then have "l ! i \<noteq> NullValue" "r ! ?j \<noteq> NullValue" "value_key (l ! i) = value_key (r ! ?j)"
        using cond_at_unique [OF ij(1)] ij(2,3) c(2) len by (auto simp: cond_true_def op_key_def nth_append)
      then show ?thesis using joinable_equal val that(1,2) by metis
    qed
    let ?rows = "probe_rows arrange ?ls (map ?h ?ls) (zip (map ?k ?rs) ?rs)"
    have "keep_rows (?A @ ?B) cs ?rows = Some (filter ?P ?rows)"
      using probe_rows_ok [OF arrange, of "map ?h ?ls" ?ls] by (intro all) auto
    then have "hash_join strhash arrange left right cs = Some \<lparr>ts_tuples = filter ?P ?rows, ts_schema = ?A @ ?B\<rparr>"
      using Some at hashes by (simp add: hash_join_def schema_append_def Let_def)
    moreover have "mset (filter ?P ?rows) = mset (filter ?P (pair_rows ?ls ?rs))"
      by (rule probe_rows_filter [OF same arrange]) simp_all
    ultimately show ?thesis by blast
  qed
qed

section \<open>Placing the conditions\<close>

lemma side_index_middle:
  assumes "side_index (A @ B @ C) f = Some (Some i)" "distinct (field_names (A @ B @ C))"
  shows "side_index B f = Some (if length A \<le> i \<and> i < length A + length B then Some (i - length A) else None)"
proof (cases "i < length A")
  case True
  then have "side_index (B @ C) f = Some None" using side_index_append(2) [OF assms] by simp
  then show ?thesis using True by (cases f) (auto simp: index_of_field_def index_where_append split: option.splits)
next
  case False
  then have "side_index (B @ C) f = Some (Some (i - length A))" using side_index_append(2) [OF assms] by simp
  moreover have "distinct (field_names (B @ C))" using assms(2) by simp
  ultimately have "side_index B f = Some (if i - length A < length B then Some (i - length A) else None)"
    by (rule side_index_append(1))
  then show ?thesis using False by auto
qed

definition turn :: "'q Condition \<Rightarrow> 'q Condition" where
  "turn c = c\<lparr>cond_left := cond_right c, cond_right := cond_left c\<rparr>"

lemma turn_at [simp]: "cond_at sch (turn c) j i \<longleftrightarrow> cond_at sch c i j" "cond_comp (turn c) = cond_comp c"
  by (auto simp: turn_def cond_at_def)

lemma place_condition_run:
  assumes "cond_at (A @ B @ C) c i j" "distinct (field_names (A @ B @ C))"
  shows "place_condition A B c =
    Some (if i < length A \<and> length A \<le> j \<and> j < length A + length B then (c, True)
          else if j < length A \<and> length A \<le> i \<and> i < length A + length B then (turn c, True)
          else (c, False))"
proof -
  have at: "side_index (A @ B @ C) (cond_left c) = Some (Some i)" "side_index (A @ B @ C) (cond_right c) = Some (Some j)"
    using assms(1) by (simp_all add: cond_at_def)
  show ?thesis
    using side_index_append(1) [OF at(1) assms(2)] side_index_append(1) [OF at(2) assms(2)]
      side_index_middle [OF at(1) assms(2)] side_index_middle [OF at(2) assms(2)]
    by (simp add: place_condition_def turn_def)
qed

lemma place_conditions_run:
  assumes "\<forall>c \<in> set cs. place_condition A B c = Some (g c, u c)"
  shows "place_conditions A B cs = Some (map g cs, map g (filter u cs))"
  using assms by (induction cs) auto

section \<open>The join of all tables\<close>

text \<open>The product of sets of tuples.\<close>

fun all_rows :: "Tuple list \<Rightarrow> TupleSet list \<Rightarrow> Tuple list" where
  "all_rows acc [] = acc"
| "all_rows acc (ts # sets) = all_rows (pair_rows acc (ts_tuples ts)) sets"

lemma all_rows_mono: "mset acc = mset acc' \<Longrightarrow> mset (all_rows acc sets) = mset (all_rows acc' sets)"
proof (induction sets arbitrary: acc acc')
  case (Cons ts sets)
  show ?case unfolding all_rows.simps by (rule Cons.IH [OF pair_rows_mono [OF Cons.prems]])
qed simp

lemma all_rows_filter:
  "\<forall>t \<in> set acc. n \<le> length t \<Longrightarrow> all_rows (filter (\<lambda>t. P (take n t)) acc) sets = filter (\<lambda>row. P (take n row)) (all_rows acc sets)"
proof (induction sets arbitrary: acc)
  case (Cons ts sets)
  have "pair_rows (filter (\<lambda>t. P (take n t)) acc) (ts_tuples ts) = filter (\<lambda>t. P (take n t)) (pair_rows acc (ts_tuples ts))"
    using Cons.prems by (induction acc) (auto simp: pair_rows_def filter_map comp_def)
  moreover have "\<forall>t \<in> set (pair_rows acc (ts_tuples ts)). n \<le> length t" using Cons.prems by (auto simp: set_pair_rows)
  ultimately show ?case using Cons.IH by simp
qed simp

lemma all_rows_length: "\<forall>t \<in> set acc. n \<le> length t \<Longrightarrow> row \<in> set (all_rows acc sets) \<Longrightarrow> n \<le> length row"
proof (induction sets arbitrary: acc)
  case (Cons ts sets)
  have "\<forall>t \<in> set (pair_rows acc (ts_tuples ts)). n \<le> length t" using Cons.prems(1) by (auto simp: set_pair_rows)
  then show ?case using Cons.IH Cons.prems(2) by simp
qed simp

text \<open>Conditions that the loop can use: between columns of different tables, and either symmetric or with the left
  column in the table that comes first; and those that it has not used yet.\<close>

definition usable :: "TupleSchema \<Rightarrow> TupleSet list \<Rightarrow> 'q Condition \<Rightarrow> bool" where
  "usable sch sets c \<longleftrightarrow> cond_ok sch c
    \<and> (\<exists>i j. cond_at sch c i j \<and> (i < j \<or> cond_comp c \<in> {EQUAL_TO, NOT_EQUAL}))
    \<and> (\<forall>ts \<in> set sets. \<forall>i j. \<not> cond_at (ts_schema ts) c i j)"

definition pending :: "TupleSchema \<Rightarrow> nat \<Rightarrow> 'q Condition \<Rightarrow> bool" where
  "pending sch p c \<longleftrightarrow> (\<exists>i j. cond_at sch c i j \<and> \<not> (i < p \<and> j < p))"

lemma cond_true_turn: "cond_comp c \<in> {EQUAL_TO, NOT_EQUAL} \<Longrightarrow> cond_true sch row (turn c) \<longleftrightarrow> cond_true sch row c"
  by (auto simp: cond_true_def op_key_def) metis+

lemma usable_turn: "usable sch sets c \<Longrightarrow> cond_comp c \<in> {EQUAL_TO, NOT_EQUAL} \<Longrightarrow> usable sch sets (turn c)"
  by (fastforce simp: usable_def cond_ok_def)

lemma cond_at_prefix:
  assumes "cond_at (A @ B) c i j" "distinct (field_names (A @ B))" "i < length A" "j < length A"
  shows "cond_at A c i j"
proof -
  have at: "side_index (A @ B) (cond_left c) = Some (Some i)" "side_index (A @ B) (cond_right c) = Some (Some j)"
    using assms(1) by (simp_all add: cond_at_def)
  show ?thesis using side_index_append(1) [OF at(1) assms(2)] side_index_append(1) [OF at(2) assms(2)] assms(3,4) by (simp add: cond_at_def)
qed

lemma cond_prefix:
  assumes "cond_at (A @ B) c i j" "distinct (field_names (A @ B))" "i < length A" "j < length A" "cond_ok (A @ B) c"
  shows "cond_ok A c" "length A \<le> length row \<Longrightarrow> cond_true A (take (length A) row) c \<longleftrightarrow> cond_true (A @ B) row c"
proof -
  have A: "cond_at A c i j" by (rule cond_at_prefix [OF assms(1-4)])
  show "cond_ok A c" using assms(3-5) A cond_at_unique [OF assms(1)] by (fastforce simp: cond_ok_def nth_append)
  show "length A \<le> length row \<Longrightarrow> cond_true A (take (length A) row) c \<longleftrightarrow> cond_true (A @ B) row c"
    using assms(3,4) cond_at_unique [OF assms(1)] cond_at_unique [OF A] by (simp add: cond_true_def)
qed

text \<open>One condition at one table.\<close>

lemma used_condition:
  assumes c: "cond_at (A @ B @ C) c i j" "i < length A" "length A \<le> j" "j < length A + length B" "cond_ok (A @ B @ C) c"
    and names: "distinct (field_names (A @ B @ C))"
  shows "cond_ok (A @ B) c \<and> crosses A B c"
    "length (A @ B) \<le> length row \<Longrightarrow> cond_true (A @ B) (take (length (A @ B)) row) c \<longleftrightarrow> cond_true (A @ B @ C) row c"
proof -
  have at: "cond_at ((A @ B) @ C) c i j" "distinct (field_names ((A @ B) @ C))" "i < length (A @ B)" "j < length (A @ B)" "cond_ok ((A @ B) @ C) c"
    using assms by simp_all
  show "cond_ok (A @ B) c \<and> crosses A B c"
    using cond_prefix(1) [OF at] cond_at_prefix [OF at(1-4)] c(2,3) by (auto simp: crosses_def)
  show "length (A @ B) \<le> length row \<Longrightarrow> cond_true (A @ B) (take (length (A @ B)) row) c \<longleftrightarrow> cond_true (A @ B @ C) row c"
    using cond_prefix(2) [OF at] by simp
qed

lemma placed_condition:
  assumes c: "usable (A @ ts_schema right @ C) (right # sets) c" and names: "distinct (field_names (A @ ts_schema right @ C))"
  obtains c' u where "place_condition A (ts_schema right) c = Some (c', u)" "usable (A @ ts_schema right @ C) sets c'"
    "\<And>row. cond_true (A @ ts_schema right @ C) row c' \<longleftrightarrow> cond_true (A @ ts_schema right @ C) row c"
    "u \<Longrightarrow> cond_ok (A @ ts_schema right) c' \<and> crosses A (ts_schema right) c'"
    "\<And>row. u \<Longrightarrow> length (A @ ts_schema right) \<le> length row \<Longrightarrow>
       cond_true (A @ ts_schema right) (take (length (A @ ts_schema right)) row) c' \<longleftrightarrow> cond_true (A @ ts_schema right @ C) row c'"
    "pending (A @ ts_schema right @ C) (length A) c \<longleftrightarrow> u \<or> pending (A @ ts_schema right @ C) (length (A @ ts_schema right)) c'"
proof -
  let ?B = "ts_schema right" and ?S = "A @ ts_schema right @ C"
  obtain i j where ij: "cond_at ?S c i j" "i < j \<or> cond_comp c \<in> {EQUAL_TO, NOT_EQUAL}" using c by (auto simp: usable_def)
  have ok: "cond_ok ?S c" "usable ?S sets c" using c by (auto simp: usable_def)
  have pend: "pending ?S p c \<longleftrightarrow> \<not> (i < p \<and> j < p)" for p using cond_at_unique [OF ij(1)] by (auto simp: pending_def)
  note place = place_condition_run [OF ij(1) names]
  have sides: "side_index ?S (cond_left c) = Some (Some i)" "side_index ?S (cond_right c) = Some (Some j)"
    using ij(1) by (simp_all add: cond_at_def)
  have apart: "\<not> (length A \<le> i \<and> i < length A + length ?B \<and> length A \<le> j \<and> j < length A + length ?B)"
    using c side_index_middle [OF sides(1) names] side_index_middle [OF sides(2) names] by (auto simp: usable_def cond_at_def)
  consider "i < length A" "length A \<le> j" "j < length A + length ?B" | "j < length A" "length A \<le> i" "i < length A + length ?B"
    | "\<not> (i < length A \<and> length A \<le> j \<and> j < length A + length ?B)" "\<not> (j < length A \<and> length A \<le> i \<and> i < length A + length ?B)"
    by blast
  then show thesis
  proof cases
    case 1
    then show ?thesis using place used_condition [OF ij(1) 1 ok(1) names] ok(2) pend by (intro that [of c True]) auto
  next
    case 2
    then have eq: "cond_comp c \<in> {EQUAL_TO, NOT_EQUAL}" using ij(2) by auto
    have at: "cond_at ?S (turn c) j i" using ij(1) by simp
    have t: "usable ?S sets (turn c)" "cond_ok ?S (turn c)" using usable_turn [OF ok(2) eq] by (auto simp: usable_def)
    show ?thesis using 2 place used_condition [OF at 2 t(2) names] t(1) cond_true_turn [OF eq] pend
      by (intro that [of "turn c" True]) auto
  next
    case 3
    have "pending ?S (length A) c \<longleftrightarrow> pending ?S (length (A @ ?B)) c" using 3 apart unfolding pend by auto
    then show ?thesis using 3 place ok(2) by (intro that [of c False]) auto
  qed
qed

definition joint_schema :: "TupleSet list \<Rightarrow> TupleSchema" where
  "joint_schema sets = concat (map ts_schema sets)"

lemma placed_conditions:
  assumes "\<forall>c \<in> set cs. usable (A @ ts_schema right @ C) (right # sets) c" and names: "distinct (field_names (A @ ts_schema right @ C))"
  obtains cs' here where "place_conditions A (ts_schema right) cs = Some (cs', here)" "\<forall>c \<in> set cs'. usable (A @ ts_schema right @ C) sets c"
    "\<forall>c \<in> set here. cond_ok (A @ ts_schema right) c \<and> crosses A (ts_schema right) c"
    "\<And>row. length (A @ ts_schema right) \<le> length row \<Longrightarrow>
      (\<forall>c \<in> set cs. pending (A @ ts_schema right @ C) (length A) c \<longrightarrow> cond_true (A @ ts_schema right @ C) row c) \<longleftrightarrow>
      (\<forall>c \<in> set here. cond_true (A @ ts_schema right) (take (length (A @ ts_schema right)) row) c) \<and>
      (\<forall>c \<in> set cs'. pending (A @ ts_schema right @ C) (length (A @ ts_schema right)) c \<longrightarrow> cond_true (A @ ts_schema right @ C) row c)"
proof -
  let ?B = "ts_schema right" and ?S = "A @ ts_schema right @ C"
  let ?good = "\<lambda>c c' u. place_condition A ?B c = Some (c', u) \<and> usable ?S sets c' \<and> (\<forall>row. cond_true ?S row c' \<longleftrightarrow> cond_true ?S row c)
    \<and> (u \<longrightarrow> cond_ok (A @ ?B) c' \<and> crosses A ?B c')
    \<and> (\<forall>row. u \<longrightarrow> length (A @ ?B) \<le> length row \<longrightarrow> (cond_true (A @ ?B) (take (length (A @ ?B)) row) c' \<longleftrightarrow> cond_true ?S row c'))
    \<and> (pending ?S (length A) c \<longleftrightarrow> u \<or> pending ?S (length (A @ ?B)) c')"
  have "\<forall>c \<in> set cs. \<exists>c' u. ?good c c' u"
  proof
    fix c assume "c \<in> set cs"
    then have "usable ?S (right # sets) c" using assms(1) by blast
    from placed_condition [OF this names] show "\<exists>c' u. ?good c c' u" by metis
  qed
  then obtain g u where gu: "\<forall>c \<in> set cs. ?good c (g c) (u c)" by metis
  show thesis
  proof (rule that)
    show "place_conditions A ?B cs = Some (map g cs, map g (filter u cs))" by (rule place_conditions_run) (use gu in blast)
  next
    show "\<forall>c \<in> set (map g cs). usable ?S sets c" using gu by auto
  next
    show "\<forall>c \<in> set (map g (filter u cs)). cond_ok (A @ ?B) c \<and> crosses A ?B c" using gu by auto
  next
    fix row :: Tuple assume "length (A @ ?B) \<le> length row"
    then show "(\<forall>c \<in> set cs. pending ?S (length A) c \<longrightarrow> cond_true ?S row c) \<longleftrightarrow>
      (\<forall>c \<in> set (map g (filter u cs)). cond_true (A @ ?B) (take (length (A @ ?B)) row) c) \<and>
      (\<forall>c \<in> set (map g cs). pending ?S (length (A @ ?B)) c \<longrightarrow> cond_true ?S row c)"
      using gu by auto
  qed
qed

lemma join_loop_run:
  assumes "set_ok left" "\<forall>ts \<in> set sets. set_ok ts" "distinct (field_names (ts_schema left @ joint_schema sets))"
    "\<forall>c \<in> set cs. usable (ts_schema left @ joint_schema sets) sets c"
    and arrange: "\<And>is. mset (arrange is) = mset is"
  shows "\<exists>rows. join_loop strhash arrange left sets cs = Some \<lparr>ts_tuples = rows, ts_schema = ts_schema left @ joint_schema sets\<rparr>
    \<and> mset rows = mset (filter (\<lambda>row. \<forall>c \<in> set cs. pending (ts_schema left @ joint_schema sets) (length (ts_schema left)) c
          \<longrightarrow> cond_true (ts_schema left @ joint_schema sets) row c) (all_rows (ts_tuples left) sets))"
  using assms(1-4)
proof (induction sets arbitrary: left cs)
  case Nil
  have "\<not> pending (ts_schema left) (length (ts_schema left)) c" for c :: "'a Condition" by (auto simp: pending_def dest: cond_at_less)
  then show ?case by (intro exI [of _ "ts_tuples left"]) (simp add: joint_schema_def)
next
  case (Cons right sets)
  let ?A = "ts_schema left" and ?B = "ts_schema right" and ?C = "joint_schema sets" and ?X = "pair_rows (ts_tuples left) (ts_tuples right)"
  let ?n = "length (?A @ ?B)" and ?S = "?A @ ?B @ ?C"
  have S: "?A @ joint_schema (right # sets) = ?S" by (simp add: joint_schema_def)
  note prems = Cons.prems [unfolded S]
  obtain cs' here where placed: "place_conditions ?A ?B cs = Some (cs', here)" "\<forall>c \<in> set cs'. usable ?S sets c"
      "\<forall>c \<in> set here. cond_ok (?A @ ?B) c \<and> crosses ?A ?B c"
      "\<And>row. ?n \<le> length row \<Longrightarrow> (\<forall>c \<in> set cs. pending ?S (length ?A) c \<longrightarrow> cond_true ?S row c) \<longleftrightarrow>
        (\<forall>c \<in> set here. cond_true (?A @ ?B) (take ?n row) c) \<and> (\<forall>c \<in> set cs'. pending ?S ?n c \<longrightarrow> cond_true ?S row c)"
    using placed_conditions [OF prems(4,3)] by blast
  let ?here = "\<lambda>row. \<forall>c \<in> set here. cond_true (?A @ ?B) row c"
  have ok: "set_ok right" "distinct (field_names (?A @ ?B))" "distinct (field_names ((?A @ ?B) @ ?C))" using prems(2,3) by auto
  obtain rows where rows: "hash_join strhash arrange left right here = Some \<lparr>ts_tuples = rows, ts_schema = ?A @ ?B\<rparr>" "mset rows = mset (filter ?here ?X)"
    using hash_join_run [OF prems(1) ok(1,2) placed(3) arrange] by blast
  let ?left = "\<lparr>ts_tuples = rows, ts_schema = ?A @ ?B\<rparr>"
  have X: "row_ok (?A @ ?B) row" if "row \<in> set ?X" for row by (rule pair_rows_ok [OF prems(1) ok(1) that])
  have "set rows \<subseteq> set ?X" using mset_eq_setD [OF rows(2)] by auto
  then have "set_ok ?left" using X by (auto simp: set_ok_def)
  then obtain out where out: "join_loop strhash arrange ?left sets cs' = Some \<lparr>ts_tuples = out, ts_schema = ?S\<rparr>"
      "mset out = mset (filter (\<lambda>row. \<forall>c \<in> set cs'. pending ?S ?n c \<longrightarrow> cond_true ?S row c) (all_rows rows sets))"
    using Cons.IH [of ?left cs'] prems(2) ok(3) placed(2) by auto
  have len: "\<forall>t \<in> set ?X. ?n \<le> length t" and X': "filter ?here ?X = filter (\<lambda>t. ?here (take ?n t)) ?X"
    using X by (auto simp: row_ok_def intro!: filter_cong)
  have "mset (all_rows rows sets) = mset (filter (\<lambda>row. ?here (take ?n row)) (all_rows ?X sets))"
    using all_rows_mono [OF rows(2), of sets] all_rows_filter [OF len, of ?here sets] X' by simp
  then have "mset out = mset (filter (\<lambda>row. \<forall>c \<in> set cs'. pending ?S ?n c \<longrightarrow> cond_true ?S row c) (filter (\<lambda>row. ?here (take ?n row)) (all_rows ?X sets)))"
    unfolding out(2) mset_filter by (rule arg_cong)
  also have "filter (\<lambda>row. \<forall>c \<in> set cs'. pending ?S ?n c \<longrightarrow> cond_true ?S row c) (filter (\<lambda>row. ?here (take ?n row)) (all_rows ?X sets))
      = filter (\<lambda>row. \<forall>c \<in> set cs. pending ?S (length ?A) c \<longrightarrow> cond_true ?S row c) (all_rows ?X sets)"
    unfolding filter_filter by (rule filter_cong [OF refl]) (use placed(4) all_rows_length [OF len] in blast)
  finally show ?case using placed(1) rows(1) out(1) unfolding S by auto
qed

text \<open>
  C12. The join of the tables of a statement returns, as a multiset, the rows of the product of the tables for which
  all conditions hold, in a schema with the columns of the tables one after the other. The conditions compare
  columns of the same type, integers, strings or dates, of different tables; those that are not symmetric have
  the column of the earlier table on the left. The result does not depend on the hash of strings or on the
  order in which the hash table returns the entries of a key.
\<close>

theorem join_tables_correct:
  assumes "sets \<noteq> []" "\<forall>ts \<in> set sets. set_ok ts" "distinct (field_names (joint_schema sets))"
    "\<forall>c \<in> set cs. usable (joint_schema sets) sets c"
    and arrange: "\<And>is. mset (arrange is) = mset is"
  shows "\<exists>rows. join_tables strhash arrange sets cs = Some \<lparr>ts_tuples = rows, ts_schema = joint_schema sets\<rparr>
    \<and> mset rows = mset (filter (\<lambda>row. \<forall>c \<in> set cs. cond_true (joint_schema sets) row c) (all_rows [[]] sets))"
proof -
  obtain left rest where sets: "sets = left # rest" using assms(1) by (cases sets) auto
  let ?A = "ts_schema left"
  have S: "joint_schema sets = ?A @ joint_schema rest" by (simp add: sets joint_schema_def)
  have use: "\<forall>c \<in> set cs. usable (?A @ joint_schema rest) rest c" using assms(4) unfolding S by (auto simp: usable_def sets)
  have pend: "pending (?A @ joint_schema rest) (length ?A) c" if c: "c \<in> set cs" for c
  proof -
    obtain i j where ij: "cond_at (?A @ joint_schema rest) c i j" using assms(4) c unfolding S by (auto simp: usable_def)
    moreover have "\<not> cond_at ?A c i j" using assms(4) c by (auto simp: usable_def sets)
    ultimately show ?thesis using cond_at_prefix [OF ij] assms(3) unfolding S pending_def by blast
  qed
  have "all_rows [[]] sets = all_rows (ts_tuples left) rest" by (simp add: sets pair_rows_def map_idI)
  then show ?thesis
    using join_loop_run [OF _ _ _ use arrange, of strhash] assms(2,3) pend unfolding S by (simp add: sets)
qed

definition one_column :: "string \<Rightarrow> string \<Rightarrow> int list \<Rightarrow> TupleSet" where
  "one_column table field xs = \<lparr>ts_tuples = map (\<lambda>x. [IntValue x]) xs, ts_schema = [\<lparr>tf_type = INTS, tf_table = table, tf_field = field\<rparr>]\<rparr>"

definition between :: "string \<times> string \<Rightarrow> CompOp \<Rightarrow> string \<times> string \<Rightarrow> unit Condition" where
  "between l opr r = \<lparr>cond_left = CondAttr \<lparr>relation_name = Some (fst l), attribute_name = snd l\<rparr> False,
     cond_right = CondAttr \<lparr>relation_name = Some (fst r), attribute_name = snd r\<rparr> False, cond_comp = opr\<rparr>"

lemmas one_column_defs = one_column_def between_def joint_schema_def cond_at_def index_of_field_def

theorem join_tables_correct_witness:
  "\<exists>rows. join_tables (\<lambda>_. 0) rev [one_column ''a'' ''x'' [1, 2, 3], one_column ''b'' ''y'' [2, 3, 4]] [between (''b'', ''y'') EQUAL_TO (''a'', ''x'')]
      = Some \<lparr>ts_tuples = rows, ts_schema = joint_schema [one_column ''a'' ''x'' [], one_column ''b'' ''y'' []]\<rparr>
    \<and> mset rows = {#[IntValue 2, IntValue 2], [IntValue 3, IntValue 3]#}"
proof -
  let ?sets = "[one_column ''a'' ''x'' [1, 2, 3], one_column ''b'' ''y'' [2, 3, 4]]" and ?c = "between (''b'', ''y'') EQUAL_TO (''a'', ''x'')"
  have ok: "\<forall>ts \<in> set ?sets. set_ok ts"
    by (auto simp: one_column_def set_ok_def row_ok_def joinable_def orderable_def value_type_def)
  have names: "distinct (field_names (joint_schema ?sets))" by (simp add: one_column_def field_names_def joint_schema_def)
  have at: "cond_at (joint_schema ?sets) ?c i j \<longleftrightarrow> i = 1 \<and> j = 0" for i j by (auto simp: one_column_defs)
  have use: "\<forall>c \<in> set [?c]. usable (joint_schema ?sets) ?sets c"
    unfolding usable_def cond_ok_def list.set ball_simps at by (simp add: one_column_defs compares_def join_type_def)
  obtain rows where rows: "join_tables (\<lambda>_. 0) rev ?sets [?c] = Some \<lparr>ts_tuples = rows, ts_schema = joint_schema ?sets\<rparr>"
      "mset rows = mset (filter (\<lambda>row. \<forall>c \<in> set [?c]. cond_true (joint_schema ?sets) row c) (all_rows [[]] ?sets))"
    using join_tables_correct [OF _ ok names use, of rev] by auto
  have "mset rows = {#[IntValue 2, IntValue 2], [IntValue 3, IntValue 3]#}"
    unfolding rows(2) cond_true_def list.set ball_simps at
    by (simp add: one_column_def between_def pair_rows_def op_key_def value_key_def)
  then show ?thesis using rows(1) by (simp add: one_column_def joint_schema_def)
qed

section \<open>The columns of the result\<close>

text \<open>\<^verbatim>\<open>format_tuple\<close> gives for every joined row the columns of the statement.\<close>

lemma result_columns_run:
  assumes "\<forall>f \<in> set fs. \<exists>j < length cur. index_of_field (Some (tf_table f)) (tf_field f) sch = Some j"
  shows "result_columns fs sch cur = Some (map (\<lambda>f. cur ! the (index_of_field (Some (tf_table f)) (tf_field f) sch)) fs)"
  using assms by (induction fs) auto

lemma format_tuples_run:
  assumes "\<forall>cur \<in> set ts. \<forall>f \<in> set (ts_schema res). \<exists>j < length cur. index_of_field (Some (tf_table f)) (tf_field f) sch = Some j"
  shows "format_tuples ts sch res = Some (res\<lparr>ts_tuples := ts_tuples res
    @ map (\<lambda>cur. map (\<lambda>f. cur ! the (index_of_field (Some (tf_table f)) (tf_field f) sch)) (ts_schema res)) ts\<rparr>)"
  using assms by (induction ts arbitrary: res) (auto simp: add_result_def ts_add_def result_columns_run)

section \<open>Operators\<close>

text \<open>
  C40. A condition of a statement that has a column \<^verbatim>\<open>y\<close> of the later table on the left and a column \<^verbatim>\<open>x\<close> of the first table on
  the right is turned round without its operator: for each of the six comparisons, \<^verbatim>\<open>y op x\<close> selects the pairs of rows
  with \<^verbatim>\<open>x op y\<close>. So \<^verbatim>\<open>b.y < a.x\<close> keeps the rows with \<^verbatim>\<open>a.x < b.y\<close>. As for the conditions that are the right
  way round, the columns have the same type, which is a string, a date or an integer in the range of \<^verbatim>\<open>orderable\<close>.
\<close>

theorem join_turns_operator:
  assumes ok: "set_ok A" "set_ok B" and names: "distinct (field_names (ts_schema A @ ts_schema B))"
    and c: "cond_at (ts_schema A @ ts_schema B) c y x" "x < length (ts_schema A)" "length (ts_schema A) \<le> y" "compares (cond_comp c)"
    and ty: "tf_type (ts_schema A ! x) = tf_type ((ts_schema A @ ts_schema B) ! y)" "join_type (tf_type (ts_schema A ! x))"
    and arrange: "\<And>is. mset (arrange is) = mset is"
  shows "\<exists>rows. join_tables strhash arrange [A, B] [c] = Some \<lparr>ts_tuples = rows, ts_schema = ts_schema A @ ts_schema B\<rparr>
    \<and> mset rows = mset (filter (\<lambda>row. row ! x \<noteq> NullValue \<and> row ! y \<noteq> NullValue \<and> op_key (cond_comp c) (value_key (row ! x)) (value_key (row ! y)))
        (pair_rows (ts_tuples A) (ts_tuples B)))"
proof -
  let ?S = "ts_schema A @ ts_schema B"
  have y: "y < length (ts_schema A) + length (ts_schema B)" using cond_at_less [OF c(1)] by simp
  have "place_condition (ts_schema A) (ts_schema B) c = Some (turn c, True)"
    using place_condition_run [of "ts_schema A" "ts_schema B" "[]" c y x] c(1-3) names y by simp
  then have placed: "place_conditions (ts_schema A) (ts_schema B) [c] = Some ([turn c], [turn c])" by simp
  have at: "cond_at ?S (turn c) x y" using c(1) by simp
  have "tf_type (?S ! x) = tf_type (?S ! y)" "join_type (tf_type (?S ! x))" using c(2) ty by (simp_all add: nth_append)
  then have turned: "\<forall>d \<in> set [turn c]. cond_ok ?S d \<and> crosses (ts_schema A) (ts_schema B) d"
    unfolding cond_ok_def crosses_def using at c(2-4) turn_at(2) [of c] by (metis empty_iff insert_iff list.set)
  have "cond_true ?S row (turn c) \<longleftrightarrow> row ! x \<noteq> NullValue \<and> row ! y \<noteq> NullValue \<and> op_key (cond_comp c) (value_key (row ! x)) (value_key (row ! y))" for row
    using cond_at_unique [OF at] by (auto simp: cond_true_def)
  then show ?thesis using hash_join_run [OF ok names turned arrange, of strhash] placed by auto
qed

theorem join_turns_operator_witness:
  "\<exists>rows. join_tables (\<lambda>_. 0) id [one_column ''a'' ''x'' [1, 2, 3], one_column ''b'' ''y'' [2]] [between (''b'', ''y'') LESS_THAN (''a'', ''x'')]
    = Some \<lparr>ts_tuples = rows, ts_schema = joint_schema [one_column ''a'' ''x'' [], one_column ''b'' ''y'' []]\<rparr>
    \<and> mset rows = mset [[IntValue 1, IntValue 2]]"
proof -
  let ?A = "one_column ''a'' ''x'' [1, 2, 3]" and ?B = "one_column ''b'' ''y'' [2]" and ?c = "between (''b'', ''y'') LESS_THAN (''a'', ''x'')"
  have ok: "set_ok ?A" "set_ok ?B" "distinct (field_names (ts_schema ?A @ ts_schema ?B))"
    by (auto simp: one_column_def set_ok_def row_ok_def joinable_def orderable_def value_type_def field_names_def)
  have c: "cond_at (ts_schema ?A @ ts_schema ?B) ?c 1 0" "0 < length (ts_schema ?A)" "length (ts_schema ?A) \<le> 1" "compares (cond_comp ?c)"
      "tf_type (ts_schema ?A ! 0) = tf_type ((ts_schema ?A @ ts_schema ?B) ! 1)" "join_type (tf_type (ts_schema ?A ! 0))"
    by (simp_all add: one_column_defs compares_def join_type_def)
  have rows: "filter (\<lambda>row. row ! 0 \<noteq> NullValue \<and> row ! 1 \<noteq> NullValue \<and> op_key (cond_comp ?c) (value_key (row ! 0)) (value_key (row ! 1)))
      (pair_rows (ts_tuples ?A) (ts_tuples ?B)) = [[IntValue 1, IntValue 2]]"
    by (simp add: one_column_def between_def pair_rows_def op_key_def value_key_def)
  have sch: "ts_schema ?A @ ts_schema ?B = joint_schema [one_column ''a'' ''x'' [], one_column ''b'' ''y'' []]"
    by (simp add: one_column_def joint_schema_def)
  show ?thesis using join_turns_operator [OF ok c, of id "\<lambda>_. 0"] unfolding rows sch by simp
qed

end
