(* ===== verification/Spec2Isabelle.thy ===== *)
theory Spec2Isabelle
  imports Pool_Losses Record_Properties Result_Codes Bplus_Scan_Properties Table_Meta_Properties Trx_Properties Tuple_Properties
    Filter_Properties Table_Properties Grouping_Properties Join_Properties
begin

text \<open>
  The storage engine and the query operators of miniob.

  \<^bold>\<open>The program.\<close> miniob is a small relational database server in C++. A statement is parsed, checked and
  executed by stages under \<^verbatim>\<open>src/src/observer/sql\<close>; the executor reads and writes tables, which live in
  \<^verbatim>\<open>src/src/observer/storage\<close>. The parts below call each other from bottom to top: a table keeps its records in a
  record file and its indexes in B+ trees; record files and B+ trees are paged files of one buffer pool; the
  executor turns the records of tables into tuples, joins, sorts, aggregates and groups them.

  \<^bold>\<open>Conventions.\<close> An operation on a state is a function of type \<^verbatim>\<open>('s, 'a) M\<close> (theory \<^verbatim>\<open>Prelude\<close>): it returns an
  error code or a value together with the new state, and \<^verbatim>\<open>None\<close> where C++ gives the code no defined
  behaviour, an access through a null pointer for instance. Result codes are the constructors of \<^verbatim>\<open>RC\<close>. A
  pointer to a frame is the index of the frame, and a pointer into a page is the frame with an offset. Integers
  are kept at their width where they can overflow; floats are their 32 bits, with rounding as in IEEE 754.
  What belongs to the operating system and to libraries is an argument: outcomes of system calls, \<^verbatim>\<open>strptime\<close>
  and \<^verbatim>\<open>mktime\<close>, the JSON reader and writer, the hash of strings, and the order in which hash tables are walked.

  \<^bold>\<open>The theories.\<close>

  \<^item> \<^verbatim>\<open>Prelude\<close>: result codes, fallible operations and the collection \<^verbatim>\<open>run\<close> with which they are executed
    symbolically, bytes and integers in memory. \<^verbatim>\<open>Result_Codes\<close>: the numbers of \<^verbatim>\<open>rc.h\<close> and the names of \<^verbatim>\<open>rc.cpp\<close>.
  \<^item> \<^verbatim>\<open>Bitmap\<close>: \<^verbatim>\<open>deps/common/lang/bitmap.cpp\<close>. The locale \<^verbatim>\<open>bit_array\<close> is what the buffer pool and the record pages
    use of it.
  \<^item> \<^verbatim>\<open>Disk_Buffer_Pool\<close>: \<^verbatim>\<open>bp_manager.cpp\<close> and \<^verbatim>\<open>disk_buffer_pool.cpp\<close>. The record \<^verbatim>\<open>pool\<close> has the frames, the LRU list, the page
    table, the open files and the files on disk; there is one definition for each method. \<^verbatim>\<open>Page_Pool\<close> has the
    interface to the clients, the record \<^verbatim>\<open>pool_ops\<close> and the locale \<^verbatim>\<open>page_pool\<close>: a page read through a pinned frame is
    the current page of the file, other pages and pins stay. \<^verbatim>\<open>Pool_Contract\<close>, \<^verbatim>\<open>Pool_Stored\<close> and \<^verbatim>\<open>Pool_Interface\<close> prove
    that the pool keeps it (interpretation \<^verbatim>\<open>dbp\<close>), \<^verbatim>\<open>Pool_Properties\<close> has the step relation of the public
    operations and the invariant of reachable states, \<^verbatim>\<open>Pool_Fresh\<close> concrete pools, \<^verbatim>\<open>Pool_Runs\<close> the properties, and \<^verbatim>\<open>Pool_Losses\<close>
    the states in which the wrong page is handed out.
  \<^item> \<^verbatim>\<open>Record_Page\<close> and \<^verbatim>\<open>Record_Manager\<close>: \<^verbatim>\<open>record_manager.cpp\<close>, one page and then the handlers of pages and files and
    the scanner over \<^verbatim>\<open>pool_ops\<close>. \<^verbatim>\<open>Record_File\<close> (locale \<^verbatim>\<open>record_pool\<close>) and \<^verbatim>\<open>Record_Scan\<close> describe their runs by a map from
    record identifiers to records; \<^verbatim>\<open>Record_Properties\<close> puts them on the buffer pool (interpretation \<^verbatim>\<open>dbr\<close>).
  \<^item> \<^verbatim>\<open>Parse_Types\<close> and \<^verbatim>\<open>Key_Compare\<close>: attribute types and operators of \<^verbatim>\<open>parse_defs.h\<close>, comparison of index keys
    (locale \<^verbatim>\<open>key_order\<close>). \<^verbatim>\<open>Bplus_Node\<close>, \<^verbatim>\<open>Bplus_Tree\<close> and \<^verbatim>\<open>Bplus_Scan\<close>: \<^verbatim>\<open>bplus_tree.cpp\<close>, its nodes, its handler and its
    scanner. \<^verbatim>\<open>Bplus_Shape\<close> and \<^verbatim>\<open>Bplus_Abs\<close> relate pages to trees and trees to sorted lists of entries (locale
    \<^verbatim>\<open>tree_order\<close>); \<^verbatim>\<open>Bplus_Run\<close>, \<^verbatim>\<open>Bplus_Insert\<close>, \<^verbatim>\<open>Bplus_Delete\<close> and \<^verbatim>\<open>Bplus_Scan_Run\<close> are runs over any pool with the contract
    (locale \<^verbatim>\<open>index_pool\<close>), \<^verbatim>\<open>Bplus_Properties\<close> (interpretation \<^verbatim>\<open>dbt\<close>) and \<^verbatim>\<open>Bplus_Scan_Properties\<close> the properties.
  \<^item> \<^verbatim>\<open>Table_Meta\<close> and \<^verbatim>\<open>Table_Meta_Properties\<close>: \<^verbatim>\<open>field_meta.cpp\<close>, \<^verbatim>\<open>index_meta.cpp\<close>, \<^verbatim>\<open>table_meta.cpp\<close> and the part of jsoncpp that
    they use. \<^verbatim>\<open>Trx\<close> and \<^verbatim>\<open>Trx_Properties\<close>: \<^verbatim>\<open>trx.cpp\<close>.
  \<^item> \<^verbatim>\<open>Value\<close>, \<^verbatim>\<open>Tuple\<close> and \<^verbatim>\<open>Tuple_Properties\<close>: \<^verbatim>\<open>value.h\<close>, \<^verbatim>\<open>value.cpp\<close> and \<^verbatim>\<open>tuple.cpp\<close>. \<^verbatim>\<open>Condition_Filter\<close> and
    \<^verbatim>\<open>Filter_Properties\<close>: \<^verbatim>\<open>condition_filter.cpp\<close>.
  \<^item> \<^verbatim>\<open>Bplus_Index\<close>: \<^verbatim>\<open>index.cpp\<close> and \<^verbatim>\<open>bplus_tree_index.cpp\<close>. \<^verbatim>\<open>Table_Record\<close>, \<^verbatim>\<open>Table_Scan\<close> and \<^verbatim>\<open>Table_Statements\<close>: \<^verbatim>\<open>table.cpp\<close>, with
    the selection of \<^verbatim>\<open>execution_node.cpp\<close>. The state of an operation has the table, the transaction and the
    buffer pool. \<^verbatim>\<open>Table_Select\<close> and \<^verbatim>\<open>Table_Properties\<close>: runs and properties.
  \<^item> \<^verbatim>\<open>Aggregation\<close>, \<^verbatim>\<open>Aggregation_Properties\<close> and \<^verbatim>\<open>Grouping_Properties\<close>: \<^verbatim>\<open>aggregator.h\<close>, \<^verbatim>\<open>aggregator_manager.cpp\<close>, \<^verbatim>\<open>aggregation_executor.cpp\<close> and
    \<^verbatim>\<open>grouper.cpp\<close>. \<^verbatim>\<open>Join\<close> and \<^verbatim>\<open>Join_Properties\<close>: the joins of \<^verbatim>\<open>execute_stage.cpp\<close> and the end of \<^verbatim>\<open>do_select\<close>.

  \<^bold>\<open>What is proved.\<close>

  \<^item> Buffer pool: a page read is the current page whatever is evicted for it; allocation gives a page that was
    not in use; eviction takes the least recently used frame without a pin; the LRU list is a permutation of
    the frames in every reachable state. For all states of a given form, a disposed page shares its frame with
    another one, flushing drops the header page, and closing a file leaves its pages to the next one.
  \<^item> Record files: the layout of pages, insertion and lookup, deletion, complete scans; for one page and for
    a file over the buffer pool.
  \<^item> B+ trees: after an insertion with any number of splits the file holds a B+ tree with the new entry;
    lookup finds exactly the entries of the tree; deletion where the leaf stays full enough; what scans return
    and where they stop too early.
  \<^item> Tables and transactions: a row that is inserted is read back; a select returns the records that its
    conditions accept and the transaction sees; a record is stamped for its transaction; metadata survive the
    file they are written to.
  \<^item> Conditions, tuples and query operators: a filter on bytes agrees with the comparison of values; sorting
    gives an ordered permutation; a join returns the rows of the product on which the conditions hold;
    aggregates and groups are those of the tuples; dates agree with the calendar but for one rule. Filters,
    sorting, joins, \<^verbatim>\<open>MAX\<close> and \<^verbatim>\<open>MIN\<close> compare strings, dates below \<^verbatim>\<open>2 ^ 31\<close> and integers from \<^verbatim>\<open>- 2 ^ 30\<close> to \<^verbatim>\<open>2 ^ 30 - 1\<close>
    there (predicate \<^verbatim>\<open>orderable\<close>): integers further apart overflow in the comparison, and floats have no order that
    the code keeps.
  \<^item> Theorems about what the code gets wrong are stated like the others: overflow in comparisons, null flags
    of columns that are compared with floats, updates that rollback keeps, conditions that a join turns round.

  \<^bold>\<open>Bounds.\<close> Loops that follow pages of a B+ tree have \<^verbatim>\<open>tree_fuel = 2 ^ 15\<close> steps: a file has fewer pages
  (lemma \<^verbatim>\<open>max_pages_fuel\<close>), and the runs prove that the walks end before. The loop of the record scanner has one step for
  each of the at most 32768 slots of the pages that are left (theory \<^verbatim>\<open>Record_Scan\<close>). The scan of a table has \<^verbatim>\<open>scan_fuel\<close> steps,
  more than a file has slots; \<^verbatim>\<open>select_returns_visible_rows\<close> shows that it ends. All other recursion is structural or
  has a termination proof.

  \<^bold>\<open>Not modelled.\<close> The server, sessions, events and the SEDA framework (\<^verbatim>\<open>net\<close>, \<^verbatim>\<open>session\<close>, \<^verbatim>\<open>event\<close>,
  \<^verbatim>\<open>deps/common/seda\<close>): threads, queues and sockets; the model executes one operation after another. The
  scanner and the grammar are input of flex and bison, and the code they generate is not read. Databases and the
  default handler (\<^verbatim>\<open>db.cpp\<close>, \<^verbatim>\<open>default_handler.cpp\<close>) keep a map of open tables and forward to \<^verbatim>\<open>Table\<close>. The
  checks of statements (\<^verbatim>\<open>query_checker.cpp\<close>), the creation of the selections of single tables and subqueries work on the
  syntax tree; results of subqueries are arguments of the conditions. Printing, logging, metrics and
  configuration are output that no modelled code reads. \<^verbatim>\<open>index_manager.cpp\<close> and the memory storage stage are stubs.
  Allocation does not fail. Deletion from a B+ tree with redistribution and merging is modelled, and
  its properties cover deletions that end in the leaf; selects through an index are modelled, and the
  properties of selects are about tables without indexes.
\<close>

end
